(* ===== verification/TN_Prelude.thy ===== *)
theory TN_Prelude
  imports Main "HOL-Library.Word"
begin

text \<open>
  Shared vocabulary of the development: the machine integers of the LP64 target
  (\<open>size_t\<close> and \<open>uint64_t\<close> are 64-bit words), addresses, nullable C strings, the
  return codes of \<open>tenon-inference/src/api.hpp\<close>, and the generic lemmas on words, lists
  and finite maps the component theories use.
\<close>

named_theorems tn_defs \<open>definitions unfolded when an operation is evaluated on a concrete state\<close>
named_theorems heap_simps \<open>effects of the heap operations on the fields of the heap\<close>

type_synonym size_t = "64 word"
type_synonym uint64 = "64 word"
type_synonym addr = nat
type_synonym c_str = "string option"

text \<open>The return codes (api.hpp, lines 23 to 28).\<close>

definition TN_INFER_SUCCESS :: int where "TN_INFER_SUCCESS = 0"
definition TN_INFER_ERR_INVALID :: int where "TN_INFER_ERR_INVALID = -1"
definition TN_INFER_ERR_NOMEM :: int where "TN_INFER_ERR_NOMEM = -2"
definition TN_INFER_ERR_LOAD_FAILED :: int where "TN_INFER_ERR_LOAD_FAILED = -3"
definition TN_INFER_ERR_NO_MODEL :: int where "TN_INFER_ERR_NO_MODEL = -4"
definition TN_INFER_ERR_UNSUPPORTED :: int where "TN_INFER_ERR_UNSUPPORTED = -5"

lemmas tn_codes = TN_INFER_SUCCESS_def TN_INFER_ERR_INVALID_def TN_INFER_ERR_NOMEM_def
  TN_INFER_ERR_LOAD_FAILED_def TN_INFER_ERR_NO_MODEL_def TN_INFER_ERR_UNSUPPORTED_def

text \<open>
  Undefined behaviour an operation can run into; an operation that may is modelled with a
  result of type \<open>ub + 'a\<close>.
\<close>

datatype ub = OutOfBounds | DivByZero | NullDeref

subsection \<open>Words\<close>

lemma unat_add_no_wrap:
  fixes a b :: "64 word"
  assumes "unat a + unat b < 2 ^ 64"
  shows "unat (a + b) = unat a + unat b"
  using assms by (simp add: unat_word_ariths)

lemma unat_mult_no_wrap:
  fixes a b :: "64 word"
  assumes "unat a * unat b < 2 ^ 64"
  shows "unat (a * b) = unat a * unat b"
  using assms by (simp add: unat_word_ariths)

lemma unat_inc_no_wrap:
  fixes a :: "64 word"
  assumes "unat a < 2 ^ 64 - 1"
  shows "unat (a + 1) = unat a + 1"
  using assms by (simp add: unat_word_ariths)

lemma unat64_bound: "unat (a :: 64 word) < 2 ^ 64"
  using unsigned_less [of a] by simp

lemma unat_add_cases:
  fixes a b :: "64 word"
  obtains (exact) "unat a + unat b < 2 ^ 64" "unat (a + b) = unat a + unat b"
  | (wraps) "2 ^ 64 \<le> unat a + unat b" "unat (a + b) + 2 ^ 64 = unat a + unat b"
proof (cases "unat a + unat b < 2 ^ 64")
  case True
  then show ?thesis using exact unat_add_no_wrap by blast
next
  case False
  have "(unat a + unat b) mod 2 ^ 64 = unat a + unat b - 2 ^ 64"
    using False unat64_bound [of a] unat64_bound [of b] by (subst le_mod_geq) auto
  then have "unat (a + b) + 2 ^ 64 = unat a + unat b"
    using False by (simp add: unat_word_ariths)
  with False show ?thesis using wraps by simp
qed

lemma add_wraps_iff:
  fixes a b :: "64 word"
  shows "a + b < b \<longleftrightarrow> 2 ^ 64 \<le> unat a + unat b"
  by (rule unat_add_cases [of a b])
    (use unat64_bound [of a] unat64_bound [of b] in \<open>auto simp: word_less_nat_alt\<close>)

lemma unat_sum_list_no_wrap:
  fixes ws :: "64 word list"
  assumes "(\<Sum>w \<leftarrow> ws. unat w) < 2 ^ 64"
  shows "unat (sum_list ws) = (\<Sum>w \<leftarrow> ws. unat w)"
  using assms
proof (induction ws)
  case (Cons w ws)
  then have "unat (sum_list ws) = (\<Sum>w \<leftarrow> ws. unat w)" by simp
  then show ?case using Cons.prems unat_add_no_wrap [of w "sum_list ws"] by simp
qed simp

lemma mean_between:
  fixes xs :: "nat list"
  assumes "xs \<noteq> []" and "\<And>x. x \<in> set xs \<Longrightarrow> lo \<le> x \<and> x \<le> hi"
  shows "lo \<le> sum_list xs div length xs \<and> sum_list xs div length xs \<le> hi"
proof -
  have "length xs * lo \<le> sum_list xs" and "sum_list xs \<le> length xs * hi"
    using assms(2) by (induction xs) force+
  moreover have "0 < length xs" using assms(1) by simp
  ultimately show ?thesis
    by (metis div_le_mono nonzero_mult_div_cancel_left less_numeral_extra(3))
qed

subsection \<open>Maps restricted to a complement\<close>

lemma restrict_UNIV [simp]: "m |` UNIV = m"
  by (simp add: restrict_map_def)

lemma restrict_compl_single: "m |` (- {p}) = m(p := None)"
  by (auto simp: restrict_map_def)

lemma restrict_compl_dom_disj: "A \<inter> dom m = {} \<Longrightarrow> m |` (- A) = m"
  by (rule ext) (metis ComplI disjoint_iff domIff restrict_in restrict_out)

subsection \<open>Ring buffers\<close>

text \<open>
  The last \<open>c\<close> entries written to a ring of \<open>H\<close> cells whose next write goes to cell
  \<open>h mod H\<close>, oldest first. One write appends the new entry and, when the ring is full,
  drops the oldest.
\<close>

definition ring_window :: "'a list \<Rightarrow> nat \<Rightarrow> nat \<Rightarrow> nat \<Rightarrow> 'a list" where
  "ring_window xs H h c = map (\<lambda>i. xs ! ((h + (H - c + i)) mod H)) [0..<c]"

lemma mod_shift_neq:
  fixes a d n :: nat
  assumes "0 < d" and "d < n"
  shows "(a + d) mod n \<noteq> a mod n"
proof
  assume "(a + d) mod n = a mod n"
  then have "n dvd d" using mod_eq_dvd_iff_nat [of a "a + d" n] by simp
  then show False using assms dvd_imp_le by force
qed

lemma ring_window_step:
  assumes "0 < H" and "length xs = H" and "c \<le> H"
    and inc: "\<And>k. (h' + k) mod H = (h + 1 + k) mod H"
  shows "ring_window (xs[h mod H := s]) H h' (min (c + 1) H) =
    (if c < H then ring_window xs H h c else tl (ring_window xs H h c)) @ [s]"
proof (cases "c < H")
  case True
  have "ring_window (xs[h mod H := s]) H h' (c + 1) ! i = (ring_window xs H h c @ [s]) ! i" if "i < c + 1" for i
  proof -
    have "(h' + (H - (c + 1) + i)) mod H = (h + 1 + (H - (c + 1) + i)) mod H" by (rule inc)
    also have "h + 1 + (H - (c + 1) + i) = h + (H - c + i)" using True by simp
    finally have pos: "(h' + (H - (c + 1) + i)) mod H = (h + (H - c + i)) mod H" .
    show ?thesis
    proof (cases "i = c")
      case True
      then show ?thesis using pos assms(1-3) that by (simp add: ring_window_def nth_append del: add_diff_assoc2)
    next
      case False
      then have "(h + (H - c + i)) mod H \<noteq> h mod H" using that \<open>c < H\<close> by (intro mod_shift_neq) auto
      then show ?thesis using pos False assms(1-3) that by (simp add: ring_window_def nth_append)
    qed
  qed
  then have "ring_window (xs[h mod H := s]) H h' (c + 1) = ring_window xs H h c @ [s]"
    by (intro nth_equalityI) (simp_all add: ring_window_def)
  with True show ?thesis by (simp add: min_def)
next
  case False
  then have c: "c = H" using assms by simp
  have "ring_window (xs[h mod H := s]) H h' H ! i = (tl (ring_window xs H h H) @ [s]) ! i" if "i < H" for i
  proof -
    have pos: "(h' + (H - H + i)) mod H = (h + (1 + i)) mod H" using inc [of i] by simp
    show ?thesis
    proof (cases "i + 1 = H")
      case True
      then have "\<not> i < H - 1" "(h' + i) mod H = h mod H" using pos by auto
      then show ?thesis using assms(1-3) that by (simp add: ring_window_def nth_append)
    next
      case False
      then have "(h + (1 + i)) mod H \<noteq> h mod H" "i < H - 1" using that by (intro mod_shift_neq, auto)
      then show ?thesis using pos False assms(1-3) that by (simp add: ring_window_def nth_append nth_tl)
    qed
  qed
  then have "ring_window (xs[h mod H := s]) H h' H = tl (ring_window xs H h H) @ [s]"
    using assms(1) by (intro nth_equalityI) (simp_all add: ring_window_def)
  then show ?thesis using c by simp
qed

end
