(* ===== verification/Uk_Heap.thy ===== *)
theory Uk_Heap
  imports TN_Prelude
begin

text \<open>
  The default allocator of the unikernel as the inference framework sees it
  (\<open>tenon/lib/ukalloc\<close>): \<open>uk_malloc\<close>, \<open>uk_zalloc\<close> and \<open>uk_free\<close> on top of a page
  allocator, with the checks of \<open>uk_malloc_ifpages\<close> and \<open>uk_calloc_compat\<close>. The page
  allocator behind them is left open: it refuses any request above \<open>maxalloc\<close>, and it may
  refuse any other request, as the script \<open>oom\<close> says, so that a theorem about every heap is
  a theorem about every pattern of allocation failures. The heap records the live blocks
  and whether a pointer was ever freed that was not live.

  Second part: the idiom all six C wrappers of the framework share (allocate the C++ object,
  run its constructor, check \<open>IsValid\<close>, allocate the C handle; undo on failure), and the
  locale \<open>cpp_class\<close>, the contract a C++ class has to keep for the wrapper to own exactly
  the blocks it says it owns.
\<close>

record uk_alloc =
  maxalloc :: nat
  oom :: "bool list"
  brk :: addr
  blocks :: "addr \<rightharpoonup> size_t"
  bad_free :: bool

subsection \<open>Allocation and release\<close>

definition METADATA_IFPAGES_SIZE_POW2 :: size_t where
  "METADATA_IFPAGES_SIZE_POW2 = 32"

text \<open>The page allocator: \<open>None\<close>, or the base of a region no live block touches.\<close>

fun uk_palloc :: "nat \<Rightarrow> uk_alloc \<Rightarrow> addr option \<times> uk_alloc" where
  "uk_palloc realsize h =
     (if realsize > maxalloc h then (None, h)
      else case oom h of
        True # s \<Rightarrow> (None, h\<lparr>oom := s\<rparr>)
      | False # s \<Rightarrow> (Some (brk h), h\<lparr>oom := s, brk := brk h + realsize\<rparr>)
      | [] \<Rightarrow> (Some (brk h), h\<lparr>brk := brk h + realsize\<rparr>))"

definition uk_malloc :: "size_t \<Rightarrow> uk_alloc \<Rightarrow> addr option \<times> uk_alloc" where
  "uk_malloc sz h =
     (let realsize = METADATA_IFPAGES_SIZE_POW2 + sz
      in if sz = 0 \<or> realsize < sz then (None, h)
         else case uk_palloc (unat realsize) h of
           (None, h') \<Rightarrow> (None, h')
         | (Some intptr, h') \<Rightarrow>
             let ptr = intptr + unat METADATA_IFPAGES_SIZE_POW2
             in (Some ptr, h'\<lparr>blocks := (blocks h')(ptr \<mapsto> sz)\<rparr>))"

text \<open>
  \<open>uk_zalloc\<close> is \<open>uk_calloc_compat\<close> with one member. Its overflow test divides by the
  member size; for a zero size the division instruction of the ARM64 target yields 0, the
  test succeeds and the call returns \<open>NULL\<close>.
\<close>

definition udiv_arm64 :: "size_t \<Rightarrow> size_t \<Rightarrow> size_t" where
  "udiv_arm64 a b = (if b = 0 then 0 else a div b)"

definition uk_zalloc :: "size_t \<Rightarrow> uk_alloc \<Rightarrow> addr option \<times> uk_alloc" where
  "uk_zalloc sz h =
     (if 1 > udiv_arm64 (- 1) sz then (None, h) else uk_malloc (1 * sz) h)"

definition uk_free :: "addr option \<Rightarrow> uk_alloc \<Rightarrow> uk_alloc" where
  "uk_free p h = (case p of None \<Rightarrow> h
     | Some a \<Rightarrow> h\<lparr>blocks := (blocks h)(a := None),
                    bad_free := bad_free h \<or> blocks h a = None\<rparr>)"

subsection \<open>Accounting of blocks\<close>

definition heap_wf :: "uk_alloc \<Rightarrow> bool" where
  "heap_wf h \<longleftrightarrow>
     (\<forall>p n. blocks h p = Some n \<longrightarrow> 0 < p \<and> p + unat n \<le> brk h \<and> 32 + unat n \<le> maxalloc h)"

text \<open>
  From \<open>h\<close> to \<open>h'\<close> exactly the blocks in \<open>A\<close> have been added: they are new, every older
  block is untouched, and nothing was freed that was not live.
\<close>

definition gained :: "uk_alloc \<Rightarrow> uk_alloc \<Rightarrow> addr set \<Rightarrow> bool" where
  "gained h h' A \<longleftrightarrow> heap_wf h' \<and> A \<inter> dom (blocks h) = {} \<and> A \<subseteq> dom (blocks h') \<and>
     blocks h' |` (- A) = blocks h \<and> bad_free h' = bad_free h \<and> maxalloc h' = maxalloc h \<and>
     brk h \<le> brk h' \<and> (\<forall>a\<in>A. brk h \<le> a)"

text \<open>From \<open>h\<close> to \<open>h'\<close> exactly the blocks in \<open>A\<close>, all live, have been released.\<close>

definition lost :: "uk_alloc \<Rightarrow> uk_alloc \<Rightarrow> addr set \<Rightarrow> bool" where
  "lost h h' A \<longleftrightarrow> heap_wf h' \<and> A \<subseteq> dom (blocks h) \<and> blocks h' = blocks h |` (- A) \<and>
     bad_free h' = bad_free h \<and> maxalloc h' = maxalloc h \<and> brk h' = brk h"

lemma gained_refl: "heap_wf h \<Longrightarrow> gained h h {}"
  by (simp add: gained_def)

lemma lost_refl: "heap_wf h \<Longrightarrow> lost h h {}"
  by (simp add: lost_def)

lemma gained_wf [dest]: "gained h h' A \<Longrightarrow> heap_wf h'"
  by (simp add: gained_def)

lemma lost_wf [dest]: "lost h h' A \<Longrightarrow> heap_wf h'"
  by (simp add: lost_def)

lemma gained_none_blocks: "gained h h' {} \<Longrightarrow> blocks h' = blocks h"
  by (simp add: gained_def)

lemma gained_dom: "gained h h' A \<Longrightarrow> dom (blocks h') = dom (blocks h) \<union> A"
  unfolding gained_def by (metis Compl_Diff_eq Diff_eq Diff_partition Un_commute compl_sup
      dom_restrict double_complement inf_sup_absorb sup_inf_absorb Un_Diff_cancel2)

lemma heap_wf_live_below: "heap_wf h \<Longrightarrow> a \<in> dom (blocks h) \<Longrightarrow> a \<le> brk h"
  unfolding heap_wf_def by fastforce

lemma gained_trans:
  assumes "gained h h1 A" and "gained h1 h2 B"
  shows "gained h h2 (A \<union> B)"
proof -
  have "blocks h2 |` (- (A \<union> B)) = (blocks h2 |` (- B)) |` (- A)"
    by (simp add: restrict_restrict Int_commute)
  moreover have "B \<inter> dom (blocks h) = {}"
    using assms gained_dom [OF assms(1)] unfolding gained_def by blast
  ultimately show ?thesis
    using assms gained_dom [OF assms(2)] unfolding gained_def by auto
qed

lemma gained_disjoint: "gained h h1 A \<Longrightarrow> gained h1 h2 B \<Longrightarrow> A \<inter> B = {}"
  unfolding gained_def by blast

lemma gained_lost:
  assumes "gained h h1 C" and "lost h1 h2 B" and "C = A \<union> B" and "A \<inter> B = {}"
  shows "gained h h2 A"
proof -
  have "(blocks h1 |` (- B)) |` (- A) = blocks h1 |` (- C)"
    using assms(3) by (simp add: restrict_restrict Int_commute)
  then show ?thesis
    using assms unfolding gained_def lost_def by (auto simp: restrict_map_def)
qed

lemma lost_trans:
  assumes "lost h h1 A" and "lost h1 h2 B"
  shows "lost h h2 (A \<union> B)"
  using assms unfolding lost_def
  by (auto simp: restrict_restrict Int_commute)

lemma lost_live: "lost h h1 A \<Longrightarrow> B \<subseteq> dom (blocks h) \<Longrightarrow> A \<inter> B = {} \<Longrightarrow> B \<subseteq> dom (blocks h1)"
  unfolding lost_def by (auto simp: restrict_map_def dom_def)

subsection \<open>The allocator keeps the accounts\<close>

declare uk_palloc.simps [simp del]

lemma uk_palloc_effect:
  assumes "uk_palloc n h = (r, h')"
  shows "blocks h' = blocks h" "bad_free h' = bad_free h" "maxalloc h' = maxalloc h"
    "r = None \<Longrightarrow> brk h' = brk h" "r = Some a \<Longrightarrow> a = brk h \<and> brk h' = brk h + n \<and> n \<le> maxalloc h"
  using assms by (auto simp: uk_palloc.simps split: if_splits list.splits bool.splits)

lemma uk_malloc_None:
  assumes "heap_wf h" and "uk_malloc n h = (None, h')"
  shows "gained h h' {}"
proof -
  obtain k where "uk_palloc k h = (None, h') \<or> h' = h"
    using assms(2) unfolding uk_malloc_def
    by (auto simp: Let_def split: if_splits prod.splits option.splits)
  then have "blocks h' = blocks h \<and> bad_free h' = bad_free h \<and> maxalloc h' = maxalloc h \<and> brk h' = brk h"
    using uk_palloc_effect [of k h None h'] by blast
  then show ?thesis using assms(1) by (simp add: gained_def heap_wf_def)
qed

lemma malloc_realsize:
  fixes sz :: size_t
  assumes "\<not> 32 + sz < sz"
  shows "unat (32 + sz) = 32 + unat sz"
  using assms add_wraps_iff [of 32 sz] unat_add_no_wrap [of 32 sz] by simp

lemma uk_malloc_Some:
  assumes "heap_wf h" and "uk_malloc n h = (Some p, h')"
  shows "gained h h' {p}" "blocks h' p = Some n" "32 + unat n \<le> maxalloc h" "0 < unat n"
proof -
  have nz: "n \<noteq> 0" and nw: "\<not> 32 + n < n"
    using assms(2) by (auto simp: uk_malloc_def METADATA_IFPAGES_SIZE_POW2_def Let_def split: if_splits)
  obtain a h1 where pa: "uk_palloc (unat (32 + n)) h = (Some a, h1)" and p: "p = a + 32"
    and h': "h' = h1\<lparr>blocks := (blocks h1)(p \<mapsto> n)\<rparr>"
    using assms(2) nz nw
    by (auto simp: uk_malloc_def METADATA_IFPAGES_SIZE_POW2_def Let_def split: prod.splits option.splits)
  have eff: "a = brk h" "brk h1 = brk h + (32 + unat n)" "32 + unat n \<le> maxalloc h"
    using uk_palloc_effect(5) [OF pa] malloc_realsize [OF nw] by auto
  have fresh: "blocks h p = None"
    using assms(1) heap_wf_live_below [OF assms(1), of p] eff p by (cases "blocks h p") auto
  show "gained h h' {p}"
    using assms(1) fresh eff p h' uk_palloc_effect(1-3) [OF pa]
    unfolding gained_def heap_wf_def
    by (auto simp: restrict_compl_single fun_upd_idem_iff intro: trans_le_add1)
  show "blocks h' p = Some n" using h' by simp
  show "32 + unat n \<le> maxalloc h" using eff by simp
  show "0 < unat n" using nz by (simp add: unat_gt_0)
qed

lemma uk_zalloc_eq: "uk_zalloc n h = (if n = 0 then (None, h) else uk_malloc n h)"
proof -
  have "n \<noteq> 0 \<Longrightarrow> \<not> 1 > udiv_arm64 (- 1) n"
  proof -
    assume nz: "n \<noteq> 0"
    have "unat n \<le> unat (- 1 :: size_t)"
      using unat64_bound [of n] by (simp add: unsigned_minus_1_eq_mask mask_eq_exp_minus_1)
    then have "1 \<le> unat (- 1 :: size_t) div unat n"
      using nz by (simp add: Suc_le_eq div_greater_zero_iff unat_gt_0)
    then have "unat (1 :: size_t) \<le> unat (- 1 div n)"
      by (simp add: unat_div)
    then show "\<not> 1 > udiv_arm64 (- 1) n"
      using nz by (simp add: udiv_arm64_def word_less_nat_alt not_less)
  qed
  then show ?thesis by (auto simp: uk_zalloc_def udiv_arm64_def)
qed

lemma uk_zalloc_None:
  "heap_wf h \<Longrightarrow> uk_zalloc n h = (None, h') \<Longrightarrow> gained h h' {}"
  by (auto simp: uk_zalloc_eq gained_refl uk_malloc_None split: if_splits)

lemma uk_zalloc_Some:
  assumes "heap_wf h" and "uk_zalloc n h = (Some p, h')"
  shows "gained h h' {p}" "blocks h' p = Some n" "32 + unat n \<le> maxalloc h" "0 < unat n"
  using assms uk_malloc_Some [of h n p h'] by (auto simp: uk_zalloc_eq split: if_splits)

lemma uk_malloc_gained:
  "heap_wf h \<Longrightarrow> uk_malloc n h = (r, h') \<Longrightarrow> gained h h' (set_option r)"
  by (cases r) (auto simp: uk_malloc_None uk_malloc_Some)

lemma uk_zalloc_gained:
  "heap_wf h \<Longrightarrow> uk_zalloc n h = (r, h') \<Longrightarrow> gained h h' (set_option r)"
  by (cases r) (auto simp: uk_zalloc_None uk_zalloc_Some)

lemma uk_free_lost:
  "heap_wf h \<Longrightarrow> a \<in> dom (blocks h) \<Longrightarrow> lost h (uk_free (Some a) h) {a}"
  by (auto simp: lost_def uk_free_def heap_wf_def restrict_compl_single)

lemmas [tn_defs] = uk_palloc.simps uk_malloc_def uk_zalloc_eq uk_free_def METADATA_IFPAGES_SIZE_POW2_def

lemma uk_free_None [simp]: "uk_free None h = h"
  by (simp add: uk_free_def)

subsection \<open>A concrete heap\<close>

text \<open>An empty heap on which the closed instances of the theorems are evaluated.\<close>

definition demo_heap :: uk_alloc where
  "demo_heap = \<lparr>maxalloc = 4096, oom = [], brk = 0, blocks = Map.empty, bad_free = False\<rparr>"

lemma demo_heap_wf [simp]: "heap_wf demo_heap" "maxalloc demo_heap = 4096"
  by (simp_all add: heap_wf_def demo_heap_def)

section \<open>C handles around C++ objects\<close>

text \<open>
  The C API keeps every C++ object behind a one-pointer struct (\<open>struct tn_mempool\<close>,
  \<open>struct tn_batch\<close>, ...). \<open>handle_addr\<close> is the block of that struct, \<open>impl_addr\<close>
  the block of the object, \<open>impl\<close> the object's fields.
\<close>

record 'obj c_handle =
  handle_addr :: addr
  impl_addr :: addr
  impl :: 'obj

definition sizeof_ptr :: size_t where "sizeof_ptr = 8"

text \<open>\<open>delete p\<close>: the destructor, then the object's own block.\<close>

definition cpp_delete :: "('obj \<Rightarrow> uk_alloc \<Rightarrow> uk_alloc) \<Rightarrow> addr \<Rightarrow> 'obj \<Rightarrow> uk_alloc \<Rightarrow> uk_alloc" where
  "cpp_delete dtor p obj h = uk_free (Some p) (dtor obj h)"

text \<open>
  The body the six \<open>tn_*_create\<close> functions share: \<open>new(std::nothrow)\<close> (NULL, or the
  object's block and the constructor run in it), the \<open>IsValid\<close> test, the C struct.
\<close>

definition c_api_create ::
    "size_t \<Rightarrow> (uk_alloc \<Rightarrow> 'obj \<times> uk_alloc) \<Rightarrow> ('obj \<Rightarrow> bool) \<Rightarrow> ('obj \<Rightarrow> uk_alloc \<Rightarrow> uk_alloc) \<Rightarrow>
     uk_alloc \<Rightarrow> 'obj c_handle option \<times> uk_alloc" where
  "c_api_create sizeof_obj ctor valid dtor h =
     (case uk_malloc sizeof_obj h of
        (None, h1) \<Rightarrow> (None, h1)
      | (Some p, h1) \<Rightarrow>
          (case ctor h1 of (obj, h2) \<Rightarrow>
             if \<not> valid obj then (None, cpp_delete dtor p obj h2)
             else (case uk_zalloc sizeof_ptr h2 of
                     (None, h3) \<Rightarrow> (None, cpp_delete dtor p obj h3)
                   | (Some q, h3) \<Rightarrow>
                       (Some \<lparr>handle_addr = q, impl_addr = p, impl = obj\<rparr>, h3))))"

definition c_api_destroy ::
    "('obj \<Rightarrow> uk_alloc \<Rightarrow> uk_alloc) \<Rightarrow> 'obj c_handle \<Rightarrow> uk_alloc \<Rightarrow> uk_alloc" where
  "c_api_destroy dtor x h =
     uk_free (Some (handle_addr x)) (cpp_delete dtor (impl_addr x) (impl x) h)"

definition handle_owns :: "('obj \<Rightarrow> addr set) \<Rightarrow> 'obj c_handle \<Rightarrow> addr set" where
  "handle_owns owns x = insert (handle_addr x) (insert (impl_addr x) (owns (impl x)))"

definition handle_sep :: "('obj \<Rightarrow> addr set) \<Rightarrow> 'obj c_handle \<Rightarrow> bool" where
  "handle_sep owns x \<longleftrightarrow> handle_addr x \<noteq> impl_addr x \<and> handle_addr x \<notin> owns (impl x) \<and>
     impl_addr x \<notin> owns (impl x)"

text \<open>The blocks behind a nullable handle, and that they are pairwise distinct.\<close>

definition opt_owns :: "('obj \<Rightarrow> addr set) \<Rightarrow> 'obj c_handle option \<Rightarrow> addr set" where
  "opt_owns owns r = (case r of None \<Rightarrow> {} | Some x \<Rightarrow> handle_owns owns x)"

definition opt_sep :: "('obj \<Rightarrow> addr set) \<Rightarrow> ('obj \<Rightarrow> bool) \<Rightarrow> 'obj c_handle option \<Rightarrow> bool" where
  "opt_sep owns ok r = (case r of None \<Rightarrow> True | Some x \<Rightarrow> handle_sep owns x \<and> ok (impl x))"

lemmas [tn_defs] = c_api_create_def c_api_destroy_def cpp_delete_def sizeof_ptr_def

locale cpp_class =
  fixes ctor :: "'cfg \<Rightarrow> uk_alloc \<Rightarrow> 'obj \<times> uk_alloc"
    and dtor :: "'obj \<Rightarrow> uk_alloc \<Rightarrow> uk_alloc"
    and owns :: "'obj \<Rightarrow> addr set"
    and ok :: "'obj \<Rightarrow> bool"
  assumes ctor_gains: "heap_wf h \<Longrightarrow> ctor c h = (x, h') \<Longrightarrow> gained h h' (owns x)"
    and ctor_ok: "heap_wf h \<Longrightarrow> ctor c h = (x, h') \<Longrightarrow> ok x"
    and dtor_loses: "heap_wf h \<Longrightarrow> ok x \<Longrightarrow> owns x \<subseteq> dom (blocks h) \<Longrightarrow> lost h (dtor x h) (owns x)"
begin

lemma delete_loses:
  assumes "heap_wf h" and "ok x" and "insert p (owns x) \<subseteq> dom (blocks h)" and "p \<notin> owns x"
  shows "lost h (cpp_delete dtor p x h) (insert p (owns x))"
proof -
  have d: "lost h (dtor x h) (owns x)"
    using assms dtor_loses by simp
  then have "lost (dtor x h) (cpp_delete dtor p x h) {p}"
    unfolding cpp_delete_def using assms lost_live [OF d, of "{p}"]
    by (intro uk_free_lost) auto
  with d show ?thesis using lost_trans by force
qed

lemma new_gains:
  assumes "heap_wf h" and "uk_malloc n h = (Some p, h1)" and "ctor c h1 = (x, h2)"
  shows "gained h h2 (insert p (owns x))" "p \<notin> owns x" "ok x"
proof -
  have g1: "gained h h1 {p}" using assms uk_malloc_Some(1) by blast
  moreover have g2: "gained h1 h2 (owns x)" using g1 assms(3) ctor_gains by blast
  ultimately show "gained h h2 (insert p (owns x))" using gained_trans by force
  show "p \<notin> owns x" using gained_disjoint [OF g1 g2] by blast
  show "ok x" using g1 assms(3) ctor_ok by blast
qed

lemma create_undo:
  assumes "heap_wf h" and "gained h h2 (insert p (owns x))" and "p \<notin> owns x" and "ok x"
    and "gained h2 h3 {}"
  shows "gained h (cpp_delete dtor p x h3) {}"
proof -
  have g: "gained h h3 (insert p (owns x))" using gained_trans [OF assms(2,5)] by simp
  then have "lost h3 (cpp_delete dtor p x h3) (insert p (owns x))"
    using assms(3,4) gained_dom [OF g] by (intro delete_loses) auto
  then show ?thesis using gained_lost [OF g] by simp
qed

lemma create_None:
  assumes "heap_wf h" and "c_api_create n (ctor c) valid dtor h = (None, h')"
  shows "gained h h' {}"
proof (cases "uk_malloc n h")
  case (Pair r h1)
  show ?thesis
  proof (cases r)
    case None
    then show ?thesis using assms Pair uk_malloc_None by (auto simp: c_api_create_def)
  next
    case (Some p)
    obtain x h2 where c: "ctor c h1 = (x, h2)" by fastforce
    note new = new_gains [OF assms(1) Pair [unfolded Some] c]
    then have wf2: "heap_wf h2" by blast
    show ?thesis
    proof (cases "valid x")
      case False
      then show ?thesis
        using assms Pair Some c create_undo [OF assms(1) new gained_refl [OF wf2]]
        by (simp add: c_api_create_def)
    next
      case True
      obtain r3 h3 where z: "uk_zalloc sizeof_ptr h2 = (r3, h3)" by fastforce
      with True assms Pair Some c have "r3 = None" "h' = cpp_delete dtor p x h3"
        by (auto simp: c_api_create_def split: option.splits)
      then show ?thesis
        using create_undo [OF assms(1) new uk_zalloc_None [OF wf2]] z by simp
    qed
  qed
qed

lemma create_Some:
  assumes "heap_wf h" and "c_api_create n (ctor c) valid dtor h = (Some x, h')"
  shows "gained h h' (handle_owns owns x)" "handle_sep owns x" "valid (impl x)" "ok (impl x)"
proof -
  obtain p h1 obj h2 q where m: "uk_malloc n h = (Some p, h1)" and c: "ctor c h1 = (obj, h2)"
    and v: "valid obj" and z: "uk_zalloc sizeof_ptr h2 = (Some q, h')"
    and x: "x = \<lparr>handle_addr = q, impl_addr = p, impl = obj\<rparr>"
    using assms(2) by (auto simp: c_api_create_def split: prod.splits option.splits if_splits)
  note new = new_gains [OF assms(1) m c]
  then have q: "gained h2 h' {q}" using z uk_zalloc_Some(1) by blast
  show "gained h h' (handle_owns owns x)"
    using gained_trans [OF new(1) q] x by (simp add: handle_owns_def insert_commute)
  show "handle_sep owns x"
    using gained_disjoint [OF new(1) q] new(2) x by (auto simp: handle_sep_def)
  show "valid (impl x)" "ok (impl x)" using v x new(3) by simp_all
qed

lemma destroy_loses:
  assumes "heap_wf h" and "handle_owns owns x \<subseteq> dom (blocks h)" and "handle_sep owns x" and "ok (impl x)"
  shows "lost h (c_api_destroy dtor x h) (handle_owns owns x)"
proof -
  let ?h1 = "cpp_delete dtor (impl_addr x) (impl x) h"
  have d: "lost h ?h1 (insert (impl_addr x) (owns (impl x)))"
    using assms by (intro delete_loses) (auto simp: handle_owns_def handle_sep_def)
  then have "lost ?h1 (c_api_destroy dtor x h) {handle_addr x}"
    unfolding c_api_destroy_def using assms lost_live [OF d, of "{handle_addr x}"]
    by (intro uk_free_lost) (auto simp: handle_owns_def handle_sep_def)
  from lost_trans [OF d this] show ?thesis by (simp add: handle_owns_def insert_commute)
qed

lemma create_gains:
  assumes "heap_wf h" and "c_api_create n (ctor c) valid dtor h = (r, h')"
  shows "gained h h' (opt_owns owns r) \<and> opt_sep owns ok r"
  using assms create_None [OF assms(1)] create_Some [OF assms(1)]
  by (cases r) (auto simp: opt_owns_def opt_sep_def)

lemma create_destroy:
  assumes "heap_wf h" and "c_api_create n (ctor c) valid dtor h = (Some x, h')"
  shows "blocks (c_api_destroy dtor x h') = blocks h" "bad_free (c_api_destroy dtor x h') = bad_free h"
proof -
  note cr = create_Some [OF assms]
  then have "lost h' (c_api_destroy dtor x h') (handle_owns owns x)"
    using gained_dom [OF cr(1)] by (intro destroy_loses) auto
  then have "gained h (c_api_destroy dtor x h') {}"
    using gained_lost [OF cr(1)] by simp
  then show "blocks (c_api_destroy dtor x h') = blocks h" "bad_free (c_api_destroy dtor x h') = bad_free h"
    by (auto simp: gained_none_blocks) (auto simp: gained_def)
qed

end

end
