(* ===== verification/TN_Mempool.thy ===== *)
theory TN_Mempool
  imports Uk_Heap
begin

text \<open>
  The memory pool of the framework (\<open>mempool.hpp\<close>, \<open>mempool.cpp\<close>). The object counts the
  bytes handed out against a quota; each allocation is a fresh block of the default
  allocator, the region reserved by the constructor is only held. Sizes are 64-bit words,
  so the quota test \<open>used_size_ + size > total_size_\<close> wraps as the code's does. The member
  \<open>alloc_\<close> always is the default allocator and is the heap argument of the operations.
\<close>

record MemoryPool =
  total_size :: size_t
  used_size :: size_t
  peak_size :: size_t
  memory :: "addr option"

definition sizeof_MemoryPool :: size_t where "sizeof_MemoryPool = 40"

definition MemoryPool_ctor :: "size_t \<Rightarrow> uk_alloc \<Rightarrow> MemoryPool \<times> uk_alloc" where
  "MemoryPool_ctor tot h =
     (case uk_malloc tot h of
        (m, h') \<Rightarrow> (\<lparr>total_size = tot, used_size = 0, peak_size = 0, memory = m\<rparr>, h'))"

definition MemoryPool_dtor :: "MemoryPool \<Rightarrow> uk_alloc \<Rightarrow> uk_alloc" where
  "MemoryPool_dtor p h = (if memory p \<noteq> None then uk_free (memory p) h else h)"

text \<open>The move constructor returns the new object and what is left of \<open>other\<close>.\<close>

definition MemoryPool_moved_from :: "MemoryPool \<Rightarrow> MemoryPool" where
  "MemoryPool_moved_from other =
     other\<lparr>memory := None, total_size := 0, used_size := 0, peak_size := 0\<rparr>"

definition MemoryPool_move :: "MemoryPool \<Rightarrow> MemoryPool \<times> MemoryPool" where
  "MemoryPool_move other =
     (\<lparr>total_size = total_size other, used_size = used_size other, peak_size = peak_size other,
       memory = memory other\<rparr>, MemoryPool_moved_from other)"

text \<open>Move assignment; \<open>same\<close> is the test \<open>this == &other\<close>.\<close>

definition MemoryPool_move_assign ::
    "bool \<Rightarrow> MemoryPool \<Rightarrow> MemoryPool \<Rightarrow> uk_alloc \<Rightarrow> MemoryPool \<times> MemoryPool \<times> uk_alloc" where
  "MemoryPool_move_assign same this other h =
     (if same then (this, other, h)
      else
        let h' = (if memory this \<noteq> None then uk_free (memory this) h else h)
        in (this\<lparr>total_size := total_size other, used_size := used_size other,
                 peak_size := peak_size other, memory := memory other\<rparr>,
            MemoryPool_moved_from other, h'))"

definition MemoryPool_Alloc ::
    "size_t \<Rightarrow> MemoryPool \<Rightarrow> uk_alloc \<Rightarrow> addr option \<times> MemoryPool \<times> uk_alloc" where
  "MemoryPool_Alloc sz p h =
     (if memory p = None \<or> sz = 0 then (None, p, h)
      else if used_size p + sz > total_size p then (None, p, h)
      else case uk_malloc sz h of
        (None, h') \<Rightarrow> (None, p, h')
      | (Some ptr, h') \<Rightarrow>
          let used = used_size p + sz
          in (Some ptr,
              p\<lparr>used_size := used, peak_size := (if used > peak_size p then used else peak_size p)\<rparr>,
              h'))"

definition MemoryPool_Free :: "addr option \<Rightarrow> MemoryPool \<Rightarrow> int \<times> MemoryPool" where
  "MemoryPool_Free ptr p = (0, p)"

text \<open>
  \<open>GetStats\<close> writes through the pointers that are not null; the flags say which are given,
  the result holds what is written.
\<close>

definition MemoryPool_GetStats ::
    "bool \<Rightarrow> bool \<Rightarrow> bool \<Rightarrow> MemoryPool \<Rightarrow> int \<times> size_t option \<times> size_t option \<times> size_t option" where
  "MemoryPool_GetStats tot used peak p =
     (if \<not> tot \<and> \<not> used \<and> \<not> peak then (- 1, None, None, None)
      else (0, if tot then Some (total_size p) else None,
               if used then Some (used_size p) else None,
               if peak then Some (peak_size p) else None))"

definition MemoryPool_IsValid :: "MemoryPool \<Rightarrow> bool" where
  "MemoryPool_IsValid p \<longleftrightarrow> memory p \<noteq> None"

subsection \<open>The C API\<close>

type_synonym tn_mempool = "MemoryPool c_handle"

definition tn_mempool_create :: "size_t \<Rightarrow> uk_alloc \<Rightarrow> tn_mempool option \<times> uk_alloc" where
  "tn_mempool_create tot h =
     c_api_create sizeof_MemoryPool (MemoryPool_ctor tot) MemoryPool_IsValid MemoryPool_dtor h"

definition tn_mempool_destroy :: "tn_mempool option \<Rightarrow> uk_alloc \<Rightarrow> int \<times> uk_alloc" where
  "tn_mempool_destroy pool h =
     (case pool of None \<Rightarrow> (TN_INFER_ERR_INVALID, h)
      | Some x \<Rightarrow> (TN_INFER_SUCCESS, c_api_destroy MemoryPool_dtor x h))"

definition tn_mempool_alloc ::
    "tn_mempool option \<Rightarrow> size_t \<Rightarrow> uk_alloc \<Rightarrow> addr option \<times> tn_mempool option \<times> uk_alloc" where
  "tn_mempool_alloc pool sz h =
     (case pool of None \<Rightarrow> (None, None, h)
      | Some x \<Rightarrow> (case MemoryPool_Alloc sz (impl x) h of
          (r, p, h') \<Rightarrow> (r, Some (x\<lparr>impl := p\<rparr>), h')))"

definition tn_mempool_free :: "tn_mempool option \<Rightarrow> addr option \<Rightarrow> int \<times> tn_mempool option" where
  "tn_mempool_free pool ptr =
     (case pool of None \<Rightarrow> (TN_INFER_ERR_INVALID, None)
      | Some x \<Rightarrow> (case MemoryPool_Free ptr (impl x) of (r, p) \<Rightarrow> (r, Some (x\<lparr>impl := p\<rparr>))))"

subsection \<open>Ownership\<close>

definition MemoryPool_owns :: "MemoryPool \<Rightarrow> addr set" where
  "MemoryPool_owns p = set_option (memory p)"

lemma MemoryPool_ctor_gains:
  assumes "heap_wf h" and "MemoryPool_ctor c h = (x, h')"
  shows "gained h h' (MemoryPool_owns x)"
  using assms uk_malloc_gained [OF assms(1)]
  by (auto simp: MemoryPool_ctor_def MemoryPool_owns_def split: prod.splits)

interpretation mempool: cpp_class MemoryPool_ctor MemoryPool_dtor MemoryPool_owns "\<lambda>_. True"
  by unfold_locales
    (auto intro: MemoryPool_ctor_gains [unfolded MemoryPool_owns_def]
      simp: MemoryPool_dtor_def MemoryPool_owns_def uk_free_lost lost_refl)

subsection \<open>The quota\<close>

definition mempool_inv :: "MemoryPool \<Rightarrow> bool" where
  "mempool_inv p \<longleftrightarrow> used_size p \<le> peak_size p \<and> peak_size p \<le> total_size p"

definition mempool_backed :: "MemoryPool \<Rightarrow> uk_alloc \<Rightarrow> bool" where
  "mempool_backed p h \<longleftrightarrow> (\<exists>a. memory p = Some a \<and> blocks h a = Some (total_size p))"

lemma mempool_ctor_inv: "MemoryPool_ctor n h = (p, h') \<Longrightarrow> mempool_inv p"
  by (auto simp: MemoryPool_ctor_def mempool_inv_def split: prod.splits)

lemma mempool_ctor_backed:
  assumes "heap_wf h" "MemoryPool_ctor n h = (p, h')" "MemoryPool_IsValid p"
  shows "mempool_backed p h'"
  using assms uk_malloc_Some(2) [of h n]
  by (auto simp: MemoryPool_ctor_def MemoryPool_IsValid_def mempool_backed_def split: prod.splits)

lemma mempool_alloc_inv:
  "mempool_inv p \<Longrightarrow> MemoryPool_Alloc sz p h = (r, p', h') \<Longrightarrow> mempool_inv p'"
  by (auto simp: MemoryPool_Alloc_def mempool_inv_def Let_def not_less
      split: if_splits prod.splits option.splits)

lemma mempool_alloc_frame:
  "MemoryPool_Alloc sz p h = (r, p', h') \<Longrightarrow> total_size p' = total_size p \<and> memory p' = memory p"
  by (auto simp: MemoryPool_Alloc_def Let_def split: if_splits prod.splits option.splits)

lemma mempool_alloc_None: 
  "heap_wf h \<Longrightarrow> MemoryPool_Alloc sz p h = (None, p', h') \<Longrightarrow> p' = p \<and> gained h h' {}"
  by (auto simp: MemoryPool_Alloc_def Let_def gained_refl uk_malloc_None
      split: if_splits prod.splits option.splits)

lemma mempool_alloc_Some:
  assumes wf: "heap_wf h" and lim: "maxalloc h < 2 ^ 63"
    and inv: "mempool_inv p" and backed: "mempool_backed p h"
    and r: "MemoryPool_Alloc sz p h = (Some ptr, p', h')"
  shows "gained h h' {ptr}" "blocks h' ptr = Some sz"
    "unat (used_size p') = unat (used_size p) + unat sz" "unat (used_size p') \<le> unat (total_size p)"
proof -
  have m: "uk_malloc sz h = (Some ptr, h')" and quota: "\<not> used_size p + sz > total_size p"
    and u: "used_size p' = used_size p + sz"
    using r by (auto simp: MemoryPool_Alloc_def Let_def split: if_splits prod.splits option.splits)
  show "gained h h' {ptr}" "blocks h' ptr = Some sz" using uk_malloc_Some [OF wf m] by auto
  have "unat (total_size p) < 2 ^ 63" using backed wf lim by (fastforce simp: mempool_backed_def heap_wf_def)
  moreover have "unat (used_size p) \<le> unat (total_size p)"
    using inv by (auto simp: mempool_inv_def word_le_nat_alt)
  moreover have "unat sz < 2 ^ 63" using uk_malloc_Some(3) [OF wf m] lim by simp
  ultimately show "unat (used_size p') = unat (used_size p) + unat sz"
    unfolding u by (intro unat_add_no_wrap) simp
  show "unat (used_size p') \<le> unat (total_size p)"
    using quota u by (simp add: word_le_nat_alt not_less)
qed

subsection \<open>Sequences of calls\<close>

datatype mp_op = MpAlloc size_t | MpFree "addr option"

text \<open>A client run; \<open>out\<close> lists the blocks handed out with their sizes, in order.\<close>

fun mp_run :: "mp_op list \<Rightarrow> MemoryPool \<Rightarrow> uk_alloc \<Rightarrow> (size_t \<times> addr) list \<times> MemoryPool \<times> uk_alloc" where
  "mp_run [] p h = ([], p, h)"
| "mp_run (MpAlloc n # ops) p h =
     (case MemoryPool_Alloc n p h of
        (None, p', h') \<Rightarrow> mp_run ops p' h'
      | (Some a, p', h') \<Rightarrow> (case mp_run ops p' h' of (out, r) \<Rightarrow> ((n, a) # out, r)))"
| "mp_run (MpFree ptr # ops) p h = mp_run ops (snd (MemoryPool_Free ptr p)) h"

definition mempool_ok :: "MemoryPool \<Rightarrow> uk_alloc \<Rightarrow> bool" where
  "mempool_ok p h \<longleftrightarrow> heap_wf h \<and> maxalloc h < 2 ^ 63 \<and> mempool_inv p \<and> mempool_backed p h"

lemma mempool_ok_gained:
  assumes "mempool_ok p h" and "gained h h' A" and "mempool_inv p'"
    and "total_size p' = total_size p" and "memory p' = memory p"
  shows "mempool_ok p' h'"
proof -
  obtain a where a: "memory p = Some a" "blocks h a = Some (total_size p)"
    using assms(1) by (auto simp: mempool_ok_def mempool_backed_def)
  then have "blocks h' a = Some (total_size p)"
    using assms(2) unfolding gained_def by (metis option.distinct(1) restrict_in restrict_out)
  with a assms show ?thesis
    by (auto simp: mempool_ok_def mempool_backed_def gained_def)
qed

lemma mp_run_accounts:
  assumes "mempool_ok p h" and "mp_run ops p h = (out, p', h')"
  shows "gained h h' (snd ` set out) \<and> distinct (map snd out) \<and>
    (\<forall>(n, a) \<in> set out. blocks h' a = Some n) \<and>
    unat (used_size p') = unat (used_size p) + (\<Sum>(n, a) \<leftarrow> out. unat n) \<and>
    mempool_ok p' h' \<and> total_size p' = total_size p"
  using assms
proof (induction ops arbitrary: p h out)
  case Nil
  then show ?case by (auto simp: mempool_ok_def gained_refl)
next
  case (Cons oper ops)
  show ?case
  proof (cases oper)
    case (MpFree ptr)
    then show ?thesis using Cons by (simp add: MemoryPool_Free_def)
  next
    case (MpAlloc n)
    obtain r p1 h1 where al: "MemoryPool_Alloc n p h = (r, p1, h1)" by (metis prod_cases3)
    have ok: "heap_wf h" "maxalloc h < 2 ^ 63" "mempool_inv p" "mempool_backed p h"
      using Cons.prems(1) by (auto simp: mempool_ok_def)
    note fr = mempool_alloc_frame [OF al] mempool_alloc_inv [OF ok(3) al]
    show ?thesis
    proof (cases r)
      case None
      with al have "p1 = p" and g: "gained h h1 {}" using mempool_alloc_None [OF ok(1)] by auto
      then have "mempool_ok p h1" using mempool_ok_gained [OF Cons.prems(1)] ok by blast
      then show ?thesis
        using Cons.IH [of p h1 out] Cons.prems al None MpAlloc \<open>p1 = p\<close> gained_trans [OF g] by auto
    next
      case (Some a)
      obtain out1 where run: "mp_run ops p1 h1 = (out1, p', h')" and out: "out = (n, a) # out1"
        using Cons.prems(2) al Some MpAlloc by (auto split: prod.splits)
      note s = mempool_alloc_Some [OF ok al [unfolded Some]]
      have "mempool_ok p1 h1" using mempool_ok_gained [OF Cons.prems(1) s(1)] fr by blast
      note IH = Cons.IH [OF this run]
      then have na: "a \<notin> snd ` set out1" using gained_disjoint [OF s(1)] by blast
      then have "blocks h' a = Some n"
        using IH s(2) unfolding gained_def by (metis ComplI restrict_in)
      then show ?thesis
        using out na IH s fr gained_trans [OF s(1)] by auto
    qed
  qed
qed

lemma mempool_created_ok:
  assumes "heap_wf h" and "maxalloc h < 2 ^ 63" and "tn_mempool_create tot h = (Some x, h0)"
  shows "mempool_ok (impl x) h0" "used_size (impl x) = 0" "total_size (impl x) = tot"
proof -
  obtain q h2 p0 h3 where m: "uk_malloc sizeof_MemoryPool h = (Some q, h2)"
    and c: "MemoryPool_ctor tot h2 = (p0, h3)" and z: "uk_zalloc sizeof_ptr h3 = (Some (handle_addr x), h0)"
    and x: "impl x = p0" "MemoryPool_IsValid p0"
    using assms(3) by (auto simp: tn_mempool_create_def c_api_create_def
        split: prod.splits option.splits if_splits)
  have g: "gained h h2 {q}" "gained h2 h3 (MemoryPool_owns p0)"
    using uk_malloc_Some(1) [OF assms(1) m] MemoryPool_ctor_gains [OF _ c] by auto
  then have "mempool_ok p0 h3" using assms(2) x mempool_ctor_inv [OF c] mempool_ctor_backed [OF _ c]
    by (auto simp: mempool_ok_def gained_def)
  moreover have "gained h3 h0 {handle_addr x}" using g z uk_zalloc_Some(1) by blast
  ultimately show "mempool_ok (impl x) h0"
    unfolding x using mempool_ok_gained [of p0 h3 h0 _ p0] by (auto simp: mempool_ok_def)
  have "used_size p0 = 0 \<and> total_size p0 = tot"
    using c by (auto simp: MemoryPool_ctor_def split: prod.splits)
  then show "used_size (impl x) = 0" "total_size (impl x) = tot" using x by auto
qed

text \<open>
  C9: a pool created with \<open>tot\<close> bytes and driven by any sequence of \<open>Alloc\<close> and \<open>Free\<close>
  calls, under any pattern of allocation failures, charges exactly the sum of the sizes it
  handed out, never more than \<open>tot\<close>, and every block it handed out is a distinct live
  block of exactly the requested size. (The heap serves no request of 2^63 bytes or more,
  so the wrapping quota test is exact.)
\<close>

theorem mempool_run_quota:
  assumes "heap_wf h" and "maxalloc h < 2 ^ 63"
    and "tn_mempool_create tot h = (Some x, h0)"
    and "mp_run ops (impl x) h0 = (out, p, h1)"
  shows "unat (used_size p) = (\<Sum>(n, a) \<leftarrow> out. unat n) \<and> unat (used_size p) \<le> unat tot \<and>
    distinct (map snd out) \<and> (\<forall>(n, a) \<in> set out. blocks h1 a = Some n)"
proof -
  note c = mempool_created_ok [OF assms(1-3)]
  note run = mp_run_accounts [OF c(1) assms(4)]
  then have "unat (used_size p) \<le> unat tot"
    using c by (auto simp: mempool_ok_def mempool_inv_def word_le_nat_alt)
  then show ?thesis using run c by auto
qed

lemmas mempool_eval = tn_defs demo_heap_def tn_mempool_create_def MemoryPool_ctor_def
  MemoryPool_IsValid_def MemoryPool_dtor_def sizeof_MemoryPool_def MemoryPool_Alloc_def
  MemoryPool_Free_def

lemma demo_pool:
  "tn_mempool_create 100 demo_heap =
     (Some \<lparr>handle_addr = 236, impl_addr = 32,
        impl = \<lparr>total_size = 100, used_size = 0, peak_size = 0, memory = Some 104\<rparr>\<rparr>,
      \<lparr>maxalloc = 4096, oom = [], brk = 244, blocks = [32 \<mapsto> 40, 104 \<mapsto> 100, 236 \<mapsto> 8],
       bad_free = False\<rparr>)"
  by (simp add: mempool_eval)

theorem mempool_run_quota_witness:
  "\<exists>x h0 out p h1. tn_mempool_create 100 demo_heap = (Some x, h0) \<and>
     mp_run [MpAlloc 60, MpFree (Some 276), MpAlloc 60, MpAlloc 40] (impl x) h0 = (out, p, h1) \<and>
     map fst out = [60, 40] \<and> unat (used_size p) = (\<Sum>(n, a) \<leftarrow> out. unat n) \<and>
     unat (used_size p) \<le> 100 \<and> distinct (map snd out)"
proof -
  obtain x h0 where c: "tn_mempool_create 100 demo_heap = (Some x, h0)" by (simp add: demo_pool)
  obtain out p h1
    where r: "mp_run [MpAlloc 60, MpFree (Some 276), MpAlloc 60, MpAlloc 40] (impl x) h0 = (out, p, h1)"
    by (metis prod_cases3)
  have "map fst out = [60, 40]" using c r by (simp add: demo_pool) (auto simp: mempool_eval)
  then show ?thesis using c r mempool_run_quota [OF _ _ c r] by auto
qed

text \<open>
  \<open>Free\<close> gives nothing back. In a pool of \<open>tot\<close> bytes, after a block of more than half
  of them was allocated and freed, the same request fails, and the freed block is still
  live in the heap.
\<close>

theorem mempool_free_keeps_quota:
  assumes "heap_wf h" and "maxalloc h < 2 ^ 63"
    and "tn_mempool_create tot h = (Some x, h0)"
    and "unat tot < 2 * unat n" and "mp_run [MpAlloc n] (impl x) h0 = ([(n, a)], p, h1)"
  shows "mp_run [MpAlloc n, MpFree (Some a), MpAlloc n] (impl x) h0 = ([(n, a)], p, h1) \<and>
    blocks h1 a = Some n"
proof -
  note c = mempool_created_ok [OF assms(1-3)]
  note run = mp_run_accounts [OF c(1) assms(5)]
  have al: "MemoryPool_Alloc n (impl x) h0 = (Some a, p, h1)"
    using assms(5) by (auto split: prod.splits option.splits)
  have u: "unat (used_size p) = unat n" "unat (used_size p) \<le> unat (total_size p)" "total_size p = tot"
    using run c by (auto simp: mempool_ok_def mempool_inv_def word_le_nat_alt)
  moreover have "unat tot < 2 ^ 63"
    using c by (fastforce simp: mempool_ok_def mempool_backed_def heap_wf_def)
  ultimately have "used_size p + n > total_size p"
    using assms(4) unat_add_no_wrap [of "used_size p" n] by (simp add: word_less_nat_alt)
  then have "MemoryPool_Alloc n p h1 = (None, p, h1)" by (simp add: MemoryPool_Alloc_def)
  then show ?thesis using al run by (simp add: MemoryPool_Free_def)
qed

theorem mempool_free_keeps_quota_witness:
  "\<exists>x h0 p h1. tn_mempool_create 100 demo_heap = (Some x, h0) \<and>
     mp_run [MpAlloc 60, MpFree (Some 276), MpAlloc 60] (impl x) h0 = ([(60, 276)], p, h1) \<and>
     blocks h1 276 = Some 60"
proof -
  obtain x h0 where c: "tn_mempool_create 100 demo_heap = (Some x, h0)" by (simp add: demo_pool)
  obtain p h1 where r: "mp_run [MpAlloc 60] (impl x) h0 = ([(60, 276)], p, h1)"
    using c by (simp add: demo_pool) (auto simp: mempool_eval)
  show ?thesis using c mempool_free_keeps_quota [OF _ _ c _ r] by auto
qed

end
