(* ===== verification/TN_Batch.thy ===== *)
theory TN_Batch
  imports Uk_Heap
begin

text \<open>
  The batch processor (\<open>batch.hpp\<close>, \<open>batch.cpp\<close>): a fixed array of request pointers filled
  from the front. \<open>slots\<close> are the pointer cells of the block behind \<open>requests_\<close>: as many as
  the block really holds, which differs from \<open>capacity_\<close> when \<open>capacity_ * sizeof(void*)\<close>
  wraps. A store past the last cell is \<open>OutOfBounds\<close>.
\<close>

record BatchConfig =
  max_batch_size :: size_t
  timeout_us :: size_t

definition BatchConfig_default :: BatchConfig where
  "BatchConfig_default = \<lparr>max_batch_size = 8, timeout_us = 1000\<rparr>"

record BatchProcessor =
  b_config :: BatchConfig
  requests :: "addr option"
  slots :: "addr option list"
  b_count :: size_t
  capacity :: size_t

definition sizeof_BatchProcessor :: size_t where "sizeof_BatchProcessor = 48"

definition BatchProcessor_ctor :: "BatchConfig \<Rightarrow> uk_alloc \<Rightarrow> BatchProcessor \<times> uk_alloc" where
  "BatchProcessor_ctor config h =
     (let bytes = max_batch_size config * sizeof_ptr
      in case uk_zalloc bytes h of
        (r, h') \<Rightarrow>
          (\<lparr>b_config = config, requests = r,
            slots = (if r = None then [] else replicate (unat bytes div 8) None),
            b_count = 0, capacity = max_batch_size config\<rparr>, h'))"

definition BatchProcessor_dtor :: "BatchProcessor \<Rightarrow> uk_alloc \<Rightarrow> uk_alloc" where
  "BatchProcessor_dtor b h = (if requests b \<noteq> None then uk_free (requests b) h else h)"

definition BatchProcessor_moved_from :: "BatchProcessor \<Rightarrow> BatchProcessor" where
  "BatchProcessor_moved_from other = other\<lparr>requests := None, slots := [], b_count := 0, capacity := 0\<rparr>"

definition BatchProcessor_move :: "BatchProcessor \<Rightarrow> BatchProcessor \<times> BatchProcessor" where
  "BatchProcessor_move other =
     (\<lparr>b_config = b_config other, requests = requests other, slots = slots other,
       b_count = b_count other, capacity = capacity other\<rparr>, BatchProcessor_moved_from other)"

definition BatchProcessor_move_assign ::
    "bool \<Rightarrow> BatchProcessor \<Rightarrow> BatchProcessor \<Rightarrow> uk_alloc \<Rightarrow> BatchProcessor \<times> BatchProcessor \<times> uk_alloc" where
  "BatchProcessor_move_assign same this other h =
     (if same then (this, other, h)
      else
        let h' = (if requests this \<noteq> None then uk_free (requests this) h else h)
        in (this\<lparr>b_config := b_config other, requests := requests other, slots := slots other,
                 b_count := b_count other, capacity := capacity other\<rparr>,
            BatchProcessor_moved_from other, h'))"

definition BatchProcessor_Add :: "addr option \<Rightarrow> BatchProcessor \<Rightarrow> ub + (int \<times> BatchProcessor)" where
  "BatchProcessor_Add request b =
     (if requests b = None \<or> request = None then Inr (- 1, b)
      else if b_count b \<ge> capacity b then Inr (- 1, b)
      else if unat (b_count b) \<ge> length (slots b) then Inl OutOfBounds
      else Inr (0, b\<lparr>slots := (slots b)[unat (b_count b) := request], b_count := b_count b + 1\<rparr>))"

definition BatchProcessor_Process :: "BatchProcessor \<Rightarrow> addr option" where
  "BatchProcessor_Process b = None"

definition BatchProcessor_IsValid :: "BatchProcessor \<Rightarrow> bool" where
  "BatchProcessor_IsValid b \<longleftrightarrow> requests b \<noteq> None"

subsection \<open>The C API\<close>

type_synonym tn_batch = "BatchProcessor c_handle"

definition tn_batch_create :: "BatchConfig option \<Rightarrow> uk_alloc \<Rightarrow> tn_batch option \<times> uk_alloc" where
  "tn_batch_create config h =
     (case config of None \<Rightarrow> (None, h)
      | Some c \<Rightarrow>
          let cpp_config = BatchConfig_default\<lparr>max_batch_size := max_batch_size c, timeout_us := timeout_us c\<rparr>
          in c_api_create sizeof_BatchProcessor (BatchProcessor_ctor cpp_config)
               BatchProcessor_IsValid BatchProcessor_dtor h)"

definition tn_batch_destroy :: "tn_batch option \<Rightarrow> uk_alloc \<Rightarrow> int \<times> uk_alloc" where
  "tn_batch_destroy batch h =
     (case batch of None \<Rightarrow> (TN_INFER_ERR_INVALID, h)
      | Some x \<Rightarrow> (TN_INFER_SUCCESS, c_api_destroy BatchProcessor_dtor x h))"

definition tn_batch_add :: "tn_batch option \<Rightarrow> addr option \<Rightarrow> ub + (int \<times> tn_batch option)" where
  "tn_batch_add batch request =
     (case batch of None \<Rightarrow> Inr (TN_INFER_ERR_INVALID, None)
      | Some x \<Rightarrow> (case BatchProcessor_Add request (impl x) of
          Inl e \<Rightarrow> Inl e
        | Inr (r, b) \<Rightarrow> Inr (r, Some (x\<lparr>impl := b\<rparr>))))"

definition tn_batch_process :: "tn_batch option \<Rightarrow> addr option" where
  "tn_batch_process batch = (case batch of None \<Rightarrow> None | Some x \<Rightarrow> BatchProcessor_Process (impl x))"

subsection \<open>Ownership\<close>

definition BatchProcessor_owns :: "BatchProcessor \<Rightarrow> addr set" where
  "BatchProcessor_owns b = set_option (requests b)"

lemma BatchProcessor_ctor_gains:
  assumes "heap_wf h" and "BatchProcessor_ctor c h = (x, h')"
  shows "gained h h' (set_option (requests x))"
  using assms uk_zalloc_gained [OF assms(1)]
  by (auto simp: BatchProcessor_ctor_def Let_def split: prod.splits)

interpretation batch: cpp_class BatchProcessor_ctor BatchProcessor_dtor BatchProcessor_owns "\<lambda>_. True"
  by unfold_locales
    (auto intro: BatchProcessor_ctor_gains
      simp: BatchProcessor_dtor_def BatchProcessor_owns_def uk_free_lost lost_refl)

subsection \<open>Filling the batch\<close>

text \<open>
  \<open>add_all\<close> submits a list of requests one by one through the C API and collects the
  return codes; \<open>stored\<close> reads back what the batch holds.
\<close>

fun add_all :: "addr list \<Rightarrow> tn_batch \<Rightarrow> ub + (int list \<times> tn_batch)" where
  "add_all [] x = Inr ([], x)"
| "add_all (r # rs) x =
     (case tn_batch_add (Some x) (Some r) of
        Inl e \<Rightarrow> Inl e
      | Inr (_, None) \<Rightarrow> Inl NullDeref
      | Inr (code, Some x') \<Rightarrow>
          (case add_all rs x' of Inl e \<Rightarrow> Inl e | Inr (codes, y) \<Rightarrow> Inr (code # codes, y)))"

definition stored :: "BatchProcessor \<Rightarrow> addr option list" where
  "stored b = take (unat (b_count b)) (slots b)"

definition batch_inv :: "BatchProcessor \<Rightarrow> bool" where
  "batch_inv b \<longleftrightarrow> requests b \<noteq> None \<and> length (slots b) = unat (capacity b) \<and> b_count b \<le> capacity b"

lemma batch_ctor_inv:
  assumes "BatchProcessor_ctor c h = (b, h')" and "BatchProcessor_IsValid b"
    and "unat (max_batch_size c) < 2 ^ 61"
  shows "batch_inv b" "stored b = []" "capacity b = max_batch_size c"
  using assms unat_mult_no_wrap [of "max_batch_size c" 8]
  by (auto simp: BatchProcessor_ctor_def BatchProcessor_IsValid_def batch_inv_def stored_def Let_def
      sizeof_ptr_def split: prod.splits if_splits)

lemma batch_add_full:
  "batch_inv b \<Longrightarrow> length (stored b) = unat (capacity b) \<Longrightarrow> BatchProcessor_Add (Some r) b = Inr (- 1, b)"
  by (auto simp: batch_inv_def stored_def BatchProcessor_Add_def word_le_nat_alt min_def split: if_splits)

lemma batch_add_room:
  assumes "batch_inv b" and "length (stored b) < unat (capacity b)"
  obtains b' where "BatchProcessor_Add (Some r) b = Inr (0, b')" "batch_inv b'"
    "stored b' = stored b @ [Some r]" "capacity b' = capacity b"
proof -
  let ?n = "unat (b_count b)"
  have n: "?n < unat (capacity b)" "length (slots b) = unat (capacity b)"
    using assms by (auto simp: batch_inv_def stored_def word_le_nat_alt)
  then have inc: "unat (b_count b + 1) = ?n + 1"
    using unat64_bound [of "capacity b"] by (intro unat_inc_no_wrap) simp
  let ?b = "b\<lparr>slots := (slots b)[?n := Some r], b_count := b_count b + 1\<rparr>"
  have "BatchProcessor_Add (Some r) b = Inr (0, ?b)"
    using assms n by (auto simp: BatchProcessor_Add_def batch_inv_def word_le_nat_alt)
  moreover have "batch_inv ?b" using assms n inc by (simp add: batch_inv_def word_le_nat_alt)
  moreover have "stored ?b = stored b @ [Some r]"
    using n inc by (simp add: stored_def take_Suc_conv_app_nth)
  ultimately show thesis using that by simp
qed

lemma add_all_stored:
  assumes "batch_inv (impl x)"
  shows "\<exists>y. add_all rs x =
      Inr (map (\<lambda>i. if length (stored (impl x)) + i < unat (capacity (impl x)) then 0 else - 1) [0..<length rs], y) \<and>
    stored (impl y) = take (unat (capacity (impl x))) (stored (impl x) @ map Some rs) \<and> batch_inv (impl y)"
  using assms
proof (induction rs arbitrary: x)
  case Nil
  then show ?case by (auto simp: stored_def batch_inv_def min_def)
next
  case (Cons r rs)
  let ?c = "unat (capacity (impl x))" and ?k = "length (stored (impl x))"
  have le: "?k \<le> ?c" using Cons.prems by (simp add: batch_inv_def stored_def)
  show ?case
  proof (cases "?k < ?c")
    case True
    obtain b' where b': "BatchProcessor_Add (Some r) (impl x) = Inr (0, b')" "batch_inv b'"
      "stored b' = stored (impl x) @ [Some r]" "capacity b' = capacity (impl x)"
      using batch_add_room [OF Cons.prems True] .
    then show ?thesis using Cons.IH [of "x\<lparr>impl := b'\<rparr>"] True
      by (auto simp: tn_batch_add_def upt_conv_Cons map_Suc_upt [symmetric] simp del: upt_Suc)
  next
    case False
    then have "BatchProcessor_Add (Some r) (impl x) = Inr (- 1, impl x)"
      using le batch_add_full [OF Cons.prems] by simp
    then show ?thesis using Cons.IH [OF Cons.prems] False le
      by (auto simp: tn_batch_add_def upt_conv_Cons map_Suc_upt [symmetric] simp del: upt_Suc)
  qed
qed

text \<open>
  C38: a batch created for \<open>n\<close> requests (with \<open>8 * n\<close> below 2^64) keeps the first \<open>n\<close>
  submitted requests in order, answers 0 for exactly those and -1 for every later one, and
  never stores outside its array.
\<close>

theorem batch_keeps_first_requests:
  assumes "heap_wf h" and "unat (max_batch_size c) < 2 ^ 61"
    and "tn_batch_create (Some c) h = (Some x, h')"
  shows "\<exists>y. add_all rs x =
      Inr (map (\<lambda>i. if i < unat (max_batch_size c) then 0 else - 1) [0..<length rs], y) \<and>
    stored (impl y) = map Some (take (unat (max_batch_size c)) rs)"
proof -
  let ?c = "BatchConfig_default\<lparr>max_batch_size := max_batch_size c, timeout_us := timeout_us c\<rparr>"
  obtain h1 h2 where "BatchProcessor_ctor ?c h1 = (impl x, h2)" "BatchProcessor_IsValid (impl x)"
    using assms(3) by (auto simp: tn_batch_create_def c_api_create_def Let_def
        split: prod.splits option.splits if_splits)
  from batch_ctor_inv [OF this] assms(2)
  have "batch_inv (impl x)" "stored (impl x) = []" "capacity (impl x) = max_batch_size c" by auto
  then show ?thesis using add_all_stored [of x rs] by (auto simp: take_map)
qed

lemmas batch_eval = tn_defs demo_heap_def tn_batch_create_def BatchProcessor_ctor_def
  BatchProcessor_IsValid_def BatchProcessor_dtor_def sizeof_BatchProcessor_def BatchConfig_default_def
  tn_batch_add_def BatchProcessor_Add_def

theorem batch_keeps_first_requests_witness:
  "\<exists>x h' y. tn_batch_create (Some \<lparr>max_batch_size = 2, timeout_us = 1000\<rparr>) demo_heap = (Some x, h') \<and>
     add_all [7, 8, 9] x = Inr ([0, 0, - 1], y) \<and> stored (impl y) = [Some 7, Some 8]"
proof -
  obtain x h' where c: "tn_batch_create (Some \<lparr>max_batch_size = 2, timeout_us = 1000\<rparr>) demo_heap = (Some x, h')"
    by (simp add: batch_eval)
  from batch_keeps_first_requests [OF _ _ c, of "[7, 8, 9]"] show ?thesis
    using c by (auto simp: upt_rec)
qed

text \<open>
  When \<open>max_batch_size * sizeof(void*)\<close> wraps, the array is smaller than the capacity
  the object believes in: with \<open>max_batch_size = 2^61 + 1\<close> the block has one cell, creation
  succeeds, and the second request is stored out of bounds.
\<close>

theorem batch_capacity_wraps:
  "\<exists>x h'. tn_batch_create (Some \<lparr>max_batch_size = 2 ^ 61 + 1, timeout_us = 1000\<rparr>) demo_heap = (Some x, h') \<and>
     add_all [7, 8] x = Inl OutOfBounds"
  by (simp add: batch_eval word_le_nat_alt)

end
