(* ===== verification/TN_Metrics.thy ===== *)
theory TN_Metrics
  imports Uk_Heap Complex_Main
begin

text \<open>
  The metrics collector (\<open>metrics.hpp\<close>, \<open>metrics.cpp\<close>): a ring buffer of samples and
  running aggregates, all 64-bit words. \<open>samples\<close> are the cells the block behind
  \<open>samples_\<close> really holds. The clock reading of \<open>Record\<close> is an argument in nanoseconds.
  The success rate, a \<open>double\<close> in the code that the C API does not export, is the exact
  quotient here (a rational), without the rounding of the division.
\<close>

record MetricsSample =
  timestamp_us :: uint64
  s_latency_us :: uint64
  s_batch_size :: size_t
  s_success :: bool

definition MetricsSample_zero :: MetricsSample where
  "MetricsSample_zero = \<lparr>timestamp_us = 0, s_latency_us = 0, s_batch_size = 0, s_success = False\<rparr>"

definition sizeof_MetricsSample :: size_t where "sizeof_MetricsSample = 32"

text \<open>The C++ result structure \<open>Metrics\<close> and the C structure \<open>tn_infer_metrics_t\<close> (api.hpp).\<close>

record Metrics =
  total_requests :: uint64
  success_count :: uint64
  error_count :: uint64
  avg_latency_us :: uint64
  min_latency_us :: uint64
  max_latency_us :: uint64
  success_rate :: rat

definition Metrics_default :: Metrics where
  "Metrics_default = \<lparr>total_requests = 0, success_count = 0, error_count = 0, avg_latency_us = 0,
     min_latency_us = 0, max_latency_us = 0, success_rate = 0\<rparr>"

record tn_infer_metrics =
  im_total_requests :: uint64
  im_success_count :: uint64
  im_error_count :: uint64
  im_avg_latency_us :: uint64
  im_min_latency_us :: uint64
  im_max_latency_us :: uint64
  latency_p50 :: uint64
  latency_p95 :: uint64
  latency_p99 :: uint64
  qps_x100 :: uint64
  memory_used :: size_t
  memory_peak :: size_t

record MetricsCollector =
  samples_ptr :: "addr option"
  samples :: "MetricsSample list"
  history_size :: size_t
  head :: size_t
  m_count :: size_t
  m_total_requests :: uint64
  m_success_count :: uint64
  m_error_count :: uint64
  latency_sum :: uint64
  latency_min :: uint64
  latency_max :: uint64

definition sizeof_MetricsCollector :: size_t where "sizeof_MetricsCollector = 88"

definition UINT64_MAX :: uint64 where "UINT64_MAX = - 1"

definition MetricsCollector_ctor :: "size_t \<Rightarrow> uk_alloc \<Rightarrow> MetricsCollector \<times> uk_alloc" where
  "MetricsCollector_ctor hsize h =
     (let bytes = hsize * sizeof_MetricsSample
      in case uk_zalloc bytes h of
        (r, h') \<Rightarrow>
          (\<lparr>samples_ptr = r,
            samples = (if r = None then [] else replicate (unat bytes div 32) MetricsSample_zero),
            history_size = hsize, head = 0, m_count = 0,
            m_total_requests = 0, m_success_count = 0, m_error_count = 0,
            latency_sum = 0, latency_min = UINT64_MAX, latency_max = 0\<rparr>, h'))"

definition MetricsCollector_dtor :: "MetricsCollector \<Rightarrow> uk_alloc \<Rightarrow> uk_alloc" where
  "MetricsCollector_dtor m h = (if samples_ptr m \<noteq> None then uk_free (samples_ptr m) h else h)"

text \<open>Moving leaves the source without its samples and with a zero count; the rest stays.\<close>

definition MetricsCollector_moved_from :: "MetricsCollector \<Rightarrow> MetricsCollector" where
  "MetricsCollector_moved_from other = other\<lparr>samples_ptr := None, samples := [], m_count := 0\<rparr>"

definition MetricsCollector_move :: "MetricsCollector \<Rightarrow> MetricsCollector \<times> MetricsCollector" where
  "MetricsCollector_move other = (other, MetricsCollector_moved_from other)"

definition MetricsCollector_move_assign ::
    "bool \<Rightarrow> MetricsCollector \<Rightarrow> MetricsCollector \<Rightarrow> uk_alloc \<Rightarrow> MetricsCollector \<times> MetricsCollector \<times> uk_alloc" where
  "MetricsCollector_move_assign same this other h =
     (if same then (this, other, h)
      else
        let h' = (if samples_ptr this \<noteq> None then uk_free (samples_ptr this) h else h)
        in (other, MetricsCollector_moved_from other, h'))"

definition MetricsCollector_Record ::
    "uint64 \<Rightarrow> uint64 \<Rightarrow> size_t \<Rightarrow> bool \<Rightarrow> MetricsCollector \<Rightarrow> ub + MetricsCollector" where
  "MetricsCollector_Record now_ns latency batch_size success m =
     (if samples_ptr m = None then Inr m
      else if history_size m = 0 then Inl DivByZero
      else
        let now_us = now_ns div 1000; idx = unat (head m mod history_size m)
        in if idx \<ge> length (samples m) then Inl OutOfBounds
           else Inr (m\<lparr>
             samples := (samples m)[idx := \<lparr>timestamp_us = now_us, s_latency_us = latency,
                                            s_batch_size = batch_size, s_success = success\<rparr>],
             head := head m + 1,
             m_count := (if m_count m < history_size m then m_count m + 1 else m_count m),
             m_total_requests := m_total_requests m + 1,
             m_success_count := (if success then m_success_count m + 1 else m_success_count m),
             m_error_count := (if success then m_error_count m else m_error_count m + 1),
             latency_sum := latency_sum m + latency,
             latency_min := (if latency < latency_min m then latency else latency_min m),
             latency_max := (if latency > latency_max m then latency else latency_max m)\<rparr>))"

definition MetricsCollector_Collect :: "MetricsCollector \<Rightarrow> Metrics" where
  "MetricsCollector_Collect m =
     (if samples_ptr m = None then Metrics_default
      else
        let some = m_total_requests m > 0
        in \<lparr>total_requests = m_total_requests m,
            success_count = m_success_count m,
            error_count = m_error_count m,
            avg_latency_us = (if some then latency_sum m div m_total_requests m else 0),
            min_latency_us = (if some then latency_min m else 0),
            max_latency_us = (if some then latency_max m else 0),
            success_rate = (if some then of_nat (unat (m_success_count m)) / of_nat (unat (m_total_requests m))
                            else 0)\<rparr>)"

definition MetricsCollector_IsValid :: "MetricsCollector \<Rightarrow> bool" where
  "MetricsCollector_IsValid m \<longleftrightarrow> samples_ptr m \<noteq> None"

subsection \<open>The C API\<close>

type_synonym tn_metrics = "MetricsCollector c_handle"

definition tn_metrics_create :: "size_t \<Rightarrow> uk_alloc \<Rightarrow> tn_metrics option \<times> uk_alloc" where
  "tn_metrics_create hsize h =
     c_api_create sizeof_MetricsCollector (MetricsCollector_ctor hsize) MetricsCollector_IsValid
       MetricsCollector_dtor h"

definition tn_metrics_destroy :: "tn_metrics option \<Rightarrow> uk_alloc \<Rightarrow> int \<times> uk_alloc" where
  "tn_metrics_destroy metrics h =
     (case metrics of None \<Rightarrow> (TN_INFER_ERR_INVALID, h)
      | Some x \<Rightarrow> (TN_INFER_SUCCESS, c_api_destroy MetricsCollector_dtor x h))"

definition tn_metrics_record ::
    "tn_metrics option \<Rightarrow> uint64 \<Rightarrow> uint64 \<Rightarrow> size_t \<Rightarrow> bool \<Rightarrow> ub + (int \<times> tn_metrics option)" where
  "tn_metrics_record metrics now_ns latency batch_size success =
     (case metrics of None \<Rightarrow> Inr (TN_INFER_ERR_INVALID, None)
      | Some x \<Rightarrow> (case MetricsCollector_Record now_ns latency batch_size success (impl x) of
          Inl e \<Rightarrow> Inl e
        | Inr m \<Rightarrow> Inr (TN_INFER_SUCCESS, Some (x\<lparr>impl := m\<rparr>))))"

text \<open>The second component is \<open>*out\<close> after the call; \<open>out = None\<close> is the null pointer.\<close>

definition tn_metrics_collect ::
    "tn_metrics option \<Rightarrow> tn_infer_metrics option \<Rightarrow> int \<times> tn_infer_metrics option" where
  "tn_metrics_collect metrics out =
     (case (metrics, out) of
        (Some x, Some _) \<Rightarrow>
          (let c = MetricsCollector_Collect (impl x)
           in (TN_INFER_SUCCESS, Some
             \<lparr>im_total_requests = total_requests c, im_success_count = success_count c,
              im_error_count = error_count c, im_avg_latency_us = avg_latency_us c,
              im_min_latency_us = min_latency_us c, im_max_latency_us = max_latency_us c,
              latency_p50 = avg_latency_us c, latency_p95 = avg_latency_us c,
              latency_p99 = avg_latency_us c, qps_x100 = 0, memory_used = 0, memory_peak = 0\<rparr>))
      | _ \<Rightarrow> (TN_INFER_ERR_INVALID, out))"

subsection \<open>Ownership\<close>

definition MetricsCollector_owns :: "MetricsCollector \<Rightarrow> addr set" where
  "MetricsCollector_owns m = set_option (samples_ptr m)"

lemma MetricsCollector_ctor_gains:
  assumes "heap_wf h" and "MetricsCollector_ctor c h = (x, h')"
  shows "gained h h' (set_option (samples_ptr x))"
  using assms uk_zalloc_gained [OF assms(1)]
  by (auto simp: MetricsCollector_ctor_def Let_def split: prod.splits)

interpretation metrics: cpp_class MetricsCollector_ctor MetricsCollector_dtor MetricsCollector_owns "\<lambda>_. True"
  by unfold_locales
    (auto intro: MetricsCollector_ctor_gains
      simp: MetricsCollector_dtor_def MetricsCollector_owns_def uk_free_lost lost_refl)

subsection \<open>The ring buffer as a sliding window\<close>

text \<open>\<open>window m\<close>: the samples the ring buffer holds, oldest first.\<close>

definition window :: "MetricsCollector \<Rightarrow> MetricsSample list" where
  "window m =
     (let H = unat (history_size m); c = unat (m_count m)
      in map (\<lambda>i. samples m ! ((unat (head m) + (H - c + i)) mod H)) [0..<c])"

definition metrics_inv :: "MetricsCollector \<Rightarrow> bool" where
  "metrics_inv m \<longleftrightarrow> samples_ptr m \<noteq> None \<and> 0 < unat (history_size m) \<and>
     length (samples m) = unat (history_size m) \<and> unat (m_count m) \<le> unat (history_size m)"

text \<open>
  The write index wraps with \<open>head_\<close>: its increment is harmless unless it overflows while
  the history size is not a divisor of 2^64.
\<close>

definition head_ok :: "MetricsCollector \<Rightarrow> bool" where
  "head_ok m \<longleftrightarrow> unat (history_size m) dvd 2 ^ 64 \<or> unat (head m) < 2 ^ 64 - 1"

lemma mod_head_inc:
  assumes "head_ok m"
  shows "(unat (head m + 1) + k) mod unat (history_size m) = (unat (head m) + 1 + k) mod unat (history_size m)"
proof (cases "unat (head m) < 2 ^ 64 - 1")
  case True
  then show ?thesis by (simp add: unat_inc_no_wrap)
next
  case False
  then have d: "unat (history_size m) dvd 2 ^ 64" using assms by (simp add: head_ok_def)
  have "unat (head m) + 1 = 2 ^ 64" using False unat64_bound [of "head m"] by simp
  then have "unat (head m + 1) = 0" by (simp add: unat_word_ariths)
  moreover have "(unat (head m) + 1 + k) mod unat (history_size m) = k mod unat (history_size m)"
    using d \<open>unat (head m) + 1 = 2 ^ 64\<close> by (metis add.left_neutral dvd_imp_mod_0 mod_add_left_eq)
  ultimately show ?thesis by simp
qed

abbreviation sample_of :: "uint64 \<times> uint64 \<times> size_t \<times> bool \<Rightarrow> MetricsSample" where
  "sample_of r \<equiv> (case r of (now_ns, lat, bs, ok) \<Rightarrow>
     \<lparr>timestamp_us = now_ns div 1000, s_latency_us = lat, s_batch_size = bs, s_success = ok\<rparr>)"

abbreviation record_one :: "uint64 \<times> uint64 \<times> size_t \<times> bool \<Rightarrow> MetricsCollector \<Rightarrow> ub + MetricsCollector" where
  "record_one r m \<equiv> (case r of (now_ns, lat, bs, ok) \<Rightarrow> MetricsCollector_Record now_ns lat bs ok m)"

lemma record_defined:
  assumes "metrics_inv m"
  obtains m' where "MetricsCollector_Record t l b ok m = Inr m'" "metrics_inv m'"
    "history_size m' = history_size m" "head m' = head m + 1"
    "samples m' = (samples m)[unat (head m) mod unat (history_size m) := sample_of (t, l, b, ok)]"
    "unat (m_count m') = min (unat (m_count m) + 1) (unat (history_size m))"
proof -
  let ?H = "unat (history_size m)"
  have idx: "unat (head m mod history_size m) = unat (head m) mod ?H" by (simp add: unat_mod)
  have inv: "samples_ptr m \<noteq> None" "0 < ?H" "length (samples m) = ?H" "unat (m_count m) \<le> ?H"
    using assms by (auto simp: metrics_inv_def)
  then have bound: "unat (head m) mod ?H < length (samples m)" and nz: "history_size m \<noteq> 0" by auto
  obtain m' where r: "MetricsCollector_Record t l b ok m = Inr m'"
    using inv bound nz idx by (simp add: MetricsCollector_Record_def Let_def)
  have lt: "m_count m < history_size m \<longleftrightarrow> unat (m_count m) < ?H" by (simp add: word_less_nat_alt)
  have cnt: "unat (m_count m') = min (unat (m_count m) + 1) ?H"
  proof (cases "unat (m_count m) < ?H")
    case True
    then have "unat (m_count m + 1) = unat (m_count m) + 1"
      using unat64_bound [of "history_size m"] by (intro unat_inc_no_wrap) simp
    then show ?thesis using r True inv idx bound lt
      by (auto simp: MetricsCollector_Record_def Let_def split: if_splits)
  next
    case False
    then show ?thesis using r inv idx bound lt
      by (auto simp: MetricsCollector_Record_def Let_def split: if_splits)
  qed
  show thesis
  proof (rule that [OF r])
    show "history_size m' = history_size m" "head m' = head m + 1"
      "samples m' = (samples m)[unat (head m) mod ?H := sample_of (t, l, b, ok)]"
      using r idx inv by (auto simp: MetricsCollector_Record_def Let_def split: if_splits)
    show "unat (m_count m') = min (unat (m_count m) + 1) ?H" by (rule cnt)
    show "metrics_inv m'"
      using r cnt inv by (auto simp: metrics_inv_def MetricsCollector_Record_def Let_def split: if_splits)
  qed
qed

lemma window_record:
  assumes inv: "metrics_inv m" and ok: "head_ok m" and r: "MetricsCollector_Record t l b s m = Inr m'"
  shows "window m' =
    (if length (window m) < unat (history_size m) then window m else tl (window m)) @ [sample_of (t, l, b, s)]"
proof -
  let ?H = "unat (history_size m)" and ?c = "unat (m_count m)" and ?h = "unat (head m)"
  let ?s = "sample_of (t, l, b, s)" and ?c' = "unat (m_count m')"
  obtain m1 where m1: "MetricsCollector_Record t l b s m = Inr m1" and f: "history_size m1 = history_size m"
    "head m1 = head m + 1" "samples m1 = (samples m)[?h mod ?H := ?s]" "unat (m_count m1) = min (?c + 1) ?H"
    using record_defined [OF inv] by metis
  have m': "m1 = m'" using m1 r by simp
  have bnd: "0 < ?H" "length (samples m) = ?H" "?c \<le> ?H" using inv by (auto simp: metrics_inv_def)
  have w: "window m' = ring_window ((samples m)[?h mod ?H := ?s]) ?H (unat (head m + 1)) (min (?c + 1) ?H)"
    using f m' by (simp add: window_def ring_window_def Let_def)
  have "window m = ring_window (samples m) ?H ?h ?c" by (simp add: window_def ring_window_def Let_def)
  then show ?thesis
    using ring_window_step [OF bnd mod_head_inc [OF ok], of ?s] w by (simp add: ring_window_def)
qed

subsection \<open>Runs of the collector\<close>

text \<open>A run records a list of requests: clock reading, latency, batch size, success.\<close>

fun record_all :: "(uint64 \<times> uint64 \<times> size_t \<times> bool) list \<Rightarrow> MetricsCollector \<Rightarrow> ub + MetricsCollector" where
  "record_all [] m = Inr m"
| "record_all (r # rs) m = (case record_one r m of Inl e \<Rightarrow> Inl e | Inr m' \<Rightarrow> record_all rs m')"

lemma record_all_snoc:
  "record_all (rs @ [r]) m = (case record_all rs m of Inl e \<Rightarrow> Inl e | Inr m' \<Rightarrow> record_one r m')"
  by (induction rs arbitrary: m) (auto split: sum.splits prod.splits)

abbreviation lat_of :: "uint64 \<times> uint64 \<times> size_t \<times> bool \<Rightarrow> uint64" where
  "lat_of r \<equiv> fst (snd r)"

abbreviation ok_of :: "uint64 \<times> uint64 \<times> size_t \<times> bool \<Rightarrow> bool" where
  "ok_of r \<equiv> snd (snd (snd r))"

text \<open>What the fields must be after the requests \<open>rs\<close> were recorded by a new collector.\<close>

definition aggregates :: "(uint64 \<times> uint64 \<times> size_t \<times> bool) list \<Rightarrow> MetricsCollector \<Rightarrow> bool" where
  "aggregates rs m \<longleftrightarrow>
     m_total_requests m = of_nat (length rs) \<and>
     m_success_count m = of_nat (length (filter ok_of rs)) \<and>
     m_error_count m = of_nat (length (filter (\<lambda>r. \<not> ok_of r) rs)) \<and>
     latency_sum m = sum_list (map lat_of rs) \<and>
     latency_min m = Min (insert UINT64_MAX (lat_of ` set rs)) \<and>
     latency_max m = Max (insert 0 (lat_of ` set rs))"

lemma Min_insert_snoc:
  fixes x :: "'a :: linorder"
  assumes "finite A"
  shows "Min (insert a (insert x A)) = (if x < Min (insert a A) then x else Min (insert a A))"
proof -
  have "Min (insert x (insert a A)) = min x (Min (insert a A))" using assms by (intro Min_insert) auto
  then show ?thesis by (subst insert_commute) (auto simp only: min_def less_le_not_le split: if_splits)
qed

lemma Max_insert_snoc:
  fixes x :: "'a :: linorder"
  assumes "finite A"
  shows "Max (insert a (insert x A)) = (if x > Max (insert a A) then x else Max (insert a A))"
proof -
  have "Max (insert x (insert a A)) = max x (Max (insert a A))" using assms by (intro Max_insert) auto
  then show ?thesis by (subst insert_commute) (auto simp only: max_def less_le_not_le split: if_splits)
qed

lemma aggregates_record:
  assumes "metrics_inv m" and "aggregates rs m" and "MetricsCollector_Record t l b s m = Inr m'"
  shows "aggregates (rs @ [(t, l, b, s)]) m'"
proof -
  have ptr: "samples_ptr m \<noteq> None" using assms(1) by (simp add: metrics_inv_def)
  have f: "m_total_requests m' = m_total_requests m + 1"
    "m_success_count m' = (if s then m_success_count m + 1 else m_success_count m)"
    "m_error_count m' = (if s then m_error_count m else m_error_count m + 1)"
    "latency_sum m' = latency_sum m + l"
    "latency_min m' = (if l < latency_min m then l else latency_min m)"
    "latency_max m' = (if l > latency_max m then l else latency_max m)"
    using ptr assms(3) by (auto simp: MetricsCollector_Record_def Let_def split: if_splits)
  have "finite (lat_of ` set rs)" by simp
  note mm = Min_insert_snoc [OF this] Max_insert_snoc [OF this]
  have img: "lat_of ` set (rs @ [(t, l, b, s)]) = insert l (lat_of ` set rs)" by auto
  note a = assms(2) [unfolded aggregates_def]
  have "latency_min m' = Min (insert UINT64_MAX (lat_of ` set (rs @ [(t, l, b, s)])))"
    unfolding img mm f using a by simp
  moreover have "latency_max m' = Max (insert 0 (lat_of ` set (rs @ [(t, l, b, s)])))"
    unfolding img mm f using a by simp
  ultimately show ?thesis using a f unfolding aggregates_def by simp
qed

lemma record_all_run:
  assumes "metrics_inv m" and "aggregates [] m" and "window m = []" and "head m = 0"
    and "unat (history_size m) dvd 2 ^ 64 \<or> length rs < 2 ^ 64"
  shows "\<exists>m'. record_all rs m = Inr m' \<and> metrics_inv m' \<and> aggregates rs m' \<and>
    history_size m' = history_size m \<and> head m' = of_nat (length rs) \<and>
    window m' = drop (length rs - unat (history_size m)) (map sample_of rs)"
  using assms(5)
proof (induction rs rule: rev_induct)
  case Nil
  then show ?case using assms by simp
next
  case (snoc r rs)
  let ?H = "unat (history_size m)"
  obtain m1 where m1: "record_all rs m = Inr m1" "metrics_inv m1" "aggregates rs m1"
    "history_size m1 = history_size m" "head m1 = of_nat (length rs)"
    "window m1 = drop (length rs - ?H) (map sample_of rs)"
    using snoc by auto
  obtain t l b ok where r: "r = (t, l, b, ok)" by (metis prod_cases4)
  obtain m2 where m2: "MetricsCollector_Record t l b ok m1 = Inr m2" "metrics_inv m2"
    "history_size m2 = history_size m1" "head m2 = head m1 + 1"
    using record_defined [OF m1(2)] by metis
  have "head_ok m1"
    using snoc.prems m1 by (auto simp: head_ok_def unat_of_nat take_bit_nat_eq_self)
  note w = window_record [OF m1(2) this m2(1)]
  have H: "0 < ?H" using assms(1) by (simp add: metrics_inv_def)
  have "window m2 = drop (length (rs @ [r]) - ?H) (map sample_of (rs @ [r]))"
  proof (cases "length rs < ?H")
    case True
    then show ?thesis using w m1 r by simp
  next
    case False
    then have "length (window m1) = ?H" "length (rs @ [r]) - ?H = Suc (length rs - ?H)" using m1 by auto
    then show ?thesis using w m1 r False H by (simp add: drop_Suc tl_drop)
  qed
  then show ?case using m1 m2 r aggregates_record [OF m1(2,3) m2(1)]
    by (auto simp: record_all_snoc)
qed

lemma metrics_created:
  assumes "tn_metrics_create H h = (Some x, h')" and "unat H < 2 ^ 59"
  shows "metrics_inv (impl x)" "aggregates [] (impl x)" "window (impl x) = []" "head (impl x) = 0"
    "history_size (impl x) = H"
proof -
  obtain h1 h2 where c: "MetricsCollector_ctor H h1 = (impl x, h2)" "MetricsCollector_IsValid (impl x)"
    using assms(1) by (auto simp: tn_metrics_create_def c_api_create_def
        split: prod.splits option.splits if_splits)
  define m where "m = impl x"
  have bytes: "unat (H * 32) = unat H * 32" using assms(2) unat_mult_no_wrap [of H 32] by simp
  have fields: "samples_ptr m \<noteq> None" "H * 32 \<noteq> 0" "samples m = replicate (unat H) MetricsSample_zero"
    "history_size m = H" "head m = 0" "m_count m = 0" "aggregates [] m"
    using c bytes by (auto simp: m_def [symmetric] MetricsCollector_ctor_def MetricsCollector_IsValid_def Let_def
        sizeof_MetricsSample_def aggregates_def uk_zalloc_eq split: prod.splits if_splits)
  moreover have "0 < unat H" using fields(2) by (cases "H = 0") (auto simp: unat_gt_0)
  ultimately show "metrics_inv (impl x)" "aggregates [] (impl x)" "window (impl x) = []" "head (impl x) = 0"
    "history_size (impl x) = H"
    by (auto simp: m_def [symmetric] metrics_inv_def window_def)
qed

text \<open>
  C8: the collector refines its specification. Created for \<open>H\<close> samples, fewer than 2^59 so that the
  size of the array does not wrap, and fed any list of requests, it never leaves its buffer, its ring holds exactly the last \<open>H\<close> requests in
  order, and its counters, sum, minimum and maximum are those of the whole list (modulo 2^64
  for the counters and the sum). The history size used by the API, 1024, divides 2^64, so
  there is no bound on the number of requests; otherwise \<open>head_\<close> must not overflow.
\<close>

theorem metrics_run_refines:
  assumes "tn_metrics_create H h = (Some x, h')" and "unat H < 2 ^ 59"
    and "unat H dvd 2 ^ 64 \<or> length rs < 2 ^ 64"
  shows "\<exists>m. record_all rs (impl x) = Inr m \<and> window m = drop (length rs - unat H) (map sample_of rs) \<and>
    m_total_requests m = of_nat (length rs) \<and>
    m_success_count m = of_nat (length (filter ok_of rs)) \<and>
    m_error_count m = of_nat (length (filter (\<lambda>r. \<not> ok_of r) rs)) \<and>
    latency_sum m = sum_list (map lat_of rs) \<and>
    latency_min m = Min (insert UINT64_MAX (lat_of ` set rs)) \<and>
    latency_max m = Max (insert 0 (lat_of ` set rs))"
proof -
  note c = metrics_created [OF assms(1,2)]
  show ?thesis using record_all_run [OF c(1-4), of rs] assms(3) c(5) by (auto simp: aggregates_def)
qed

lemmas metrics_eval = tn_defs demo_heap_def tn_metrics_create_def MetricsCollector_ctor_def
  MetricsCollector_IsValid_def MetricsCollector_dtor_def sizeof_MetricsCollector_def
  sizeof_MetricsSample_def

theorem metrics_run_refines_witness:
  "\<exists>x h' m. tn_metrics_create 2 demo_heap = (Some x, h') \<and>
     record_all [(1000, 5, 1, True), (2000, 9, 1, False), (3000, 7, 1, True)] (impl x) = Inr m \<and>
     window m = [sample_of (2000, 9, 1, False), sample_of (3000, 7, 1, True)] \<and>
     m_total_requests m = 3 \<and> m_error_count m = 1 \<and> latency_sum m = 21"
proof -
  obtain x h' where c: "tn_metrics_create 2 demo_heap = (Some x, h')" by (simp add: metrics_eval)
  show ?thesis
    using c metrics_run_refines [OF c, of "[(1000, 5, 1, True), (2000, 9, 1, False), (3000, 7, 1, True)]"]
    by auto
qed

text \<open>
  What \<open>tn_metrics_collect\<close> reports after a non-empty run whose latencies sum to less
  than 2^64: the counters add up, the average lies between the minimum and the maximum, and
  all three percentiles are that average (the percentiles themselves are not computed).
\<close>

theorem metrics_collect_reports:
  assumes "tn_metrics_create H h = (Some x, h')" and "unat H < 2 ^ 59"
    and "rs \<noteq> []" and "length rs < 2 ^ 64" and "(\<Sum>r \<leftarrow> rs. unat (lat_of r)) < 2 ^ 64"
    and "record_all rs (impl x) = Inr m" and "tn_metrics_collect (Some (x\<lparr>impl := m\<rparr>)) (Some d) = (code, Some out)"
  shows "code = TN_INFER_SUCCESS \<and>
    unat (im_success_count out) + unat (im_error_count out) = unat (im_total_requests out) \<and>
    unat (im_total_requests out) = length rs \<and>
    im_min_latency_us out \<le> im_avg_latency_us out \<and> im_avg_latency_us out \<le> im_max_latency_us out \<and>
    latency_p50 out = im_avg_latency_us out \<and> latency_p95 out = im_avg_latency_us out \<and>
    latency_p99 out = im_avg_latency_us out"
proof -
  note c = metrics_created [OF assms(1,2)]
  have agg: "aggregates rs m" and inv: "metrics_inv m"
    using record_all_run [OF c(1-4), of rs] assms(4,6) by auto
  let ?n = "length rs"
  have un: "unat (of_nat k :: uint64) = k" if "k \<le> ?n" for k
    using that assms(4) by (simp add: unat_of_nat take_bit_nat_eq_self)
  have cnt: "unat (m_total_requests m) = ?n" "unat (m_success_count m) = length (filter ok_of rs)"
    "unat (m_error_count m) = length (filter (\<lambda>r. \<not> ok_of r) rs)"
    using agg by (auto simp: aggregates_def un)
  have pos: "m_total_requests m > 0"
    using cnt(1) assms(3) by (simp add: word_less_nat_alt)
  let ?ls = "map lat_of rs"
  have avg: "unat (latency_sum m div m_total_requests m) = (\<Sum>w \<leftarrow> ?ls. unat w) div length (map unat ?ls)"
    using agg assms(5) cnt(1) unat_sum_list_no_wrap [of ?ls] by (simp add: aggregates_def unat_div o_def)
  have ends: "latency_min m \<le> w \<and> w \<le> latency_max m" if "w \<in> set ?ls" for w
    using that agg by (auto simp: aggregates_def intro: Min_le Max_ge)
  have "unat (latency_min m) \<le> unat (latency_sum m div m_total_requests m) \<and>
      unat (latency_sum m div m_total_requests m) \<le> unat (latency_max m)"
    unfolding avg using assms(3) ends by (intro mean_between) (auto simp: word_le_nat_alt)
  then show ?thesis
    using assms(7) inv pos cnt sum_length_filter_compl [of ok_of rs]
    by (auto simp: tn_metrics_collect_def MetricsCollector_Collect_def metrics_inv_def Let_def word_le_nat_alt)
qed

theorem metrics_collect_reports_witness:
  "\<exists>x h' m out. tn_metrics_create 2 demo_heap = (Some x, h') \<and>
     record_all [(1000, 5, 1, True), (2000, 9, 1, False), (3000, 7, 1, True)] (impl x) = Inr m \<and>
     (\<exists>d code. tn_metrics_collect (Some (x\<lparr>impl := m\<rparr>)) (Some d) = (code, Some out)) \<and>
     unat (im_total_requests out) = 3 \<and> im_min_latency_us out \<le> im_avg_latency_us out"
proof -
  let ?rs = "[(1000, 5, 1, True), (2000, 9, 1, False), (3000, 7, 1, True)]"
  obtain x h' where c: "tn_metrics_create 2 demo_heap = (Some x, h')" by (simp add: metrics_eval)
  note cr = metrics_created [OF c]
  obtain m where m: "record_all ?rs (impl x) = Inr m" using record_all_run [of "impl x" ?rs] cr by auto
  fix d :: tn_infer_metrics
  obtain code out where o: "tn_metrics_collect (Some (x\<lparr>impl := m\<rparr>)) (Some d) = (code, Some out)"
    by (simp add: tn_metrics_collect_def Let_def)
  have "unat (im_total_requests out) = 3 \<and> im_min_latency_us out \<le> im_avg_latency_us out"
    using metrics_collect_reports [OF c _ _ _ _ m o] by simp
  then show ?thesis using c m o by blast
qed

end
