(* ===== verification/TN_Scheduler.thy ===== *)
theory TN_Scheduler
  imports Uk_Heap
begin

text \<open>
  The scheduler (\<open>scheduler.hpp\<close>, \<open>scheduler.cpp\<close>): at this commit it only remembers its
  mode; \<open>AddTask\<close> accepts every task and drops it, \<open>Run\<close> does nothing. A task function is
  a nullable address.
\<close>

record Scheduler =
  preemptive :: bool

definition sizeof_Scheduler :: size_t where "sizeof_Scheduler = 1"

definition Scheduler_ctor :: "bool \<Rightarrow> uk_alloc \<Rightarrow> Scheduler \<times> uk_alloc" where
  "Scheduler_ctor preempt h = (\<lparr>preemptive = preempt\<rparr>, h)"

definition Scheduler_dtor :: "Scheduler \<Rightarrow> uk_alloc \<Rightarrow> uk_alloc" where
  "Scheduler_dtor s h = h"

definition Scheduler_AddTask :: "addr option \<Rightarrow> addr option \<Rightarrow> int \<Rightarrow> Scheduler \<Rightarrow> int \<times> Scheduler" where
  "Scheduler_AddTask fn arg priority s = (0, s)"

definition Scheduler_Run :: "Scheduler \<Rightarrow> Scheduler" where
  "Scheduler_Run s = s"

definition Scheduler_IsValid :: "Scheduler \<Rightarrow> bool" where
  "Scheduler_IsValid s \<longleftrightarrow> True"

type_synonym tn_scheduler = "Scheduler c_handle"

definition tn_scheduler_create :: "bool \<Rightarrow> uk_alloc \<Rightarrow> tn_scheduler option \<times> uk_alloc" where
  "tn_scheduler_create preempt h =
     c_api_create sizeof_Scheduler (Scheduler_ctor preempt) Scheduler_IsValid Scheduler_dtor h"

definition tn_scheduler_destroy :: "tn_scheduler option \<Rightarrow> uk_alloc \<Rightarrow> int \<times> uk_alloc" where
  "tn_scheduler_destroy scheduler h =
     (case scheduler of None \<Rightarrow> (TN_INFER_ERR_INVALID, h)
      | Some x \<Rightarrow> (TN_INFER_SUCCESS, c_api_destroy Scheduler_dtor x h))"

definition tn_scheduler_add_task ::
    "tn_scheduler option \<Rightarrow> addr option \<Rightarrow> addr option \<Rightarrow> int \<Rightarrow> int \<times> tn_scheduler option" where
  "tn_scheduler_add_task scheduler fn arg priority =
     (case scheduler of None \<Rightarrow> (TN_INFER_ERR_INVALID, None)
      | Some x \<Rightarrow> if fn = None then (TN_INFER_ERR_INVALID, scheduler)
                  else (case Scheduler_AddTask fn arg priority (impl x) of
                          (r, s) \<Rightarrow> (r, Some (x\<lparr>impl := s\<rparr>))))"

definition Scheduler_owns :: "Scheduler \<Rightarrow> addr set" where
  "Scheduler_owns s = {}"

interpretation scheduler: cpp_class Scheduler_ctor Scheduler_dtor Scheduler_owns "\<lambda>_. True"
  by unfold_locales (auto simp: Scheduler_ctor_def Scheduler_dtor_def Scheduler_owns_def gained_refl lost_refl)

end
