(* ===== verification/TN_Threadpool.thy ===== *)
theory TN_Threadpool
  imports Uk_Heap
begin

text \<open>
  The thread pool (\<open>threadpool.hpp\<close>, \<open>threadpool.cpp\<close>). At this commit the constructor
  allocates the task queue and the worker table but starts no thread, \<open>Submit\<close> accepts a
  task and drops it, \<open>Wait\<close> returns at once, and a worker only spins until shutdown. The
  state is the object's; the worker's loop reads the shutdown flag from a trace of the
  values it takes.
\<close>

record Task =
  t_fn :: "addr option"
  t_arg :: "addr option"
  t_priority :: int
  submit_time :: uint64
  t_next :: "addr option"

definition Task_default :: Task where
  "Task_default = \<lparr>t_fn = None, t_arg = None, t_priority = 0, submit_time = 0, t_next = None\<rparr>"

definition sizeof_Task :: size_t where "sizeof_Task = 40"

record ThreadPoolConfig =
  thread_count :: size_t
  queue_size :: size_t
  enable_priority :: bool
  enable_preemptive :: bool

definition ThreadPoolConfig_default :: ThreadPoolConfig where
  "ThreadPoolConfig_default =
     \<lparr>thread_count = 4, queue_size = 256, enable_priority = True, enable_preemptive = True\<rparr>"

record ThreadPool =
  tp_config :: ThreadPoolConfig
  workers :: "addr option"
  task_queue :: "addr option"
  task_tail :: "addr option"
  pending :: size_t
  running :: size_t
  queue_capacity :: size_t
  tp_shutdown :: bool

definition sizeof_ThreadPool :: size_t where "sizeof_ThreadPool = 88"

text \<open>
  The worker's loop: spin while the flag reads \<open>False\<close>. \<open>reads\<close> are the successive values
  of \<open>shutdown_\<close>; the result is the number of iterations, \<open>None\<close> if the flag never becomes
  true within the trace.
\<close>

fun WorkerThread :: "bool list \<Rightarrow> nat option" where
  "WorkerThread [] = None"
| "WorkerThread (stop # reads) = (if stop then Some 0 else map_option Suc (WorkerThread reads))"

definition ThreadPool_ctor :: "ThreadPoolConfig \<Rightarrow> uk_alloc \<Rightarrow> ThreadPool \<times> uk_alloc" where
  "ThreadPool_ctor config h =
     (let cap = (if queue_size config > 0 then queue_size config else 256);
          pool = \<lparr>tp_config = config, workers = None, task_queue = None, task_tail = None,
                  pending = 0, running = 0, queue_capacity = cap, tp_shutdown = False\<rparr>
      in case uk_zalloc (cap * sizeof_Task) h of
           (None, h1) \<Rightarrow> (pool, h1)
         | (Some q, h1) \<Rightarrow>
             (case uk_zalloc (thread_count config * sizeof_ptr) h1 of
                (None, h2) \<Rightarrow> (pool, uk_free (Some q) h2)
              | (Some w, h2) \<Rightarrow> (pool\<lparr>task_queue := Some q, workers := Some w\<rparr>, h2)))"

definition ThreadPool_dtor :: "ThreadPool \<Rightarrow> uk_alloc \<Rightarrow> uk_alloc" where
  "ThreadPool_dtor p h =
     (let h1 = (if workers p \<noteq> None then uk_free (workers p) h else h)
      in if task_queue p \<noteq> None then uk_free (task_queue p) h1 else h1)"

definition ThreadPool_Submit :: "addr option \<Rightarrow> addr option \<Rightarrow> int \<Rightarrow> ThreadPool \<Rightarrow> int \<times> ThreadPool" where
  "ThreadPool_Submit fn arg priority p = (0, p)"

definition ThreadPool_Wait :: "ThreadPool \<Rightarrow> int" where
  "ThreadPool_Wait p = 0"

definition ThreadPool_GetLoad :: "bool \<Rightarrow> bool \<Rightarrow> ThreadPool \<Rightarrow> int \<times> size_t option \<times> size_t option" where
  "ThreadPool_GetLoad want_pending want_running p =
     (if \<not> want_pending \<and> \<not> want_running then (- 1, None, None)
      else (0, if want_pending then Some (pending p) else None,
               if want_running then Some (running p) else None))"

definition ThreadPool_IsValid :: "ThreadPool \<Rightarrow> bool" where
  "ThreadPool_IsValid p \<longleftrightarrow> workers p \<noteq> None"

subsection \<open>The C API\<close>

type_synonym tn_threadpool = "ThreadPool c_handle"

definition tn_threadpool_create :: "ThreadPoolConfig option \<Rightarrow> uk_alloc \<Rightarrow> tn_threadpool option \<times> uk_alloc" where
  "tn_threadpool_create config h =
     (case config of None \<Rightarrow> (None, h)
      | Some c \<Rightarrow>
          let cpp_config = ThreadPoolConfig_default\<lparr>thread_count := thread_count c, queue_size := queue_size c,
                enable_priority := enable_priority c, enable_preemptive := enable_preemptive c\<rparr>
          in c_api_create sizeof_ThreadPool (ThreadPool_ctor cpp_config) ThreadPool_IsValid ThreadPool_dtor h)"

definition tn_threadpool_destroy :: "tn_threadpool option \<Rightarrow> uk_alloc \<Rightarrow> int \<times> uk_alloc" where
  "tn_threadpool_destroy pool h =
     (case pool of None \<Rightarrow> (TN_INFER_ERR_INVALID, h)
      | Some x \<Rightarrow> (TN_INFER_SUCCESS, c_api_destroy ThreadPool_dtor x h))"

definition tn_threadpool_submit ::
    "tn_threadpool option \<Rightarrow> addr option \<Rightarrow> addr option \<Rightarrow> int \<Rightarrow> int \<times> tn_threadpool option" where
  "tn_threadpool_submit pool fn arg priority =
     (case pool of None \<Rightarrow> (TN_INFER_ERR_INVALID, None)
      | Some x \<Rightarrow> if fn = None then (TN_INFER_ERR_INVALID, pool)
                  else (case ThreadPool_Submit fn arg priority (impl x) of
                          (r, p) \<Rightarrow> (r, Some (x\<lparr>impl := p\<rparr>))))"

definition tn_threadpool_wait :: "tn_threadpool option \<Rightarrow> int" where
  "tn_threadpool_wait pool =
     (case pool of None \<Rightarrow> TN_INFER_ERR_INVALID | Some x \<Rightarrow> ThreadPool_Wait (impl x))"

subsection \<open>Ownership\<close>

definition ThreadPool_owns :: "ThreadPool \<Rightarrow> addr set" where
  "ThreadPool_owns p = set_option (workers p) \<union> set_option (task_queue p)"

definition ThreadPool_ok :: "ThreadPool \<Rightarrow> bool" where
  "ThreadPool_ok p \<longleftrightarrow> workers p = None \<and> task_queue p = None \<or> workers p \<noteq> task_queue p"

lemma ThreadPool_ctor_facts:
  assumes "heap_wf h" and "ThreadPool_ctor c h = (x, h')"
  shows "gained h h' (ThreadPool_owns x) \<and> ThreadPool_ok x"
proof -
  let ?cap = "if queue_size c > 0 then queue_size c else 256"
  obtain r1 h1 where z1: "uk_zalloc (?cap * sizeof_Task) h = (r1, h1)" by fastforce
  note g1 = uk_zalloc_gained [OF assms(1) z1]
  show ?thesis
  proof (cases r1)
    case None
    then show ?thesis using assms z1 g1
      by (auto simp: ThreadPool_ctor_def ThreadPool_owns_def ThreadPool_ok_def Let_def)
  next
    case (Some q)
    obtain r2 h2 where z2: "uk_zalloc (thread_count c * sizeof_ptr) h1 = (r2, h2)" by fastforce
    note g2 = uk_zalloc_gained [OF gained_wf [OF g1] z2]
    note g12 = gained_trans [OF g1 g2] and dis = gained_disjoint [OF g1 g2]
    show ?thesis
    proof (cases r2)
      case None
      then have "lost h2 (uk_free (Some q) h2) {q}"
        using g12 gained_dom [OF g12] Some by (intro uk_free_lost) auto
      then have "gained h (uk_free (Some q) h2) {}" using g12 Some None by (auto intro: gained_lost)
      then show ?thesis using assms z1 z2 Some None
        by (auto simp: ThreadPool_ctor_def ThreadPool_owns_def ThreadPool_ok_def Let_def)
    next
      case (Some w)
      then show ?thesis using assms z1 z2 g12 dis \<open>r1 = Some q\<close>
        by (auto simp: ThreadPool_ctor_def ThreadPool_owns_def ThreadPool_ok_def Let_def insert_commute)
    qed
  qed
qed

lemma ThreadPool_dtor_loses:
  assumes "heap_wf h" and "ThreadPool_ok x" and "ThreadPool_owns x \<subseteq> dom (blocks h)"
  shows "lost h (ThreadPool_dtor x h) (ThreadPool_owns x)"
proof -
  let ?h1 = "uk_free (workers x) h"
  have l1: "lost h ?h1 (set_option (workers x))"
    using assms by (cases "workers x") (auto simp: ThreadPool_owns_def lost_refl uk_free_lost)
  have live: "set_option (task_queue x) \<subseteq> dom (blocks ?h1)"
    using assms by (intro lost_live [OF l1]) (auto simp: ThreadPool_owns_def ThreadPool_ok_def)
  have "lost ?h1 (uk_free (task_queue x) ?h1) (set_option (task_queue x))"
    using lost_wf [OF l1] live by (cases "task_queue x") (auto simp: lost_refl uk_free_lost)
  from lost_trans [OF l1 this] show ?thesis
    by (auto simp: ThreadPool_dtor_def ThreadPool_owns_def Let_def)
qed

interpretation threadpool: cpp_class ThreadPool_ctor ThreadPool_dtor ThreadPool_owns ThreadPool_ok
  by unfold_locales (auto dest: ThreadPool_ctor_facts intro: ThreadPool_dtor_loses)

subsection \<open>The worker\<close>

text \<open>A worker leaves its loop as soon as it reads the flag set, and never before.\<close>

lemma WorkerThread_stops:
  "WorkerThread reads = Some n \<longleftrightarrow> n < length reads \<and> reads ! n \<and> (\<forall>i<n. \<not> reads ! i)"
proof (induction reads arbitrary: n)
  case (Cons stop reads)
  show ?case
  proof (cases n)
    case (Suc k)
    then show ?thesis using Cons.IH [of k] by (auto simp: less_Suc_eq_0_disj)
  qed (use Cons in auto)
qed simp

end
