(* ===== verification/MNN_Wrapper.thy ===== *)
theory MNN_Wrapper
  imports Uk_Heap
begin

text \<open>
  The wrapper around the inference engine (\<open>mnn_wrapper.hpp\<close>, \<open>mnn_wrapper.cpp\<close>). The
  engine the framework links is a prebuilt library, so its interface is a parameter: the
  record \<open>mnn_env\<close> of the functions the wrapper and the API call, over abstract types of
  networks, sessions and tensors. A call that changes a session returns the new session.
  \<open>host_init\<close> is the uninitialised content of a host tensor made for a device tensor; its
  length is the size of that buffer in bytes.
\<close>

datatype ErrorCode = NO_ERROR | OUT_OF_MEMORY | NOT_SUPPORT | COMPUTE_SIZE_ERROR | NO_EXECUTION
  | INVALID_VALUE | INPUT_DATA_ERROR | CALL_BACK_STOP | TENSOR_NOT_SUPPORT | TENSOR_NEED_DIVIDE
  | FILE_CREATE_FAILED | FILE_REMOVE_FAILED | FILE_OPEN_FAILED | FILE_CLOSE_FAILED
  | FILE_RESIZE_FAILED | FILE_SEEK_FAILED | FILE_NOT_EXIST | FILE_UNMAP_FAILED

type_synonym byte = "8 word"

record ScheduleConfig =
  sc_type :: int
  numThread :: int

definition MNN_FORWARD_CPU :: int where "MNN_FORWARD_CPU = 0"

record ('net, 'sess, 'tensor) mnn_env =
  stat_size :: "string \<Rightarrow> int option"
  createFromFile :: "string \<Rightarrow> 'net option"
  createFromBuffer :: "byte list \<Rightarrow> 'net option"
  createSession :: "'net \<Rightarrow> ScheduleConfig \<Rightarrow> 'sess option"
  getSessionInput :: "'net \<Rightarrow> 'sess \<Rightarrow> c_str \<Rightarrow> 'tensor option"
  getSessionOutput :: "'net \<Rightarrow> 'sess \<Rightarrow> c_str \<Rightarrow> 'tensor option"
  getSessionInputAll :: "'net \<Rightarrow> 'sess \<Rightarrow> (string \<times> 'tensor) list"
  getSessionOutputAll :: "'net \<Rightarrow> 'sess \<Rightarrow> (string \<times> 'tensor) list"
  resizeTensor :: "'net \<Rightarrow> 'sess \<Rightarrow> 'tensor \<Rightarrow> int list \<Rightarrow> 'sess"
  resizeSession :: "'net \<Rightarrow> 'sess \<Rightarrow> 'sess"
  runSession :: "'net \<Rightarrow> 'sess \<Rightarrow> ErrorCode \<times> 'sess"
  elementSize :: "'sess \<Rightarrow> 'tensor \<Rightarrow> int"
  host_init :: "'sess \<Rightarrow> 'tensor \<Rightarrow> byte list"
  copyFromHostTensor :: "'sess \<Rightarrow> 'tensor \<Rightarrow> byte list \<Rightarrow> 'sess"
  copyToHostTensor :: "'sess \<Rightarrow> 'tensor \<Rightarrow> byte list \<Rightarrow> byte list"

record ('net, 'sess) MNNWrapper =
  interpreter :: "'net option"
  session :: "'sess option"
  model_size :: size_t

definition MNNWrapper_ctor :: "('net, 'sess) MNNWrapper" where
  "MNNWrapper_ctor = \<lparr>interpreter = None, session = None, model_size = 0\<rparr>"

text \<open>
  The destructor releases the session through the interpreter; the result is the session
  released, if any, and the wrapper the members of which are then destroyed.
\<close>

definition MNNWrapper_dtor :: "('net, 'sess) MNNWrapper \<Rightarrow> 'sess option \<times> ('net, 'sess) MNNWrapper" where
  "MNNWrapper_dtor w =
     (if interpreter w \<noteq> None \<and> session w \<noteq> None then (session w, w\<lparr>session := None\<rparr>) else (None, w))"

definition LoadFromFile ::
    "('net, 'sess, 'tensor) mnn_env \<Rightarrow> c_str \<Rightarrow> ('net, 'sess) MNNWrapper \<Rightarrow> int \<times> ('net, 'sess) MNNWrapper" where
  "LoadFromFile env path w =
     (case path of None \<Rightarrow> (- 1, w)
      | Some p \<Rightarrow>
          (case stat_size env p of
             None \<Rightarrow> (- 1, w)
           | Some st_size \<Rightarrow>
               let w1 = w\<lparr>model_size := of_int st_size\<rparr>
               in case createFromFile env p of
                    None \<Rightarrow> (- 1, w1)
                  | Some net \<Rightarrow> (0, w1\<lparr>interpreter := Some net\<rparr>)))"

text \<open>A buffer is its bytes; \<open>None\<close> is the null pointer, its length the \<open>size\<close> argument.\<close>

definition LoadFromBuffer ::
    "('net, 'sess, 'tensor) mnn_env \<Rightarrow> byte list option \<Rightarrow> ('net, 'sess) MNNWrapper \<Rightarrow> int \<times> ('net, 'sess) MNNWrapper" where
  "LoadFromBuffer env buffer w =
     (case buffer of None \<Rightarrow> (- 1, w)
      | Some bytes \<Rightarrow>
          if length bytes = 0 then (- 1, w)
          else (case createFromBuffer env bytes of
                  None \<Rightarrow> (- 1, w)
                | Some net \<Rightarrow> (0, w\<lparr>interpreter := Some net, model_size := of_nat (length bytes)\<rparr>)))"

definition CreateSession ::
    "('net, 'sess, 'tensor) mnn_env \<Rightarrow> int \<Rightarrow> ('net, 'sess) MNNWrapper \<Rightarrow> int \<times> ('net, 'sess) MNNWrapper" where
  "CreateSession env num_threads w =
     (case interpreter w of None \<Rightarrow> (- 1, w)
      | Some net \<Rightarrow>
          let s = createSession env net \<lparr>sc_type = MNN_FORWARD_CPU, numThread = num_threads\<rparr>;
              w1 = w\<lparr>session := s\<rparr>
          in if s = None then (- 1, w1) else (0, w1))"

text \<open>The guard \<open>!session_ || !interpreter_\<close> of the accessors.\<close>

definition ready :: "('net, 'sess) MNNWrapper \<Rightarrow> ('net \<times> 'sess) option" where
  "ready w = (case (session w, interpreter w) of (Some s, Some n) \<Rightarrow> Some (n, s) | _ \<Rightarrow> None)"

definition GetInputTensor :: "('net, 'sess, 'tensor) mnn_env \<Rightarrow> c_str \<Rightarrow> ('net, 'sess) MNNWrapper \<Rightarrow> 'tensor option" where
  "GetInputTensor env name w =
     (case ready w of None \<Rightarrow> None | Some (n, s) \<Rightarrow> getSessionInput env n s name)"

definition GetOutputTensor :: "('net, 'sess, 'tensor) mnn_env \<Rightarrow> c_str \<Rightarrow> ('net, 'sess) MNNWrapper \<Rightarrow> 'tensor option" where
  "GetOutputTensor env name w =
     (case ready w of None \<Rightarrow> None | Some (n, s) \<Rightarrow> getSessionOutput env n s name)"

definition GetInputTensors ::
    "('net, 'sess, 'tensor) mnn_env \<Rightarrow> ('net, 'sess) MNNWrapper \<Rightarrow> (string \<times> 'tensor) list" where
  "GetInputTensors env w = (case ready w of None \<Rightarrow> [] | Some (n, s) \<Rightarrow> getSessionInputAll env n s)"

definition GetOutputTensors ::
    "('net, 'sess, 'tensor) mnn_env \<Rightarrow> ('net, 'sess) MNNWrapper \<Rightarrow> (string \<times> 'tensor) list" where
  "GetOutputTensors env w = (case ready w of None \<Rightarrow> [] | Some (n, s) \<Rightarrow> getSessionOutputAll env n s)"

definition ResizeInput ::
    "('net, 'sess, 'tensor) mnn_env \<Rightarrow> c_str \<Rightarrow> int list \<Rightarrow> ('net, 'sess) MNNWrapper \<Rightarrow> int \<times> ('net, 'sess) MNNWrapper" where
  "ResizeInput env name dims w =
     (case ready w of None \<Rightarrow> (- 1, w)
      | Some (n, s) \<Rightarrow>
          (case getSessionInput env n s name of
             None \<Rightarrow> (- 1, w)
           | Some t \<Rightarrow> (0, w\<lparr>session := Some (resizeTensor env n s t dims)\<rparr>)))"

definition ResizeSession ::
    "('net, 'sess, 'tensor) mnn_env \<Rightarrow> ('net, 'sess) MNNWrapper \<Rightarrow> int \<times> ('net, 'sess) MNNWrapper" where
  "ResizeSession env w =
     (case ready w of None \<Rightarrow> (- 1, w)
      | Some (n, s) \<Rightarrow> (0, w\<lparr>session := Some (resizeSession env n s)\<rparr>))"

definition Run ::
    "('net, 'sess, 'tensor) mnn_env \<Rightarrow> ('net, 'sess) MNNWrapper \<Rightarrow> int \<times> ('net, 'sess) MNNWrapper" where
  "Run env w =
     (case ready w of None \<Rightarrow> (- 1, w)
      | Some (n, s) \<Rightarrow>
          (case runSession env n s of
             (error, s') \<Rightarrow>
               let w1 = w\<lparr>session := Some s'\<rparr>
               in if error \<noteq> NO_ERROR then (- 1, w1) else (0, w1)))"

definition GetInputCount :: "('net, 'sess, 'tensor) mnn_env \<Rightarrow> ('net, 'sess) MNNWrapper \<Rightarrow> int" where
  "GetInputCount env w =
     (case ready w of None \<Rightarrow> 0 | Some (n, s) \<Rightarrow> int (length (getSessionInputAll env n s)))"

definition GetOutputCount :: "('net, 'sess, 'tensor) mnn_env \<Rightarrow> ('net, 'sess) MNNWrapper \<Rightarrow> int" where
  "GetOutputCount env w =
     (case ready w of None \<Rightarrow> 0 | Some (n, s) \<Rightarrow> int (length (getSessionOutputAll env n s)))"

definition MNNWrapper_IsValid :: "('net, 'sess) MNNWrapper \<Rightarrow> bool" where
  "MNNWrapper_IsValid w \<longleftrightarrow> interpreter w \<noteq> None \<and> session w \<noteq> None"

definition GetModelSize :: "('net, 'sess) MNNWrapper \<Rightarrow> size_t" where
  "GetModelSize w = model_size w"

definition SetModelSize :: "size_t \<Rightarrow> ('net, 'sess) MNNWrapper \<Rightarrow> ('net, 'sess) MNNWrapper" where
  "SetModelSize n w = w\<lparr>model_size := n\<rparr>"

subsection \<open>Lemmas\<close>

lemma ready_iff: "ready w = Some (n, s) \<longleftrightarrow> interpreter w = Some n \<and> session w = Some s"
  by (auto simp: ready_def split: option.splits)

lemma ready_valid: "MNNWrapper_IsValid w \<longleftrightarrow> ready w \<noteq> None"
  by (auto simp: ready_def MNNWrapper_IsValid_def split: option.splits)

lemma wrapper_run_valid: "Run env w = (r, w') \<Longrightarrow> MNNWrapper_IsValid w' = MNNWrapper_IsValid w"
  by (auto simp: Run_def ready_def MNNWrapper_IsValid_def Let_def split: option.splits prod.splits if_splits)

lemma wrapper_run_size: "Run env w = (r, w') \<Longrightarrow> model_size w' = model_size w"
  by (auto simp: Run_def Let_def split: option.splits prod.splits if_splits)

text \<open>A wrapper that was loaded from a file and given a session can be run.\<close>

lemma load_then_session_valid:
  assumes "LoadFromFile env path w0 = (0, w1)" and "CreateSession env k w1 = (0, w2)"
  shows "MNNWrapper_IsValid w2"
    and "\<exists>p n. path = Some p \<and> stat_size env p = Some n \<and> GetModelSize w2 = of_int n"
  using assms by (auto simp: LoadFromFile_def CreateSession_def MNNWrapper_IsValid_def GetModelSize_def Let_def
      split: option.splits if_splits)

end
