(* ===== verification/TN_Loader.thy ===== *)
theory TN_Loader
  imports MNN_Wrapper "HOL-Library.AList"
begin

text \<open>
  The model loader (\<open>loader.hpp\<close>, \<open>loader.cpp\<close>): a size limit and a \<open>std::map\<close> from names
  to owned wrappers, here an association list with distinct keys (\<open>AList\<close>). The nodes of
  the map and the wrappers live and die with the map and are not counted as blocks of the
  heap; the object and its C handle are.

  The second part states what the API relies on as a locale, \<open>model_store\<close> (a store of
  named models with load, unload and lookup), proves the client facts in it, and interprets
  it on the loader.
\<close>

record ('net, 'sess) ModelLoader =
  max_model_size :: size_t
  l_models :: "(string \<times> ('net, 'sess) MNNWrapper) list"

definition sizeof_ModelLoader :: size_t where "sizeof_ModelLoader = 56"

definition ModelLoader_ctor :: "size_t \<Rightarrow> uk_alloc \<Rightarrow> ('net, 'sess) ModelLoader \<times> uk_alloc" where
  "ModelLoader_ctor n h = (\<lparr>max_model_size = n, l_models = []\<rparr>, h)"

definition ModelLoader_dtor :: "('net, 'sess) ModelLoader \<Rightarrow> uk_alloc \<Rightarrow> uk_alloc" where
  "ModelLoader_dtor l h = h"

definition ModelLoader_Load ::
    "('net, 'sess, 'tensor) mnn_env \<Rightarrow> c_str \<Rightarrow> c_str \<Rightarrow> int \<Rightarrow> ('net, 'sess) ModelLoader \<Rightarrow>
     int \<times> ('net, 'sess) ModelLoader" where
  "ModelLoader_Load env path name num_threads l =
     (case (path, name) of
        (Some _, Some nm) \<Rightarrow>
          if map_of (l_models l) nm \<noteq> None then (0, l)
          else
            (case LoadFromFile env path MNNWrapper_ctor of
               (ret, w1) \<Rightarrow>
                 if ret \<noteq> 0 then (ret, l)
                 else
                   (case CreateSession env num_threads w1 of
                      (ret, w2) \<Rightarrow>
                        if ret \<noteq> 0 then (ret, l)
                        else if GetModelSize w2 > max_model_size l then (- 1, l)
                        else (0, l\<lparr>l_models := AList.update nm w2 (l_models l)\<rparr>)))
      | _ \<Rightarrow> (- 1, l))"

definition ModelLoader_Unload :: "c_str \<Rightarrow> ('net, 'sess) ModelLoader \<Rightarrow> int \<times> ('net, 'sess) ModelLoader" where
  "ModelLoader_Unload name l =
     (case name of None \<Rightarrow> (- 1, l)
      | Some nm \<Rightarrow>
          if map_of (l_models l) nm = None then (- 1, l)
          else (0, l\<lparr>l_models := AList.delete nm (l_models l)\<rparr>))"

definition ModelLoader_GetModel :: "c_str \<Rightarrow> ('net, 'sess) ModelLoader \<Rightarrow> ('net, 'sess) MNNWrapper option" where
  "ModelLoader_GetModel name l = (case name of None \<Rightarrow> None | Some nm \<Rightarrow> map_of (l_models l) nm)"

text \<open>The client works on the wrapper through the returned pointer; this writes it back.\<close>

definition ModelLoader_put ::
    "string \<Rightarrow> ('net, 'sess) MNNWrapper \<Rightarrow> ('net, 'sess) ModelLoader \<Rightarrow> ('net, 'sess) ModelLoader" where
  "ModelLoader_put nm w l = l\<lparr>l_models := AList.update nm w (l_models l)\<rparr>"

definition ModelLoader_GetModelCount :: "('net, 'sess) ModelLoader \<Rightarrow> nat" where
  "ModelLoader_GetModelCount l = length (l_models l)"

definition ModelLoader_GetTotalMemoryUsed :: "('net, 'sess) ModelLoader \<Rightarrow> size_t" where
  "ModelLoader_GetTotalMemoryUsed l = foldl (\<lambda>t (_, w). t + GetModelSize w) 0 (l_models l)"

definition ModelLoader_IsValid :: "('net, 'sess) ModelLoader \<Rightarrow> bool" where
  "ModelLoader_IsValid l \<longleftrightarrow> True"

subsection \<open>The C API\<close>

type_synonym ('net, 'sess) tn_loader = "('net, 'sess) ModelLoader c_handle"

definition tn_loader_create :: "size_t \<Rightarrow> uk_alloc \<Rightarrow> ('net, 'sess) tn_loader option \<times> uk_alloc" where
  "tn_loader_create n h =
     c_api_create sizeof_ModelLoader (ModelLoader_ctor n) ModelLoader_IsValid ModelLoader_dtor h"

definition tn_loader_destroy :: "('net, 'sess) tn_loader option \<Rightarrow> uk_alloc \<Rightarrow> int \<times> uk_alloc" where
  "tn_loader_destroy loader h =
     (case loader of None \<Rightarrow> (TN_INFER_ERR_INVALID, h)
      | Some x \<Rightarrow> (TN_INFER_SUCCESS, c_api_destroy ModelLoader_dtor x h))"

definition tn_loader_load ::
    "('net, 'sess, 'tensor) mnn_env \<Rightarrow> c_str \<Rightarrow> c_str \<Rightarrow> ('net, 'sess) tn_loader option \<Rightarrow>
     int \<times> ('net, 'sess) tn_loader option" where
  "tn_loader_load env path name loader =
     (case loader of None \<Rightarrow> (TN_INFER_ERR_INVALID, None)
      | Some x \<Rightarrow>
          if path = None \<or> name = None then (TN_INFER_ERR_INVALID, loader)
          else (case ModelLoader_Load env path name 4 (impl x) of
                  (ret, l) \<Rightarrow>
                    (if ret = 0 then TN_INFER_SUCCESS else TN_INFER_ERR_LOAD_FAILED, Some (x\<lparr>impl := l\<rparr>))))"

definition tn_loader_unload ::
    "c_str \<Rightarrow> ('net, 'sess) tn_loader option \<Rightarrow> int \<times> ('net, 'sess) tn_loader option" where
  "tn_loader_unload name loader =
     (case loader of None \<Rightarrow> (TN_INFER_ERR_INVALID, None)
      | Some x \<Rightarrow>
          if name = None then (TN_INFER_ERR_INVALID, loader)
          else (case ModelLoader_Unload name (impl x) of
                  (ret, l) \<Rightarrow>
                    (if ret = 0 then TN_INFER_SUCCESS else TN_INFER_ERR_NO_MODEL, Some (x\<lparr>impl := l\<rparr>))))"

definition tn_loader_get_model ::
    "c_str \<Rightarrow> ('net, 'sess) tn_loader option \<Rightarrow> ('net, 'sess) MNNWrapper option" where
  "tn_loader_get_model name loader =
     (case loader of None \<Rightarrow> None
      | Some x \<Rightarrow> if name = None then None else ModelLoader_GetModel name (impl x))"

subsection \<open>Ownership\<close>

definition ModelLoader_owns :: "('net, 'sess) ModelLoader \<Rightarrow> addr set" where
  "ModelLoader_owns l = {}"

interpretation loader: cpp_class ModelLoader_ctor ModelLoader_dtor ModelLoader_owns "\<lambda>_. True"
  by unfold_locales (auto simp: ModelLoader_ctor_def ModelLoader_dtor_def ModelLoader_owns_def gained_refl lost_refl)

subsection \<open>The loader as a store of models\<close>

text \<open>
  The contract the API uses: \<open>find\<close> looks a name up; a successful \<open>load\<close> makes its name
  found and changes no other name, and it keeps a model that is already there; a failed
  \<open>load\<close> changes nothing; \<open>unload\<close> succeeds exactly on names that are found and removes
  just that name.
\<close>

locale model_store =
  fixes find :: "'store \<Rightarrow> string \<Rightarrow> 'model option"
    and load :: "string \<Rightarrow> string \<Rightarrow> 'store \<Rightarrow> int \<times> 'store"
    and unload :: "string \<Rightarrow> 'store \<Rightarrow> int \<times> 'store"
  assumes load_ok: "load path nm s = (0, s') \<Longrightarrow>
      (\<exists>m. find s' nm = Some m \<and> find s' = (find s)(nm \<mapsto> m) \<and> (find s nm \<noteq> None \<longrightarrow> find s nm = Some m))"
    and load_err: "load path nm s = (r, s') \<Longrightarrow> r \<noteq> 0 \<Longrightarrow> s' = s"
    and unload_code: "unload nm s = (r, s') \<Longrightarrow> (r = 0) \<longleftrightarrow> find s nm \<noteq> None"
    and unload_find: "unload nm s = (r, s') \<Longrightarrow> find s' = (find s)(nm := None)"
begin

lemma load_found: "load path nm s = (0, s') \<Longrightarrow> find s' nm \<noteq> None"
  using load_ok by fastforce

lemma load_other: "load path nm s = (r, s') \<Longrightarrow> other \<noteq> nm \<Longrightarrow> find s' other = find s other"
  using load_ok load_err by (metis fun_upd_other)

lemma load_keeps: "load path nm s = (r, s') \<Longrightarrow> find s k \<noteq> None \<Longrightarrow> find s' k = find s k"
  using load_ok load_err by (metis fun_upd_apply)

lemma load_unload:
  assumes "load path nm s = (0, s1)" and "unload nm s1 = (r, s2)"
  shows "r = 0" "find s2 = (find s)(nm := None)"
proof -
  show "r = 0" using assms load_found unload_code by metis
  obtain m where "find s1 = (find s)(nm \<mapsto> m)" using load_ok [OF assms(1)] by blast
  then show "find s2 = (find s)(nm := None)" using unload_find [OF assms(2)] by simp
qed

lemma unload_twice: "unload nm s = (r, s1) \<Longrightarrow> unload nm s1 = (r2, s2) \<Longrightarrow> r2 \<noteq> 0"
  using unload_find unload_code by (metis fun_upd_same)

end

definition loader_find :: "('net, 'sess) ModelLoader \<Rightarrow> string \<Rightarrow> ('net, 'sess) MNNWrapper option" where
  "loader_find l nm = ModelLoader_GetModel (Some nm) l"

definition loader_load ::
    "('net, 'sess, 'tensor) mnn_env \<Rightarrow> string \<Rightarrow> string \<Rightarrow> ('net, 'sess) ModelLoader \<Rightarrow> int \<times> ('net, 'sess) ModelLoader" where
  "loader_load env path nm l = ModelLoader_Load env (Some path) (Some nm) 4 l"

definition loader_unload :: "string \<Rightarrow> ('net, 'sess) ModelLoader \<Rightarrow> int \<times> ('net, 'sess) ModelLoader" where
  "loader_unload nm l = ModelLoader_Unload (Some nm) l"

lemma ModelLoader_Load_new:
  assumes "ModelLoader_Load env (Some path) (Some nm) k l = (0, l')" and "map_of (l_models l) nm = None"
  obtains w1 w2 where "LoadFromFile env (Some path) MNNWrapper_ctor = (0, w1)"
    "CreateSession env k w1 = (0, w2)" "GetModelSize w2 \<le> max_model_size l"
    "l' = l\<lparr>l_models := AList.update nm w2 (l_models l)\<rparr>"
  using assms by (auto simp: ModelLoader_Load_def not_less split: prod.splits if_splits)

lemma ModelLoader_Load_fails:
  "ModelLoader_Load env path name k l = (r, l') \<Longrightarrow> r \<noteq> 0 \<Longrightarrow> l' = l"
  by (auto simp: ModelLoader_Load_def split: option.splits prod.splits if_splits)

interpretation ls: model_store loader_find "loader_load env" loader_unload
proof unfold_locales
  fix path nm :: string and s s' :: "('a, 'b) ModelLoader"
  assume load: "loader_load env path nm s = (0, s')"
  show "\<exists>m. loader_find s' nm = Some m \<and> loader_find s' = (loader_find s)(nm \<mapsto> m) \<and>
      (loader_find s nm \<noteq> None \<longrightarrow> loader_find s nm = Some m)"
  proof (cases "map_of (l_models s) nm")
    case None
    then show ?thesis using load unfolding loader_load_def
      by (auto elim!: ModelLoader_Load_new simp: loader_find_def ModelLoader_GetModel_def update_conv fun_eq_iff)
  next
    case (Some m)
    then have "s' = s" using load by (simp add: loader_load_def ModelLoader_Load_def)
    then show ?thesis using Some by (auto simp: loader_find_def ModelLoader_GetModel_def)
  qed
next
  fix path nm :: string and r s and s' :: "('a, 'b) ModelLoader"
  show "loader_load env path nm s = (r, s') \<Longrightarrow> r \<noteq> 0 \<Longrightarrow> s' = s"
    unfolding loader_load_def by (rule ModelLoader_Load_fails)
next
  fix nm :: string and r and s s' :: "('a, 'b) ModelLoader"
  assume u: "loader_unload nm s = (r, s')"
  then show "(r = 0) = (loader_find s nm \<noteq> None)"
    by (auto simp: loader_unload_def ModelLoader_Unload_def loader_find_def ModelLoader_GetModel_def split: if_splits)
  show "loader_find s' = (loader_find s)(nm := None)"
    using u by (auto simp: loader_unload_def ModelLoader_Unload_def loader_find_def ModelLoader_GetModel_def
        delete_conv fun_eq_iff split: if_splits)
qed

subsection \<open>The loader's invariant\<close>

text \<open>Every stored model can be run and is within the size limit; names are distinct.\<close>

definition loader_inv :: "('net, 'sess) ModelLoader \<Rightarrow> bool" where
  "loader_inv l \<longleftrightarrow> distinct (map fst (l_models l)) \<and>
     (\<forall>(nm, w) \<in> set (l_models l). MNNWrapper_IsValid w \<and> GetModelSize w \<le> max_model_size l)"

lemma loader_inv_ctor: "ModelLoader_ctor n h = (l, h') \<Longrightarrow> loader_inv l"
  by (auto simp: ModelLoader_ctor_def loader_inv_def)

lemma set_alist_update: "set (AList.update k v xs) \<subseteq> insert (k, v) (set xs)"
  by (induction xs) auto

lemma set_alist_delete: "set (AList.delete k xs) \<subseteq> set xs"
  by (induction xs) auto

lemma loader_inv_put:
  assumes "loader_inv l" and "MNNWrapper_IsValid w" and "GetModelSize w \<le> max_model_size l"
  shows "loader_inv (ModelLoader_put nm w l)"
  using assms set_alist_update [of nm w "l_models l"]
  unfolding loader_inv_def ModelLoader_put_def by (auto simp: distinct_update)

lemma loader_inv_load:
  assumes "loader_inv l" and "ModelLoader_Load env path name k l = (r, l')"
  shows "loader_inv l'" "max_model_size l' = max_model_size l"
proof -
  have "loader_inv l' \<and> max_model_size l' = max_model_size l"
  proof (cases "l' = l")
    case False
    then have "r = 0" using assms(2) ModelLoader_Load_fails by blast
    moreover obtain p nm where "path = Some p" "name = Some nm" "map_of (l_models l) nm = None"
      using assms(2) False by (auto simp: ModelLoader_Load_def split: option.splits if_splits)
    ultimately obtain w1 w2 where w: "LoadFromFile env (Some p) MNNWrapper_ctor = (0, w1)"
      "CreateSession env k w1 = (0, w2)" "GetModelSize w2 \<le> max_model_size l"
      "l' = ModelLoader_put nm w2 l"
      using assms(2) ModelLoader_Load_new [of env p nm k l l'] by (auto simp: ModelLoader_put_def)
    then show ?thesis using loader_inv_put [OF assms(1)] load_then_session_valid(1) [OF w(1,2)]
      by (auto simp: ModelLoader_put_def)
  qed (use assms in simp)
  then show "loader_inv l'" "max_model_size l' = max_model_size l" by auto
qed

lemma loader_inv_unload:
  "loader_inv l \<Longrightarrow> ModelLoader_Unload name l = (r, l') \<Longrightarrow> loader_inv l'"
  using set_alist_delete [of "the name" "l_models l"]
  by (fastforce simp: ModelLoader_Unload_def loader_inv_def distinct_delete split: option.splits if_splits)

end
