(* ===== verification/TN_Logger.thy ===== *)
theory TN_Logger
  imports TN_Prelude
begin

text \<open>
  The logger (\<open>logger.hpp\<close>, \<open>logger.cpp\<close>) in its unikernel build: one C++ level, one C
  level (\<open>g_log_level\<close>, which the \<open>TN_LOG_*\<close> macros read), and the lines printed so far.
  A call's formatted message is an argument: \<open>None\<close> when \<open>vsnprintf\<close> reports an error,
  otherwise the whole formatted text, of which the 512-byte buffer holds 511 characters.
\<close>

datatype LogLevel = LL_ERROR | LL_WARN | LL_INFO | LL_DEBUG

text \<open>The enumerators' values, which the comparisons \<open>level_ >= LogLevel::X\<close> compare.\<close>

primrec level_num :: "LogLevel \<Rightarrow> int" where
  "level_num LL_ERROR = 0"
| "level_num LL_WARN = 1"
| "level_num LL_INFO = 2"
| "level_num LL_DEBUG = 3"

lemma level_num_inj: "level_num a = level_num b \<longleftrightarrow> a = b"
  by (cases a; cases b) simp_all

instantiation LogLevel :: linorder
begin

definition less_eq_LogLevel :: "LogLevel \<Rightarrow> LogLevel \<Rightarrow> bool" where
  "less_eq_LogLevel a b \<longleftrightarrow> level_num a \<le> level_num b"

definition less_LogLevel :: "LogLevel \<Rightarrow> LogLevel \<Rightarrow> bool" where
  "less_LogLevel a b \<longleftrightarrow> level_num a < level_num b"

instance
  by standard (auto simp: less_eq_LogLevel_def less_LogLevel_def level_num_inj)

end

datatype uk_channel = UkErr | UkWarn | UkInfo

record logger =
  g_log_level :: int
  level :: LogLevel
  printed :: "(uk_channel \<times> string) list"

definition logger_initial :: logger where
  "logger_initial = \<lparr>g_log_level = 2, level = LL_INFO, printed = []\<rparr>"

definition print_line :: "uk_channel \<Rightarrow> string \<Rightarrow> logger \<Rightarrow> logger" where
  "print_line c s l = l\<lparr>printed := printed l @ [(c, s)]\<rparr>"

definition banner :: "string \<Rightarrow> logger \<Rightarrow> logger" where
  "banner shown l =
     print_line UkInfo ''========================================''
       (print_line UkInfo (''  Logger initialized (level: '' @ shown @ '')'')
         (print_line UkInfo ''========================================''
           (print_line UkInfo [] l)))"

primrec show_level :: "LogLevel \<Rightarrow> string" where
  "show_level LL_ERROR = ''0''"
| "show_level LL_WARN = ''1''"
| "show_level LL_INFO = ''2''"
| "show_level LL_DEBUG = ''3''"

definition Logger_Init :: "LogLevel \<Rightarrow> logger \<Rightarrow> logger" where
  "Logger_Init lv l = banner (show_level lv) (l\<lparr>level := lv\<rparr>)"

definition Logger_SetLevel :: "LogLevel \<Rightarrow> logger \<Rightarrow> logger" where
  "Logger_SetLevel lv l = l\<lparr>level := lv\<rparr>"

definition Logger_GetLevel :: "logger \<Rightarrow> LogLevel" where
  "Logger_GetLevel l = level l"

text \<open>What a message becomes after \<open>vsnprintf(buf, 512, ...)\<close>.\<close>

definition fit512 :: "string option \<Rightarrow> string" where
  "fit512 msg = (case msg of
     Some s \<Rightarrow> if length s < 512 then s else ''(message too long)''
   | None \<Rightarrow> ''(message too long)'')"

definition Logger_Error :: "string option \<Rightarrow> logger \<Rightarrow> logger" where
  "Logger_Error msg l = (if level l \<ge> LL_ERROR then print_line UkErr (fit512 msg) l else l)"

definition Logger_Warn :: "string option \<Rightarrow> logger \<Rightarrow> logger" where
  "Logger_Warn msg l = (if level l \<ge> LL_WARN then print_line UkWarn (fit512 msg) l else l)"

definition Logger_Info :: "string option \<Rightarrow> logger \<Rightarrow> logger" where
  "Logger_Info msg l = (if level l \<ge> LL_INFO then print_line UkInfo (fit512 msg) l else l)"

definition Logger_Debug :: "string option \<Rightarrow> logger \<Rightarrow> logger" where
  "Logger_Debug msg l = (if level l \<ge> LL_DEBUG then print_line UkInfo (fit512 msg) l else l)"

definition tn_map_level :: "int \<Rightarrow> LogLevel" where
  "tn_map_level lv =
     (if lv \<le> 0 then LL_ERROR else if lv = 1 then LL_WARN else if lv = 2 then LL_INFO else LL_DEBUG)"

definition tn_logger_init :: "int \<Rightarrow> logger \<Rightarrow> logger" where
  "tn_logger_init lv l =
     (let lv1 = (if lv < 0 then 0 else lv); lv2 = (if lv1 > 3 then 3 else lv1);
          l1 = l\<lparr>g_log_level := lv2\<rparr>; l2 = Logger_Init (tn_map_level lv2) l1
      in banner (show_level (tn_map_level lv2)) l2)"

text \<open>The C macros print through the same channels, gated by \<open>g_log_level\<close>.\<close>

definition TN_LOG :: "LogLevel \<Rightarrow> string \<Rightarrow> logger \<Rightarrow> logger" where
  "TN_LOG lv s l =
     (if g_log_level l \<ge> level_num lv
      then print_line (case lv of LL_ERROR \<Rightarrow> UkErr | LL_WARN \<Rightarrow> UkWarn | _ \<Rightarrow> UkInfo) s l else l)"

subsection \<open>Correctness\<close>

lemma tn_map_level_inverse: "tn_map_level (level_num lv) = lv"
  by (cases lv) (simp_all add: tn_map_level_def)

lemma level_num_map: "0 \<le> lv \<Longrightarrow> lv \<le> 3 \<Longrightarrow> level_num (tn_map_level lv) = lv"
  by (auto simp: tn_map_level_def)

lemma banner_fields [simp]:
  "level (banner s l) = level l" "g_log_level (banner s l) = g_log_level l"
  by (simp_all add: banner_def print_line_def)

text \<open>
  After \<open>tn_logger_init\<close> with any integer, both levels are in range and agree, so that
  the C macros and the C++ logger let exactly the same severities through.
\<close>

theorem logger_levels_agree:
  "level_num (level (tn_logger_init lv l)) = g_log_level (tn_logger_init lv l) \<and>
   g_log_level (tn_logger_init lv l) = max 0 (min 3 lv) \<and>
   (\<forall>sev s. (printed (TN_LOG sev s (tn_logger_init lv l)) \<noteq> printed (tn_logger_init lv l)) \<longleftrightarrow>
      level (tn_logger_init lv l) \<ge> sev)"
proof -
  let ?l = "tn_logger_init lv l"
  have g: "g_log_level ?l = max 0 (min 3 lv)"
    by (simp add: tn_logger_init_def Logger_Init_def Let_def)
  have "level ?l = tn_map_level (g_log_level ?l)"
    by (simp add: tn_logger_init_def Logger_Init_def Let_def)
  then have n: "level_num (level ?l) = g_log_level ?l" using g by (simp add: level_num_map)
  then have "(printed (TN_LOG sev s ?l) \<noteq> printed ?l) \<longleftrightarrow> level ?l \<ge> sev" for sev s
    by (simp add: TN_LOG_def less_eq_LogLevel_def print_line_def)
  then show ?thesis using n g by blast
qed

end
