(* ===== verification/TN_Api.thy ===== *)
theory TN_Api
  imports TN_Mempool TN_Batch TN_Metrics TN_Scheduler TN_Threadpool TN_Loader TN_Logger
begin

text \<open>
  The inference API (\<open>api.hpp\<close>, \<open>api.cpp\<close>): the handle that owns one of each component,
  its creation and destruction, loading and unloading of models, the synchronous inference
  call and the queries. Pointer arguments that may be null are options. Console output has
  no effect on the handle and is left out. Clock readings are arguments. The log lines
  aside, every branch of the code is a branch of the definitions.
\<close>

record tn_infer_config =
  cfg_thread_count :: size_t
  cfg_queue_size :: size_t
  batch_enabled :: bool
  batch_max_size :: size_t
  batch_timeout_us :: size_t
  cfg_preemptive :: bool
  default_priority :: int
  cfg_max_model_size :: size_t
  multi_model_enabled :: bool
  total_mem_limit :: size_t
  metrics_enabled :: bool
  trace_enabled :: bool
  log_level :: int

definition default_config :: tn_infer_config where
  "default_config = \<lparr>cfg_thread_count = 4, cfg_queue_size = 256, batch_enabled = True,
     batch_max_size = 8, batch_timeout_us = 1000, cfg_preemptive = True, default_priority = 0,
     cfg_max_model_size = 512 * 1024 * 1024, multi_model_enabled = True,
     total_mem_limit = 1024 * 1024 * 1024, metrics_enabled = True, trace_enabled = False,
     log_level = 2\<rparr>"

record tn_infer_request =
  input_data :: "byte list option"
  input_size :: size_t
  output_data :: "byte list option"
  output_size :: size_t
  req_model_name :: c_str
  req_priority :: int
  req_user_data :: "addr option"

record tn_infer_result =
  error_code :: int
  res_output_size :: size_t
  latency_us :: uint64
  res_user_data :: "addr option"

text \<open>The character arrays \<open>name[64]\<close> and \<open>path[256]\<close> hold C strings: here the strings.\<close>

record tn_model_info =
  mi_name :: string
  mi_path :: string
  loaded :: bool
  version :: int
  mi_size :: size_t

definition tn_model_info_zero :: tn_model_info where
  "tn_model_info_zero = \<lparr>mi_name = [], mi_path = [], loaded = False, version = 0, mi_size = 0\<rparr>"

definition sizeof_tn_model_info :: size_t where "sizeof_tn_model_info = 336"

record ('net, 'sess) tn_infer_handle =
  self_addr :: addr
  config :: tn_infer_config
  threadpool :: "tn_threadpool option"
  mempool :: "tn_mempool option"
  scheduler :: "tn_scheduler option"
  batch :: "tn_batch option"
  loader :: "('net, 'sess) tn_loader option"
  metrics :: "tn_metrics option"
  models_addr :: addr
  models :: "tn_model_info list"
  model_count :: nat
  max_models :: nat
  total_memory_used :: size_t
  peak_memory_used :: size_t
  initialized :: bool
  shutdown :: bool

definition sizeof_tn_infer_handle :: size_t where "sizeof_tn_infer_handle = 168"

subsection \<open>Creation\<close>

text \<open>
  The mandatory parts: memory pool, thread pool, scheduler. A failure destroys what exists,
  in the order of the code, and frees the handle's block \<open>hp\<close>.
\<close>

definition tn_infer_create_core ::
    "tn_infer_config \<Rightarrow> addr \<Rightarrow> uk_alloc \<Rightarrow> (tn_mempool \<times> tn_threadpool \<times> tn_scheduler) option \<times> uk_alloc" where
  "tn_infer_create_core cfg hp h =
     (case tn_mempool_create (total_mem_limit cfg) h of
        (None, h1) \<Rightarrow> (None, uk_free (Some hp) h1)
      | (Some mp, h1) \<Rightarrow>
          (case tn_threadpool_create (Some
                  \<lparr>thread_count = cfg_thread_count cfg, queue_size = cfg_queue_size cfg,
                   enable_priority = True, enable_preemptive = cfg_preemptive cfg\<rparr>) h1 of
             (None, h2) \<Rightarrow> (None, uk_free (Some hp) (snd (tn_mempool_destroy (Some mp) h2)))
           | (Some tp, h2) \<Rightarrow>
               (case tn_scheduler_create (cfg_preemptive cfg) h2 of
                  (None, h3) \<Rightarrow>
                    (None, uk_free (Some hp)
                       (snd (tn_mempool_destroy (Some mp) (snd (tn_threadpool_destroy (Some tp) h3)))))
                | (Some sc, h3) \<Rightarrow> (Some (mp, tp, sc), h3))))"

text \<open>The optional parts: batch processor, loader, metrics; each may be missing afterwards.\<close>

definition tn_infer_create_services ::
    "tn_infer_config \<Rightarrow> uk_alloc \<Rightarrow>
     (tn_batch option \<times> ('net, 'sess) tn_loader option \<times> tn_metrics option \<times> tn_infer_config) \<times> uk_alloc" where
  "tn_infer_create_services cfg h =
     (case (if batch_enabled cfg
            then tn_batch_create (Some \<lparr>max_batch_size = batch_max_size cfg, timeout_us = batch_timeout_us cfg\<rparr>) h
            else (None, h)) of
        (bt, h1) \<Rightarrow>
          (case tn_loader_create (cfg_max_model_size cfg) h1 of
             (ld, h2) \<Rightarrow>
               (case (if metrics_enabled cfg then tn_metrics_create 1024 h2 else (None, h2)) of
                  (mt, h3) \<Rightarrow>
                    ((bt, ld, mt,
                      if metrics_enabled cfg \<and> mt = None then cfg\<lparr>metrics_enabled := False\<rparr> else cfg), h3))))"

definition tn_infer_create ::
    "tn_infer_config option \<Rightarrow> uk_alloc \<Rightarrow> ('net, 'sess) tn_infer_handle option \<times> uk_alloc" where
  "tn_infer_create conf h =
     (case uk_zalloc sizeof_tn_infer_handle h of
        (None, h0) \<Rightarrow> (None, h0)
      | (Some hp, h0) \<Rightarrow>
          let cfg = (case conf of Some c \<Rightarrow> c | None \<Rightarrow> default_config)
          in case tn_infer_create_core cfg hp h0 of
               (None, h1) \<Rightarrow> (None, h1)
             | (Some (mp, tp, sc), h1) \<Rightarrow>
                 (case tn_infer_create_services cfg h1 of
                    ((bt, ld, mt, cfg'), h2) \<Rightarrow>
                      let mm = (if multi_model_enabled cfg' then 16 else 1)
                      in case uk_zalloc (of_nat mm * sizeof_tn_model_info) h2 of
                           (None, h3) \<Rightarrow>
                             (None, uk_free (Some hp)
                                (snd (tn_mempool_destroy (Some mp)
                                  (snd (tn_threadpool_destroy (Some tp)
                                    (snd (tn_scheduler_destroy (Some sc) h3)))))))
                         | (Some ms, h3) \<Rightarrow>
                             (Some \<lparr>self_addr = hp, config = cfg', threadpool = Some tp, mempool = Some mp,
                                scheduler = Some sc, batch = bt, loader = ld, metrics = mt,
                                models_addr = ms, models = replicate mm tn_model_info_zero,
                                model_count = 0, max_models = mm, total_memory_used = 0,
                                peak_memory_used = 0, initialized = True, shutdown = False\<rparr>, h3)))"

subsection \<open>Loading and unloading\<close>

text \<open>The scan \<open>for (i < model_count) if (strcmp(models[i].name, name) == 0) break\<close>.\<close>

definition find_slot :: "string \<Rightarrow> ('net, 'sess) tn_infer_handle \<Rightarrow> nat option" where
  "find_slot nm hnd = find (\<lambda>i. mi_name (models hnd ! i) = nm) [0..<model_count hnd]"

text \<open>\<open>strncpy(dst, src, n - 1)\<close> followed by \<open>dst[n - 1] = 0\<close>.\<close>

definition strncpy_c :: "nat \<Rightarrow> string \<Rightarrow> string" where
  "strncpy_c n s = take (n - 1) s"

definition upd_slot :: "nat \<Rightarrow> (tn_model_info \<Rightarrow> tn_model_info) \<Rightarrow> ('net, 'sess) tn_infer_handle \<Rightarrow>
    ('net, 'sess) tn_infer_handle" where
  "upd_slot i f hnd = hnd\<lparr>models := (models hnd)[i := f (models hnd ! i)]\<rparr>"

definition record_model :: "nat \<Rightarrow> string \<Rightarrow> string \<Rightarrow> ('net, 'sess) tn_infer_handle \<Rightarrow>
    ('net, 'sess) tn_infer_handle" where
  "record_model i nm path hnd =
     upd_slot i (\<lambda>m. m\<lparr>mi_name := strncpy_c 64 nm, mi_path := strncpy_c 256 path, loaded := True,
       version := 1\<rparr>) hnd"

text \<open>The slot for \<open>nm\<close>: the one that has the name, else the next unused one, which is taken.\<close>

definition take_slot :: "string \<Rightarrow> ('net, 'sess) tn_infer_handle \<Rightarrow>
    nat option \<times> ('net, 'sess) tn_infer_handle" where
  "take_slot nm hnd =
     (case find_slot nm hnd of
        Some i \<Rightarrow> (Some i, hnd)
      | None \<Rightarrow> if model_count hnd < max_models hnd
                then (Some (model_count hnd), hnd\<lparr>model_count := model_count hnd + 1\<rparr>)
                else (None, hnd))"

definition tn_infer_load ::
    "('net, 'sess, 'tensor) mnn_env \<Rightarrow> ('net, 'sess) tn_infer_handle option \<Rightarrow> c_str \<Rightarrow> c_str \<Rightarrow>
     int \<times> ('net, 'sess) tn_infer_handle option" where
  "tn_infer_load env handle model_path model_name =
     (case (handle, model_path, model_name) of
        (Some hnd, Some path, Some nm) \<Rightarrow>
          if \<not> initialized hnd then (TN_INFER_ERR_INVALID, handle)
          else
            (case take_slot nm hnd of
               (None, hnd1) \<Rightarrow> (TN_INFER_ERR_NOMEM, Some hnd1)
             | (Some i, hnd1) \<Rightarrow>
                 if loader hnd1 = None then (TN_INFER_SUCCESS, Some (record_model i nm path hnd1))
                 else
                   (case tn_loader_load env (Some path) (Some nm) (loader hnd1) of
                      (ret, ld) \<Rightarrow>
                        let hnd2 = hnd1\<lparr>loader := ld\<rparr>
                        in if ret \<noteq> TN_INFER_SUCCESS then (TN_INFER_ERR_LOAD_FAILED, Some hnd2)
                           else
                             let hnd3 = (case tn_loader_get_model (Some nm) ld of
                                          Some mnn \<Rightarrow> upd_slot i (\<lambda>m. m\<lparr>mi_size := GetModelSize mnn\<rparr>) hnd2
                                        | None \<Rightarrow> hnd2)
                             in (TN_INFER_SUCCESS, Some (record_model i nm path hnd3))))
      | _ \<Rightarrow> (TN_INFER_ERR_INVALID, handle))"

definition tn_infer_unload ::
    "('net, 'sess) tn_infer_handle option \<Rightarrow> c_str \<Rightarrow> int \<times> ('net, 'sess) tn_infer_handle option" where
  "tn_infer_unload handle model_name =
     (case (handle, model_name) of
        (Some hnd, Some nm) \<Rightarrow>
          (case find_slot nm hnd of
             None \<Rightarrow> (TN_INFER_ERR_NO_MODEL, handle)
           | Some i \<Rightarrow>
               if \<not> loaded (models hnd ! i) then (TN_INFER_ERR_NO_MODEL, handle)
               else
                 let hnd1 = (if loader hnd \<noteq> None
                            then hnd\<lparr>loader := snd (tn_loader_unload (Some nm) (loader hnd))\<rparr> else hnd)
                 in (TN_INFER_SUCCESS, Some (upd_slot i (\<lambda>m. m\<lparr>loaded := False\<rparr>) hnd1)))
      | _ \<Rightarrow> (TN_INFER_ERR_INVALID, handle))"

subsection \<open>Destruction\<close>

text \<open>The loop that unloads every loaded model, from slot \<open>i\<close> on; \<open>n\<close> slots are left.\<close>

fun unload_loop :: "nat \<Rightarrow> nat \<Rightarrow> ('net, 'sess) tn_infer_handle \<Rightarrow> ('net, 'sess) tn_infer_handle" where
  "unload_loop 0 i hnd = hnd"
| "unload_loop (Suc n) i hnd =
     unload_loop n (Suc i)
       (if loaded (models hnd ! i)
        then (case snd (tn_infer_unload (Some hnd) (Some (mi_name (models hnd ! i)))) of
                Some hnd' \<Rightarrow> hnd' | None \<Rightarrow> hnd)
        else hnd)"

definition tn_infer_destroy :: "('net, 'sess) tn_infer_handle option \<Rightarrow> uk_alloc \<Rightarrow> int \<times> uk_alloc" where
  "tn_infer_destroy handle h =
     (case handle of None \<Rightarrow> (TN_INFER_ERR_INVALID, h)
      | Some hnd \<Rightarrow>
          let hnd1 = unload_loop (model_count hnd) 0 (hnd\<lparr>shutdown := True\<rparr>);
              h1 = (if batch hnd1 \<noteq> None then snd (tn_batch_destroy (batch hnd1) h) else h);
              h2 = (if scheduler hnd1 \<noteq> None then snd (tn_scheduler_destroy (scheduler hnd1) h1) else h1);
              h3 = (if threadpool hnd1 \<noteq> None then snd (tn_threadpool_destroy (threadpool hnd1) h2) else h2);
              h4 = (if mempool hnd1 \<noteq> None then snd (tn_mempool_destroy (mempool hnd1) h3) else h3);
              h5 = (if metrics hnd1 \<noteq> None then snd (tn_metrics_destroy (metrics hnd1) h4) else h4);
              h6 = uk_free (Some (models_addr hnd1)) h5;
              h7 = uk_free (Some (self_addr hnd1)) h6
          in (TN_INFER_SUCCESS, h7))"

subsection \<open>Inference\<close>

definition memcpy :: "byte list \<Rightarrow> byte list \<Rightarrow> size_t \<Rightarrow> ub + byte list" where
  "memcpy dst src n =
     (if unat n > length dst \<or> unat n > length src then Inl OutOfBounds
      else Inr (take (unat n) src @ drop (unat n) dst))"

definition sizeof_float :: size_t where "sizeof_float = 4"

text \<open>\<open>tn_get_time_us\<close> on a tick reading in nanoseconds.\<close>

definition tn_get_time_us :: "uint64 \<Rightarrow> uint64" where
  "tn_get_time_us ticks = ticks div 1000"

text \<open>A return of \<open>tn_infer\<close> through one of its error branches.\<close>

definition infer_fail :: "int \<Rightarrow> uint64 \<Rightarrow> tn_infer_result \<Rightarrow> tn_infer_result" where
  "infer_fail code lat r = r\<lparr>error_code := code, latency_us := lat\<rparr>"

text \<open>
  Input side: the size check, the copy of the user's data into a host tensor, and the copy
  of the host tensor into the session. \<open>Inr None\<close> is the size mismatch.
\<close>

definition infer_input ::
    "('net, 'sess, 'tensor) mnn_env \<Rightarrow> 'tensor \<Rightarrow> tn_infer_request \<Rightarrow> 'sess \<Rightarrow> ub + 'sess option" where
  "infer_input env t req s =
     (let input_bytes = of_int (elementSize env s t) * sizeof_float;
          input_user = host_init env s t
      in if input_size req < input_bytes then Inr None
         else case input_data req of
           None \<Rightarrow> Inr (Some (copyFromHostTensor env s t input_user))
         | Some bytes \<Rightarrow>
             (case memcpy input_user bytes input_bytes of
                Inl e \<Rightarrow> Inl e
              | Inr filled \<Rightarrow> Inr (Some (copyFromHostTensor env s t filled))))"

text \<open>Output side: the new output buffer of the request and the reported size.\<close>

definition infer_output ::
    "('net, 'sess, 'tensor) mnn_env \<Rightarrow> 'tensor \<Rightarrow> tn_infer_request \<Rightarrow> 'sess \<Rightarrow> ub + (tn_infer_request \<times> size_t)" where
  "infer_output env t req s =
     (let output_user = copyToHostTensor env s t (host_init env s t);
          output_bytes = of_int (elementSize env s t) * sizeof_float
      in case output_data req of
           Some buf \<Rightarrow>
             if output_size req \<ge> output_bytes
             then (case memcpy buf output_user output_bytes of
                     Inl e \<Rightarrow> Inl e
                   | Inr buf' \<Rightarrow> Inr (req\<lparr>output_data := Some buf'\<rparr>, output_bytes))
             else Inr (req, output_bytes)
         | None \<Rightarrow> Inr (req, output_bytes))"

text \<open>
  The middle of the call, on the wrapper found for the request: input tensor, input copy,
  run, output tensor, output copy. The wrapper carries the session, which changes.
\<close>

datatype ('net, 'sess) infer_outcome =
    InferFail int "('net, 'sess) MNNWrapper"
  | InferDone "('net, 'sess) MNNWrapper" tn_infer_request size_t

definition infer_model ::
    "('net, 'sess, 'tensor) mnn_env \<Rightarrow> tn_infer_request \<Rightarrow> ('net, 'sess) MNNWrapper \<Rightarrow>
     ub + ('net, 'sess) infer_outcome" where
  "infer_model env req w =
     (case (GetInputTensor env None w, session w) of
        (Some t, Some s) \<Rightarrow>
          (case infer_input env t req s of
             Inl e \<Rightarrow> Inl e
           | Inr None \<Rightarrow> Inr (InferFail TN_INFER_ERR_INVALID w)
           | Inr (Some s1) \<Rightarrow>
               (case Run env (w\<lparr>session := Some s1\<rparr>) of
                  (ret, w2) \<Rightarrow>
                    if ret \<noteq> 0 then Inr (InferFail TN_INFER_ERR_UNSUPPORTED w2)
                    else
                      (case (GetOutputTensor env None w2, session w2) of
                         (Some ot, Some s2) \<Rightarrow>
                           (case infer_output env ot req s2 of
                              Inl e \<Rightarrow> Inl e
                            | Inr (req', out_bytes) \<Rightarrow> Inr (InferDone w2 req' out_bytes))
                       | _ \<Rightarrow> Inr (InferFail TN_INFER_ERR_INVALID w2))))
      | _ \<Rightarrow> Inr (InferFail TN_INFER_ERR_INVALID w))"

text \<open>The wrapper is the loader's own object: what a call did to it stays in the loader.\<close>

definition save_model :: "string \<Rightarrow> ('net, 'sess) MNNWrapper \<Rightarrow> ('net, 'sess) tn_infer_handle \<Rightarrow>
    ('net, 'sess) tn_infer_handle" where
  "save_model nm w hnd =
     hnd\<lparr>loader := map_option (\<lambda>x. x\<lparr>impl := ModelLoader_put nm w (impl x)\<rparr>) (loader hnd)\<rparr>"

text \<open>
  The call. \<open>t0\<close> and \<open>t1\<close> are the tick readings at the start and at the return,
  \<open>now_ns\<close> the clock reading of the metrics record. The result is the return code and the
  objects behind the three pointers afterwards.
\<close>

definition tn_infer ::
    "('net, 'sess, 'tensor) mnn_env \<Rightarrow> uint64 \<Rightarrow> uint64 \<Rightarrow> uint64 \<Rightarrow>
     ('net, 'sess) tn_infer_handle option \<Rightarrow> tn_infer_request option \<Rightarrow> tn_infer_result option \<Rightarrow>
     ub + (int \<times> ('net, 'sess) tn_infer_handle option \<times> tn_infer_request option \<times> tn_infer_result option)" where
  "tn_infer env t0 t1 now_ns handle request result =
     (case (handle, request, result) of
        (Some hnd, Some req, Some res) \<Rightarrow>
          if \<not> initialized hnd then Inr (TN_INFER_ERR_INVALID, handle, request, result)
          else
            let lat = tn_get_time_us t1 - tn_get_time_us t0;
                nm = (case req_model_name req of Some n \<Rightarrow> n | None \<Rightarrow> ''default'')
            in case tn_loader_get_model (Some nm) (loader hnd) of
                 None \<Rightarrow>
                   Inr (TN_INFER_ERR_NO_MODEL, handle, request, Some (infer_fail TN_INFER_ERR_NO_MODEL lat res))
               | Some w \<Rightarrow>
                   (case infer_model env req w of
                      Inl e \<Rightarrow> Inl e
                    | Inr (InferFail code w2) \<Rightarrow>
                        Inr (code, Some (save_model nm w2 hnd), request, Some (infer_fail code lat res))
                    | Inr (InferDone w2 req' out_bytes) \<Rightarrow>
                        let res' = res\<lparr>res_output_size := out_bytes, error_code := TN_INFER_SUCCESS,
                                       latency_us := lat\<rparr>;
                            hnd2 = save_model nm w2 hnd
                        in if metrics hnd2 \<noteq> None \<and> metrics_enabled (config hnd2)
                           then (case tn_metrics_record (metrics hnd2) now_ns lat 1 True of
                                   Inl e \<Rightarrow> Inl e
                                 | Inr (_, mt) \<Rightarrow>
                                     Inr (TN_INFER_SUCCESS, Some (hnd2\<lparr>metrics := mt\<rparr>), Some req', Some res'))
                           else Inr (TN_INFER_SUCCESS, Some hnd2, Some req', Some res'))
      | _ \<Rightarrow> Inr (TN_INFER_ERR_INVALID, handle, request, result))"

definition tn_infer_async :: "('net, 'sess) tn_infer_handle option \<Rightarrow> tn_infer_request option \<Rightarrow> int" where
  "tn_infer_async handle request =
     (case (handle, request) of
        (Some hnd, Some _) \<Rightarrow>
          if threadpool hnd \<noteq> None then TN_INFER_ERR_UNSUPPORTED else TN_INFER_ERR_INVALID
      | _ \<Rightarrow> TN_INFER_ERR_INVALID)"

subsection \<open>Queries\<close>

definition tn_infer_get_metrics ::
    "('net, 'sess) tn_infer_handle option \<Rightarrow> tn_infer_metrics option \<Rightarrow> int \<times> tn_infer_metrics option" where
  "tn_infer_get_metrics handle out =
     (case (handle, out) of
        (Some hnd, Some m) \<Rightarrow>
          let m1 = (if metrics hnd \<noteq> None then the (snd (tn_metrics_collect (metrics hnd) (Some m))) else m)
          in (TN_INFER_SUCCESS,
              Some (m1\<lparr>memory_used := total_memory_used hnd, memory_peak := peak_memory_used hnd\<rparr>))
      | _ \<Rightarrow> (TN_INFER_ERR_INVALID, out))"

text \<open>The copy loop writes one array cell per known model; a cell past the array is \<open>OutOfBounds\<close>.\<close>

fun list_loop :: "tn_model_info list \<Rightarrow> int \<Rightarrow> nat \<Rightarrow> tn_model_info list \<Rightarrow> ub + (nat \<times> tn_model_info list)" where
  "list_loop [] max_count count out = Inr (count, out)"
| "list_loop (m # ms) max_count count out =
     (if int count < max_count
      then if count < length out then list_loop ms max_count (Suc count) (out[count := m]) else Inl OutOfBounds
      else Inr (count, out))"

definition tn_infer_list_models ::
    "('net, 'sess) tn_infer_handle option \<Rightarrow> tn_model_info list option \<Rightarrow> int \<Rightarrow>
     ub + (nat \<times> tn_model_info list option)" where
  "tn_infer_list_models handle out max_count =
     (case (handle, out) of
        (Some hnd, Some arr) \<Rightarrow>
          (case list_loop (take (model_count hnd) (models hnd)) max_count 0 arr of
             Inl e \<Rightarrow> Inl e
           | Inr (n, arr') \<Rightarrow> Inr (n, Some arr'))
      | _ \<Rightarrow> Inr (0, out))"

definition tn_infer_switch_version :: "('net, 'sess) tn_infer_handle option \<Rightarrow> c_str \<Rightarrow> int \<Rightarrow> int" where
  "tn_infer_switch_version handle model_name ver = TN_INFER_ERR_UNSUPPORTED"

definition tn_infer_set_memory_limit :: "('net, 'sess) tn_infer_handle option \<Rightarrow> c_str \<Rightarrow> size_t \<Rightarrow> int" where
  "tn_infer_set_memory_limit handle model_name memory_limit = TN_INFER_ERR_UNSUPPORTED"

subsection \<open>A concrete engine, configuration and heap\<close>

text \<open>
  Used where a statement is applied to a concrete run: an engine with one four-byte input
  and output whose network reverses the bytes and which knows the file \<open>m.mnn\<close>; the default
  configuration with a small memory pool; and a heap whose page allocator follows \<open>script\<close>.
\<close>

definition demo_env :: "(unit, byte list, bool) mnn_env" where
  "demo_env = \<lparr>stat_size = (\<lambda>p. if p = ''m.mnn'' then Some 100 else None),
     createFromFile = (\<lambda>p. Some ()), createFromBuffer = (\<lambda>_. None),
     createSession = (\<lambda>_ _. Some [0, 0, 0, 0]),
     getSessionInput = (\<lambda>_ _ _. Some False), getSessionOutput = (\<lambda>_ _ _. Some True),
     getSessionInputAll = (\<lambda>_ _. [(''in'', False)]), getSessionOutputAll = (\<lambda>_ _. [(''out'', True)]),
     resizeTensor = (\<lambda>_ s _ _. s), resizeSession = (\<lambda>_ s. s), runSession = (\<lambda>_ s. (NO_ERROR, rev s)),
     elementSize = (\<lambda>_ _. 1), host_init = (\<lambda>_ _. [0, 0, 0, 0]),
     copyFromHostTensor = (\<lambda>_ _ b. b), copyToHostTensor = (\<lambda>s _ _. take 4 (s @ [0, 0, 0, 0]))\<rparr>"

definition demo_config :: tn_infer_config where
  "demo_config = default_config\<lparr>total_mem_limit := 4096\<rparr>"

definition api_heap :: "bool list \<Rightarrow> uk_alloc" where
  "api_heap script = demo_heap\<lparr>maxalloc := 2 ^ 20, oom := script\<rparr>"

lemma api_heap_wf [simp]: "heap_wf (api_heap script)"
  by (simp add: heap_wf_def api_heap_def demo_heap_def)

lemmas api_eval = mempool_eval batch_eval metrics_eval tn_infer_create_def tn_infer_create_core_def
  tn_infer_create_services_def demo_config_def default_config_def api_heap_def
  tn_threadpool_create_def ThreadPool_ctor_def ThreadPool_IsValid_def ThreadPool_dtor_def sizeof_ThreadPool_def
  sizeof_Task_def ThreadPoolConfig_default_def tn_scheduler_create_def Scheduler_ctor_def Scheduler_IsValid_def
  Scheduler_dtor_def sizeof_Scheduler_def tn_loader_create_def ModelLoader_ctor_def ModelLoader_IsValid_def
  ModelLoader_dtor_def sizeof_ModelLoader_def sizeof_tn_infer_handle_def sizeof_tn_model_info_def

text \<open>Creation on that heap: every field a later call looks at.\<close>

lemma demo_create:
  "\<exists>hnd h'. tn_infer_create (Some demo_config) (api_heap []) = (Some hnd, h') \<and> initialized hnd \<and>
     model_count hnd = 0 \<and> max_models hnd = 16 \<and> models hnd = replicate 16 tn_model_info_zero \<and>
     metrics_enabled (config hnd) \<and> metrics hnd \<noteq> None \<and>
     (\<exists>x. loader hnd = Some x \<and> impl x = \<lparr>max_model_size = 536870912, l_models = []\<rparr>)"
  by (simp add: api_eval Let_def)

end
