(* ===== verification/TN_Api_Lifecycle.thy ===== *)
theory TN_Api_Lifecycle
  imports TN_Api
begin

text \<open>
  Who owns which block from the creation of an inference handle to its destruction. Every
  component's \<open>create\<close> and \<open>destroy\<close> keep the accounts by its interpretation of
  \<open>cpp_class\<close>; here they are put together for the handle, first for creation (with every
  failure path), then for any sequence of API calls, then for destruction.
\<close>

subsection \<open>The components\<close>

abbreviation "mp_blocks \<equiv> opt_owns MemoryPool_owns"
abbreviation "tp_blocks \<equiv> opt_owns ThreadPool_owns"
abbreviation "sc_blocks \<equiv> opt_owns Scheduler_owns"
abbreviation "bt_blocks \<equiv> opt_owns BatchProcessor_owns"
abbreviation "ld_blocks \<equiv> opt_owns ModelLoader_owns"
abbreviation "mt_blocks \<equiv> opt_owns MetricsCollector_owns"

abbreviation "mp_sep \<equiv> opt_sep MemoryPool_owns (\<lambda>_. True)"
abbreviation "tp_sep \<equiv> opt_sep ThreadPool_owns ThreadPool_ok"
abbreviation "sc_sep \<equiv> opt_sep Scheduler_owns (\<lambda>_. True)"
abbreviation "bt_sep \<equiv> opt_sep BatchProcessor_owns (\<lambda>_. True)"
abbreviation "mt_sep \<equiv> opt_sep MetricsCollector_owns (\<lambda>_. True)"

lemma mempool_create_gains:
  "heap_wf h \<Longrightarrow> tn_mempool_create n h = (r, h') \<Longrightarrow> gained h h' (mp_blocks r) \<and> mp_sep r"
  unfolding tn_mempool_create_def by (rule mempool.create_gains)

lemma threadpool_create_gains:
  "heap_wf h \<Longrightarrow> tn_threadpool_create (Some c) h = (r, h') \<Longrightarrow> gained h h' (tp_blocks r) \<and> tp_sep r"
  unfolding tn_threadpool_create_def option.case Let_def by (rule threadpool.create_gains)

lemma scheduler_create_gains:
  "heap_wf h \<Longrightarrow> tn_scheduler_create c h = (r, h') \<Longrightarrow> gained h h' (sc_blocks r) \<and> sc_sep r"
  unfolding tn_scheduler_create_def by (rule scheduler.create_gains)

lemma batch_create_gains:
  "heap_wf h \<Longrightarrow> tn_batch_create (Some c) h = (r, h') \<Longrightarrow> gained h h' (bt_blocks r) \<and> bt_sep r"
  unfolding tn_batch_create_def option.case Let_def by (rule batch.create_gains)

lemma loader_create_gains:
  "heap_wf h \<Longrightarrow> tn_loader_create n h = (r, h') \<Longrightarrow> gained h h' (ld_blocks r)"
  unfolding tn_loader_create_def using loader.create_gains by blast

lemma metrics_create_gains:
  "heap_wf h \<Longrightarrow> tn_metrics_create n h = (r, h') \<Longrightarrow> gained h h' (mt_blocks r) \<and> mt_sep r"
  unfolding tn_metrics_create_def by (rule metrics.create_gains)

lemma mempool_destroy_loses:
  "heap_wf h \<Longrightarrow> mp_sep r \<Longrightarrow> mp_blocks r \<subseteq> dom (blocks h) \<Longrightarrow>
   lost h (snd (tn_mempool_destroy r h)) (mp_blocks r)"
  by (cases r) (auto simp: tn_mempool_destroy_def opt_owns_def opt_sep_def lost_refl mempool.destroy_loses)

lemma threadpool_destroy_loses:
  "heap_wf h \<Longrightarrow> tp_sep r \<Longrightarrow> tp_blocks r \<subseteq> dom (blocks h) \<Longrightarrow>
   lost h (snd (tn_threadpool_destroy r h)) (tp_blocks r)"
  by (cases r) (auto simp: tn_threadpool_destroy_def opt_owns_def opt_sep_def lost_refl threadpool.destroy_loses)

lemma scheduler_destroy_loses:
  "heap_wf h \<Longrightarrow> sc_sep r \<Longrightarrow> sc_blocks r \<subseteq> dom (blocks h) \<Longrightarrow>
   lost h (snd (tn_scheduler_destroy r h)) (sc_blocks r)"
  by (cases r) (auto simp: tn_scheduler_destroy_def opt_owns_def opt_sep_def lost_refl scheduler.destroy_loses)

lemma batch_destroy_loses:
  "heap_wf h \<Longrightarrow> bt_sep r \<Longrightarrow> bt_blocks r \<subseteq> dom (blocks h) \<Longrightarrow>
   lost h (snd (tn_batch_destroy r h)) (bt_blocks r)"
  by (cases r) (auto simp: tn_batch_destroy_def opt_owns_def opt_sep_def lost_refl batch.destroy_loses)

lemma metrics_destroy_loses:
  "heap_wf h \<Longrightarrow> mt_sep r \<Longrightarrow> mt_blocks r \<subseteq> dom (blocks h) \<Longrightarrow>
   lost h (snd (tn_metrics_destroy r h)) (mt_blocks r)"
  by (cases r) (auto simp: tn_metrics_destroy_def opt_owns_def opt_sep_def lost_refl metrics.destroy_loses)

subsection \<open>Undoing part of a gain\<close>

text \<open>One step of a teardown: of the gained blocks \<open>A \<union> B\<close>, \<open>B\<close> is given back.\<close>

lemma teardown:
  assumes "gained g h (A \<union> B)" and "A \<inter> B = {}"
    and "\<And>h. heap_wf h \<Longrightarrow> B \<subseteq> dom (blocks h) \<Longrightarrow> lost h (f h) B"
  shows "gained g (f h) A"
proof -
  have "lost h (f h) B" using assms(3) [of h] gained_dom [OF assms(1)] gained_wf [OF assms(1)] by blast
  then show ?thesis using gained_lost [OF assms(1)] assms(2) by blast
qed

lemma teardown_free:
  assumes "gained g h (A \<union> {a})" and "a \<notin> A"
  shows "gained g (uk_free (Some a) h) A"
  by (rule teardown [OF assms(1)]) (use assms(2) in \<open>auto simp: uk_free_lost\<close>)

text \<open>Two gains one after the other: the blocks add up and do not overlap.\<close>

lemma gained_add:
  assumes "gained g h A" and "gained h h' B"
  shows "gained g h' (A \<union> B) \<and> A \<inter> B = {}"
  using gained_trans [OF assms] gained_disjoint [OF assms] by blast

subsection \<open>Creation\<close>

lemma undo_threadpool:
  assumes "gained g h (A \<union> tp_blocks tp)" and "A \<inter> tp_blocks tp = {}" and "tp_sep tp"
  shows "gained g (snd (tn_threadpool_destroy tp h)) A"
  by (rule teardown [OF assms(1,2)]) (rule threadpool_destroy_loses [OF _ assms(3)])

lemma undo_mempool:
  assumes "gained g h ({hp} \<union> mp_blocks mp)" and "{hp} \<inter> mp_blocks mp = {}" and "mp_sep mp"
  shows "gained g (uk_free (Some hp) (snd (tn_mempool_destroy mp h))) {}"
proof (rule teardown_free)
  show "gained g (snd (tn_mempool_destroy mp h)) ({} \<union> {hp})"
    unfolding Un_empty_left by (rule teardown [OF assms(1,2)]) (rule mempool_destroy_loses [OF _ assms(3)])
qed simp

lemma create_core_None:
  assumes g: "gained g h {hp}" and c: "tn_infer_create_core cfg hp h = (None, h')"
  shows "gained g h' {}"
proof -
  obtain mp h1 where m: "tn_mempool_create (total_mem_limit cfg) h = (mp, h1)" by fastforce
  note gm = mempool_create_gains [OF gained_wf [OF g] m]
  note a1 = gained_add [OF g conjunct1 [OF gm]]
  show ?thesis
  proof (cases mp)
    case None
    then show ?thesis using c m a1 teardown_free [of g h1 "{}" hp]
      by (simp add: tn_infer_create_core_def opt_owns_def)
  next
    case (Some mp0)
    let ?tc = "\<lparr>thread_count = cfg_thread_count cfg, queue_size = cfg_queue_size cfg,
                enable_priority = True, enable_preemptive = cfg_preemptive cfg\<rparr>"
    obtain tp h2 where t: "tn_threadpool_create (Some ?tc) h1 = (tp, h2)" by fastforce
    note gt = threadpool_create_gains [OF gained_wf [OF conjunct1 [OF gm]] t]
    note a2 = gained_add [OF conjunct1 [OF a1] conjunct1 [OF gt]]
    note undo_m = undo_mempool [OF _ conjunct2 [OF a1] conjunct2 [OF gm]]
    show ?thesis
    proof (cases tp)
      case None
      then show ?thesis using c m t a2 Some undo_m [of g h2]
        by (simp add: tn_infer_create_core_def opt_owns_def)
    next
      case tp0: (Some tp0)
      obtain sc h3 where s: "tn_scheduler_create (cfg_preemptive cfg) h2 = (sc, h3)" by fastforce
      note gs = scheduler_create_gains [OF gained_wf [OF conjunct1 [OF gt]] s]
      have sc: "sc = None" and h': "h' = uk_free (Some hp) (snd (tn_mempool_destroy mp (snd (tn_threadpool_destroy tp h3))))"
        using c m t s Some tp0 by (auto simp: tn_infer_create_core_def split: option.splits)
      have "gained g h3 ({hp} \<union> mp_blocks mp \<union> tp_blocks tp)"
        using gained_add [OF conjunct1 [OF a2] conjunct1 [OF gs]] sc by (simp add: opt_owns_def)
      then have "gained g (snd (tn_threadpool_destroy tp h3)) ({hp} \<union> mp_blocks mp)"
        using conjunct2 [OF a2] conjunct2 [OF gt] by (rule undo_threadpool)
      then show ?thesis using undo_m h' by simp
    qed
  qed
qed

lemma create_core_Some:
  assumes g: "gained g h {hp}" and c: "tn_infer_create_core cfg hp h = (Some (mp, tp, sc), h')"
  shows "gained g h' ({hp} \<union> mp_blocks (Some mp) \<union> tp_blocks (Some tp) \<union> sc_blocks (Some sc))"
    "hp \<notin> mp_blocks (Some mp)" "({hp} \<union> mp_blocks (Some mp)) \<inter> tp_blocks (Some tp) = {}"
    "({hp} \<union> mp_blocks (Some mp) \<union> tp_blocks (Some tp)) \<inter> sc_blocks (Some sc) = {}"
    "mp_sep (Some mp)" "tp_sep (Some tp)" "sc_sep (Some sc)"
proof -
  let ?tc = "\<lparr>thread_count = cfg_thread_count cfg, queue_size = cfg_queue_size cfg,
              enable_priority = True, enable_preemptive = cfg_preemptive cfg\<rparr>"
  obtain h1 h2 where m: "tn_mempool_create (total_mem_limit cfg) h = (Some mp, h1)"
    and t: "tn_threadpool_create (Some ?tc) h1 = (Some tp, h2)"
    and s: "tn_scheduler_create (cfg_preemptive cfg) h2 = (Some sc, h')"
    using c by (auto simp: tn_infer_create_core_def split: prod.splits option.splits)
  note gm = mempool_create_gains [OF gained_wf [OF g] m]
  note gt = threadpool_create_gains [OF gained_wf [OF conjunct1 [OF gm]] t]
  note gs = scheduler_create_gains [OF gained_wf [OF conjunct1 [OF gt]] s]
  note a1 = gained_add [OF g conjunct1 [OF gm]]
  note a2 = gained_add [OF conjunct1 [OF a1] conjunct1 [OF gt]]
  note a3 = gained_add [OF conjunct1 [OF a2] conjunct1 [OF gs]]
  show "gained g h' ({hp} \<union> mp_blocks (Some mp) \<union> tp_blocks (Some tp) \<union> sc_blocks (Some sc))"
    "hp \<notin> mp_blocks (Some mp)" "({hp} \<union> mp_blocks (Some mp)) \<inter> tp_blocks (Some tp) = {}"
    "({hp} \<union> mp_blocks (Some mp) \<union> tp_blocks (Some tp)) \<inter> sc_blocks (Some sc) = {}"
    "mp_sep (Some mp)" "tp_sep (Some tp)" "sc_sep (Some sc)"
    using a1 a2 a3 gm gt gs by auto
qed

lemma create_services:
  assumes wf: "heap_wf h" and c: "tn_infer_create_services cfg h = ((bt, ld, mt, cfg'), h')"
  shows "gained h h' (bt_blocks bt \<union> ld_blocks ld \<union> mt_blocks mt)"
    "bt_blocks bt \<inter> ld_blocks ld = {}" "(bt_blocks bt \<union> ld_blocks ld) \<inter> mt_blocks mt = {}"
    "bt_sep bt" "mt_sep mt"
proof -
  obtain h1 h2 where b: "(if batch_enabled cfg
      then tn_batch_create (Some \<lparr>max_batch_size = batch_max_size cfg, timeout_us = batch_timeout_us cfg\<rparr>) h
      else (None, h)) = (bt, h1)" and l: "tn_loader_create (cfg_max_model_size cfg) h1 = (ld, h2)"
    and t: "(if metrics_enabled cfg then tn_metrics_create 1024 h2 else (None, h2)) = (mt, h')"
    using c by (auto simp: tn_infer_create_services_def split: prod.splits)
  have gb: "gained h h1 (bt_blocks bt) \<and> bt_sep bt"
    using b wf batch_create_gains [OF wf] by (auto simp: opt_owns_def opt_sep_def gained_refl split: if_splits)
  note gl = loader_create_gains [OF gained_wf [OF conjunct1 [OF gb]] l]
  have gt: "gained h2 h' (mt_blocks mt) \<and> mt_sep mt"
    using t gl metrics_create_gains [OF gained_wf [OF gl]]
    by (auto simp: opt_owns_def opt_sep_def gained_refl split: if_splits)
  note a1 = gained_add [OF conjunct1 [OF gb] gl]
  note a2 = gained_add [OF conjunct1 [OF a1] conjunct1 [OF gt]]
  show "gained h h' (bt_blocks bt \<union> ld_blocks ld \<union> mt_blocks mt)"
    "bt_blocks bt \<inter> ld_blocks ld = {}" "(bt_blocks bt \<union> ld_blocks ld) \<inter> mt_blocks mt = {}"
    "bt_sep bt" "mt_sep mt"
    using a1 a2 gb gt by auto
qed

text \<open>When the array of models cannot be allocated the core is taken down again, and what the services allocated stays.\<close>

lemma array_failure_gains:
  assumes g: "gained h h0 {p}" and co: "tn_infer_create_core cfg p h0 = (Some (mp, tp, sc), h1)"
    and sv: "tn_infer_create_services cfg h1 = ((bt, ld, mt, cfg'), h2)" and h3: "uk_zalloc n h2 = (None, h3)"
  shows "gained h (uk_free (Some p) (snd (tn_mempool_destroy (Some mp) (snd (tn_threadpool_destroy (Some tp)
      (snd (tn_scheduler_destroy (Some sc) h3))))))) (bt_blocks bt \<union> ld_blocks ld \<union> mt_blocks mt)"
proof -
  note cs = create_core_Some [OF g co]
  note s = create_services [OF gained_wf [OF cs(1)] sv]
  let ?S = "bt_blocks bt \<union> ld_blocks ld \<union> mt_blocks mt"
  let ?C = "{p} \<union> mp_blocks (Some mp) \<union> tp_blocks (Some tp) \<union> sc_blocks (Some sc)"
  have dis: "?C \<inter> ?S = {}" by (rule gained_disjoint [OF cs(1) s(1)])
  have "gained h h3 (?C \<union> ?S)"
    using gained_trans [OF gained_trans [OF cs(1) s(1)] uk_zalloc_None [OF gained_wf [OF s(1)] h3]] by simp
  then have "gained h h3 (?S \<union> {p} \<union> mp_blocks (Some mp) \<union> tp_blocks (Some tp) \<union> sc_blocks (Some sc))"
    by (simp add: Un_ac)
  then have "gained h (snd (tn_scheduler_destroy (Some sc) h3)) (?S \<union> {p} \<union> mp_blocks (Some mp) \<union> tp_blocks (Some tp))"
    by (rule teardown) (use dis cs in blast, rule scheduler_destroy_loses [OF _ cs(7)])
  then have "gained h (snd (tn_threadpool_destroy (Some tp) (snd (tn_scheduler_destroy (Some sc) h3))))
      (?S \<union> {p} \<union> mp_blocks (Some mp))"
    by (rule teardown) (use dis cs in blast, rule threadpool_destroy_loses [OF _ cs(6)])
  then have "gained h (snd (tn_mempool_destroy (Some mp) (snd (tn_threadpool_destroy (Some tp)
      (snd (tn_scheduler_destroy (Some sc) h3)))))) (?S \<union> {p})"
    by (rule teardown) (use dis cs in blast, rule mempool_destroy_loses [OF _ cs(5)])
  then show ?thesis by (rule teardown_free) (use dis in blast)
qed

text \<open>
  C31: the failure paths of \<open>tn_infer_create\<close>. When it returns null, nothing was freed twice, and the blocks it leaves allocated
  are exactly these: none when the handle, the memory pool, the thread pool or the scheduler could not be created; otherwise,
  the array of models being what failed, all blocks of the batch processor, the loader and the metrics collector created before it.
\<close>

theorem create_failure_accounts:
  assumes "heap_wf h" and "tn_infer_create conf h = (None :: ('net, 'sess) tn_infer_handle option, h')"
    and "cfg = (case conf of Some c \<Rightarrow> c | None \<Rightarrow> default_config)"
  shows "gained h h'
    (case uk_zalloc sizeof_tn_infer_handle h of
       (None, _) \<Rightarrow> {}
     | (Some hp, h0) \<Rightarrow>
         (case tn_infer_create_core cfg hp h0 of
            (None, _) \<Rightarrow> {}
          | (Some _, h1) \<Rightarrow>
              (case tn_infer_create_services cfg h1 of
                 ((bt, ld :: ('net, 'sess) tn_loader option, mt, _), _) \<Rightarrow> bt_blocks bt \<union> ld_blocks ld \<union> mt_blocks mt)))"
proof -
  obtain hp h0 where z: "uk_zalloc sizeof_tn_infer_handle h = (hp, h0)" by fastforce
  show ?thesis
  proof (cases hp)
    case None
    then show ?thesis using assms(1,2) z uk_zalloc_None by (auto simp: tn_infer_create_def)
  next
    case (Some p)
    note g0 = uk_zalloc_Some(1) [OF assms(1) z [unfolded Some]]
    obtain core h1 where co: "tn_infer_create_core cfg p h0 = (core, h1)" by fastforce
    show ?thesis
    proof (cases core)
      case None
      then have "h' = h1" using assms(2,3) z Some co by (simp add: tn_infer_create_def)
      then show ?thesis using create_core_None [OF g0] co None z Some by simp
    next
      case c3: (Some c3)
      obtain mp tp sc where core: "core = Some (mp, tp, sc)" using c3 by (cases c3) auto
      obtain bt mt cfg' h2 and ld :: "('net, 'sess) tn_loader option"
        where sv: "tn_infer_create_services cfg h1 = ((bt, ld, mt, cfg'), h2)" by (metis prod.exhaust)
      obtain h3 where h3: "uk_zalloc (of_nat (if multi_model_enabled cfg' then 16 else 1) * sizeof_tn_model_info) h2 = (None, h3)"
        and h': "h' = uk_free (Some p) (snd (tn_mempool_destroy (Some mp) (snd (tn_threadpool_destroy (Some tp)
            (snd (tn_scheduler_destroy (Some sc) h3))))))"
        using assms(2,3) z Some co core sv
        by (auto simp: tn_infer_create_def Let_def split: prod.splits option.splits)
      show ?thesis using array_failure_gains [OF g0 co [unfolded core] sv h3] z Some co core sv unfolding h' by simp
    qed
  qed
qed

theorem create_failure_accounts_witness:
  "\<exists>h' :: uk_alloc. tn_infer_create (Some demo_config) (api_heap (replicate 18 False @ [True])) =
       (None :: (unit, unit) tn_infer_handle option, h') \<and>
     (\<exists>A. gained (api_heap (replicate 18 False @ [True])) h' A \<and> A \<noteq> {})"
proof -
  let ?h = "api_heap (replicate 18 False @ [True])"
  have script: "replicate 18 False @ [True] = [False, False, False, False, False, False, False, False, False,
      False, False, False, False, False, False, False, False, False, True]" by (simp add: numeral_eq_Suc)
  obtain h' where c: "tn_infer_create (Some demo_config) ?h = (None :: (unit, unit) tn_infer_handle option, h')"
    and b: "blocks h' 15345 \<noteq> None"
    by (simp add: api_eval Let_def script tn_scheduler_destroy_def tn_threadpool_destroy_def tn_mempool_destroy_def)
  have e: "blocks ?h = Map.empty" by (simp add: api_heap_def demo_heap_def)
  obtain A where g: "gained ?h h' A" using create_failure_accounts [OF _ c refl] by auto
  moreover have "A \<noteq> {}" using g gained_none_blocks b e by fastforce
  ultimately show ?thesis using c by blast
qed

subsection \<open>A created handle\<close>

text \<open>The blocks of a handle that its destruction releases, component by component.\<close>

definition handle_wf :: "uk_alloc \<Rightarrow> uk_alloc \<Rightarrow> ('net, 'sess) tn_infer_handle \<Rightarrow> bool" where
  "handle_wf h h' hnd \<longleftrightarrow>
     gained h h' (ld_blocks (loader hnd) \<union> {self_addr hnd} \<union> {models_addr hnd} \<union> mt_blocks (metrics hnd) \<union>
       mp_blocks (mempool hnd) \<union> tp_blocks (threadpool hnd) \<union> sc_blocks (scheduler hnd) \<union> bt_blocks (batch hnd)) \<and>
     self_addr hnd \<notin> ld_blocks (loader hnd) \<and>
     models_addr hnd \<notin> ld_blocks (loader hnd) \<union> {self_addr hnd} \<and>
     (ld_blocks (loader hnd) \<union> {self_addr hnd} \<union> {models_addr hnd}) \<inter> mt_blocks (metrics hnd) = {} \<and>
     (ld_blocks (loader hnd) \<union> {self_addr hnd} \<union> {models_addr hnd} \<union> mt_blocks (metrics hnd)) \<inter> mp_blocks (mempool hnd) = {} \<and>
     (ld_blocks (loader hnd) \<union> {self_addr hnd} \<union> {models_addr hnd} \<union> mt_blocks (metrics hnd) \<union>
       mp_blocks (mempool hnd)) \<inter> tp_blocks (threadpool hnd) = {} \<and>
     (ld_blocks (loader hnd) \<union> {self_addr hnd} \<union> {models_addr hnd} \<union> mt_blocks (metrics hnd) \<union>
       mp_blocks (mempool hnd) \<union> tp_blocks (threadpool hnd)) \<inter> sc_blocks (scheduler hnd) = {} \<and>
     (ld_blocks (loader hnd) \<union> {self_addr hnd} \<union> {models_addr hnd} \<union> mt_blocks (metrics hnd) \<union>
       mp_blocks (mempool hnd) \<union> tp_blocks (threadpool hnd) \<union> sc_blocks (scheduler hnd)) \<inter> bt_blocks (batch hnd) = {} \<and>
     mp_sep (mempool hnd) \<and> tp_sep (threadpool hnd) \<and> sc_sep (scheduler hnd) \<and> bt_sep (batch hnd) \<and>
     mt_sep (metrics hnd)"

lemma create_handle_wf:
  assumes "heap_wf h" and "tn_infer_create conf h = (Some hnd, h')"
  shows "handle_wf h h' hnd"
proof -
  let ?cfg = "case conf of Some c \<Rightarrow> c | None \<Rightarrow> default_config"
  obtain p h0 mp tp sc h1 bt ld mt cfg' h2 ms where
    z: "uk_zalloc sizeof_tn_infer_handle h = (Some p, h0)"
    and co: "tn_infer_create_core ?cfg p h0 = (Some (mp, tp, sc), h1)"
    and sv: "tn_infer_create_services ?cfg h1 = ((bt, ld, mt, cfg'), h2)"
    and h3: "uk_zalloc (of_nat (if multi_model_enabled cfg' then 16 else 1) * sizeof_tn_model_info) h2 = (Some ms, h')"
    and hnd: "self_addr hnd = p" "mempool hnd = Some mp" "threadpool hnd = Some tp" "scheduler hnd = Some sc"
      "batch hnd = bt" "loader hnd = ld" "metrics hnd = mt" "models_addr hnd = ms"
    using assms(2) by (auto simp: tn_infer_create_def Let_def split: prod.splits option.splits)
  note g0 = uk_zalloc_Some(1) [OF assms(1) z]
  note cs = create_core_Some [OF g0 co]
  note s = create_services [OF gained_wf [OF cs(1)] sv]
  note m = uk_zalloc_Some(1) [OF gained_wf [OF s(1)] h3]
  note all = gained_trans [OF gained_trans [OF cs(1) s(1)] m]
  have d1: "({p} \<union> mp_blocks (Some mp) \<union> tp_blocks (Some tp) \<union> sc_blocks (Some sc)) \<inter>
      (bt_blocks bt \<union> ld_blocks ld \<union> mt_blocks mt) = {}" by (rule gained_disjoint [OF cs(1) s(1)])
  have d2: "ms \<notin> {p} \<union> mp_blocks (Some mp) \<union> tp_blocks (Some tp) \<union> sc_blocks (Some sc) \<union>
      (bt_blocks bt \<union> ld_blocks ld \<union> mt_blocks mt)"
    using gained_disjoint [OF gained_trans [OF cs(1) s(1)] m] by blast
  have set: "ld_blocks ld \<union> {p} \<union> {ms} \<union> mt_blocks mt \<union> mp_blocks (Some mp) \<union> tp_blocks (Some tp) \<union>
      sc_blocks (Some sc) \<union> bt_blocks bt =
      {p} \<union> mp_blocks (Some mp) \<union> tp_blocks (Some tp) \<union> sc_blocks (Some sc) \<union>
      (bt_blocks bt \<union> ld_blocks ld \<union> mt_blocks mt) \<union> {ms}" by (simp add: Un_ac)
  have rest: "mp_sep (Some mp) \<and> tp_sep (Some tp) \<and> sc_sep (Some sc) \<and> bt_sep bt \<and> mt_sep mt"
    using cs(5-7) s(4,5) by simp
  have own: "p \<notin> ld_blocks ld" "ms \<notin> ld_blocks ld \<union> {p}"
    "(ld_blocks ld \<union> {p} \<union> {ms}) \<inter> mt_blocks mt = {}"
    using d1 d2 s(3) by blast+
  have core: "(ld_blocks ld \<union> {p} \<union> {ms} \<union> mt_blocks mt) \<inter> mp_blocks (Some mp) = {}"
    "(ld_blocks ld \<union> {p} \<union> {ms} \<union> mt_blocks mt \<union> mp_blocks (Some mp)) \<inter> tp_blocks (Some tp) = {}"
    "(ld_blocks ld \<union> {p} \<union> {ms} \<union> mt_blocks mt \<union> mp_blocks (Some mp) \<union> tp_blocks (Some tp)) \<inter>
       sc_blocks (Some sc) = {}"
    using d1 d2 cs(2-4) by blast+
  have last: "(ld_blocks ld \<union> {p} \<union> {ms} \<union> mt_blocks mt \<union> mp_blocks (Some mp) \<union> tp_blocks (Some tp) \<union>
       sc_blocks (Some sc)) \<inter> bt_blocks bt = {}"
    using d1 d2 s(2,3) by blast
  show ?thesis unfolding handle_wf_def hnd set
    by (intro conjI all own core last rest [THEN conjunct1] rest [THEN conjunct2, THEN conjunct1]
        rest [THEN conjunct2, THEN conjunct2, THEN conjunct1]
        rest [THEN conjunct2, THEN conjunct2, THEN conjunct2, THEN conjunct1]
        rest [THEN conjunct2, THEN conjunct2, THEN conjunct2, THEN conjunct2])
qed

lemma destroy_handle:
  assumes "handle_wf h h' hnd"
  shows "gained h
    (uk_free (Some (self_addr hnd)) (uk_free (Some (models_addr hnd))
      (snd (tn_metrics_destroy (metrics hnd) (snd (tn_mempool_destroy (mempool hnd)
        (snd (tn_threadpool_destroy (threadpool hnd) (snd (tn_scheduler_destroy (scheduler hnd)
          (snd (tn_batch_destroy (batch hnd) h')))))))))))) (ld_blocks (loader hnd))"
proof -
  note w0 = assms [unfolded handle_wf_def]
  note w1 = conjunct2 [OF w0]
  note w2 = conjunct2 [OF w1]
  note w3 = conjunct2 [OF w2]
  note w4 = conjunct2 [OF w3]
  note w5 = conjunct2 [OF w4]
  note w6 = conjunct2 [OF w5]
  note w7 = conjunct2 [OF w6]
  note sep = conjunct2 [OF w7]
  have "gained h (snd (tn_batch_destroy (batch hnd) h'))
      (ld_blocks (loader hnd) \<union> {self_addr hnd} \<union> {models_addr hnd} \<union> mt_blocks (metrics hnd) \<union>
       mp_blocks (mempool hnd) \<union> tp_blocks (threadpool hnd) \<union> sc_blocks (scheduler hnd))"
    using conjunct1 [OF w0] conjunct1 [OF w7]
    by (rule teardown) (rule batch_destroy_loses [OF _ sep [THEN conjunct2, THEN conjunct2, THEN conjunct2, THEN conjunct1]])
  then have "gained h (snd (tn_scheduler_destroy (scheduler hnd) (snd (tn_batch_destroy (batch hnd) h'))))
      (ld_blocks (loader hnd) \<union> {self_addr hnd} \<union> {models_addr hnd} \<union> mt_blocks (metrics hnd) \<union>
       mp_blocks (mempool hnd) \<union> tp_blocks (threadpool hnd))"
    using conjunct1 [OF w6]
    by (rule teardown) (rule scheduler_destroy_loses [OF _ sep [THEN conjunct2, THEN conjunct2, THEN conjunct1]])
  then have "gained h (snd (tn_threadpool_destroy (threadpool hnd) (snd (tn_scheduler_destroy (scheduler hnd)
      (snd (tn_batch_destroy (batch hnd) h'))))))
      (ld_blocks (loader hnd) \<union> {self_addr hnd} \<union> {models_addr hnd} \<union> mt_blocks (metrics hnd) \<union>
       mp_blocks (mempool hnd))"
    using conjunct1 [OF w5]
    by (rule teardown) (rule threadpool_destroy_loses [OF _ sep [THEN conjunct2, THEN conjunct1]])
  then have "gained h (snd (tn_mempool_destroy (mempool hnd) (snd (tn_threadpool_destroy (threadpool hnd)
      (snd (tn_scheduler_destroy (scheduler hnd) (snd (tn_batch_destroy (batch hnd) h'))))))))
      (ld_blocks (loader hnd) \<union> {self_addr hnd} \<union> {models_addr hnd} \<union> mt_blocks (metrics hnd))"
    using conjunct1 [OF w4] by (rule teardown) (rule mempool_destroy_loses [OF _ sep [THEN conjunct1]])
  then have "gained h (snd (tn_metrics_destroy (metrics hnd) (snd (tn_mempool_destroy (mempool hnd)
      (snd (tn_threadpool_destroy (threadpool hnd) (snd (tn_scheduler_destroy (scheduler hnd)
        (snd (tn_batch_destroy (batch hnd) h'))))))))))
      (ld_blocks (loader hnd) \<union> {self_addr hnd} \<union> {models_addr hnd})"
    using conjunct1 [OF w3]
    by (rule teardown) (rule metrics_destroy_loses [OF _ sep [THEN conjunct2, THEN conjunct2, THEN conjunct2, THEN conjunct2]])
  then have "gained h (uk_free (Some (models_addr hnd)) (snd (tn_metrics_destroy (metrics hnd)
      (snd (tn_mempool_destroy (mempool hnd) (snd (tn_threadpool_destroy (threadpool hnd)
        (snd (tn_scheduler_destroy (scheduler hnd) (snd (tn_batch_destroy (batch hnd) h')))))))))))
      (ld_blocks (loader hnd) \<union> {self_addr hnd})"
    using conjunct1 [OF w2] by (rule teardown_free)
  then show ?thesis using conjunct1 [OF w1] by (rule teardown_free)
qed

subsection \<open>The calls between creation and destruction\<close>

text \<open>
  The states a handle can reach: it is created on heap \<open>h\<close> (leaving heap \<open>h'\<close>), then any
  load, unload and inference calls follow, with any arguments; \<open>P\<close> restricts the model names
  the client uses. None of these calls allocates or frees a block of the heap.
\<close>

inductive api_reach ::
    "('net, 'sess, 'tensor) mnn_env \<Rightarrow> (string \<Rightarrow> bool) \<Rightarrow> uk_alloc \<Rightarrow> uk_alloc \<Rightarrow> ('net, 'sess) tn_infer_handle \<Rightarrow> bool"
  for env P h h' where
  created: "heap_wf h \<Longrightarrow> tn_infer_create conf h = (Some hnd, h') \<Longrightarrow> api_reach env P h h' hnd"
| load: "api_reach env P h h' hnd \<Longrightarrow> P nm \<Longrightarrow>
    tn_infer_load env (Some hnd) path (Some nm) = (r, Some hnd') \<Longrightarrow> api_reach env P h h' hnd'"
| unload: "api_reach env P h h' hnd \<Longrightarrow> P nm \<Longrightarrow>
    tn_infer_unload (Some hnd) (Some nm) = (r, Some hnd') \<Longrightarrow> api_reach env P h h' hnd'"
| infer: "api_reach env P h h' hnd \<Longrightarrow>
    tn_infer env t0 t1 now_ns (Some hnd) req res = Inr (r, Some hnd', req', res') \<Longrightarrow>
    api_reach env P h h' hnd'"

definition same_blocks :: "('net, 'sess) tn_infer_handle \<Rightarrow> ('net, 'sess) tn_infer_handle \<Rightarrow> bool" where
  "same_blocks a b \<longleftrightarrow> self_addr a = self_addr b \<and> models_addr a = models_addr b \<and> mempool a = mempool b \<and>
     threadpool a = threadpool b \<and> scheduler a = scheduler b \<and> batch a = batch b \<and>
     ld_blocks (loader a) = ld_blocks (loader b) \<and> mt_blocks (metrics a) = mt_blocks (metrics b) \<and>
     mt_sep (metrics a) = mt_sep (metrics b)"

lemma same_blocks_refl [simp]: "same_blocks a a"
  by (simp add: same_blocks_def)

lemma same_blocks_trans: "same_blocks a b \<Longrightarrow> same_blocks b c \<Longrightarrow> same_blocks a c"
  by (simp add: same_blocks_def)

lemma handle_wf_same: "same_blocks a b \<Longrightarrow> handle_wf h h' a = handle_wf h h' b"
  by (simp add: same_blocks_def handle_wf_def)

lemma ld_blocks_impl [simp]: "ld_blocks (Some (x\<lparr>impl := l\<rparr>)) = ld_blocks (Some x)"
  by (simp add: opt_owns_def handle_owns_def ModelLoader_owns_def)

lemma upd_slot_fields [simp]:
  "loader (upd_slot i f hnd) = loader hnd" "metrics (upd_slot i f hnd) = metrics hnd"
  "model_count (upd_slot i f hnd) = model_count hnd" "max_models (upd_slot i f hnd) = max_models hnd"
  "initialized (upd_slot i f hnd) = initialized hnd" "config (upd_slot i f hnd) = config hnd"
  "models (upd_slot i f hnd) = (models hnd)[i := f (models hnd ! i)]"
  "same_blocks a (upd_slot i f hnd) = same_blocks a hnd"
  by (simp_all add: upd_slot_def same_blocks_def)

lemma take_slot_fields:
  assumes "take_slot nm hnd = (r, hnd')"
  shows "loader hnd' = loader hnd" "metrics hnd' = metrics hnd" "models hnd' = models hnd"
    "max_models hnd' = max_models hnd" "initialized hnd' = initialized hnd" "config hnd' = config hnd"
    "same_blocks hnd hnd'"
  using assms by (auto simp: take_slot_def same_blocks_def split: option.splits if_splits)

lemma tn_loader_load_blocks [simp]: "ld_blocks (snd (tn_loader_load env p n ld)) = ld_blocks ld"
  by (auto simp: tn_loader_load_def split: option.splits prod.splits)

lemma tn_loader_unload_blocks [simp]: "ld_blocks (snd (tn_loader_unload n ld)) = ld_blocks ld"
  by (auto simp: tn_loader_unload_def split: option.splits prod.splits)

lemma load_same_blocks:
  assumes "tn_infer_load env (Some hnd) path name = (r, Some hnd')"
  shows "same_blocks hnd hnd'"
proof -
  have set_loader: "same_blocks a (k\<lparr>loader := snd (tn_loader_load env p n (loader k))\<rparr>) = same_blocks a k" for a k p n
    by (simp add: same_blocks_def)
  show ?thesis
    using assms take_slot_fields(7) [of _ hnd]
    by (auto simp: tn_infer_load_def record_model_def Let_def split: option.splits if_splits prod.splits)
      (metis set_loader snd_conv upd_slot_fields(8))+
qed

lemma unload_same_blocks:
  assumes "tn_infer_unload (Some hnd) name = (r, Some hnd')"
  shows "same_blocks hnd hnd'"
proof -
  have "same_blocks hnd (hnd\<lparr>loader := snd (tn_loader_unload n (loader hnd))\<rparr>)" for n
    by (simp add: same_blocks_def)
  then show ?thesis
    using assms by (auto simp: tn_infer_unload_def Let_def split: option.splits if_splits)
qed

text \<open>
  What an inference call can do to the handle: nothing, or replace one stored wrapper by the
  one it worked on, and then, only when it succeeds, record one successful request.
\<close>

lemma infer_model_wrapper:
  assumes "infer_model env req w = Inr out"
  shows "case out of InferFail _ w2 \<Rightarrow> MNNWrapper_IsValid w2 = MNNWrapper_IsValid w \<and> model_size w2 = model_size w
    | InferDone w2 _ _ \<Rightarrow> MNNWrapper_IsValid w2 = MNNWrapper_IsValid w \<and> model_size w2 = model_size w"
proof -
  have put: "MNNWrapper_IsValid (w\<lparr>session := Some s\<rparr>) = MNNWrapper_IsValid w" if "session w \<noteq> None" for s
    using that by (simp add: MNNWrapper_IsValid_def)
  have run: "MNNWrapper_IsValid w2 = MNNWrapper_IsValid w \<and> model_size w2 = model_size w"
    if "Run env (w\<lparr>session := Some s\<rparr>) = (r, w2)" "session w \<noteq> None" for r s w2
    using that wrapper_run_valid [OF that(1)] wrapper_run_size [OF that(1)] put by simp
  show ?thesis using assms run unfolding infer_model_def
    by (auto split: option.splits sum.splits prod.splits if_splits)
qed

lemma tn_infer_effect:
  assumes "tn_infer env t0 t1 now_ns (Some hnd) req res = Inr (r, Some hnd', req', res')"
  obtains (same) "hnd' = hnd" "r \<noteq> TN_INFER_SUCCESS"
  | (failed) x nm w w2 where "loader hnd = Some x" "loader_find (impl x) nm = Some w"
      "MNNWrapper_IsValid w2 = MNNWrapper_IsValid w" "model_size w2 = model_size w"
      "hnd' = save_model nm w2 hnd" "r \<noteq> TN_INFER_SUCCESS"
  | (unrecorded) x nm w w2 where "loader hnd = Some x" "loader_find (impl x) nm = Some w"
      "MNNWrapper_IsValid w2 = MNNWrapper_IsValid w" "model_size w2 = model_size w"
      "hnd' = save_model nm w2 hnd" "r = TN_INFER_SUCCESS"
      "metrics hnd = None \<or> \<not> metrics_enabled (config hnd)"
  | (recorded) x nm w w2 y m where "loader hnd = Some x" "loader_find (impl x) nm = Some w"
      "MNNWrapper_IsValid w2 = MNNWrapper_IsValid w" "model_size w2 = model_size w"
      "metrics hnd = Some y"
      "MetricsCollector_Record now_ns (tn_get_time_us t1 - tn_get_time_us t0) 1 True (impl y) = Inr m"
      "hnd' = (save_model nm w2 hnd)\<lparr>metrics := Some (y\<lparr>impl := m\<rparr>)\<rparr>" "r = TN_INFER_SUCCESS"
proof -
  consider "hnd' = hnd" "r \<noteq> TN_INFER_SUCCESS"
    | rq rs nm w where "req = Some rq" "res = Some rs"
        "nm = (case req_model_name rq of Some n \<Rightarrow> n | None \<Rightarrow> ''default'')"
        "tn_loader_get_model (Some nm) (loader hnd) = Some w" "initialized hnd"
    using assms by (auto simp: tn_infer_def Let_def tn_codes split: option.splits if_splits)
  then show thesis
  proof cases
    case 1
    then show ?thesis by (rule same)
  next
    case (2 rq rs nm w)
    then obtain x where x: "loader hnd = Some x" "loader_find (impl x) nm = Some w"
      by (auto simp: tn_loader_get_model_def loader_find_def split: option.splits)
    obtain out where out: "infer_model env rq w = Inr out"
      using assms 2 by (auto simp: tn_infer_def Let_def split: sum.splits)
    show ?thesis
    proof (cases out)
      case (InferFail code w2)
      moreover have "code \<noteq> TN_INFER_SUCCESS" using out InferFail
        by (auto simp: infer_model_def tn_codes split: option.splits sum.splits prod.splits if_splits)
      ultimately show ?thesis
        using failed [OF x, of w2] assms 2 out infer_model_wrapper [OF out] by (auto simp: tn_infer_def Let_def)
    next
      case (InferDone w2 rq' n)
      note w2 = infer_model_wrapper [OF out, unfolded InferDone infer_outcome.case]
      show ?thesis
      proof (cases "metrics hnd \<noteq> None \<and> metrics_enabled (config hnd)")
        case False
        then show ?thesis using unrecorded [OF x, of w2] assms 2 out w2 InferDone
          by (auto simp: tn_infer_def Let_def save_model_def)
      next
        case True
        then obtain y where y: "metrics hnd = Some y" by blast
        then show ?thesis using recorded [OF x, of w2 y] True assms 2 out w2 InferDone
          by (auto simp: tn_infer_def Let_def save_model_def tn_metrics_record_def split: sum.splits)
      qed
    qed
  qed
qed

lemma save_model_blocks [simp]: "same_blocks a (save_model nm w hnd) = same_blocks a hnd"
  by (cases "loader hnd") (simp_all add: save_model_def same_blocks_def)

lemma record_keeps_ptr:
  "MetricsCollector_Record t l b ok m = Inr m' \<Longrightarrow> samples_ptr m' = samples_ptr m"
  by (auto simp: MetricsCollector_Record_def Let_def split: if_splits)

lemma infer_same_blocks:
  assumes "tn_infer env t0 t1 now_ns (Some hnd) req res = Inr (r, Some hnd', req', res')"
  shows "same_blocks hnd hnd'"
  using assms
proof (cases rule: tn_infer_effect)
  case (recorded x nm w w2 y m)
  have "same_blocks hnd (save_model nm w2 hnd)" by simp
  then show ?thesis using recorded record_keeps_ptr [OF recorded(6)]
    by (simp add: same_blocks_def opt_owns_def opt_sep_def handle_owns_def handle_sep_def
        MetricsCollector_owns_def save_model_def)
qed simp_all

lemma reach_handle_wf: "api_reach env P h h' hnd \<Longrightarrow> handle_wf h h' hnd"
proof (induction rule: api_reach.induct)
  case (created conf hnd)
  then show ?case by (rule create_handle_wf)
next
  case (load hnd nm path r hnd')
  then show ?case using handle_wf_same load_same_blocks by blast
next
  case (unload hnd nm r hnd')
  then show ?case using handle_wf_same unload_same_blocks by blast
next
  case (infer hnd t0 t1 now_ns req res r hnd' req' res')
  then show ?case using handle_wf_same infer_same_blocks by blast
qed

lemma unload_loop_same_blocks: "same_blocks hnd (unload_loop n i hnd)"
proof (induction n arbitrary: i hnd)
  case (Suc n)
  have "same_blocks hnd (case snd (tn_infer_unload (Some hnd) nm) of Some k \<Rightarrow> k | None \<Rightarrow> hnd)" for nm
    using unload_same_blocks [of hnd nm "fst (tn_infer_unload (Some hnd) nm)"]
    by (auto split: option.split) (metis prod.collapse)
  then show ?case using Suc.IH same_blocks_trans by (auto intro: same_blocks_trans [OF _ Suc.IH])
qed simp

text \<open>
  C15: destruction. From any state a client can bring a handle to, \<open>tn_infer_destroy\<close> succeeds,
  frees nothing twice and nothing it does not own, and gives back every block the handle
  holds, except the blocks of the model loader, which it never destroys: compared with the
  heap before the creation, exactly the loader's blocks remain.
\<close>

theorem destroy_leaves_only_loader:
  assumes "api_reach env P h h' hnd"
  shows "fst (tn_infer_destroy (Some hnd) h') = TN_INFER_SUCCESS \<and>
    gained h (snd (tn_infer_destroy (Some hnd) h')) (ld_blocks (loader hnd))"
proof -
  let ?k = "unload_loop (model_count hnd) 0 (hnd\<lparr>shutdown := True\<rparr>)"
  have "same_blocks hnd (hnd\<lparr>shutdown := True\<rparr>)" by (simp add: same_blocks_def)
  then have same: "same_blocks hnd ?k" using unload_loop_same_blocks same_blocks_trans by blast
  then have "handle_wf h h' ?k" using reach_handle_wf [OF assms] handle_wf_same by blast
  note d = destroy_handle [OF this]
  have "snd (tn_infer_destroy (Some hnd) h') =
      uk_free (Some (self_addr ?k)) (uk_free (Some (models_addr ?k))
      (snd (tn_metrics_destroy (metrics ?k) (snd (tn_mempool_destroy (mempool ?k)
        (snd (tn_threadpool_destroy (threadpool ?k) (snd (tn_scheduler_destroy (scheduler ?k)
          (snd (tn_batch_destroy (batch ?k) h')))))))))))"
    by (simp add: tn_infer_destroy_def Let_def tn_batch_destroy_def tn_scheduler_destroy_def
        tn_threadpool_destroy_def tn_mempool_destroy_def tn_metrics_destroy_def split: option.split)
  then show ?thesis using d same by (simp add: tn_infer_destroy_def Let_def same_blocks_def)
qed

theorem destroy_leaves_only_loader_witness:
  "\<exists>hnd h'. api_reach demo_env (\<lambda>_. True) (api_heap []) h' hnd \<and>
     fst (tn_infer_destroy (Some hnd) h') = TN_INFER_SUCCESS \<and> ld_blocks (loader hnd) \<noteq> {} \<and>
     gained (api_heap []) (snd (tn_infer_destroy (Some hnd) h')) (ld_blocks (loader hnd))"
proof -
  obtain hnd :: "(unit, byte list) tn_infer_handle" and h' x where
    c: "tn_infer_create (Some demo_config) (api_heap []) = (Some hnd, h')" and x: "loader hnd = Some x"
    using demo_create by blast
  have r: "api_reach demo_env (\<lambda>_. True) (api_heap []) h' hnd" by (rule created [OF api_heap_wf c])
  show ?thesis using r destroy_leaves_only_loader [OF r] x
    by (intro exI [of _ hnd] exI [of _ h']) (simp add: opt_owns_def handle_owns_def)
qed

end
