(* ===== verification/TN_Api_Models.thy ===== *)
theory TN_Api_Models
  imports TN_Api_Lifecycle
begin

text \<open>
  What the API promises about models, for every state a client can reach: the
  table of models in the handle agrees with the loader, loading and unloading are inverse,
  and where the table loses track of models.
\<close>

subsection \<open>The effect of a load\<close>

lemma find_slot_Some:
  "find_slot nm hnd = Some i \<longleftrightarrow>
     i < model_count hnd \<and> mi_name (models hnd ! i) = nm \<and> (\<forall>j<i. mi_name (models hnd ! j) \<noteq> nm)"
  by (auto simp: find_slot_def find_Some_iff)

lemma find_slot_None:
  "find_slot nm hnd = None \<longleftrightarrow> (\<forall>i<model_count hnd. mi_name (models hnd ! i) \<noteq> nm)"
  by (auto simp: find_slot_def find_None_iff)

lemma record_model_fields [simp]:
  "loader (record_model i nm p hnd) = loader hnd" "metrics (record_model i nm p hnd) = metrics hnd"
  "model_count (record_model i nm p hnd) = model_count hnd" "max_models (record_model i nm p hnd) = max_models hnd"
  "initialized (record_model i nm p hnd) = initialized hnd" "config (record_model i nm p hnd) = config hnd"
  by (simp_all add: record_model_def)

text \<open>Slot \<open>i\<close> after a recorded load: \<open>k\<close> slots are in use.\<close>

definition recorded_at :: "nat \<Rightarrow> string \<Rightarrow> nat \<Rightarrow> ('net, 'sess) tn_infer_handle \<Rightarrow> ('net, 'sess) tn_infer_handle \<Rightarrow> bool" where
  "recorded_at i nm k hnd hnd' \<longleftrightarrow> model_count hnd' = k \<and> max_models hnd' = max_models hnd \<and>
     initialized hnd' = initialized hnd \<and> config hnd' = config hnd \<and> metrics hnd' = metrics hnd \<and>
     (\<exists>m. models hnd' = (models hnd)[i := m] \<and> mi_name m = strncpy_c 64 nm \<and> loaded m)"

lemma recorded_at_record:
  assumes "i < length (models hnd)"
  shows "recorded_at i nm k hnd (record_model i nm p (hnd\<lparr>model_count := k\<rparr>))"
    "recorded_at i nm k hnd (record_model i nm p (hnd\<lparr>model_count := k, loader := ld\<rparr>))"
    "recorded_at i nm k hnd (record_model i nm p (upd_slot i f (hnd\<lparr>model_count := k, loader := ld\<rparr>)))"
  using assms by (auto simp: recorded_at_def record_model_def)

lemma take_slot_shape:
  assumes "model_count hnd \<le> max_models hnd"
  shows "\<exists>j k. take_slot nm hnd = (j, hnd\<lparr>model_count := k\<rparr>) \<and> (j = None \<longrightarrow> k = model_count hnd) \<and>
    (\<forall>i. j = Some i \<longrightarrow> i < max_models hnd)"
proof (cases "find_slot nm hnd")
  case None
  then show ?thesis by (cases "model_count hnd < max_models hnd") (auto simp: take_slot_def intro!: exI)
next
  case (Some i)
  then have "i < max_models hnd" using assms by (simp add: find_slot_Some)
  then show ?thesis using Some
    by (intro exI [of _ "Some i"] exI [of _ "model_count hnd"]) (simp add: take_slot_def)
qed

text \<open>A load is refused before anything is done, or it has a path, an initialised handle and a slot.\<close>

lemma tn_infer_load_starts:
  assumes l: "tn_infer_load env (Some hnd) path (Some nm) = (r, Some hnd')" and len: "model_count hnd \<le> max_models hnd"
  obtains (idle) "hnd' = hnd" "r \<noteq> TN_INFER_SUCCESS"
  | (begun) p i k where "path = Some p" "initialized hnd" "take_slot nm hnd = (Some i, hnd\<lparr>model_count := k\<rparr>)" "i < max_models hnd"
proof -
  obtain j k where t: "take_slot nm hnd = (j, hnd\<lparr>model_count := k\<rparr>)" and j: "j = None \<Longrightarrow> k = model_count hnd"
      "\<And>i. j = Some i \<Longrightarrow> i < max_models hnd" using take_slot_shape [OF len] by metis
  show thesis
  proof (cases "path = None \<or> \<not> initialized hnd \<or> j = None")
    case True
    then consider "path = None" | p where "path = Some p" "\<not> initialized hnd" | p where "path = Some p" "initialized hnd" "j = None"
      by blast
    then have "hnd' = hnd \<and> r \<noteq> TN_INFER_SUCCESS"
      by cases (use l t j(1) in \<open>auto simp: tn_infer_load_def tn_codes\<close>)
    then show thesis using idle by blast
  next
    case False
    then obtain p i where "path = Some p" "j = Some i" by (cases path; cases j) auto
    then show thesis using begun [of p i k] t j(2) False by blast
  qed
qed

lemma tn_infer_load_effect:
  assumes "tn_infer_load env (Some hnd) path (Some nm) = (r, Some hnd')"
    and len: "length (models hnd) = max_models hnd" "model_count hnd \<le> max_models hnd"
  obtains (refused) "hnd' = hnd" "r \<noteq> TN_INFER_SUCCESS"
  | (failed) i k p x ret where "path = Some p" "take_slot nm hnd = (Some i, hnd\<lparr>model_count := k\<rparr>)"
      "loader hnd = Some x" "loader_load env p nm (impl x) = (ret, impl x)" "ret \<noteq> 0"
      "hnd' = hnd\<lparr>model_count := k\<rparr>" "r = TN_INFER_ERR_LOAD_FAILED"
  | (bare) i k where "take_slot nm hnd = (Some i, hnd\<lparr>model_count := k\<rparr>)" "loader hnd = None" "loader hnd' = None"
      "recorded_at i nm k hnd hnd'" "r = TN_INFER_SUCCESS"
  | (stored) i k p x l where "path = Some p" "take_slot nm hnd = (Some i, hnd\<lparr>model_count := k\<rparr>)"
      "loader hnd = Some x" "loader_load env p nm (impl x) = (0, l)" "loader hnd' = Some (x\<lparr>impl := l\<rparr>)"
      "recorded_at i nm k hnd hnd'" "r = TN_INFER_SUCCESS"
  using assms(1) len(2)
proof (cases rule: tn_infer_load_starts)
  case idle
  then show thesis by (rule refused)
next
  case (begun p i k)
  note 2 = begun
  note t = 2(3)
  have i: "i < length (models hnd)" using 2(4) len(1) by simp
  note ld = assms(1) [unfolded 2(1) tn_infer_load_def]
  show thesis
  proof (cases "loader hnd")
    case None
    then have "hnd' = record_model i nm p (hnd\<lparr>model_count := k\<rparr>)" "r = TN_INFER_SUCCESS"
      using ld 2(2) t by simp_all
    then show thesis using None recorded_at_record(1) [OF i] by (intro bare [OF t None]) simp_all
  next
    case (Some x)
    obtain ret l where l: "loader_load env p nm (impl x) = (ret, l)" by fastforce
    then have tl: "tn_loader_load env (Some p) (Some nm) (loader hnd) =
        (if ret = 0 then TN_INFER_SUCCESS else TN_INFER_ERR_LOAD_FAILED, Some (x\<lparr>impl := l\<rparr>))"
      using Some by (simp add: tn_loader_load_def loader_load_def)
    show thesis
    proof (cases "ret = 0")
      case False
      then have "l = impl x" using l ls.load_err by blast
      moreover have "hnd\<lparr>model_count := k, loader := Some x\<rparr> = hnd\<lparr>model_count := k\<rparr>" using Some by simp
      ultimately show thesis using ld 2(2) t Some l tl False
        by (intro failed [OF 2(1) t Some]) (auto simp: tn_codes Let_def)
    next
      case True
      have "r = TN_INFER_SUCCESS \<and> loader hnd' = Some (x\<lparr>impl := l\<rparr>) \<and> recorded_at i nm k hnd hnd'"
        using ld 2(2) t Some tl True recorded_at_record(2,3) [OF i]
        by (cases "tn_loader_get_model (Some nm) (Some (x\<lparr>impl := l\<rparr>))") (auto simp: Let_def)
      then show thesis using l True by (intro stored [OF 2(1) t Some]) simp_all
    qed
  qed
qed

lemma tn_infer_unload_effect:
  assumes "tn_infer_unload (Some hnd) (Some nm) = (r, Some hnd')"
  obtains (refused) "hnd' = hnd" "r = TN_INFER_ERR_NO_MODEL" "find_slot nm hnd = None"
  | (stale) i where "hnd' = hnd" "r = TN_INFER_ERR_NO_MODEL" "find_slot nm hnd = Some i" "\<not> loaded (models hnd ! i)"
  | (removed) i where "find_slot nm hnd = Some i" "loaded (models hnd ! i)" "r = TN_INFER_SUCCESS"
      "models hnd' = (models hnd)[i := (models hnd ! i)\<lparr>loaded := False\<rparr>]"
      "model_count hnd' = model_count hnd" "max_models hnd' = max_models hnd" "metrics hnd' = metrics hnd"
      "initialized hnd' = initialized hnd" "config hnd' = config hnd"
      "loader hnd' = map_option (\<lambda>x. x\<lparr>impl := snd (loader_unload nm (impl x))\<rparr>) (loader hnd)"
proof (cases "find_slot nm hnd")
  case None
  then show thesis using assms refused by (simp add: tn_infer_unload_def)
next
  case (Some i)
  show thesis
  proof (cases "loaded (models hnd ! i)")
    case False
    then show thesis using assms Some stale by (simp add: tn_infer_unload_def)
  next
    case True
    have "snd (tn_loader_unload (Some nm) (loader hnd)) =
        map_option (\<lambda>x. x\<lparr>impl := snd (loader_unload nm (impl x))\<rparr>) (loader hnd)"
      by (cases "loader hnd") (auto simp: tn_loader_unload_def loader_unload_def split: prod.splits)
    then show thesis using assms Some True removed [OF Some True]
      by (cases "loader hnd") (auto simp: tn_infer_unload_def Let_def)
  qed
qed

subsection \<open>Invariant of the reachable handles\<close>

definition metrics_only_success :: "tn_metrics option \<Rightarrow> bool" where
  "metrics_only_success mt \<longleftrightarrow> (case mt of None \<Rightarrow> True
     | Some y \<Rightarrow> metrics_inv (impl y) \<and> m_error_count (impl y) = 0 \<and>
               m_success_count (impl y) = m_total_requests (impl y))"

definition api_inv :: "('net, 'sess) tn_infer_handle \<Rightarrow> bool" where
  "api_inv hnd \<longleftrightarrow> initialized hnd \<and> length (models hnd) = max_models hnd \<and> model_count hnd \<le> max_models hnd \<and>
     max_models hnd \<in> {1, 16} \<and>
     (\<forall>i. model_count hnd \<le> i \<longrightarrow> i < max_models hnd \<longrightarrow> models hnd ! i = tn_model_info_zero) \<and>
     (\<forall>m \<in> set (models hnd). length (mi_name m) < 64) \<and>
     (case loader hnd of None \<Rightarrow> True | Some x \<Rightarrow> loader_inv (impl x)) \<and> metrics_only_success (metrics hnd)"

lemma metrics_create_only_success:
  assumes "tn_metrics_create 1024 h = (mt, h')"
  shows "metrics_only_success mt"
  using assms metrics_created [of 1024 h "the mt" h'] 
  by (cases mt) (auto simp: metrics_only_success_def aggregates_def)

lemma loader_create_inv:
  assumes "tn_loader_create n h = (Some x, h')"
  shows "loader_inv (impl x)"
  using assms by (auto simp: tn_loader_create_def c_api_create_def loader_inv_ctor
      split: prod.splits option.splits if_splits)

lemma create_api_inv:
  assumes "tn_infer_create conf h = (Some hnd, h')"
  shows "api_inv hnd" "model_count hnd = 0" "\<And>x. loader hnd = Some x \<Longrightarrow> l_models (impl x) = []"
proof -
  obtain cfg h1 bt ld mt cfg' h2 where
    sv: "tn_infer_create_services cfg h1 = ((bt, ld, mt, cfg'), h2)"
    and hnd: "loader hnd = ld" "metrics hnd = mt" "model_count hnd = 0" "initialized hnd"
      "max_models hnd = (if multi_model_enabled cfg' then 16 else 1)"
      "models hnd = replicate (max_models hnd) tn_model_info_zero"
    using assms by (auto simp: tn_infer_create_def Let_def split: prod.splits option.splits)
  obtain n h3 h4 h5 h6 where l: "tn_loader_create n h3 = (ld, h4)"
    and m: "mt = None \<or> tn_metrics_create 1024 h5 = (mt, h6)"
    using sv by (auto simp: tn_infer_create_services_def split: prod.splits if_splits)
  have "metrics_only_success mt" using m metrics_create_only_success by (auto simp: metrics_only_success_def)
  then show "api_inv hnd"
    using hnd l loader_create_inv [of n h3 _ h4]
    by (auto simp: api_inv_def tn_model_info_zero_def split: option.split)
  show "l_models (impl x) = []" if "loader hnd = Some x" for x
    using that hnd l by (auto simp: tn_loader_create_def c_api_create_def ModelLoader_ctor_def
      split: prod.splits option.splits if_splits)
qed (use assms in \<open>auto simp: tn_infer_create_def Let_def split: prod.splits option.splits\<close>)

lemma take_slot_new:
  assumes "take_slot nm hnd = (Some i, hnd\<lparr>model_count := k\<rparr>)"
  shows "find_slot nm hnd = Some i \<and> k = model_count hnd \<or>
    find_slot nm hnd = None \<and> i = model_count hnd \<and> k = Suc i \<and> i < max_models hnd"
proof -
  have "model_count (snd (take_slot nm hnd)) = k" "fst (take_slot nm hnd) = Some i" using assms by simp_all
  then show ?thesis by (auto simp: take_slot_def split: option.splits if_splits)
qed

lemma load_api_inv:
  assumes inv: "api_inv hnd" and load: "tn_infer_load env (Some hnd) path (Some nm) = (r, Some hnd')"
  shows "api_inv hnd'"
proof -
  have len: "length (models hnd) = max_models hnd" "model_count hnd \<le> max_models hnd"
    using inv by (auto simp: api_inv_def)
  have rec: "api_inv hnd'" if t: "take_slot nm hnd = (Some i, hnd\<lparr>model_count := k\<rparr>)" and r: "recorded_at i nm k hnd hnd'"
    and l: "case loader hnd' of None \<Rightarrow> True | Some x \<Rightarrow> loader_inv (impl x)" for i k
  proof -
    obtain m where m: "models hnd' = (models hnd)[i := m]" "mi_name m = strncpy_c 64 nm" using r by (auto simp: recorded_at_def)
    have f: "model_count hnd' = k" "max_models hnd' = max_models hnd" "initialized hnd' = initialized hnd"
      "metrics hnd' = metrics hnd" using r by (simp_all add: recorded_at_def)
    have ik: "i < k" "k \<le> max_models hnd" "model_count hnd \<le> k" using take_slot_new [OF t] len by (auto simp: find_slot_Some)
    have "\<forall>x \<in> set (models hnd'). length (mi_name x) < 64"
      using m inv set_update_subset_insert [of "models hnd" i m] by (auto simp: api_inv_def strncpy_c_def)
    then show ?thesis using inv f m ik l by (auto simp: api_inv_def nth_list_update)
  qed
  from load len show ?thesis
  proof (cases rule: tn_infer_load_effect)
    case (failed i k p x ret)
    then show ?thesis using inv take_slot_new [OF failed(2)] len
      by (auto simp: api_inv_def find_slot_Some)
  next
    case (stored i k p x l)
    then have "loader_inv l" using inv loader_inv_load(1) [of "impl x"] by (auto simp: api_inv_def loader_load_def)
    then show ?thesis using stored rec by simp
  qed (use inv rec in simp_all)
qed

lemma unload_api_inv:
  assumes inv: "api_inv hnd" and "tn_infer_unload (Some hnd) (Some nm) = (r, Some hnd')"
  shows "api_inv hnd'"
  using assms(2)
proof (cases rule: tn_infer_unload_effect)
  case (removed i)
  let ?m = "(models hnd ! i)\<lparr>loaded := False\<rparr>"
  have i: "i < model_count hnd" "i < length (models hnd)" using removed(1) inv by (auto simp: find_slot_Some api_inv_def)
  then have "mi_name ?m \<in> mi_name ` set (models hnd)" by simp
  then have "\<forall>x \<in> set (models hnd'). length (mi_name x) < 64"
    using removed(4) inv set_update_subset_insert [of "models hnd" i ?m] by (auto simp: api_inv_def)
  moreover have "case loader hnd' of None \<Rightarrow> True | Some x \<Rightarrow> loader_inv (impl x)"
    using removed(10) inv
    by (cases "loader hnd") (auto simp: api_inv_def loader_unload_def intro: loader_inv_unload [OF _ surjective_pairing])
  ultimately show ?thesis using removed inv i by (auto simp: api_inv_def nth_list_update)
qed (use inv in simp_all)

lemma save_model_fields [simp]:
  "models (save_model nm w hnd) = models hnd" "model_count (save_model nm w hnd) = model_count hnd"
  "max_models (save_model nm w hnd) = max_models hnd" "initialized (save_model nm w hnd) = initialized hnd"
  "config (save_model nm w hnd) = config hnd" "metrics (save_model nm w hnd) = metrics hnd"
  by (simp_all add: save_model_def)

lemma loader_find_size: "loader_inv l \<Longrightarrow> loader_find l nm = Some w \<Longrightarrow> MNNWrapper_IsValid w \<and> GetModelSize w \<le> max_model_size l"
  by (auto simp: loader_inv_def loader_find_def ModelLoader_GetModel_def dest: map_of_SomeD)

lemma save_model_inv:
  assumes "loader hnd = Some x" "loader_find (impl x) nm = Some w" "loader_inv (impl x)"
    "MNNWrapper_IsValid w2 = MNNWrapper_IsValid w" "model_size w2 = model_size w"
  shows "loader (save_model nm w2 hnd) = Some (x\<lparr>impl := ModelLoader_put nm w2 (impl x)\<rparr>)"
    "loader_inv (ModelLoader_put nm w2 (impl x))"
  using assms loader_find_size [OF assms(3,2)] by (auto simp: save_model_def GetModelSize_def intro: loader_inv_put)

lemma infer_api_inv:
  assumes inv: "api_inv hnd" and "tn_infer env t0 t1 now_ns (Some hnd) req res = Inr (r, Some hnd', req', res')"
  shows "api_inv hnd'"
  using assms(2)
proof (cases rule: tn_infer_effect)
  case (failed x nm w w2)
  then show ?thesis using inv save_model_inv [of hnd x nm w w2] by (simp add: api_inv_def)
next
  case (unrecorded x nm w w2)
  then show ?thesis using inv save_model_inv [of hnd x nm w w2] by (simp add: api_inv_def)
next
  case (recorded x nm w w2 y m)
  have "metrics_inv (impl y)" using inv recorded by (simp add: api_inv_def metrics_only_success_def)
  then have "metrics_inv m" using recorded(6) record_defined by (metis sum.inject(2))
  moreover have "m_error_count (impl y) = 0" "m_success_count (impl y) = m_total_requests (impl y)"
    using inv recorded(5) by (simp_all add: api_inv_def metrics_only_success_def)
  ultimately have "metrics_only_success (Some (y\<lparr>impl := m\<rparr>))"
    using recorded(6) by (auto simp: metrics_only_success_def MetricsCollector_Record_def Let_def split: if_splits)
  then show ?thesis using inv recorded save_model_inv [of hnd x nm w w2] by (simp add: api_inv_def)
qed (use inv in simp_all)

lemma reach_api_inv: "api_reach env P h h' hnd \<Longrightarrow> api_inv hnd"
proof (induction rule: api_reach.induct)
  case (created conf hnd)
  then show ?case by (blast intro: create_api_inv(1))
qed (blast intro: load_api_inv unload_api_inv infer_api_inv)+

subsection \<open>The table of models and the loader agree\<close>

definition loaded_names :: "('net, 'sess) tn_infer_handle \<Rightarrow> string set" where
  "loaded_names hnd = {mi_name (models hnd ! i) |i. i < model_count hnd \<and> loaded (models hnd ! i)}"

lemma in_loaded_names:
  "nm \<in> loaded_names hnd \<longleftrightarrow> (\<exists>i<model_count hnd. mi_name (models hnd ! i) = nm \<and> loaded (models hnd ! i))"
  by (auto simp: loaded_names_def)

text \<open>No two slots share a name, except unused slots, whose name is empty.\<close>

definition slots_distinct :: "('net, 'sess) tn_infer_handle \<Rightarrow> bool" where
  "slots_distinct hnd \<longleftrightarrow> (\<forall>i j. i < j \<longrightarrow> j < model_count hnd \<longrightarrow> mi_name (models hnd ! i) = mi_name (models hnd ! j) \<longrightarrow>
     \<not> loaded (models hnd ! j))"

definition agrees :: "('net, 'sess) tn_infer_handle \<Rightarrow> bool" where
  "agrees hnd \<longleftrightarrow> slots_distinct hnd \<and>
     (\<forall>x. loader hnd = Some x \<longrightarrow> dom (loader_find (impl x)) = loaded_names hnd)"

lemma recorded_names:
  assumes inv: "api_inv hnd" and sd: "slots_distinct hnd" and short: "length nm < 64"
    and t: "take_slot nm hnd = (Some i, hnd\<lparr>model_count := k\<rparr>)" and r: "recorded_at i nm k hnd hnd'"
  shows "loaded_names hnd' = insert nm (loaded_names hnd)" "slots_distinct hnd'"
proof -
  obtain m where m: "models hnd' = (models hnd)[i := m]" "mi_name m = nm" "loaded m" and k: "model_count hnd' = k"
    using r short by (auto simp: recorded_at_def strncpy_c_def)
  have at: "(models hnd)[i := m] ! j = (if j = i then m else models hnd ! j)" if "j < k" for j
    using that take_slot_new [OF t] inv by (auto simp: nth_list_update find_slot_Some api_inv_def)
  have names: "n \<in> loaded_names hnd' \<longleftrightarrow>
      i < k \<and> nm = n \<or> (\<exists>j<k. j \<noteq> i \<and> mi_name (models hnd ! j) = n \<and> loaded (models hnd ! j))" for n
  proof -
    have "n \<in> loaded_names hnd' \<longleftrightarrow> (\<exists>j<k. j = i \<and> nm = n \<or> j \<noteq> i \<and> mi_name (models hnd ! j) = n \<and> loaded (models hnd ! j))"
      unfolding in_loaded_names m(1) k by (intro ex_cong1) (auto simp: at m split: if_splits)
    then show ?thesis by blast
  qed
  have "find_slot nm hnd = Some i \<and> k = model_count hnd \<or> find_slot nm hnd = None \<and> i = model_count hnd \<and> k = Suc i"
    using take_slot_new [OF t] by blast
  then have both: "loaded_names hnd' = insert nm (loaded_names hnd) \<and> slots_distinct hnd'"
  proof
    assume f: "find_slot nm hnd = Some i \<and> k = model_count hnd"
    then have i: "i < model_count hnd" "mi_name (models hnd ! i) = nm" "\<And>j. j < i \<Longrightarrow> mi_name (models hnd ! j) \<noteq> nm"
      by (auto simp: find_slot_Some)
    have "loaded_names hnd' = insert nm (loaded_names hnd)"
      using f i(1,2) unfolding set_eq_iff insert_iff names unfolding in_loaded_names by blast
    moreover have "slots_distinct hnd'"
    proof (unfold slots_distinct_def m(1) k, intro allI impI)
      fix a b assume "a < b" "b < k" "mi_name ((models hnd)[i := m] ! a) = mi_name ((models hnd)[i := m] ! b)"
      then have "b \<noteq> i \<and> mi_name (models hnd ! a) = mi_name (models hnd ! b)"
        using at [of a] at [of b] i m(2) by (auto split: if_splits)
      then show "\<not> loaded ((models hnd)[i := m] ! b)" using \<open>a < b\<close> \<open>b < k\<close> at [of b] sd f by (simp add: slots_distinct_def)
    qed
    ultimately show ?thesis by blast
  next
    assume f: "find_slot nm hnd = None \<and> i = model_count hnd \<and> k = Suc i"
    then have no: "\<And>j. j < i \<Longrightarrow> mi_name (models hnd ! j) \<noteq> nm" by (simp add: find_slot_None)
    have "loaded_names hnd' = insert nm (loaded_names hnd)"
      using f unfolding set_eq_iff insert_iff names unfolding in_loaded_names by (auto simp: less_Suc_eq)
    moreover have "slots_distinct hnd'"
    proof (unfold slots_distinct_def m(1) k, intro allI impI)
      fix a b assume "a < b" "b < k" "mi_name ((models hnd)[i := m] ! a) = mi_name ((models hnd)[i := m] ! b)"
      then have "b < i \<and> mi_name (models hnd ! a) = mi_name (models hnd ! b)"
        using at [of a] at [of b] no [of a] f m(2) by (auto split: if_splits)
      then show "\<not> loaded ((models hnd)[i := m] ! b)" using \<open>a < b\<close> \<open>b < k\<close> at [of b] sd f by (simp add: slots_distinct_def)
    qed
    ultimately show ?thesis by blast
  qed
  then show "loaded_names hnd' = insert nm (loaded_names hnd)" "slots_distinct hnd'" by auto
qed

lemma load_agrees:
  assumes inv: "api_inv hnd" and ag: "agrees hnd" and short: "length nm < 64"
    and load: "tn_infer_load env (Some hnd) path (Some nm) = (r, Some hnd')"
  shows "agrees hnd'" "loaded_names hnd' = (if r = TN_INFER_SUCCESS then insert nm (loaded_names hnd) else loaded_names hnd)"
proof -
  have len: "length (models hnd) = max_models hnd" "model_count hnd \<le> max_models hnd"
    using inv by (auto simp: api_inv_def)
  have sd: "slots_distinct hnd" using ag by (simp add: agrees_def)
  note rn = recorded_names [OF inv sd short]
  from load len have "agrees hnd' \<and>
      loaded_names hnd' = (if r = TN_INFER_SUCCESS then insert nm (loaded_names hnd) else loaded_names hnd)"
  proof (cases rule: tn_infer_load_effect)
    case (failed i k p x ret)
    have zero: "\<not> loaded (models hnd ! model_count hnd)" if "model_count hnd < max_models hnd"
      using inv that by (simp add: api_inv_def tn_model_info_zero_def)
    have "loaded_names hnd' = loaded_names hnd \<and> slots_distinct hnd'"
      using take_slot_new [OF failed(2)] sd zero unfolding failed(6)
      by (auto simp: loaded_names_def slots_distinct_def less_Suc_eq)
    then show ?thesis using failed ag by (simp add: agrees_def tn_codes)
  next
    case (bare i k)
    then show ?thesis using rn by (simp add: agrees_def)
  next
    case (stored i k p x l)
    have "dom (loader_find (impl x)) = loaded_names hnd" using ag stored(3) by (simp add: agrees_def)
    then have "dom (loader_find l) = insert nm (loaded_names hnd)"
      using ls.load_ok [OF stored(4)] by (metis dom_fun_upd option.distinct(1))
    then show ?thesis using rn [OF stored(2,6)] stored by (simp add: agrees_def)
  qed (use ag in simp)
  then show "agrees hnd'" "loaded_names hnd' = (if r = TN_INFER_SUCCESS then insert nm (loaded_names hnd) else loaded_names hnd)"
    by auto
qed

lemma unload_agrees:
  assumes inv: "api_inv hnd" and ag: "agrees hnd"
    and unload: "tn_infer_unload (Some hnd) (Some nm) = (r, Some hnd')"
  shows "agrees hnd'" "loaded_names hnd' = loaded_names hnd - {nm}"
    "r = (if nm \<in> loaded_names hnd then TN_INFER_SUCCESS else TN_INFER_ERR_NO_MODEL)"
proof -
  have sd: "slots_distinct hnd" using ag by (simp add: agrees_def)
  have "agrees hnd' \<and> loaded_names hnd' = loaded_names hnd - {nm} \<and>
      r = (if nm \<in> loaded_names hnd then TN_INFER_SUCCESS else TN_INFER_ERR_NO_MODEL)"
    using unload
  proof (cases rule: tn_infer_unload_effect)
    case refused
    then have "nm \<notin> loaded_names hnd" by (auto simp: loaded_names_def find_slot_None)
    then show ?thesis using refused ag by simp
  next
    case (stale i)
    have "\<not> loaded (models hnd ! j)" if "j < model_count hnd" "mi_name (models hnd ! j) = nm" for j
      using that stale sd by (cases i j rule: linorder_cases) (auto simp: find_slot_Some slots_distinct_def)
    then have "nm \<notin> loaded_names hnd" by (auto simp: loaded_names_def)
    then show ?thesis using stale ag by simp
  next
    case (removed i)
    have i: "i < model_count hnd" "mi_name (models hnd ! i) = nm" "\<And>j. j < i \<Longrightarrow> mi_name (models hnd ! j) \<noteq> nm"
      using removed(1) by (auto simp: find_slot_Some)
    have at: "models hnd' ! j = (if j = i then (models hnd ! i)\<lparr>loaded := False\<rparr> else models hnd ! j)"
      if "j < model_count hnd" for j
      using that i removed(4) inv by (auto simp: nth_list_update api_inv_def)
    have only: "j = i" if "j < model_count hnd" "mi_name (models hnd ! j) = nm" "loaded (models hnd ! j)" for j
      using that i sd by (cases i j rule: linorder_cases) (auto simp: slots_distinct_def)
    have mem: "nm \<in> loaded_names hnd" unfolding in_loaded_names using removed(2) i by blast
    have names: "loaded_names hnd' = loaded_names hnd - {nm}"
    proof (rule set_eqI)
      fix n
      have "n \<in> loaded_names hnd' \<longleftrightarrow> (\<exists>j<model_count hnd. j \<noteq> i \<and> mi_name (models hnd ! j) = n \<and> loaded (models hnd ! j))"
        unfolding in_loaded_names removed(5) by (auto simp: at split: if_splits)
      then show "n \<in> loaded_names hnd' \<longleftrightarrow> n \<in> loaded_names hnd - {nm}"
        using i(2) only unfolding in_loaded_names Diff_iff singleton_iff by blast
    qed
    moreover have "slots_distinct hnd'"
      using sd unfolding slots_distinct_def removed(5) by (auto simp: at)
    moreover have "dom (loader_find (impl x)) = loaded_names hnd'" if ld: "loader hnd' = Some x" for x
    proof -
      obtain x0 where x0: "loader hnd = Some x0" "impl x = snd (loader_unload nm (impl x0))"
        using ld removed(10) by auto
      have "loader_find (impl x) = (loader_find (impl x0))(nm := None)"
        unfolding x0(2) by (rule ls.unload_find [OF surjective_pairing])
      moreover have "dom (loader_find (impl x0)) = loaded_names hnd" using ag x0(1) by (simp add: agrees_def)
      ultimately show ?thesis using names by simp
    qed
    ultimately show ?thesis using removed(3) mem by (simp add: agrees_def)
  qed
  then show "agrees hnd'" "loaded_names hnd' = loaded_names hnd - {nm}"
    "r = (if nm \<in> loaded_names hnd then TN_INFER_SUCCESS else TN_INFER_ERR_NO_MODEL)" by auto
qed

lemma put_find: "loader_find (ModelLoader_put nm w l) = (loader_find l)(nm \<mapsto> w)"
  by (auto simp: loader_find_def ModelLoader_put_def ModelLoader_GetModel_def update_conv fun_eq_iff)

lemma infer_agrees:
  fixes hnd :: "('a, 'b) tn_infer_handle"
  assumes ag: "agrees hnd" and "tn_infer env t0 t1 now_ns (Some hnd) req res = Inr (r, Some hnd', req', res')"
  shows "agrees hnd'"
proof -
  have save: "agrees (save_model nm w2 hnd)" if "loader hnd = Some x" "loader_find (impl x) nm = Some w" for x nm w w2
    using that ag by (auto simp: agrees_def loaded_names_def slots_distinct_def save_model_def put_find)
  have met: "agrees (k\<lparr>metrics := mt\<rparr>) = agrees k" for k :: "('a, 'b) tn_infer_handle" and mt
    by (simp add: agrees_def loaded_names_def slots_distinct_def)
  from assms(2) show ?thesis by (cases rule: tn_infer_effect) (use save met ag in auto)
qed

lemma reach_agrees: "api_reach env (\<lambda>nm. length nm < 64) h h' hnd \<Longrightarrow> agrees hnd"
proof (induction rule: api_reach.induct)
  case (created conf hnd)
  then show ?case using create_api_inv(2,3) [OF created(2)]
    by (auto simp: agrees_def slots_distinct_def loaded_names_def loader_find_def ModelLoader_GetModel_def)
next
  case (load hnd nm path r hnd')
  then show ?case using load_agrees(1) [OF reach_api_inv] by blast
next
  case (unload hnd nm r hnd')
  then show ?case using unload_agrees(1) [OF reach_api_inv] by blast
next
  case (infer hnd t0 t1 now_ns req res r hnd' req' res')
  then show ?case using infer_agrees by blast
qed

text \<open>
  C1: the handle's table of models refines the loader. In every state reached by a client
  whose model names are shorter than 64 characters, the names of the slots marked as loaded
  are exactly the names the loader finds, each by one slot only, and every model found can
  be run and is within the size limit.
\<close>

theorem model_table_agrees:
  assumes "api_reach env (\<lambda>nm. length nm < 64) h h' hnd" and "loader hnd = Some x"
  shows "dom (loader_find (impl x)) = loaded_names hnd \<and>
    (\<forall>i j. i < j \<longrightarrow> j < model_count hnd \<longrightarrow> mi_name (models hnd ! i) = mi_name (models hnd ! j) \<longrightarrow>
       \<not> loaded (models hnd ! j)) \<and>
    (\<forall>nm w. loader_find (impl x) nm = Some w \<longrightarrow> MNNWrapper_IsValid w \<and> GetModelSize w \<le> max_model_size (impl x))"
  using reach_agrees [OF assms(1)] reach_api_inv [OF assms(1)] loader_find_size [of "impl x"] assms(2)
  by (simp add: agrees_def slots_distinct_def api_inv_def)

text \<open>A client session on the concrete engine: create, then load \<open>m.mnn\<close> under the name \<open>nm\<close>.\<close>

lemma demo_load:
  "\<exists>h' hnd hnd' x. api_reach demo_env P (api_heap []) h' hnd \<and> model_count hnd = 0 \<and>
     (\<exists>x. loader hnd = Some x) \<and>
     tn_infer_load demo_env (Some hnd) (Some ''m.mnn'') (Some nm) = (TN_INFER_SUCCESS, Some hnd') \<and>
     loader hnd' = Some (x\<lparr>impl := \<lparr>max_model_size = 536870912, l_models =
        [(nm, \<lparr>interpreter = Some (), session = Some [0, 0, 0, 0], model_size = 100\<rparr>)]\<rparr>\<rparr>)"
proof -
  obtain hnd :: "(unit, byte list) tn_infer_handle" and h' x where
    c: "tn_infer_create (Some demo_config) (api_heap []) = (Some hnd, h')" and
    f: "initialized hnd" "model_count hnd = 0" "max_models hnd = 16" "models hnd = replicate 16 tn_model_info_zero"
     "loader hnd = Some x" "impl x = \<lparr>max_model_size = 536870912, l_models = []\<rparr>"
    using demo_create by blast
  have r: "api_reach demo_env P (api_heap []) h' hnd" by (rule created [OF api_heap_wf c])
  obtain hnd' where "tn_infer_load demo_env (Some hnd) (Some ''m.mnn'') (Some nm) = (TN_INFER_SUCCESS, Some hnd')"
    and "loader hnd' = Some (x\<lparr>impl := \<lparr>max_model_size = 536870912, l_models =
        [(nm, \<lparr>interpreter = Some (), session = Some [0, 0, 0, 0], model_size = 100\<rparr>)]\<rparr>\<rparr>)"
    using f by (simp add: tn_infer_load_def take_slot_def find_slot_def tn_loader_load_def ModelLoader_Load_def
        LoadFromFile_def demo_env_def CreateSession_def MNNWrapper_ctor_def GetModelSize_def
        tn_loader_get_model_def ModelLoader_GetModel_def Let_def word_less_nat_alt)
  then show ?thesis using r f(2,5) by blast
qed

theorem model_table_agrees_witness:
  "\<exists>h' hnd x. api_reach demo_env (\<lambda>nm. length nm < 64) (api_heap []) h' hnd \<and> loader hnd = Some x \<and>
     dom (loader_find (impl x)) = loaded_names hnd \<and> loaded_names hnd = {''net''}"
proof -
  obtain h' hnd hnd' and x :: "(unit, byte list) tn_loader" where
    r: "api_reach demo_env (\<lambda>nm. length nm < 64) (api_heap []) h' hnd" and
    l: "tn_infer_load demo_env (Some hnd) (Some ''m.mnn'') (Some ''net'') = (TN_INFER_SUCCESS, Some hnd')"
    and x: "loader hnd' = Some (x\<lparr>impl := \<lparr>max_model_size = 536870912, l_models =
        [(''net'', \<lparr>interpreter = Some (), session = Some [0, 0, 0, 0], model_size = 100\<rparr>)]\<rparr>\<rparr>)"
    using demo_load [of "\<lambda>nm. length nm < 64" "''net''"] by blast
  have r': "api_reach demo_env (\<lambda>nm. length nm < 64) (api_heap []) h' hnd'" by (rule load [OF r _ l]) simp
  note a = model_table_agrees [OF r' x]
  then have "loaded_names hnd' = {''net''}"
    by (simp add: loader_find_def [abs_def] ModelLoader_GetModel_def dom_def split: if_splits)
  then show ?thesis using r' x conjunct1 [OF a] by blast
qed

text \<open>
  C30: load and unload are inverse for names under 64 characters (a longer one can be loaded and then not be
  unloaded, \<open>long_name_is_lost\<close>). From any state reached with such names only, when a load of such a name \<open>nm\<close> succeeds, the
  set of loaded models gains exactly \<open>nm\<close>; unloading it succeeds and takes exactly \<open>nm\<close>
  away; unloading it once more is refused with \<open>TN_INFER_ERR_NO_MODEL\<close> and changes nothing.
\<close>

theorem load_unload_inverse:
  assumes "api_reach env (\<lambda>nm. length nm < 64) h h' hnd" and "length nm < 64"
    and "tn_infer_load env (Some hnd) path (Some nm) = (TN_INFER_SUCCESS, Some hnd1)"
  shows "loaded_names hnd1 = insert nm (loaded_names hnd) \<and>
    (\<exists>hnd2. tn_infer_unload (Some hnd1) (Some nm) = (TN_INFER_SUCCESS, Some hnd2) \<and>
       loaded_names hnd2 = loaded_names hnd - {nm} \<and>
       tn_infer_unload (Some hnd2) (Some nm) = (TN_INFER_ERR_NO_MODEL, Some hnd2))"
proof -
  have r1: "api_reach env (\<lambda>nm. length nm < 64) h h' hnd1" using assms by (blast intro: load)
  have n1: "loaded_names hnd1 = insert nm (loaded_names hnd)"
    using load_agrees(2) [OF reach_api_inv reach_agrees assms(2,3)] assms(1) by simp
  have tot: "\<exists>r k'. tn_infer_unload (Some k) (Some nm) = (r, Some k')" for k :: "('a, 'b) tn_infer_handle"
    by (auto simp: tn_infer_unload_def Let_def split: option.split)
  obtain r2 hnd2 where u: "tn_infer_unload (Some hnd1) (Some nm) = (r2, Some hnd2)" using tot by blast
  note a = unload_agrees [OF reach_api_inv [OF r1] reach_agrees [OF r1] u]
  have r2: "r2 = TN_INFER_SUCCESS" "loaded_names hnd2 = loaded_names hnd - {nm}" using a n1 by auto
  have "api_reach env (\<lambda>nm. length nm < 64) h h' hnd2" using r1 assms(2) u by (blast intro: unload)
  note b = unload_agrees(3) [OF reach_api_inv [OF this] reach_agrees [OF this]]
  obtain r3 hnd3 where v: "tn_infer_unload (Some hnd2) (Some nm) = (r3, Some hnd3)" using tot by blast
  have r3: "r3 = TN_INFER_ERR_NO_MODEL" using b [OF v] r2 by simp
  with v have "hnd3 = hnd2" by (cases rule: tn_infer_unload_effect) (simp_all add: tn_codes)
  then show ?thesis using n1 u v r2 r3 by blast
qed

theorem load_unload_inverse_witness:
  "\<exists>h' hnd hnd1 hnd2. api_reach demo_env (\<lambda>nm. length nm < 64) (api_heap []) h' hnd \<and>
     tn_infer_load demo_env (Some hnd) (Some ''m.mnn'') (Some ''net'') = (TN_INFER_SUCCESS, Some hnd1) \<and>
     loaded_names hnd1 = {''net''} \<and>
     tn_infer_unload (Some hnd1) (Some ''net'') = (TN_INFER_SUCCESS, Some hnd2) \<and> loaded_names hnd2 = {}"
proof -
  obtain h' hnd hnd1 where r: "api_reach demo_env (\<lambda>nm. length nm < 64) (api_heap []) h' hnd" "model_count hnd = 0" and
    l: "tn_infer_load demo_env (Some hnd) (Some ''m.mnn'') (Some ''net'') = (TN_INFER_SUCCESS, Some hnd1)"
    using demo_load [of "\<lambda>nm. length nm < 64" "''net''"] by blast
  have "loaded_names hnd = {}" using r(2) by (simp add: loaded_names_def)
  then show ?thesis using load_unload_inverse [OF r(1) _ l] r(1) l by auto
qed

subsection \<open>Where the table and the client disagree\<close>

text \<open>The loads of \<open>names\<close>, all from the file \<open>path\<close>, one after the other.\<close>

fun load_all :: "('net, 'sess, 'tensor) mnn_env \<Rightarrow> string \<Rightarrow> string list \<Rightarrow> ('net, 'sess) tn_infer_handle option \<Rightarrow>
    int list \<times> ('net, 'sess) tn_infer_handle option" where
  "load_all env path [] handle = ([], handle)"
| "load_all env path (nm # nms) handle =
     (case tn_infer_load env handle (Some path) (Some nm) of
        (r, handle') \<Rightarrow> (case load_all env path nms handle' of (rs, k) \<Rightarrow> (r # rs, k)))"

text \<open>A load of a file the engine cannot open, under a name no slot has, costs one slot.\<close>

lemma failed_load_takes_slot:
  assumes "api_inv hnd" and "loader hnd = Some x" and "loader_find (impl x) nm = None"
    and "stat_size env path = None" and "find_slot nm hnd = None" and "model_count hnd < max_models hnd"
  shows "tn_infer_load env (Some hnd) (Some path) (Some nm) =
    (TN_INFER_ERR_LOAD_FAILED, Some (hnd\<lparr>model_count := Suc (model_count hnd)\<rparr>))"
proof -
  have "ModelLoader_Load env (Some path) (Some nm) 4 (impl x) = (- 1, impl x)"
    using assms by (simp add: ModelLoader_Load_def LoadFromFile_def loader_find_def ModelLoader_GetModel_def)
  moreover have "hnd\<lparr>model_count := k, loader := Some x\<rparr> = hnd\<lparr>model_count := k\<rparr>" for k using assms(2) by simp
  ultimately show ?thesis
    using assms by (simp add: tn_infer_load_def take_slot_def tn_loader_load_def api_inv_def tn_codes Let_def)
qed

lemma failed_loads_count:
  assumes "api_inv hnd" and "loader hnd = Some x" and "\<forall>nm \<in> set nms. loader_find (impl x) nm = None \<and> nm \<noteq> []"
    and "stat_size env path = None" and "\<forall>nm \<in> set nms. find_slot nm hnd = None"
    and "model_count hnd + length nms \<le> max_models hnd"
  shows "load_all env path nms (Some hnd) = (replicate (length nms) TN_INFER_ERR_LOAD_FAILED,
    Some (hnd\<lparr>model_count := model_count hnd + length nms\<rparr>))"
  using assms
proof (induction nms arbitrary: hnd)
  case (Cons nm nms)
  let ?k = "hnd\<lparr>model_count := Suc (model_count hnd)\<rparr>"
  have l: "tn_infer_load env (Some hnd) (Some path) (Some nm) = (TN_INFER_ERR_LOAD_FAILED, Some ?k)"
    using failed_load_takes_slot [OF Cons.prems(1,2) _ Cons.prems(4)] Cons.prems by simp
  have zero: "mi_name (models hnd ! model_count hnd) = []"
    using Cons.prems(1,6) by (simp add: api_inv_def tn_model_info_zero_def)
  have "load_all env path nms (Some ?k) = (replicate (length nms) TN_INFER_ERR_LOAD_FAILED,
      Some (?k\<lparr>model_count := model_count ?k + length nms\<rparr>))"
  proof (rule Cons.IH)
    show "api_inv ?k" using load_api_inv [OF Cons.prems(1) l] .
    show "\<forall>nm \<in> set nms. find_slot nm ?k = None"
      using Cons.prems(3,5) zero by (auto simp: find_slot_None less_Suc_eq)
  qed (use Cons.prems in auto)
  then show ?case using l by simp
qed simp

text \<open>
  Failed loads are not undone. In any reachable state, loading as many new names as
  there are free slots from a file that does not exist fails each time with
  \<open>TN_INFER_ERR_LOAD_FAILED\<close>, and afterwards every load of a further new name is refused with
  \<open>TN_INFER_ERR_NOMEM\<close>, whatever the file, although no model was loaded.
\<close>

theorem failed_loads_exhaust_slots:
  assumes "api_reach env (\<lambda>nm. length nm < 64) h h' hnd" and "loader hnd \<noteq> None"
    and "stat_size env path = None" and "length nms = max_models hnd - model_count hnd"
    and "\<forall>nm \<in> set nms. nm \<noteq> [] \<and> find_slot nm hnd = None"
  shows "\<exists>hnd'. load_all env path nms (Some hnd) = (replicate (length nms) TN_INFER_ERR_LOAD_FAILED, Some hnd') \<and>
    loaded_names hnd' = loaded_names hnd \<and>
    (\<forall>nm good. nm \<noteq> [] \<longrightarrow> find_slot nm hnd = None \<longrightarrow>
       fst (tn_infer_load env (Some hnd') (Some good) (Some nm)) = TN_INFER_ERR_NOMEM)"
proof -
  obtain x where x: "loader hnd = Some x" using assms(2) by blast
  have inv: "api_inv hnd" by (rule reach_api_inv [OF assms(1)])
  then have le: "model_count hnd \<le> max_models hnd" and init: "initialized hnd"
    and zero: "\<And>i. model_count hnd \<le> i \<Longrightarrow> i < max_models hnd \<Longrightarrow> models hnd ! i = tn_model_info_zero"
    by (auto simp: api_inv_def)
  have "dom (loader_find (impl x)) = loaded_names hnd" using reach_agrees [OF assms(1)] x by (simp add: agrees_def)
  moreover have "nm \<notin> loaded_names hnd" if "nm \<in> set nms" for nm
    using that assms(5) by (auto simp: in_loaded_names find_slot_None)
  ultimately have "\<forall>nm \<in> set nms. loader_find (impl x) nm = None" by blast
  then have l: "load_all env path nms (Some hnd) = (replicate (length nms) TN_INFER_ERR_LOAD_FAILED,
      Some (hnd\<lparr>model_count := max_models hnd\<rparr>))"
    using failed_loads_count [OF inv x _ assms(3), of nms] assms(4,5) le by simp
  let ?k = "hnd\<lparr>model_count := max_models hnd\<rparr>"
  have "loaded_names ?k = loaded_names hnd"
  proof (rule set_eqI)
    fix n
    have "i < model_count hnd" if "i < max_models hnd" "loaded (models hnd ! i)" for i
      using that zero [of i] by (cases "i < model_count hnd") (simp_all add: tn_model_info_zero_def)
    then show "n \<in> loaded_names ?k \<longleftrightarrow> n \<in> loaded_names hnd"
      using le unfolding in_loaded_names by (auto intro: less_le_trans)
  qed
  moreover have "find_slot nm ?k = None" if "nm \<noteq> []" "find_slot nm hnd = None" for nm
  proof -
    have "mi_name (models hnd ! i) \<noteq> nm" if "i < max_models hnd" for i
      using that \<open>nm \<noteq> []\<close> \<open>find_slot nm hnd = None\<close> zero [of i]
      by (cases "i < model_count hnd") (simp_all add: find_slot_None tn_model_info_zero_def)
    then show ?thesis by (simp add: find_slot_None)
  qed
  ultimately show ?thesis using l init by (auto simp: tn_infer_load_def take_slot_def)
qed

theorem failed_loads_exhaust_slots_witness:
  "\<exists>h' hnd hnd'. tn_infer_create (Some demo_config) (api_heap []) = (Some hnd, h') \<and>
     load_all demo_env ''missing'' (replicate 16 ''x'') (Some hnd) = (replicate 16 TN_INFER_ERR_LOAD_FAILED, Some hnd') \<and>
     loaded_names hnd' = {} \<and>
     fst (tn_infer_load demo_env (Some hnd') (Some ''m.mnn'') (Some ''net'')) = TN_INFER_ERR_NOMEM"
proof -
  obtain hnd :: "(unit, byte list) tn_infer_handle" and h' x where
    c: "tn_infer_create (Some demo_config) (api_heap []) = (Some hnd, h')" and
    f: "model_count hnd = 0" "max_models hnd = 16" "loader hnd = Some x"
    using demo_create by blast
  have r: "api_reach demo_env (\<lambda>nm. length nm < 64) (api_heap []) h' hnd" by (rule created [OF api_heap_wf c])
  have "loaded_names hnd = {}" "\<And>nm. find_slot nm hnd = None"
    using f by (simp_all add: loaded_names_def find_slot_None)
  then show ?thesis
    using c f failed_loads_exhaust_slots [OF r, of "''missing''" "replicate 16 ''x''"] by (auto simp: demo_env_def)
qed

text \<open>
  A name of 64 characters or more is cut when it is recorded, so the slot never matches
  it again: after a successful load of such a name (in any state a client can reach), the
  model is held by the loader but cannot be unloaded under its name, and loading it again
  takes another slot although the model is already loaded.
\<close>

theorem long_name_is_lost:
  assumes "api_reach env P h h' hnd" and "64 \<le> length nm"
    and "tn_infer_load env (Some hnd) (Some path) (Some nm) = (TN_INFER_SUCCESS, Some hnd1)" and "loader hnd = Some x"
  shows "tn_infer_unload (Some hnd1) (Some nm) = (TN_INFER_ERR_NO_MODEL, Some hnd1) \<and>
    (\<exists>x1. loader hnd1 = Some x1 \<and> loader_find (impl x1) nm \<noteq> None) \<and>
    model_count hnd1 = Suc (model_count hnd) \<and>
    (model_count hnd1 < max_models hnd1 \<longrightarrow>
      (\<exists>hnd2. tn_infer_load env (Some hnd1) (Some path) (Some nm) = (TN_INFER_SUCCESS, Some hnd2) \<and>
        model_count hnd2 = Suc (model_count hnd1)))"
proof -
  have inv: "api_inv hnd" "api_inv hnd1" using reach_api_inv [OF assms(1)] load_api_inv assms(3) by blast+
  have len: "length (models hnd) = max_models hnd" "model_count hnd \<le> max_models hnd" using inv by (auto simp: api_inv_def)
  have none: "find_slot nm k = None" if "api_inv k" for k :: "('a, 'b) tn_infer_handle"
  proof -
    have "mi_name (models k ! i) \<noteq> nm" if "i < model_count k" for i
    proof -
      have "length (mi_name (models k ! i)) < 64" using \<open>api_inv k\<close> that by (simp add: api_inv_def)
      then show ?thesis using assms(2) by auto
    qed
    then show ?thesis by (simp add: find_slot_None)
  qed
  obtain i k l where t: "take_slot nm hnd = (Some i, hnd\<lparr>model_count := k\<rparr>)"
    and l: "loader_load env path nm (impl x) = (0, l)" "loader hnd1 = Some (x\<lparr>impl := l\<rparr>)" "recorded_at i nm k hnd hnd1"
    using assms(3) len
  proof (cases rule: tn_infer_load_effect)
    case (stored i k p x' l)
    then show thesis using assms(4) that [of i k l] by simp
  next
    case (failed i k p x' ret)
    then show thesis using failed(7) by (simp add: tn_codes)
  qed (use assms(4) in simp_all)
  have cnt: "model_count hnd1 = Suc (model_count hnd)"
    using take_slot_new [OF t] none [OF inv(1)] l(3) by (auto simp: recorded_at_def)
  have fnd: "loader_find l nm \<noteq> None" by (rule ls.load_found [OF l(1)])
  then have again: "tn_loader_load env (Some path) (Some nm) (loader hnd1) = (TN_INFER_SUCCESS, loader hnd1)"
    using l(2) by (simp add: tn_loader_load_def ModelLoader_Load_def loader_find_def ModelLoader_GetModel_def tn_codes)
  have "\<exists>hnd2. tn_infer_load env (Some hnd1) (Some path) (Some nm) = (TN_INFER_SUCCESS, Some hnd2) \<and>
      model_count hnd2 = Suc (model_count hnd1)" if "model_count hnd1 < max_models hnd1"
    using that none [OF inv(2)] again l(2) inv(2)
    by (auto simp: tn_infer_load_def take_slot_def api_inv_def Let_def split: option.split)
  moreover have "tn_infer_unload (Some hnd1) (Some nm) = (TN_INFER_ERR_NO_MODEL, Some hnd1)"
    using none [OF inv(2)] by (simp add: tn_infer_unload_def)
  ultimately show ?thesis using cnt fnd l(2) by simp
qed

theorem long_name_is_lost_witness:
  "\<exists>h' hnd hnd1. api_reach demo_env (\<lambda>_. True) (api_heap []) h' hnd \<and>
     tn_infer_load demo_env (Some hnd) (Some ''m.mnn'') (Some (replicate 64 CHR ''a'')) = (TN_INFER_SUCCESS, Some hnd1) \<and>
     tn_infer_unload (Some hnd1) (Some (replicate 64 CHR ''a'')) = (TN_INFER_ERR_NO_MODEL, Some hnd1)"
proof -
  let ?nm = "replicate 64 CHR ''a''"
  obtain h' hnd hnd1 and x :: "(unit, byte list) tn_loader" where
    r: "api_reach demo_env (\<lambda>_. True) (api_heap []) h' hnd" and x: "loader hnd = Some x" and
    l: "tn_infer_load demo_env (Some hnd) (Some ''m.mnn'') (Some ?nm) = (TN_INFER_SUCCESS, Some hnd1)"
    using demo_load [of "\<lambda>_. True" ?nm] by blast
  show ?thesis using r l long_name_is_lost [OF r _ l x] by auto
qed

text \<open>
  C39: failed requests are invisible in the metrics. In every reachable state the collector
  has counted no error, and as many successes as requests: \<open>tn_infer\<close> records only the
  requests that succeed, so the reported error count is zero whatever happened.
\<close>

theorem errors_never_counted:
  assumes "api_reach env P h h' hnd" and "metrics hnd = Some y"
    and "tn_infer_get_metrics (Some hnd) (Some d) = (r, Some out)"
  shows "im_error_count out = 0 \<and> im_success_count out = im_total_requests out \<and>
    (\<forall>t0 t1 now req res r' hnd' req' res'.
       tn_infer env t0 t1 now (Some hnd) req res = Inr (r', Some hnd', req', res') \<longrightarrow>
       r' \<noteq> TN_INFER_SUCCESS \<longrightarrow> metrics hnd' = metrics hnd)"
proof -
  have "metrics_only_success (Some y)" using reach_api_inv [OF assms(1)] assms(2) by (simp add: api_inv_def)
  then have "im_error_count out = 0 \<and> im_success_count out = im_total_requests out"
    using assms(2,3) by (auto simp: tn_infer_get_metrics_def tn_metrics_collect_def MetricsCollector_Collect_def
        metrics_only_success_def metrics_inv_def Let_def)
  moreover have "metrics hnd' = metrics hnd"
    if "tn_infer env t0 t1 now (Some hnd) req res = Inr (r', Some hnd', req', res')" "r' \<noteq> TN_INFER_SUCCESS"
    for t0 t1 now req res r' hnd' req' res'
    using that(1) by (cases rule: tn_infer_effect) (use that(2) in simp_all)
  ultimately show ?thesis by blast
qed

theorem errors_never_counted_witness:
  "\<exists>h' d r out req res hnd' res'. \<exists>hnd :: (unit, byte list) tn_infer_handle. api_reach demo_env (\<lambda>_. True) (api_heap []) h' hnd \<and>
     tn_infer_get_metrics (Some hnd) (Some d) = (r, Some out) \<and> im_error_count out = 0 \<and>
     tn_infer demo_env 0 0 0 (Some hnd) (Some req) (Some res) = Inr (TN_INFER_ERR_NO_MODEL, Some hnd', Some req, Some res') \<and>
     metrics hnd' = metrics hnd"
proof -
  obtain hnd :: "(unit, byte list) tn_infer_handle" and h' y x where
    c: "tn_infer_create (Some demo_config) (api_heap []) = (Some hnd, h')" and y: "metrics hnd = Some y" and i: "initialized hnd"
    and x: "loader hnd = Some x" "impl x = \<lparr>max_model_size = 536870912, l_models = []\<rparr>"
    using demo_create by blast
  have r: "api_reach demo_env (\<lambda>_. True) (api_heap []) h' hnd" by (rule created [OF api_heap_wf c])
  fix d req res
  obtain q out where g: "tn_infer_get_metrics (Some hnd) (Some d) = (q, Some out)"
    by (simp add: tn_infer_get_metrics_def Let_def)
  obtain hnd' res' where f: "tn_infer demo_env 0 0 0 (Some hnd) (Some req) (Some res) = Inr (TN_INFER_ERR_NO_MODEL, Some hnd', Some req, Some res')"
    using i x by (simp add: tn_infer_def tn_loader_get_model_def ModelLoader_GetModel_def Let_def)
  have "TN_INFER_ERR_NO_MODEL \<noteq> TN_INFER_SUCCESS" by (simp add: tn_codes)
  then have "im_error_count out = 0 \<and> metrics hnd' = metrics hnd" using errors_never_counted [OF r y g] f by blast
  then show ?thesis using r g f by blast
qed

end
