(* ===== verification/TN_Api_Infer.thy ===== *)
theory TN_Api_Infer
  imports TN_Api_Models
begin

text \<open>
  The inference call in every state a client can reach: when exactly it leaves its buffers, that it
  reports what it did and computes what the engine computes; and the listing of the models.
\<close>

subsection \<open>Inference\<close>

text \<open>
  The number of bytes the code counts for a tensor, and when its two copies stay inside the host tensors. Nothing is
  assumed of the engine: \<open>elementSize\<close> and the size of a host tensor need not agree.
\<close>

definition tensor_bytes :: "('net, 'sess, 'tensor) mnn_env \<Rightarrow> 'sess \<Rightarrow> 'tensor \<Rightarrow> size_t" where
  "tensor_bytes env s t = of_int (elementSize env s t) * sizeof_float"

definition input_fits :: "('net, 'sess, 'tensor) mnn_env \<Rightarrow> tn_infer_request \<Rightarrow> 'sess \<Rightarrow> 'tensor \<Rightarrow> bool" where
  "input_fits env req s t \<longleftrightarrow> input_data req = None \<or> unat (tensor_bytes env s t) \<le> length (host_init env s t)"

definition output_fits :: "('net, 'sess, 'tensor) mnn_env \<Rightarrow> tn_infer_request \<Rightarrow> 'sess \<Rightarrow> 'tensor \<Rightarrow> bool" where
  "output_fits env req s t \<longleftrightarrow> output_data req = None \<or> output_size req < tensor_bytes env s t \<or>
     unat (tensor_bytes env s t) \<le> length (copyToHostTensor env s t (host_init env s t))"

text \<open>The buffers of a request have the sizes it states.\<close>

definition request_ok :: "tn_infer_request \<Rightarrow> bool" where
  "request_ok req \<longleftrightarrow> (\<forall>b. input_data req = Some b \<longrightarrow> length b = unat (input_size req)) \<and>
     (\<forall>b. output_data req = Some b \<longrightarrow> length b = unat (output_size req))"

text \<open>The session once the input is in it, and the request once the output is in its buffer.\<close>

definition fed :: "('net, 'sess, 'tensor) mnn_env \<Rightarrow> tn_infer_request \<Rightarrow> 'sess \<Rightarrow> 'tensor \<Rightarrow> 'sess" where
  "fed env req s t = (let n = unat (tensor_bytes env s t) in copyFromHostTensor env s t
     (case input_data req of None \<Rightarrow> host_init env s t | Some b \<Rightarrow> take n b @ drop n (host_init env s t)))"

definition answered :: "('net, 'sess, 'tensor) mnn_env \<Rightarrow> tn_infer_request \<Rightarrow> 'sess \<Rightarrow> 'tensor \<Rightarrow> tn_infer_request" where
  "answered env req s t = (let n = unat (tensor_bytes env s t) in
     case output_data req of None \<Rightarrow> req
     | Some buf \<Rightarrow> if tensor_bytes env s t \<le> output_size req
         then req\<lparr>output_data := Some (take n (copyToHostTensor env s t (host_init env s t)) @ drop n buf)\<rparr> else req)"

lemma infer_input_Inr:
  "infer_input env t req s = Inr (Some s') \<Longrightarrow> tensor_bytes env s t \<le> input_size req \<and> s' = fed env req s t"
  by (auto simp: infer_input_def memcpy_def fed_def tensor_bytes_def Let_def split: option.splits if_splits)

lemma infer_output_Inr:
  "infer_output env t req s = Inr (r, n) \<Longrightarrow> n = tensor_bytes env s t \<and> r = answered env req s t"
  by (auto simp: infer_output_def memcpy_def answered_def tensor_bytes_def Let_def split: option.splits if_splits)

lemma infer_input_cases:
  assumes "request_ok req"
  shows "infer_input env t req s =
    (if input_size req < tensor_bytes env s t then Inr None
     else if input_fits env req s t then Inr (Some (fed env req s t)) else Inl OutOfBounds)"
  using assms
  by (auto simp: infer_input_def memcpy_def fed_def tensor_bytes_def input_fits_def request_ok_def Let_def word_less_nat_alt split: option.split)

lemma infer_output_cases:
  assumes "request_ok req"
  shows "infer_output env t req s = (if output_fits env req s t then Inr (answered env req s t, tensor_bytes env s t) else Inl OutOfBounds)"
  using assms
  by (auto simp: infer_output_def memcpy_def answered_def tensor_bytes_def output_fits_def request_ok_def Let_def word_less_nat_alt word_le_nat_alt
      split: option.split)

text \<open>The middle part of the call in these terms.\<close>

definition model_overruns :: "('net, 'sess, 'tensor) mnn_env \<Rightarrow> tn_infer_request \<Rightarrow> 'net \<Rightarrow> 'sess \<Rightarrow> bool" where
  "model_overruns env req n s \<longleftrightarrow>
     (case getSessionInput env n s None of
        None \<Rightarrow> False
      | Some t \<Rightarrow> tensor_bytes env s t \<le> input_size req \<and>
          (\<not> input_fits env req s t \<or>
           (case runSession env n (fed env req s t) of
              (err, s2) \<Rightarrow> err = NO_ERROR \<and>
                (case getSessionOutput env n s2 None of None \<Rightarrow> False | Some ot \<Rightarrow> \<not> output_fits env req s2 ot))))"

lemma infer_model_overrun:
  assumes "request_ok req" and "ready w = Some (n, s)"
  shows "if model_overruns env req n s then infer_model env req w = Inl OutOfBounds else \<exists>out. infer_model env req w = Inr out"
proof -
  have w: "session w = Some s" "interpreter w = Some n" using assms(2) by (auto simp: ready_iff)
  have rd: "ready (w\<lparr>session := Some k\<rparr>) = Some (n, k)" for k using w by (simp add: ready_def)
  note io = infer_input_cases [OF assms(1)] infer_output_cases [OF assms(1)]
  show ?thesis
  proof (cases "getSessionInput env n s None")
    case None
    then show ?thesis using w assms(2) by (simp add: model_overruns_def infer_model_def GetInputTensor_def)
  next
    case (Some t)
    then have t: "GetInputTensor env None w = Some t" using assms(2) by (simp add: GetInputTensor_def)
    obtain err s2 where run: "runSession env n (fed env req s t) = (err, s2)" by fastforce
    have r: "Run env (w\<lparr>session := Some (fed env req s t)\<rparr>) = (if err \<noteq> NO_ERROR then - 1 else 0, w\<lparr>session := Some s2\<rparr>)"
      by (simp add: Run_def rd run Let_def)
    show ?thesis
      by (cases "getSessionOutput env n s2 None") (simp_all add: model_overruns_def infer_model_def Some t w io run r GetOutputTensor_def rd not_le)
  qed
qed

lemma infer_model_done:
  assumes "ready w = Some (n, s)" and "infer_model env req w = Inr (InferDone w2 req' sz)"
  shows "\<exists>t ot s2. getSessionInput env n s None = Some t \<and> tensor_bytes env s t \<le> input_size req \<and>
    runSession env n (fed env req s t) = (NO_ERROR, s2) \<and> getSessionOutput env n s2 None = Some ot \<and>
    sz = tensor_bytes env s2 ot \<and> req' = answered env req s2 ot"
proof -
  have w: "session w = Some s" "interpreter w = Some n" using assms(1) by (auto simp: ready_iff)
  have rd: "ready (w\<lparr>session := Some k\<rparr>) = Some (n, k)" for k using w by (simp add: ready_def)
  obtain t where t: "getSessionInput env n s None = Some t" "GetInputTensor env None w = Some t"
    using assms w by (cases "getSessionInput env n s None") (auto simp: infer_model_def GetInputTensor_def)
  obtain s1 where i: "infer_input env t req s = Inr (Some s1)"
    using assms(2) by (cases "infer_input env t req s"; cases "projr (infer_input env t req s)") (simp_all add: infer_model_def t(2) w)
  obtain err s2 where run: "runSession env n s1 = (err, s2)" by fastforce
  have r: "Run env (w\<lparr>session := Some s1\<rparr>) = (if err \<noteq> NO_ERROR then - 1 else 0, w\<lparr>session := Some s2\<rparr>)"
    by (simp add: Run_def rd run Let_def)
  have e: "err = NO_ERROR" using assms(2) by (cases err) (simp_all add: infer_model_def t(2) w i r)
  obtain ot where o: "getSessionOutput env n s2 None = Some ot"
    using assms(2) by (cases "getSessionOutput env n s2 None") (simp_all add: infer_model_def t(2) w i r e GetOutputTensor_def rd)
  have "infer_output env ot req s2 = Inr (req', sz)"
    using assms(2) by (simp add: infer_model_def t(2) w i r e o GetOutputTensor_def rd split: sum.splits prod.splits)
  from infer_output_Inr [OF this] infer_input_Inr [OF i] show ?thesis using t(1) run e o by blast
qed

definition requested_model :: "tn_infer_request \<Rightarrow> string" where
  "requested_model req = (case req_model_name req of Some n \<Rightarrow> n | None \<Rightarrow> ''default'')"

lemma found_ready:
  assumes "api_inv hnd" and "tn_loader_get_model (Some nm) (loader hnd) = Some w"
  obtains x n s where "loader hnd = Some x" "loader_find (impl x) nm = Some w" "ready w = Some (n, s)"
proof -
  obtain x where x: "loader hnd = Some x" "loader_find (impl x) nm = Some w"
    using assms(2) by (auto simp: tn_loader_get_model_def loader_find_def split: option.splits)
  then have "MNNWrapper_IsValid w" using assms(1) loader_find_size [of "impl x" nm w] by (simp add: api_inv_def)
  then show thesis using that [OF x] by (auto simp: ready_valid)
qed

lemma infer_done_returns:
  assumes inv: "api_inv hnd" and "tn_loader_get_model (Some (requested_model req)) (loader hnd) = Some w"
    and "infer_model env req w = Inr (InferDone w2 req' sz)"
  shows "\<exists>hnd' res'. tn_infer env t0 t1 now_ns (Some hnd) (Some req) (Some res) =
      Inr (TN_INFER_SUCCESS, Some hnd', Some req', Some res') \<and> error_code res' = TN_INFER_SUCCESS \<and>
    latency_us res' = tn_get_time_us t1 - tn_get_time_us t0"
proof -
  let ?lat = "tn_get_time_us t1 - tn_get_time_us t0"
  have "\<exists>m. tn_metrics_record (metrics hnd) now_ns ?lat 1 True = Inr m"
  proof (cases "metrics hnd")
    case (Some y)
    then have "metrics_inv (impl y)" using inv by (simp add: api_inv_def metrics_only_success_def)
    then obtain m where "MetricsCollector_Record now_ns ?lat 1 True (impl y) = Inr m" using record_defined by metis
    then show ?thesis using Some by (simp add: tn_metrics_record_def)
  qed (simp add: tn_metrics_record_def)
  then obtain q mt where "tn_metrics_record (metrics hnd) now_ns ?lat 1 True = Inr (q, mt)" by (metis surj_pair)
  then show ?thesis using assms
    by (cases "metrics hnd \<noteq> None \<and> metrics_enabled (config hnd)")
      (auto simp: tn_infer_def api_inv_def requested_model_def Let_def)
qed

lemma infer_fault_stops:
  assumes "api_inv hnd" and "tn_loader_get_model (Some (requested_model req)) (loader hnd) = Some w" and "infer_model env req w = Inl e"
  shows "tn_infer env t0 t1 now_ns (Some hnd) (Some req) (Some res) = Inl e"
  using assms by (simp add: tn_infer_def api_inv_def requested_model_def Let_def)

definition infer_overruns :: "('net, 'sess, 'tensor) mnn_env \<Rightarrow> tn_infer_request \<Rightarrow> ('net, 'sess) tn_infer_handle \<Rightarrow> bool" where
  "infer_overruns env req hnd \<longleftrightarrow>
     (case tn_loader_get_model (Some (requested_model req)) (loader hnd) of
        None \<Rightarrow> False
      | Some w \<Rightarrow> (case ready w of None \<Rightarrow> False | Some (n, s) \<Rightarrow> model_overruns env req n s))"

text \<open>
  C2: memory safety of the inference call, for every engine. In every reachable state and for a request whose buffers have the
  sizes it states, \<open>tn_infer\<close> accesses memory out of bounds exactly when a copy does not fit (\<open>infer_overruns\<close>): the size test is
  passed, and the host tensor made for the input, or after a successful run the one for the output, has fewer bytes than
  \<open>elementSize() * sizeof(float)\<close>. In all other cases it returns, without a division by zero; the code it returns is the one in the
  result, the latency is the difference of the two clock readings, and a call that fails leaves the request's buffers alone.
\<close>

theorem infer_memory_safe:
  assumes "api_reach env P h h' hnd" and "request_ok req"
  shows "if infer_overruns env req hnd then tn_infer env t0 t1 now_ns (Some hnd) (Some req) (Some res) = Inl OutOfBounds
    else \<exists>r hnd' req' res'. tn_infer env t0 t1 now_ns (Some hnd) (Some req) (Some res) = Inr (r, Some hnd', Some req', Some res') \<and>
      error_code res' = r \<and> latency_us res' = tn_get_time_us t1 - tn_get_time_us t0 \<and>
      (r \<noteq> TN_INFER_SUCCESS \<longrightarrow> req' = req)"
proof -
  have inv: "api_inv hnd" by (rule reach_api_inv [OF assms(1)])
  show ?thesis
  proof (cases "tn_loader_get_model (Some (requested_model req)) (loader hnd)")
    case None
    then show ?thesis using inv by (simp add: infer_overruns_def tn_infer_def api_inv_def requested_model_def infer_fail_def Let_def)
  next
    case (Some w)
    obtain n s where rd: "ready w = Some (n, s)" using found_ready [OF inv Some] by metis
    note m = infer_model_overrun [OF assms(2) rd, of env]
    have over: "infer_overruns env req hnd = model_overruns env req n s" using Some rd by (simp add: infer_overruns_def)
    show ?thesis
    proof (cases "model_overruns env req n s")
      case True
      then show ?thesis using infer_fault_stops [OF inv Some] m over by simp
    next
      case False
      then obtain out where out: "infer_model env req w = Inr out" using m by auto
      show ?thesis
      proof (cases out)
        case (InferFail code w2)
        then show ?thesis using inv Some out False over
          by (simp add: tn_infer_def api_inv_def requested_model_def infer_fail_def Let_def)
      next
        case (InferDone w2 req' sz)
        then have "infer_model env req w = Inr (InferDone w2 req' sz)" using out by simp
        from infer_done_returns [OF inv Some this, of t0 t1 now_ns res] show ?thesis using False over by auto
      qed
    qed
  qed
qed

text \<open>
  C25: what a successful call computes, for every engine and request. It ran the model the request names (or \<open>default\<close>) on
  the first bytes of the request's input, \<open>elementSize() * sizeof(float)\<close> many; the output size it reports is this number for the
  output tensor, and the request's output buffer, when the request states that it is large enough, starts with that many bytes of the
  output tensor and is otherwise unchanged; when it is too small nothing is copied although the call reports success.
\<close>

theorem infer_success_computes:
  assumes "api_reach env P h h' hnd"
    and "tn_infer env t0 t1 now_ns (Some hnd) (Some req) (Some res) = Inr (TN_INFER_SUCCESS, Some hnd', Some req', Some res')"
  shows "\<exists>x w n s t s2 ot. loader hnd = Some x \<and> loader_find (impl x) (requested_model req) = Some w \<and> ready w = Some (n, s) \<and>
    getSessionInput env n s None = Some t \<and> tensor_bytes env s t \<le> input_size req \<and>
    runSession env n (fed env req s t) = (NO_ERROR, s2) \<and> getSessionOutput env n s2 None = Some ot \<and>
    res_output_size res' = tensor_bytes env s2 ot \<and> req' = answered env req s2 ot"
proof -
  have inv: "api_inv hnd" by (rule reach_api_inv [OF assms(1)])
  note call = assms(2) [unfolded tn_infer_def]
  obtain w where w: "tn_loader_get_model (Some (requested_model req)) (loader hnd) = Some w"
    using call inv by (auto simp: requested_model_def api_inv_def tn_codes Let_def split: option.splits)
  obtain x n s where x: "loader hnd = Some x" "loader_find (impl x) (requested_model req) = Some w" "ready w = Some (n, s)"
    by (rule found_ready [OF inv w])
  obtain out where out: "infer_model env req w = Inr out"
    using call inv w by (auto simp: requested_model_def api_inv_def Let_def split: option.splits sum.splits)
  obtain w2 sz where d: "infer_model env req w = Inr (InferDone w2 req' sz)" "res_output_size res' = sz"
  proof (cases out)
    case (InferFail code w2)
    then have "code \<noteq> TN_INFER_SUCCESS" using out
      by (auto simp: infer_model_def tn_codes split: option.splits sum.splits prod.splits if_splits)
    then show ?thesis using call inv w out InferFail
      by (auto simp: requested_model_def api_inv_def Let_def split: option.splits)
  next
    case (InferDone w2 r sz)
    then have "req' = r \<and> res_output_size res' = sz" using call inv w out
      by (auto simp: requested_model_def api_inv_def Let_def split: option.splits if_splits sum.splits)
    then show ?thesis using that out InferDone by blast
  qed
  show ?thesis using x infer_model_done [OF x(3) d(1)] d(2) by blast
qed

subsection \<open>Inference on the concrete engine\<close>

definition demo_request :: tn_infer_request where
  "demo_request = \<lparr>input_data = Some [1, 2, 3, 4], input_size = 4, output_data = Some [9, 9, 9, 9, 9], output_size = 5,
     req_model_name = Some ''net'', req_priority = 0, req_user_data = None\<rparr>"

definition demo_result :: tn_infer_result where
  "demo_result = \<lparr>error_code = 0, res_output_size = 0, latency_us = 0, res_user_data = None\<rparr>"

lemma demo_request_ok: "request_ok demo_request"
  by (simp add: request_ok_def demo_request_def)

lemma demo_infer_model:
  "infer_model demo_env demo_request \<lparr>interpreter = Some (), session = Some [0, 0, 0, 0], model_size = 100\<rparr> =
     Inr (InferDone \<lparr>interpreter = Some (), session = Some [4, 3, 2, 1], model_size = 100\<rparr>
       (demo_request\<lparr>output_data := Some [4, 3, 2, 1, 9]\<rparr>) 4)"
  by (simp add: demo_request_def demo_env_def infer_model_def infer_input_def infer_output_def
      GetInputTensor_def GetOutputTensor_def Run_def ready_def memcpy_def sizeof_float_def Let_def)

lemma demo_session:
  "\<exists>h' hnd x w. api_reach demo_env (\<lambda>_. True) (api_heap []) h' hnd \<and> loader hnd = Some x \<and>
     loader_find (impl x) ''net'' = Some w \<and> session w = Some [0, 0, 0, 0] \<and>
     tn_loader_get_model (Some (requested_model demo_request)) (loader hnd) = Some w \<and>
     (\<exists>w2. infer_model demo_env demo_request w =
       Inr (InferDone w2 (demo_request\<lparr>output_data := Some [4, 3, 2, 1, 9]\<rparr>) 4))"
proof -
  obtain h' hnd hnd1 and x :: "(unit, byte list) tn_loader" where
    r: "api_reach demo_env (\<lambda>_. True) (api_heap []) h' hnd" and
    l: "tn_infer_load demo_env (Some hnd) (Some ''m.mnn'') (Some ''net'') = (TN_INFER_SUCCESS, Some hnd1)" and
    x: "loader hnd1 = Some (x\<lparr>impl := \<lparr>max_model_size = 536870912, l_models =
        [(''net'', \<lparr>interpreter = Some (), session = Some [0, 0, 0, 0], model_size = 100\<rparr>)]\<rparr>\<rparr>)"
    using demo_load [of "\<lambda>_. True" "''net''"] by blast
  have r1: "api_reach demo_env (\<lambda>_. True) (api_heap []) h' hnd1" by (rule load [OF r _ l]) simp
  let ?w = "\<lparr>interpreter = Some (), session = Some [0, 0, 0, 0 :: byte], model_size = 100\<rparr>"
  have "loader_find (impl (the (loader hnd1))) ''net'' = Some ?w" "session ?w = Some [0, 0, 0, 0]"
    "tn_loader_get_model (Some (requested_model demo_request)) (loader hnd1) = Some ?w"
    using x by (simp_all add: loader_find_def ModelLoader_GetModel_def tn_loader_get_model_def requested_model_def demo_request_def)
  then show ?thesis using r1 x demo_infer_model by (metis option.sel)
qed

theorem infer_memory_safe_witness:
  "\<exists>h' hnd r hnd' req' res'. api_reach demo_env (\<lambda>_. True) (api_heap []) h' hnd \<and> \<not> infer_overruns demo_env demo_request hnd \<and>
     tn_infer demo_env 1000 9000 5 (Some hnd) (Some demo_request) (Some demo_result) = Inr (r, Some hnd', Some req', Some res') \<and>
     error_code res' = r \<and> latency_us res' = 8"
proof -
  obtain h' hnd where r: "api_reach demo_env (\<lambda>_. True) (api_heap []) h' hnd" using demo_session by blast
  have "\<not> infer_overruns demo_env demo_request hnd"
    by (auto simp: infer_overruns_def model_overruns_def input_fits_def output_fits_def tensor_bytes_def sizeof_float_def demo_env_def demo_request_def
        split: option.split)
  moreover have "tn_get_time_us 9000 - tn_get_time_us 1000 = 8" by (simp add: tn_get_time_us_def)
  ultimately show ?thesis
    using r infer_memory_safe [OF r demo_request_ok, of 1000 9000 5 demo_result] by (metis (no_types, lifting))
qed

theorem infer_success_computes_witness:
  "\<exists>h' hnd hnd' req' res'. api_reach demo_env (\<lambda>_. True) (api_heap []) h' hnd \<and>
     tn_infer demo_env 0 0 0 (Some hnd) (Some demo_request) (Some demo_result) =
       Inr (TN_INFER_SUCCESS, Some hnd', Some req', Some res') \<and>
     output_data req' = Some [4, 3, 2, 1, 9] \<and> unat (res_output_size res') = 4"
proof -
  obtain h' hnd x w w2 where r: "api_reach demo_env (\<lambda>_. True) (api_heap []) h' hnd"
    and f: "tn_loader_get_model (Some (requested_model demo_request)) (loader hnd) = Some w"
    and m: "infer_model demo_env demo_request w = Inr (InferDone w2 (demo_request\<lparr>output_data := Some [4, 3, 2, 1, 9]\<rparr>) 4)"
    using demo_session by blast
  obtain hnd' res' where c: "tn_infer demo_env 0 0 0 (Some hnd) (Some demo_request) (Some demo_result) =
      Inr (TN_INFER_SUCCESS, Some hnd', Some (demo_request\<lparr>output_data := Some [4, 3, 2, 1, 9]\<rparr>), Some res')"
    using infer_done_returns [OF reach_api_inv [OF r] f m] by blast
  have "unat (res_output_size res') = 4"
    using infer_success_computes [OF r c] by (auto simp: tensor_bytes_def sizeof_float_def demo_env_def)
  then show ?thesis using r c by (intro exI [of _ h'] exI [of _ hnd] exI conjI) (assumption, assumption, simp_all)
qed

subsection \<open>Listing the models\<close>

lemma list_loop_spec:
  assumes "length out \<ge> count + length ms"
  shows "list_loop ms mx count out = Inr (count + min (length ms) (nat (mx - int count)),
    take count out @ take (nat (mx - int count)) ms @ drop (count + min (length ms) (nat (mx - int count))) out)"
  using assms
proof (induction ms arbitrary: count out)
  case (Cons m ms)
  show ?case
  proof (cases "int count < mx")
    case True
    have "list_loop ms mx (Suc count) (out[count := m]) = Inr (Suc count + min (length ms) (nat (mx - int (Suc count))),
      take (Suc count) (out[count := m]) @ take (nat (mx - int (Suc count))) ms @
      drop (Suc count + min (length ms) (nat (mx - int (Suc count)))) (out[count := m]))"
      by (rule Cons.IH) (use Cons.prems in simp)
    moreover have "nat (mx - int count) = Suc (nat (mx - int (Suc count)))" using True by simp
    moreover have "take (Suc count) (out[count := m]) = take count out @ [m]"
      using Cons.prems by (simp add: take_Suc_conv_app_nth)
    ultimately show ?thesis using True Cons.prems by (simp add: take_Suc_Cons)
  qed simp
qed simp

text \<open>
  \<open>tn_infer_list_models\<close> into an array of at least \<open>max_models\<close> cells returns the number
  of slots in use, at most \<open>max_count\<close> (0 when that is negative), and the array starts with
  exactly those slots, in order, and is otherwise unchanged.
\<close>

theorem list_models_lists:
  assumes "api_reach env P h h' hnd" and "max_models hnd \<le> length arr"
  shows "tn_infer_list_models (Some hnd) (Some arr) max_count =
    (let n = min (model_count hnd) (nat max_count) in Inr (n, Some (take n (models hnd) @ drop n arr)))"
proof -
  have inv: "length (models hnd) = max_models hnd" "model_count hnd \<le> max_models hnd"
    using reach_api_inv [OF assms(1)] by (auto simp: api_inv_def)
  then show ?thesis using assms(2) list_loop_spec [of 0 "take (model_count hnd) (models hnd)" arr max_count]
    by (simp add: tn_infer_list_models_def Let_def min.commute)
qed

theorem list_models_lists_witness:
  "\<exists>h' hnd. api_reach demo_env (\<lambda>_. True) (api_heap []) h' hnd \<and>
     tn_infer_list_models (Some hnd) (Some (replicate 16 tn_model_info_zero)) 16 =
       Inr (0, Some (replicate 16 tn_model_info_zero))"
proof -
  obtain hnd :: "(unit, byte list) tn_infer_handle" and h' where
    c: "tn_infer_create (Some demo_config) (api_heap []) = (Some hnd, h')" and f: "model_count hnd = 0" "max_models hnd = 16"
    using demo_create by blast
  have r: "api_reach demo_env (\<lambda>_. True) (api_heap []) h' hnd" by (rule created [OF api_heap_wf c])
  show ?thesis using r list_models_lists [OF r, of "replicate 16 tn_model_info_zero" 16] f by auto
qed

end
