(* ===== verification/MNN_Tensor.thy ===== *)
theory MNN_Tensor
  imports TN_Prelude "HOL-Library.Signed_Division"
begin

text \<open>
  Tensors as the engine's shape inference sees them (\<open>MNN/include/MNN/Tensor.hpp\<close>,
  \<open>MNN/source/core/Tensor.cpp\<close>, \<open>TensorUtils.cpp\<close>): the array of extents has nine cells, of which
  \<open>dimensions\<close> are in use; cells beyond keep what was there. C integers are \<open>int\<close>; an
  operation on them that overflows, a division by zero and an access outside an array are
  \<open>Undefined\<close>. A shape computer that returns false gives \<open>ReturnFalse\<close>; what it wrote to its
  outputs before is dropped, as its callers stop there.
\<close>

subsection \<open>Results\<close>

datatype 'a res = Ret 'a | ReturnFalse | Undefined

primrec andThen :: "'a res \<Rightarrow> ('a \<Rightarrow> 'b res) \<Rightarrow> 'b res" where
  "andThen (Ret x) f = f x"
| "andThen ReturnFalse f = ReturnFalse"
| "andThen Undefined f = Undefined"

definition require :: "bool \<Rightarrow> unit res" where
  "require b = (if b then Ret () else ReturnFalse)"

definition defined_if :: "bool \<Rightarrow> unit res" where
  "defined_if b = (if b then Ret () else Undefined)"

text \<open>A loop over a list of indices.\<close>

fun for_each :: "'a list \<Rightarrow> ('a \<Rightarrow> 's \<Rightarrow> 's res) \<Rightarrow> 's \<Rightarrow> 's res" where
  "for_each [] f s = Ret s"
| "for_each (x # xs) f s = andThen (f x s) (for_each xs f)"

definition i32 :: "int \<Rightarrow> int res" where
  "i32 x = (if - (2 ^ 31) \<le> x \<and> x < 2 ^ 31 then Ret x else Undefined)"

definition div32 :: "int \<Rightarrow> int \<Rightarrow> int res" where
  "div32 a b = (if b = 0 then Undefined else i32 (a sdiv b))"

definition at :: "'a list \<Rightarrow> int \<Rightarrow> 'a res" where
  "at xs i = (if 0 \<le> i \<and> nat i < length xs then Ret (xs ! nat i) else Undefined)"

definition put :: "'a list \<Rightarrow> int \<Rightarrow> 'a \<Rightarrow> 'a list res" where
  "put xs i x = (if 0 \<le> i \<and> nat i < length xs then Ret (xs[nat i := x]) else Undefined)"

subsection \<open>Tensors\<close>

datatype MNN_DATA_FORMAT = NCHW | NHWC | NC4HW4 | NHWC4 | FORMAT_UNKNOWN

datatype halide_code = Type_int | Type_uint | Type_float | Type_handle | Type_bfloat

record halide_type =
  type_code :: halide_code
  type_bits :: nat

definition MNN_MAX_TENSOR_DIM :: nat where "MNN_MAX_TENSOR_DIM = 9"

record Tensor =
  dimensions :: int
  dim :: "int list"
  ttype :: halide_type
  dimensionFormat :: MNN_DATA_FORMAT
  host :: "int list"

definition length_at :: "Tensor \<Rightarrow> int \<Rightarrow> int res" where
  "length_at t i = at (dim t) i"

definition setLength :: "Tensor \<Rightarrow> int \<Rightarrow> int \<Rightarrow> Tensor res" where
  "setLength t i l = andThen (put (dim t) i l) (\<lambda>ds. Ret (t\<lparr>dim := ds\<rparr>))"

definition type_bytes :: "halide_type \<Rightarrow> nat" where
  "type_bytes h = (type_bits h + 7) div 8"

definition halide_int32 :: halide_type where
  "halide_int32 = \<lparr>type_code = Type_int, type_bits = 32\<rparr>"

definition halide_float :: halide_type where
  "halide_float = \<lparr>type_code = Type_float, type_bits = 32\<rparr>"

definition width :: "Tensor \<Rightarrow> int res" where
  "width t = length_at t (if dimensionFormat t = NHWC then 2 else 3)"

definition height :: "Tensor \<Rightarrow> int res" where
  "height t = length_at t (if dimensionFormat t = NHWC then 1 else 2)"

definition channel :: "Tensor \<Rightarrow> int res" where
  "channel t = length_at t (if dimensionFormat t = NHWC then 3 else 1)"

definition batch :: "Tensor \<Rightarrow> int res" where
  "batch t = length_at t 0"

definition shape :: "Tensor \<Rightarrow> int list" where
  "shape t = take (nat (dimensions t)) (dim t)"

definition usize :: "Tensor \<Rightarrow> size_t res" where
  "usize t = for_each [0..dimensions t - 1] (\<lambda>i s.
     andThen (length_at t i) (\<lambda>l.
     andThen (if dimensionFormat t = NC4HW4 \<and> i = 1 then andThen (i32 (l + 4 - 1)) (\<lambda>m. Ret (m sdiv 4 * 4)) else Ret l)
       (\<lambda>l'. Ret (s * of_int l')))) (of_nat (type_bytes (ttype t)))"

definition tensor_size :: "Tensor \<Rightarrow> int res" where
  "tensor_size t = andThen (usize t) (\<lambda>n. Ret (sint (ucast n :: 32 word)))"

definition elementSize :: "Tensor \<Rightarrow> int res" where
  "elementSize t = andThen (tensor_size t) (\<lambda>n. div32 n (int (type_bytes (ttype t))))"

text \<open>\<open>memcpy\<close> of the first \<open>n\<close> extents.\<close>

definition copy_dims :: "Tensor \<Rightarrow> int \<Rightarrow> Tensor \<Rightarrow> Tensor res" where
  "copy_dims src n dst =
     (if 0 \<le> n \<and> nat n \<le> length (dim src) \<and> nat n \<le> length (dim dst)
      then Ret (dst\<lparr>dim := take (nat n) (dim src) @ drop (nat n) (dim dst)\<rparr>) else Undefined)"

definition adjustTensorForCompability :: "Tensor \<Rightarrow> Tensor res" where
  "adjustTensorForCompability t = for_each [dimensions t..3] (\<lambda>n t. setLength t n 1) t"

definition copyShape :: "Tensor \<Rightarrow> Tensor \<Rightarrow> bool \<Rightarrow> Tensor res" where
  "copyShape source dest copyFormat =
     andThen (copy_dims source (dimensions source) (dest\<lparr>dimensions := dimensions source\<rparr>)) (\<lambda>d.
     adjustTensorForCompability (if copyFormat then d\<lparr>dimensionFormat := dimensionFormat source\<rparr> else d))"

section \<open>Lemmas\<close>

lemma andThen_Ret_iff: "andThen m f = Ret y \<longleftrightarrow> (\<exists>x. m = Ret x \<and> f x = Ret y)"
  by (cases m) auto

lemma andThen_False_iff: "andThen m f = ReturnFalse \<longleftrightarrow> m = ReturnFalse \<or> (\<exists>x. m = Ret x \<and> f x = ReturnFalse)"
  by (cases m) auto

lemma andThen_Undefined_iff: "andThen m f = Undefined \<longleftrightarrow> m = Undefined \<or> (\<exists>x. m = Ret x \<and> f x = Undefined)"
  by (cases m) auto

lemma require_simps [simp]:
  "require True = Ret ()" "require False = ReturnFalse" "require b = Ret u \<longleftrightarrow> b" "require b \<noteq> Undefined"
  by (auto simp: require_def)

lemma defined_if_simps [simp]:
  "defined_if True = Ret ()" "defined_if False = Undefined" "defined_if b = Ret u \<longleftrightarrow> b" "defined_if b \<noteq> ReturnFalse"
  by (auto simp: defined_if_def)

lemma i32_simps [simp]:
  "i32 x = Ret y \<longleftrightarrow> y = x \<and> - (2 ^ 31) \<le> x \<and> x < 2 ^ 31" "i32 x \<noteq> ReturnFalse"
  by (auto simp: i32_def)

lemma at_simps [simp]:
  "at xs i = Ret x \<longleftrightarrow> 0 \<le> i \<and> nat i < length xs \<and> x = xs ! nat i" "at xs i \<noteq> ReturnFalse"
  by (auto simp: at_def)

lemma put_simps [simp]:
  "put xs i x = Ret ys \<longleftrightarrow> 0 \<le> i \<and> nat i < length xs \<and> ys = xs[nat i := x]" "put xs i x \<noteq> ReturnFalse"
  by (auto simp: put_def)

text \<open>The invariant of a tensor: nine cells, of which the first \<open>dimensions\<close> are in use.\<close>

definition tensor_ok :: "Tensor \<Rightarrow> bool" where
  "tensor_ok t \<longleftrightarrow> length (dim t) = MNN_MAX_TENSOR_DIM \<and> 0 \<le> dimensions t \<and> dimensions t \<le> int MNN_MAX_TENSOR_DIM"

definition elements :: "Tensor \<Rightarrow> int" where
  "elements t = prod_list (shape t)"

end
