(* ===== verification/MNN_Shape.thy ===== *)
theory MNN_Shape
  imports MNN_Tensor
begin

text \<open>
  Shape inference, one definition per shape computer: \<open>Reshape\<close>, \<open>Flatten\<close>
  (\<open>MNN/source/shape/ShapeReshape.cpp\<close>), \<open>Squeeze\<close>, \<open>Unsqueeze\<close> (\<open>ShapeSqueeze.cpp\<close>), \<open>Transpose\<close>,
  \<open>Permute\<close>, \<open>Concat\<close>, \<open>Slice\<close>, broadcasting (\<open>SizeComputer.cpp\<close>, \<open>ShapeBroadcastTo.cpp\<close>,
  \<open>ShapeBinaryOp.cpp\<close>) and \<open>MatMul\<close>. The attributes of an operator are arguments, a null
  attribute is \<open>None\<close>.
\<close>

text \<open>The format and type an output takes over from an input.\<close>

definition like :: "Tensor \<Rightarrow> Tensor \<Rightarrow> Tensor" where
  "like input output = output\<lparr>ttype := ttype input, dimensionFormat := dimensionFormat input\<rparr>"

definition in_range :: "int \<Rightarrow> int \<Rightarrow> int list" where
  "in_range a b = [a..b - 1]"

definition mul_lengths :: "Tensor \<Rightarrow> int list \<Rightarrow> int res" where
  "mul_lengths t is = for_each is (\<lambda>i p. andThen (length_at t i) (\<lambda>l. i32 (p * l))) 1"

definition keep_lengths :: "Tensor \<Rightarrow> int list \<Rightarrow> Tensor \<Rightarrow> Tensor res" where
  "keep_lengths input is output = for_each is (\<lambda>i out. andThen (length_at input i) (\<lambda>l. setLength out i l)) output"

subsection \<open>Flatten and Reshape\<close>

definition FlattenComputer :: "(int \<times> int) option \<Rightarrow> Tensor list \<Rightarrow> Tensor list \<Rightarrow> Tensor list res" where
  "FlattenComputer flatten inputs outputs =
     (case (flatten, inputs, outputs) of
        (Some (axis0, endAxis0), input # _, out0 # outs) \<Rightarrow>
          let d = dimensions input;
              axis = (if axis0 < 0 then axis0 + d else axis0);
              endAxis = (if endAxis0 < 0 then endAxis0 + d else endAxis0)
          in andThen
               (if endAxis = 0 then
                  andThen (mul_lengths input (in_range 0 axis)) (\<lambda>outside.
                  andThen (mul_lengths input (in_range axis d)) (\<lambda>inside.
                  andThen (setLength (out0\<lparr>dimensions := 2\<rparr>) 0 outside) (\<lambda>o1.
                  setLength o1 1 inside)))
                else
                  andThen (keep_lengths input (in_range 0 axis) (out0\<lparr>dimensions := d - endAxis + axis\<rparr>)) (\<lambda>o1.
                  andThen (mul_lengths input (in_range axis (endAxis + 1))) (\<lambda>outside.
                  andThen (setLength o1 axis outside) (\<lambda>o2.
                  if d > endAxis + 1 then keep_lengths input (in_range (endAxis + 1) d) o2 else Ret o2))))
               (\<lambda>out. Ret (like input out # outs))
      | _ \<Rightarrow> ReturnFalse)"

datatype reshape_param =
    Reshape_dims "int list" MNN_DATA_FORMAT
  | QuantizedReshape_dims "int list"

text \<open>The array \<open>shapes\<close> starts without values: reading a cell that was not written is undefined.\<close>

definition read_cell :: "'a option list \<Rightarrow> int \<Rightarrow> 'a res" where
  "read_cell xs i = andThen (at xs i) (\<lambda>c. case c of Some x \<Rightarrow> Ret x | None \<Rightarrow> Undefined)"

definition copy_cells :: "int list \<Rightarrow> int \<Rightarrow> int option list \<Rightarrow> int option list res" where
  "copy_cells src n cells = for_each (in_range 0 n) (\<lambda>i cs. andThen (at src i) (\<lambda>x. put cs i (Some x))) cells"

definition reshape_target :: "reshape_param \<Rightarrow> Tensor list \<Rightarrow> Tensor \<Rightarrow> (int option list \<times> int \<times> bool) res" where
  "reshape_target param inputs input =
     (let shapes = replicate MNN_MAX_TENSOR_DIM None
      in if length inputs = 1 then
           let dims = (case param of Reshape_dims ds _ \<Rightarrow> ds | QuantizedReshape_dims ds \<Rightarrow> ds)
           in andThen (copy_cells dims (int (length dims)) shapes) (\<lambda>cs. Ret (cs, int (length dims), False))
         else
           andThen (at inputs 1) (\<lambda>inputShape.
           andThen (elementSize inputShape) (\<lambda>dimSize.
           let fromTf = (dimensionFormat inputShape = NHWC);
               dimType = (case param of Reshape_dims _ f \<Rightarrow> f | QuantizedReshape_dims _ \<Rightarrow> NHWC)
           in andThen
                (if dimensionFormat input = NC4HW4 \<and> dimType = NHWC then
                   for_each [(0, 0), (1, 3), (2, 1), (3, 2)] (\<lambda>(i, j) cs.
                     andThen (at (host inputShape) j) (\<lambda>x. put cs i (Some x))) shapes
                 else copy_cells (host inputShape) dimSize shapes)
                (\<lambda>cs. Ret (cs, dimSize, fromTf)))))"

definition reshape_dims :: "Tensor \<Rightarrow> int option list \<Rightarrow> int \<Rightarrow> bool \<Rightarrow> Tensor \<Rightarrow> (int \<times> Tensor) res" where
  "reshape_dims input shapes dimSize fromTf output =
     for_each (in_range 0 dimSize) (\<lambda>i (determinAxis, out).
       andThen (read_cell shapes i) (\<lambda>reshapeDim.
       if reshapeDim = -1 then andThen (setLength out i 1) (\<lambda>out'. Ret (i, out'))
       else if reshapeDim = 0 \<and> \<not> fromTf then
         andThen (length_at input i) (\<lambda>l. andThen (setLength out i l) (\<lambda>out'. Ret (determinAxis, out')))
       else andThen (setLength out i reshapeDim) (\<lambda>out'. Ret (determinAxis, out')))) (-1, output)"

definition ReshapeComputer :: "reshape_param \<Rightarrow> Tensor list \<Rightarrow> Tensor list \<Rightarrow> Tensor list res" where
  "ReshapeComputer param inputs outputs =
     andThen (at inputs 0) (\<lambda>input.
     andThen (at outputs 0) (\<lambda>output0.
     andThen (reshape_target param inputs input) (\<lambda>(shapes, dimSize, fromTf).
     let output = output0\<lparr>ttype := ttype input, dimensions := dimSize\<rparr>
     in andThen (mul_lengths input (in_range 0 (dimensions input))) (\<lambda>totalSizeInput.
        andThen (reshape_dims input shapes dimSize fromTf output) (\<lambda>(determinAxis, o1).
        andThen (mul_lengths o1 (in_range 0 dimSize)) (\<lambda>totalSizeOutput.
        andThen
          (if determinAxis \<ge> 0 then
             andThen (if totalSizeOutput \<noteq> 0 then div32 totalSizeInput totalSizeOutput else Ret 0) (\<lambda>q.
             andThen (setLength o1 determinAxis q) (\<lambda>o2.
             andThen (i32 (totalSizeOutput * q)) (\<lambda>total. Ret (o2, total))))
           else Ret (o1, totalSizeOutput)) (\<lambda>(o2, total).
        andThen (require (totalSizeInput = total)) (\<lambda>_.
        Ret (o2\<lparr>dimensionFormat := dimensionFormat input\<rparr> # tl outputs)))))))))"

subsection \<open>Squeeze and Unsqueeze\<close>

text \<open>The axes come from the attribute, else from the second input, else there are none.\<close>

definition squeeze_axes :: "int list option \<Rightarrow> Tensor list \<Rightarrow> int list res" where
  "squeeze_axes squeezeDims inputs =
     (case squeezeDims of
        Some ds \<Rightarrow> Ret ds
      | None \<Rightarrow>
          if length inputs > 1 then
            andThen (elementSize (inputs ! 1)) (\<lambda>n.
            andThen (defined_if (n \<le> int (length (host (inputs ! 1))))) (\<lambda>_. Ret (take (nat n) (host (inputs ! 1)))))
          else Ret [])"

definition UnSqueezeSizeComputer :: "int list option \<Rightarrow> Tensor list \<Rightarrow> Tensor list \<Rightarrow> Tensor list res" where
  "UnSqueezeSizeComputer squeezeDims inputs outputs =
     andThen (squeeze_axes squeezeDims inputs) (\<lambda>axes.
     andThen (at inputs 0) (\<lambda>ib.
     andThen (at outputs 0) (\<lambda>ob0.
     let n = dimensions ib + int (length axes); ob = ob0\<lparr>dimensions := n\<rparr>
     in andThen (require (\<not> (n > int MNN_MAX_TENSOR_DIM \<or> n < 0))) (\<lambda>_.
        andThen (for_each axes (\<lambda>a mask.
            let axis = (if a < 0 then a + n else a)
            in andThen (require (\<not> (axis < 0 \<or> axis \<ge> n))) (\<lambda>_. put mask axis (1 :: nat)))
          (replicate MNN_MAX_TENSOR_DIM 0)) (\<lambda>mask.
        andThen (for_each (in_range 0 n) (\<lambda>i (oDim, ob).
            andThen (setLength ob i 1) (\<lambda>ob.
            andThen (at mask i) (\<lambda>mi.
            if mi = 0 then
              andThen (length_at ib oDim) (\<lambda>l.
              andThen (setLength ob i l) (\<lambda>ob. Ret (oDim + 1, ob)))
            else Ret (oDim, ob)))) (0, ob)) (\<lambda>(_, ob).
        Ret (like ib ob # tl outputs)))))))"

definition SqueezeSizeComputer :: "int list option \<Rightarrow> Tensor list \<Rightarrow> Tensor list \<Rightarrow> Tensor list res" where
  "SqueezeSizeComputer squeezeDims inputs outputs =
     andThen (squeeze_axes squeezeDims inputs) (\<lambda>axes.
     andThen (at inputs 0) (\<lambda>ib.
     andThen (at outputs 0) (\<lambda>ob0.
     let n = dimensions ib
     in andThen (for_each axes (\<lambda>a mask.
            let axis = (if a < 0 then a + n else a)
            in andThen (require (\<not> (axis < 0 \<or> axis \<ge> n))) (\<lambda>_.
               andThen (length_at ib axis) (\<lambda>l.
               andThen (require (l = 1)) (\<lambda>_. put mask axis (1 :: nat)))))
          (replicate MNN_MAX_TENSOR_DIM 0)) (\<lambda>mask0.
        andThen (if axes = [] then
            for_each (in_range 0 n) (\<lambda>i mask.
              andThen (length_at ib i) (\<lambda>l. if l = 1 then put mask i 1 else Ret mask)) mask0
          else Ret mask0) (\<lambda>mask.
        andThen (for_each (in_range 0 n) (\<lambda>i c. andThen (at mask i) (\<lambda>mi. Ret (if mi \<noteq> 0 then c + 1 else c))) 0) (\<lambda>actualSqueeze.
        andThen (for_each (in_range 0 n) (\<lambda>i (oDim, ob).
            andThen (at mask i) (\<lambda>mi.
            if mi = 0 then
              andThen (length_at ib i) (\<lambda>l.
              andThen (setLength ob oDim l) (\<lambda>ob. Ret (oDim + 1, ob)))
            else Ret (oDim, ob))) (0, ob0\<lparr>dimensions := n - actualSqueeze\<rparr>)) (\<lambda>(_, ob).
        Ret (like ib ob # tl outputs))))))))"

subsection \<open>Transpose, Permute, ExpandDims\<close>

definition TransposeComputer :: "Tensor list \<Rightarrow> Tensor list \<Rightarrow> Tensor list res" where
  "TransposeComputer inputs outputs =
     andThen (at inputs 0) (\<lambda>input.
     andThen (at inputs 1) (\<lambda>perm.
     andThen (at outputs 0) (\<lambda>out0.
     let dims = dimensions input
     in andThen (length_at perm 0) (\<lambda>n.
        andThen (require (\<not> (type_code (ttype perm) \<noteq> Type_int \<or> 32 \<noteq> type_bits (ttype perm) \<or> dims \<noteq> n))) (\<lambda>_.
        andThen (for_each (in_range 0 dims) (\<lambda>i (used, out).
            andThen (at (host perm) i) (\<lambda>d.
            andThen (require (\<not> (d < 0 \<or> d \<ge> dims))) (\<lambda>_.
            andThen (at used d) (\<lambda>u.
            andThen (require (\<not> u)) (\<lambda>_.
            andThen (put used d True) (\<lambda>used.
            andThen (length_at input d) (\<lambda>l.
            andThen (setLength out i l) (\<lambda>out. Ret (used, out)))))))))
          (replicate MNN_MAX_TENSOR_DIM False, out0\<lparr>dimensions := dims\<rparr>)) (\<lambda>(_, out).
        Ret (like input out # tl outputs)))))))"

definition PermuteComputer :: "int list option \<Rightarrow> Tensor list \<Rightarrow> Tensor list \<Rightarrow> Tensor list res" where
  "PermuteComputer dims inputs outputs =
     andThen (at inputs 0) (\<lambda>input.
     andThen (at outputs 0) (\<lambda>out0.
     let dimSize = dimensions input
     in andThen (for_each (in_range 0 dimSize) (\<lambda>i out.
            andThen (case dims of Some sh \<Rightarrow> at sh i | None \<Rightarrow> Ret (dimSize - i - 1)) (\<lambda>d.
            andThen (length_at input d) (\<lambda>l. setLength out i l)))
          (out0\<lparr>dimensions := dimSize\<rparr>)) (\<lambda>out.
        Ret (like input out # tl outputs))))"

definition ExpandDimsComputer :: "int \<Rightarrow> Tensor list \<Rightarrow> Tensor list \<Rightarrow> Tensor list res" where
  "ExpandDimsComputer axis inputs outputs =
     andThen (at inputs 0) (\<lambda>input.
     andThen (at outputs 0) (\<lambda>out0.
     andThen (if length inputs = 2 then at (host (inputs ! 1)) 0 else Ret axis) (\<lambda>d0.
     let d = (if d0 < 0 then dimensions input + 1 + d0 else d0);
         step = (\<lambda>(k, out) l. andThen (setLength out k l) (\<lambda>out. Ret (k + 1, out)))
     in andThen (for_each (in_range 0 (dimensions input)) (\<lambda>i s.
            andThen (if i = d then step s 1 else Ret s) (\<lambda>s.
            andThen (length_at input i) (\<lambda>l. step s l))) (0, out0)) (\<lambda>s.
        andThen (if d = dimensions input then step s 1 else Ret s) (\<lambda>(n, out).
        Ret (like input (out\<lparr>dimensions := n\<rparr>) # tl outputs))))))"

end
