(* ===== verification/MNN_Shape_Facts.thy ===== *)
theory MNN_Shape_Facts
  imports MNN_Shape "HOL-Library.Multiset"
begin

text \<open>
  Properties of the shape computers. The loops are handled by induction on the number of
  iterations: \<open>loop_Suc\<close> peels the last one off.
\<close>

subsection \<open>Loops\<close>

lemma andThen_assoc: "andThen (andThen m f) g = andThen m (\<lambda>x. andThen (f x) g)"
  by (cases m) simp_all

lemma for_each_append: "for_each (xs @ ys) f s = andThen (for_each xs f s) (for_each ys f)"
proof (induction xs arbitrary: s)
  case (Cons x xs)
  then show ?case by (cases "f x s") simp_all
qed simp

lemma in_range_upt: "in_range a b = map (\<lambda>i. a + int i) [0..<nat (b - a)]"
proof (rule nth_equalityI)
  show "length (in_range a b) = length (map (\<lambda>i. a + int i) [0..<nat (b - a)])" by (simp add: in_range_def)
qed (simp add: in_range_def nth_upto)

lemma in_range_0: "in_range 0 b = map int [0..<nat b]"
  by (simp add: in_range_upt)

lemma loop_Suc: "for_each (map g [0..<Suc k]) f s = andThen (for_each (map g [0..<k]) f s) (f (g k))"
proof -
  have "for_each [g k] f u = f (g k) u" for u by (cases "f (g k) u") simp_all
  then have "for_each [g k] f = f (g k)" by (rule ext)
  then show ?thesis by (simp add: for_each_append)
qed

text \<open>A loop that keeps a property.\<close>

lemma for_each_inv:
  assumes "for_each xs f s = Ret s'" and "P s" and "\<And>x s s'. x \<in> set xs \<Longrightarrow> P s \<Longrightarrow> f x s = Ret s' \<Longrightarrow> P s'"
  shows "P s'"
  using assms
proof (induction xs arbitrary: s)
  case (Cons x xs)
  then obtain s1 where s1: "f x s = Ret s1" "for_each xs f s1 = Ret s'" by (auto simp: andThen_Ret_iff)
  show ?case by (rule Cons.IH [OF s1(2)]) (use Cons.prems s1 in auto)
qed simp

lemma for_each_step:
  assumes "for_each xs f s = Ret s'" and "x \<in> set xs"
  shows "\<exists>s1 s2. f x s1 = Ret s2"
  using assms by (induction xs arbitrary: s) (auto simp: andThen_Ret_iff)

text \<open>A loop that writes cell after cell of an array or a tensor.\<close>

lemma fill_array:
  assumes "for_each (map int [0..<n]) (\<lambda>i xs. andThen (G i) (\<lambda>x. put xs i x)) xs = Ret ys"
  shows "n \<le> length xs \<and> (\<forall>i < n. G (int i) = Ret (ys ! i)) \<and> length ys = length xs \<and> drop n ys = drop n xs"
  using assms
proof (induction n arbitrary: ys)
  case (Suc n)
  then obtain zs x where z: "for_each (map int [0..<n]) (\<lambda>i xs. andThen (G i) (\<lambda>x. put xs i x)) xs = Ret zs"
    and x: "G (int n) = Ret x" "n < length zs" "ys = zs[n := x]" by (auto simp only: loop_Suc andThen_Ret_iff put_simps nat_int)
  note IH = Suc.IH [OF z]
  have "drop (Suc n) ys = drop (Suc n) xs" using IH x(3) by (metis drop_Suc drop_tl drop_update_cancel lessI)
  then show ?case using IH x by (auto simp: less_Suc_eq nth_list_update)
qed simp

lemma setLength_Ret [simp]:
  "setLength t i l = Ret t' \<longleftrightarrow> 0 \<le> i \<and> nat i < length (dim t) \<and> t' = t\<lparr>dim := (dim t)[nat i := l]\<rparr>"
  "setLength t i l \<noteq> ReturnFalse"
  by (auto simp: setLength_def andThen_Ret_iff andThen_False_iff)

lemma length_at_Ret [simp]:
  "length_at t i = Ret l \<longleftrightarrow> 0 \<le> i \<and> nat i < length (dim t) \<and> l = dim t ! nat i" "length_at t i \<noteq> ReturnFalse"
  by (auto simp: length_at_def)

lemma fill_tensor:
  assumes "for_each (map int [0..<n]) (\<lambda>i t. andThen (G i) (\<lambda>l. setLength t i l)) t = Ret t'"
  shows "n \<le> length (dim t) \<and> (\<forall>i < n. G (int i) = Ret (dim t' ! i)) \<and> length (dim t') = length (dim t) \<and>
    drop n (dim t') = drop n (dim t) \<and> t' = t\<lparr>dim := dim t'\<rparr>"
  using assms
proof (induction n arbitrary: t')
  case (Suc n)
  then obtain u l where u: "for_each (map int [0..<n]) (\<lambda>i t. andThen (G i) (\<lambda>l. setLength t i l)) t = Ret u"
    and l: "G (int n) = Ret l" "n < length (dim u)" "t' = u\<lparr>dim := (dim u)[n := l]\<rparr>"
    by (auto simp only: loop_Suc andThen_Ret_iff setLength_Ret nat_int)
  note IH = Suc.IH [OF u]
  have "drop (Suc n) (dim t') = drop (Suc n) (dim t)" using IH l(3) by (simp add: drop_Suc) (metis drop_Suc drop_tl drop_update_cancel lessI)
  moreover have "t' = t\<lparr>dim := dim t'\<rparr>" using IH l(3) by (cases t, cases u) auto
  ultimately show ?case using IH l by (auto simp: less_Suc_eq nth_list_update)
qed simp

lemma mul_lengths_Ret:
  assumes "mul_lengths t (map int [0..<n]) = Ret p"
  shows "n \<le> length (dim t)" "p = prod_list (take n (dim t))"
proof -
  have "n \<le> length (dim t) \<and> p = prod_list (take n (dim t))"
    using assms unfolding mul_lengths_def
  proof (induction n arbitrary: p)
    case (Suc n)
    then obtain q where q: "for_each (map int [0..<n]) (\<lambda>i p. andThen (length_at t i) (\<lambda>l. i32 (p * l))) 1 = Ret q"
      and p: "n < length (dim t)" "p = q * dim t ! n"
      by (auto simp only: loop_Suc andThen_Ret_iff length_at_Ret i32_simps nat_int)
    show ?case using Suc.IH [OF q] p by (simp add: take_Suc_conv_app_nth)
  qed simp
  then show "n \<le> length (dim t)" "p = prod_list (take n (dim t))" by auto
qed

subsection \<open>Reshape\<close>

lemma shape_update [simp]: "shape (t\<lparr>ttype := a\<rparr>) = shape t" "shape (t\<lparr>dimensionFormat := f\<rparr>) = shape t"
  by (simp_all add: shape_def)

lemma like_simps [simp]:
  "shape (like a t) = shape t" "dim (like a t) = dim t" "dimensions (like a t) = dimensions t"
  "ttype (like a t) = ttype a" "dimensionFormat (like a t) = dimensionFormat a"
  by (simp_all add: like_def)

text \<open>What the loop of \<open>Reshape\<close> writes: 1 where the extent is to be found.\<close>

definition reshape_cell :: "Tensor \<Rightarrow> bool \<Rightarrow> int option list \<Rightarrow> nat \<Rightarrow> int" where
  "reshape_cell input fromTf cs i =
     (if cs ! i = Some (-1) then 1 else if cs ! i = Some 0 \<and> \<not> fromTf then dim input ! i else the (cs ! i))"

lemma reshape_dims_Ret:
  assumes "reshape_dims input cs (int n) fromTf out = Ret (d, out')"
  shows "n \<le> length (dim out)" "\<And>i. i < n \<Longrightarrow> dim out' ! i = reshape_cell input fromTf cs i \<and> i < length cs \<and> cs ! i \<noteq> None"
    "out' = out\<lparr>dim := dim out'\<rparr>" "length (dim out') = length (dim out)"
    "d = -1 \<or> (\<exists>k < n. d = int k \<and> cs ! k = Some (-1))"
proof -
  have "n \<le> length (dim out) \<and> (\<forall>i < n. dim out' ! i = reshape_cell input fromTf cs i \<and> i < length cs \<and> cs ! i \<noteq> None) \<and>
      out' = out\<lparr>dim := dim out'\<rparr> \<and> length (dim out') = length (dim out) \<and> (d = -1 \<or> (\<exists>k < n. d = int k \<and> cs ! k = Some (-1)))"
    using assms unfolding reshape_dims_def in_range_0 nat_int
  proof (induction n arbitrary: d out')
    case (Suc n)
    let ?f = "\<lambda>i (determinAxis, out). andThen (read_cell cs i) (\<lambda>reshapeDim.
       if reshapeDim = -1 then andThen (setLength out i 1) (\<lambda>out'. Ret (i, out'))
       else if reshapeDim = 0 \<and> \<not> fromTf then
         andThen (length_at input i) (\<lambda>l. andThen (setLength out i l) (\<lambda>out'. Ret (determinAxis, out')))
       else andThen (setLength out i reshapeDim) (\<lambda>out'. Ret (determinAxis, out')))"
    obtain e u where u: "for_each (map int [0..<n]) ?f (-1, out) = Ret (e, u)" and s: "?f (int n) (e, u) = Ret (d, out')"
      using Suc.prems unfolding loop_Suc andThen_Ret_iff by fast
    note IH = Suc.IH [OF u]
    from s have st: "n < length cs" "cs ! n \<noteq> None" "n < length (dim u)"
      "out' = u\<lparr>dim := (dim u)[n := reshape_cell input fromTf cs n]\<rparr>" "d = (if cs ! n = Some (-1) then int n else e)"
      by (auto simp: read_cell_def andThen_Ret_iff reshape_cell_def split: if_splits option.splits)
    have "out' = out\<lparr>dim := dim out'\<rparr>" using IH st(4) by (cases out, cases u) auto
    then show ?case using IH st by (auto simp: less_Suc_eq nth_list_update)
  qed simp
  then show "n \<le> length (dim out)" "\<And>i. i < n \<Longrightarrow> dim out' ! i = reshape_cell input fromTf cs i \<and> i < length cs \<and> cs ! i \<noteq> None"
    "out' = out\<lparr>dim := dim out'\<rparr>" "length (dim out') = length (dim out)"
    "d = -1 \<or> (\<exists>k < n. d = int k \<and> cs ! k = Some (-1))" by blast+
qed

lemma prod_list_set_one:
  assumes "i < length xs" and "xs ! i = 1"
  shows "prod_list (xs[i := q]) = prod_list xs * (q :: int)"
  using assms by (induction xs arbitrary: i) (auto split: nat.splits)

text \<open>The target of a \<open>Reshape\<close>, when it can be read, has as many cells as dimensions.\<close>

lemma copy_cells_Ret:
  assumes "copy_cells src n (replicate k None) = Ret cs"
  shows "nat n \<le> k" "\<And>i. i < nat n \<Longrightarrow> i < length src \<and> cs ! i = Some (src ! i)"
proof -
  have "for_each (map int [0..<nat n]) (\<lambda>i cs. andThen (andThen (at src i) (\<lambda>x. Ret (Some x))) (\<lambda>c. put cs i c)) (replicate k None) = Ret cs"
    using assms unfolding copy_cells_def in_range_0 by (simp add: andThen_assoc)
  note f = fill_array [OF this]
  show "nat n \<le> k" using f by simp
  show "i < length src \<and> cs ! i = Some (src ! i)" if "i < nat n" for i using f that by (auto simp: andThen_Ret_iff)
qed

text \<open>
  C35: \<open>Reshape\<close> keeps the elements, wherever the target comes from. When the computer succeeds it has read a target
  (\<open>reshape_target\<close>: the operator's own dimensions when there is one input, else the integers of the second input, rearranged
  from channels last to channels first when the operator has the format NHWC and the input NC4HW4). The output has the target's number of
  dimensions, at each position every positive extent of the target, the number of elements of the input and its type and format. With one
  input the target is the operator's list, and the output is a well-formed tensor.
\<close>

theorem reshape_keeps_elements:
  assumes "tensor_ok input" and "tensor_ok output" and "ReshapeComputer param (input # rest) [output] = Ret outs"
  shows "\<exists>out cs n fromTf. outs = [out] \<and> reshape_target param (input # rest) input = Ret (cs, n, fromTf) \<and> elements out = elements input \<and>
    dimensions out = n \<and> (\<forall>i < nat n. \<forall>x > 0. cs ! i = Some x \<longrightarrow> dim out ! i = x) \<and> ttype out = ttype input \<and>
    dimensionFormat out = dimensionFormat input \<and> (0 \<le> n \<longrightarrow> tensor_ok out) \<and>
    (\<forall>dims fmt. rest = [] \<and> param = Reshape_dims dims fmt \<longrightarrow> n = int (length dims) \<and> (\<forall>i < length dims. cs ! i = Some (dims ! i)))"
proof -
  obtain cs n tf pin d o1 pout where tg: "reshape_target param (input # rest) input = Ret (cs, n, tf)"
    and pin: "mul_lengths input (in_range 0 (dimensions input)) = Ret pin"
    and o1: "reshape_dims input cs n tf (output\<lparr>ttype := ttype input, dimensions := n\<rparr>) = Ret (d, o1)"
    and pout: "mul_lengths o1 (in_range 0 n) = Ret pout"
    and rest: "andThen
          (if d \<ge> 0 then
             andThen (if pout \<noteq> 0 then div32 pin pout else Ret 0) (\<lambda>q.
             andThen (setLength o1 d q) (\<lambda>o2.
             andThen (i32 (pout * q)) (\<lambda>total. Ret (o2, total))))
           else Ret (o1, pout)) (\<lambda>(o2, total).
        andThen (require (pin = total)) (\<lambda>_. Ret (o2\<lparr>dimensionFormat := dimensionFormat input\<rparr> # []))) = Ret outs"
    using assms(3) by (auto simp: ReshapeComputer_def Let_def andThen_Ret_iff split: prod.splits)
  have nn: "in_range 0 n = in_range 0 (int (nat n))" by (simp add: in_range_0)
  note r = reshape_dims_Ret [OF o1 [unfolded reshape_dims_def nn, folded reshape_dims_def]]
  have p1: "pin = elements input" using mul_lengths_Ret(2) [of input] pin by (simp add: in_range_0 elements_def shape_def)
  have p2: "pout = prod_list (take (nat n) (dim o1))" using mul_lengths_Ret(2) [of o1] pout by (simp add: in_range_0)
  have kept: "dim o1 ! i = x" if "i < nat n" "cs ! i = Some x" "0 < x" for i x
    using r(2) [OF that(1)] that by (auto simp: reshape_cell_def)
  obtain o2 where o2: "outs = [o2\<lparr>dimensionFormat := dimensionFormat input\<rparr>]" "length (dim o2) = length (dim o1)"
    "o2 = o1\<lparr>dim := dim o2\<rparr>" "prod_list (take (nat n) (dim o2)) = pin" "\<forall>i < nat n. \<forall>x > 0. cs ! i = Some x \<longrightarrow> dim o2 ! i = x"
  proof (cases "d \<ge> 0")
    case False
    then show thesis using rest that [of o1] kept p2 by (auto simp: andThen_Ret_iff)
  next
    case True
    then obtain k where k: "d = int k" "k < nat n" "cs ! k = Some (-1)" using r(5) by auto
    have one: "dim o1 ! k = 1" using r(2) [OF k(2)] k(3) by (auto simp: reshape_cell_def)
    obtain q where q: "k < length (dim o1)" "outs = [o1\<lparr>dim := (dim o1)[k := q], dimensionFormat := dimensionFormat input\<rparr>]" "pin = pout * q"
      using rest True k(1) by (auto simp: andThen_Ret_iff)
    have "prod_list (take (nat n) ((dim o1)[k := q])) = pin"
      using prod_list_set_one [of k "take (nat n) (dim o1)" q] one k(2) q(1,3) p2 by (simp add: take_update_swap)
    moreover have "(dim o1)[k := q] ! i = x" if "i < nat n" "cs ! i = Some x" "0 < x" for i x
    proof -
      have "k \<noteq> i" using that k(3) by auto
      then show ?thesis using kept [OF that] by simp
    qed
    ultimately show thesis using that [of "o1\<lparr>dim := (dim o1)[k := q]\<rparr>"] q(2) by simp
  qed
  have f: "dimensions o2 = n" "ttype o2 = ttype input" using o2(3) r(3) by (metis Tensor.select_convs Tensor.update_convs Tensor.surjective)+
  have len: "length (dim o2) = MNN_MAX_TENSOR_DIM" "nat n \<le> MNN_MAX_TENSOR_DIM" using r(1,4) o2(2) assms(2) by (auto simp: tensor_ok_def)
  have attr: "n = int (length dims) \<and> (\<forall>i < length dims. cs ! i = Some (dims ! i))" if "rest = [] \<and> param = Reshape_dims dims fmt" for dims fmt
    using tg that copy_cells_Ret(2) [of dims "int (length dims)"] by (auto simp: reshape_target_def Let_def andThen_Ret_iff)
  show ?thesis
    using o2(1,4,5) p1 tg f len attr by (intro exI [of _ "o2\<lparr>dimensionFormat := dimensionFormat input\<rparr>"] exI [of _ cs] exI [of _ n] exI [of _ tf])
      (auto simp: tensor_ok_def elements_def shape_def)
qed

text \<open>\<open>Reshape\<close> to \<open>[4, -1]\<close>.\<close>

definition demo_tensor :: "int list \<Rightarrow> Tensor" where
  "demo_tensor ds = \<lparr>dimensions = int (length ds), dim = ds @ replicate (MNN_MAX_TENSOR_DIM - length ds) 0, ttype = halide_float,
     dimensionFormat = NCHW, host = []\<rparr>"

theorem reshape_keeps_elements_witness:
  "\<exists>out. ReshapeComputer (Reshape_dims [4, -1] NCHW) [demo_tensor [2, 3, 2]] [demo_tensor []] = Ret [out] \<and>
     elements out = 12 \<and> dim out ! 0 = 4"
proof -
  have r: "case ReshapeComputer (Reshape_dims [4, -1] NCHW) [demo_tensor [2, 3, 2]] [demo_tensor []] of Ret [out] \<Rightarrow> True | _ \<Rightarrow> False"
    by code_simp
  have e: "elements (demo_tensor [2, 3, 2]) = 12" by code_simp
  have ok: "tensor_ok (demo_tensor [2, 3, 2])" "tensor_ok (demo_tensor [])" by (simp_all add: tensor_ok_def demo_tensor_def MNN_MAX_TENSOR_DIM_def)
  obtain out where o: "ReshapeComputer (Reshape_dims [4, -1] NCHW) [demo_tensor [2, 3, 2]] [demo_tensor []] = Ret [out]"
    using r by (auto split: res.splits list.splits)
  then show ?thesis using reshape_keeps_elements [OF ok o] e by auto
qed

subsection \<open>Squeeze and Unsqueeze\<close>

definition unmasked :: "nat list \<Rightarrow> nat \<Rightarrow> nat list" where
  "unmasked ms k = filter (\<lambda>i. ms ! i = 0) [0..<k]"

lemma unmasked_Suc: "unmasked ms (Suc k) = unmasked ms k @ (if ms ! k = 0 then [k] else [])"
  by (simp add: unmasked_def)

lemma unmasked_le: "length (unmasked ms k) \<le> k"
  unfolding unmasked_def by (metis diff_zero length_filter_le length_upt)

text \<open>The masks both computers make of the axes.\<close>

definition axis_of :: "int \<Rightarrow> int \<Rightarrow> int" where
  "axis_of n a = (if a < 0 then a + n else a)"

definition mask_of :: "int \<Rightarrow> int list \<Rightarrow> nat list" where
  "mask_of n axes = map (\<lambda>i. if int i \<in> axis_of n ` set axes then 1 else 0) [0..<MNN_MAX_TENSOR_DIM]"

lemma mask_of_snoc:
  assumes "0 \<le> axis_of n a" and "axis_of n a < int MNN_MAX_TENSOR_DIM"
  shows "put (mask_of n axes) (axis_of n a) 1 = Ret (mask_of n (axes @ [a]))"
  using assms by (auto simp: mask_of_def nth_list_update intro!: nth_equalityI)

lemma unsqueeze_mask:
  assumes "\<And>a. a \<in> set axes \<Longrightarrow> 0 \<le> axis_of n a \<and> axis_of n a < n" and "n \<le> int MNN_MAX_TENSOR_DIM"
  shows "for_each axes (\<lambda>a ms. let axis = (if a < 0 then a + n else a)
      in andThen (require (\<not> (axis < 0 \<or> axis \<ge> n))) (\<lambda>_. put ms axis 1)) (replicate MNN_MAX_TENSOR_DIM 0) = Ret (mask_of n axes)" (is "for_each axes ?f _ = _")
  using assms(1)
proof (induction axes rule: rev_induct)
  case Nil
  then show ?case by (simp add: mask_of_def map_replicate_const)
next
  case (snoc a axes)
  have a: "0 \<le> axis_of n a" "axis_of n a < n" using snoc.prems by auto
  have "put (mask_of n axes) (axis_of n a) 1 = Ret (mask_of n (axes @ [a]))" using mask_of_snoc a assms(2) by simp
  then have "?f a (mask_of n axes) = Ret (mask_of n (axes @ [a]))"
    using a unfolding axis_of_def [symmetric] Let_def by (simp add: require_def del: put_simps)
  moreover have "for_each axes ?f (replicate MNN_MAX_TENSOR_DIM 0) = Ret (mask_of n axes)" using snoc by simp
  ultimately show ?case by (simp only: for_each_append for_each.simps andThen.simps)
qed

lemma squeeze_mask:
  assumes "\<And>a. a \<in> set axes \<Longrightarrow> 0 \<le> axis_of n a \<and> axis_of n a < n \<and> dim t ! nat (axis_of n a) = 1"
    and "n \<le> int MNN_MAX_TENSOR_DIM" and "length (dim t) = MNN_MAX_TENSOR_DIM"
  shows "for_each axes (\<lambda>a ms. let axis = (if a < 0 then a + n else a)
      in andThen (require (\<not> (axis < 0 \<or> axis \<ge> n))) (\<lambda>_. andThen (length_at t axis) (\<lambda>l.
         andThen (require (l = 1)) (\<lambda>_. put ms axis 1)))) (replicate MNN_MAX_TENSOR_DIM 0) = Ret (mask_of n axes)" (is "for_each axes ?f _ = _")
  using assms(1)
proof (induction axes rule: rev_induct)
  case Nil
  then show ?case by (simp add: mask_of_def map_replicate_const)
next
  case (snoc a axes)
  have a: "0 \<le> axis_of n a" "axis_of n a < n" "dim t ! nat (axis_of n a) = 1" using snoc.prems by auto
  have "length_at t (axis_of n a) = Ret 1" using a assms(2,3) by simp
  moreover have "put (mask_of n axes) (axis_of n a) 1 = Ret (mask_of n (axes @ [a]))" using mask_of_snoc a assms(2) by simp
  ultimately have "?f a (mask_of n axes) = Ret (mask_of n (axes @ [a]))"
    using a unfolding axis_of_def [symmetric] Let_def by (simp add: require_def del: put_simps length_at_Ret)
  moreover have "for_each axes ?f (replicate MNN_MAX_TENSOR_DIM 0) = Ret (mask_of n axes)" using snoc by simp
  ultimately show ?case by (simp only: for_each_append for_each.simps andThen.simps)
qed

text \<open>The loops over the extents.\<close>

lemma unsqueeze_loop:
  assumes "length ms = MNN_MAX_TENSOR_DIM" and "length (dim ib) = MNN_MAX_TENSOR_DIM" and "length (dim ob) = MNN_MAX_TENSOR_DIM"
    and "k \<le> MNN_MAX_TENSOR_DIM"
  shows "for_each (map int [0..<k]) (\<lambda>i (oDim, ob). andThen (setLength ob i 1) (\<lambda>ob. andThen (at ms i) (\<lambda>mi.
      if mi = 0 then andThen (length_at ib oDim) (\<lambda>l. andThen (setLength ob i l) (\<lambda>ob. Ret (oDim + 1, ob)))
      else Ret (oDim, ob)))) (0, ob) =
    Ret (int (length (unmasked ms k)),
         ob\<lparr>dim := map (\<lambda>i. if ms ! i = 0 then dim ib ! length (unmasked ms i) else 1) [0..<k] @ drop k (dim ob)\<rparr>)"
  using assms(4)
proof (induction k)
  case 0
  then show ?case by (simp add: unmasked_def)
next
  case (Suc k)
  let ?m = "\<lambda>i. if ms ! i = 0 then dim ib ! length (unmasked ms i) else 1"
  have k: "k < MNN_MAX_TENSOR_DIM" using Suc.prems by simp
  have d: "drop k (dim ob) = dim ob ! k # drop (Suc k) (dim ob)" using k assms(3) by (simp add: Cons_nth_drop_Suc)
  have "length (unmasked ms k) < length (dim ib)" using unmasked_le [of ms k] k assms(2) by simp
  then show ?case using Suc.IH k assms unfolding loop_Suc
    by (simp add: setLength_def put_def at_def length_at_def list_update_append unmasked_Suc d)
qed

lemma squeeze_loop:
  assumes "length ms = MNN_MAX_TENSOR_DIM" and "length (dim ib) = MNN_MAX_TENSOR_DIM" and "length (dim ob) = MNN_MAX_TENSOR_DIM"
    and "k \<le> MNN_MAX_TENSOR_DIM"
  shows "for_each (map int [0..<k]) (\<lambda>i (oDim, ob). andThen (at ms i) (\<lambda>mi.
      if mi = 0 then andThen (length_at ib i) (\<lambda>l. andThen (setLength ob oDim l) (\<lambda>ob. Ret (oDim + 1, ob)))
      else Ret (oDim, ob))) (0, ob) =
    Ret (int (length (unmasked ms k)),
         ob\<lparr>dim := map ((!) (dim ib)) (unmasked ms k) @ drop (length (unmasked ms k)) (dim ob)\<rparr>)"
  using assms(4)
proof (induction k)
  case 0
  then show ?case by (simp add: unmasked_def)
next
  case (Suc k)
  let ?c = "length (unmasked ms k)"
  have k: "k < MNN_MAX_TENSOR_DIM" "?c < MNN_MAX_TENSOR_DIM" using Suc.prems unmasked_le [of ms k] by simp_all
  have d: "drop ?c (dim ob) = dim ob ! ?c # drop (Suc ?c) (dim ob)" using k assms(3) by (simp add: Cons_nth_drop_Suc)
  show ?case using Suc.IH k assms unfolding loop_Suc
    by (simp add: setLength_def put_def at_def length_at_def list_update_append unmasked_Suc d)
qed

lemma count_masked:
  assumes "length ms = MNN_MAX_TENSOR_DIM" and "k \<le> MNN_MAX_TENSOR_DIM"
  shows "for_each (map int [0..<k]) (\<lambda>i c. andThen (at ms i) (\<lambda>mi. Ret (if mi \<noteq> 0 then c + 1 else c))) 0 =
    Ret (int k - int (length (unmasked ms k)))"
  using assms(2)
proof (induction k)
  case 0
  then show ?case by (simp add: unmasked_def)
next
  case (Suc k)
  then show ?case using assms(1) unfolding loop_Suc by (simp add: at_def unmasked_Suc)
qed

lemma unmasked_counts: "map (\<lambda>i. f (length (unmasked ms i))) (unmasked ms k) = map f [0..<length (unmasked ms k)]"
proof (induction k)
  case 0
  then show ?case by (simp add: unmasked_def)
next
  case (Suc k)
  then show ?case by (simp add: unmasked_Suc)
qed

lemma inj_on_nat: "(\<And>x. x \<in> A \<Longrightarrow> 0 \<le> x) \<Longrightarrow> inj_on nat A"
  by (rule inj_onI) (metis eq_nat_nat_iff)

text \<open>With distinct axes as many cells are masked as there are axes.\<close>

lemma unmasked_distinct:
  assumes "distinct (map (axis_of n) axes)" and "\<And>a. a \<in> set axes \<Longrightarrow> 0 \<le> axis_of n a \<and> axis_of n a < n" and "n \<le> int MNN_MAX_TENSOR_DIM"
  shows "length (unmasked (mask_of n axes) (nat n)) = nat n - length axes" "length axes \<le> nat n"
proof -
  let ?A = "nat ` axis_of n ` set axes"
  have A: "card ?A = length axes"
  proof -
    have "inj_on nat (axis_of n ` set axes)" using assms(2) by (intro inj_on_nat) auto
    then have "card ?A = card (axis_of n ` set axes)" by (rule card_image)
    also have "\<dots> = length axes" using distinct_card [OF assms(1)] by simp
    finally show ?thesis .
  qed
  have sub: "?A \<subseteq> {..<nat n}"
  proof
    fix x assume "x \<in> ?A"
    then obtain a where "a \<in> set axes" "x = nat (axis_of n a)" by auto
    then show "x \<in> {..<nat n}" using assms(2) [of a] by simp
  qed
  have m: "mask_of n axes ! i = 0 \<longleftrightarrow> i \<notin> ?A" if "i < nat n" for i
  proof -
    have "i < MNN_MAX_TENSOR_DIM" using that assms(3) by simp
    moreover have "int i \<in> axis_of n ` set axes \<longleftrightarrow> i \<in> ?A" using assms(2) by (force simp: image_iff)
    ultimately show ?thesis by (simp add: mask_of_def)
  qed
  have "set (unmasked (mask_of n axes) (nat n)) = {..<nat n} - ?A" using m by (auto simp: unmasked_def)
  moreover have "distinct (unmasked (mask_of n axes) (nat n))" by (simp add: unmasked_def)
  ultimately have "length (unmasked (mask_of n axes) (nat n)) = card ({..<nat n} - ?A)" by (metis distinct_card)
  also have "\<dots> = nat n - length axes" using card_Diff_subset [of ?A "{..<nat n}"] sub A finite_subset by simp
  finally show "length (unmasked (mask_of n axes) (nat n)) = nat n - length axes" .
  show "length axes \<le> nat n" using card_mono [of "{..<nat n}" ?A] sub A by simp
qed

lemma prod_list_filter: "prod_list (map (\<lambda>i. if P i then f i else (1 :: int)) xs) = prod_list (map f (filter P xs))"
  by (induction xs) auto

lemma tensor_ok_length: "tensor_ok t \<Longrightarrow> nat (dimensions t) \<le> length (dim t)"
  by (auto simp: tensor_ok_def nat_le_iff)

lemma take_nth: "n \<le> length xs \<Longrightarrow> map ((!) xs) [0..<n] = take n xs"
  by (rule nth_equalityI) auto

lemma at_0 [simp]: "at (x # xs) 0 = Ret x" and at_1 [simp]: "at (x # y # xs) 1 = Ret y"
  by (simp_all add: at_def)

text \<open>What a successful \<open>Unsqueeze\<close> did.\<close>

lemma unsqueeze_Ret:
  assumes t: "tensor_ok t" and ok: "tensor_ok o1" and n: "n = dimensions t + int (length axes)"
    and u: "UnSqueezeSizeComputer (Some axes) [t] [o1] = Ret [u]"
  shows "nat n \<le> MNN_MAX_TENSOR_DIM" "0 \<le> n" "\<And>a. a \<in> set axes \<Longrightarrow> 0 \<le> axis_of n a \<and> axis_of n a < n"
    "u = like t (o1\<lparr>dimensions := n, dim := map (\<lambda>i. if mask_of n axes ! i = 0 then dim t ! length (unmasked (mask_of n axes) i) else 1)
       [0..<nat n] @ drop (nat n) (dim o1)\<rparr>)"
proof -
  have len: "length (dim t) = MNN_MAX_TENSOR_DIM" "length (dim o1) = MNN_MAX_TENSOR_DIM" "length (mask_of n axes) = MNN_MAX_TENSOR_DIM"
    "0 \<le> dimensions t" using t ok by (simp_all add: tensor_ok_def mask_of_def)
  note D = u [unfolded UnSqueezeSizeComputer_def squeeze_axes_def option.simps andThen.simps at_0 Let_def,
      unfolded n [symmetric] axis_of_def [symmetric] in_range_0]
  obtain m where nb: "n \<le> int MNN_MAX_TENSOR_DIM" and m: "for_each axes (\<lambda>a ms. andThen (require (\<not> (axis_of n a < 0 \<or> axis_of n a \<ge> n)))
      (\<lambda>_. put ms (axis_of n a) (Suc 0))) (replicate MNN_MAX_TENSOR_DIM 0) = Ret m"
    using D by (auto simp: andThen_Ret_iff)
  show nn: "nat n \<le> MNN_MAX_TENSOR_DIM" "0 \<le> n" using nb len(4) by (simp_all add: n)
  show ax: "0 \<le> axis_of n a \<and> axis_of n a < n" if "a \<in> set axes" for a
    using for_each_step [OF m that] by (auto simp: andThen_Ret_iff)
  have mk: "m = mask_of n axes"
    using unsqueeze_mask [of axes n] ax nb m unfolding axis_of_def [symmetric] Let_def by simp
  then show "u = like t (o1\<lparr>dimensions := n, dim := map (\<lambda>i. if mask_of n axes ! i = 0 then dim t ! length (unmasked (mask_of n axes) i) else 1)
       [0..<nat n] @ drop (nat n) (dim o1)\<rparr>)"
    using D m nb nn(2) unsqueeze_loop [OF len(3,1) _ nn(1), of "o1\<lparr>dimensions := n\<rparr>"] len(2) by simp
qed

text \<open>
  C36: \<open>Squeeze\<close> undoes \<open>Unsqueeze\<close>. When \<open>Unsqueeze\<close> succeeds with axes of the operator, at least one, that name distinct
  dimensions, it keeps the number of elements, and \<open>Squeeze\<close> with the same axes succeeds on its
  output and gives the shape of the original tensor back.
\<close>

theorem squeeze_inverts_unsqueeze:
  assumes t: "tensor_ok t" and ok: "tensor_ok o1" "tensor_ok o2" and ne: "axes \<noteq> []"
    and d: "distinct (map (axis_of (dimensions t + int (length axes))) axes)"
    and u: "UnSqueezeSizeComputer (Some axes) [t] [o1] = Ret [u]"
  shows "elements u = elements t \<and> (\<exists>v. SqueezeSizeComputer (Some axes) [u] [o2] = Ret [v] \<and> shape v = shape t)"
proof -
  define n where "n = dimensions t + int (length axes)"
  define ms where "ms = mask_of n axes"
  let ?ds = "map (\<lambda>i. if ms ! i = 0 then dim t ! length (unmasked ms i) else 1) [0..<nat n]"
  let ?us = "?ds @ drop (nat n) (dim o1)"
  have len: "length (dim t) = MNN_MAX_TENSOR_DIM" "length (dim o1) = MNN_MAX_TENSOR_DIM" "length (dim o2) = MNN_MAX_TENSOR_DIM"
    "length ms = MNN_MAX_TENSOR_DIM" using t ok by (simp_all add: tensor_ok_def ms_def mask_of_def)
  note U = unsqueeze_Ret [OF t ok(1) n_def u, folded ms_def]
  have du: "dimensions u = n" "dim u = ?us" "length (dim u) = MNN_MAX_TENSOR_DIM" "n \<le> int MNN_MAX_TENSOR_DIM"
    using U(1,2,4) len by simp_all
  have cnt: "length (unmasked ms (nat n)) = nat (dimensions t)"
    using unmasked_distinct(1) [OF d [folded n_def] U(3) du(4)] U(2) by (simp add: ms_def n_def)
  have one: "0 \<le> axis_of n a \<and> axis_of n a < n \<and> dim u ! nat (axis_of n a) = 1" if "a \<in> set axes" for a
  proof -
    have i: "nat (axis_of n a) < nat n" "int (nat (axis_of n a)) = axis_of n a" using U(3) [OF that] by simp_all
    moreover from i(1) have "nat (axis_of n a) < MNN_MAX_TENSOR_DIM" using U(1) by (rule less_le_trans)
    then have "ms ! nat (axis_of n a) = 1" using that i(2) by (simp add: ms_def mask_of_def)
    ultimately show ?thesis using U(3) [OF that] by (simp add: du nth_append)
  qed
  have sm: "for_each axes (\<lambda>a m. andThen (require (\<not> (axis_of n a < 0 \<or> axis_of n a \<ge> n))) (\<lambda>_. andThen (length_at u (axis_of n a)) (\<lambda>l.
         andThen (require (l = 1)) (\<lambda>_. put m (axis_of n a) 1)))) (replicate MNN_MAX_TENSOR_DIM 0) = Ret ms"
    using squeeze_mask [of axes n u] one du(3,4) unfolding axis_of_def [symmetric] Let_def by (simp add: ms_def)
  define v where "v = like u (o2\<lparr>dimensions := dimensions t, dim := map ((!) (dim u)) (unmasked ms (nat n)) @ drop (nat (dimensions t)) (dim o2)\<rparr>)"
  have n0: "n - (n - dimensions t) = dimensions t" "0 \<le> dimensions t" using t by (simp_all add: tensor_ok_def)
  have v: "SqueezeSizeComputer (Some axes) [u] [o2] = Ret [v]"
    unfolding SqueezeSizeComputer_def squeeze_axes_def option.simps andThen.simps at_0 Let_def in_range_0 axis_of_def [symmetric]
    using sm squeeze_loop [OF len(4) du(3), of "o2\<lparr>dimensions := dimensions t\<rparr>" "nat n"] len U(1,2) ne count_masked [OF len(4) U(1)] cnt n0
    by (simp add: du(1) v_def)
  have vals: "map (\<lambda>i. dim t ! length (unmasked ms i)) (unmasked ms (nat n)) = shape t"
    unfolding unmasked_counts cnt using tensor_ok_length [OF t] by (simp add: shape_def take_nth)
  have "map ((!) (dim u)) (unmasked ms (nat n)) = map (\<lambda>i. dim t ! length (unmasked ms i)) (unmasked ms (nat n))"
    by (rule map_cong) (auto simp: du unmasked_def nth_append)
  then have "shape v = shape t" using vals cnt tensor_ok_length [OF t] by (simp add: shape_def v_def)
  moreover have "elements u = elements t"
    using vals by (simp add: elements_def shape_def du prod_list_filter unmasked_def)
  ultimately show ?thesis using v by blast
qed

theorem squeeze_inverts_unsqueeze_witness:
  "\<exists>u v. UnSqueezeSizeComputer (Some [0, -1]) [demo_tensor [2, 3]] [demo_tensor []] = Ret [u] \<and>
     SqueezeSizeComputer (Some [0, -1]) [u] [demo_tensor []] = Ret [v] \<and> shape v = [2, 3]"
proof -
  have "case UnSqueezeSizeComputer (Some [0, -1]) [demo_tensor [2, 3]] [demo_tensor []] of Ret [u] \<Rightarrow> True | _ \<Rightarrow> False" by code_simp
  then obtain u where u: "UnSqueezeSizeComputer (Some [0, -1]) [demo_tensor [2, 3]] [demo_tensor []] = Ret [u]"
    by (auto split: res.splits list.splits)
  have ok: "tensor_ok (demo_tensor [2, 3])" "tensor_ok (demo_tensor [])" by (simp_all add: tensor_ok_def demo_tensor_def MNN_MAX_TENSOR_DIM_def)
  have "distinct (map (axis_of (dimensions (demo_tensor [2, 3]) + int (length [0 :: int, -1]))) [0, -1])"
    by (simp add: demo_tensor_def axis_of_def)
  then show ?thesis using u squeeze_inverts_unsqueeze [OF ok(1) ok(2) ok(2) _ _ u] by (auto simp: shape_def demo_tensor_def)
qed

subsection \<open>Transpose\<close>

text \<open>The loop of \<open>Transpose\<close> after \<open>k\<close> iterations: the entries seen are distinct dimensions.\<close>

definition transpose_inv :: "Tensor \<Rightarrow> int list \<Rightarrow> Tensor \<Rightarrow> nat \<Rightarrow> bool list \<Rightarrow> Tensor \<Rightarrow> bool" where
  "transpose_inv input ps out0 k used out \<longleftrightarrow> k \<le> length ps \<and> distinct (take k ps) \<and> (\<forall>p \<in> set (take k ps). 0 \<le> p \<and> p < dimensions input) \<and>
     length used = MNN_MAX_TENSOR_DIM \<and> (\<forall>j < MNN_MAX_TENSOR_DIM. used ! j \<longleftrightarrow> int j \<in> set (take k ps)) \<and>
     length (dim out) = length (dim out0) \<and> out = out0\<lparr>dim := dim out\<rparr> \<and> (\<forall>i < k. i < length (dim out) \<and> dim out ! i = dim input ! nat (ps ! i))"

lemma transpose_loop:
  assumes "for_each (map int [0..<k]) (\<lambda>i (used, out).
            andThen (at ps i) (\<lambda>d.
            andThen (require (\<not> (d < 0 \<or> d \<ge> dimensions input))) (\<lambda>_.
            andThen (at used d) (\<lambda>u.
            andThen (require (\<not> u)) (\<lambda>_.
            andThen (put used d True) (\<lambda>used.
            andThen (length_at input d) (\<lambda>l.
            andThen (setLength out i l) (\<lambda>out. Ret (used, out)))))))))
          (replicate MNN_MAX_TENSOR_DIM False, out0) = Ret (used, out)"
    (is "for_each _ ?f _ = _")
  shows "transpose_inv input ps out0 k used out"
  using assms
proof (induction k arbitrary: used out)
  case 0
  then show ?case by (auto simp: transpose_inv_def)
next
  case (Suc k)
  obtain us ot where r: "for_each (map int [0..<k]) ?f (replicate MNN_MAX_TENSOR_DIM False, out0) = Ret (us, ot)"
    and s: "?f (int k) (us, ot) = Ret (used, out)" using Suc.prems unfolding loop_Suc andThen_Ret_iff by fast
  note IH = Suc.IH [OF r, unfolded transpose_inv_def]
  let ?p = "ps ! k"
  have st: "k < length ps" "0 \<le> ?p" "?p < dimensions input" "nat ?p < length us" "\<not> us ! nat ?p" "used = us[nat ?p := True]"
    "k < length (dim ot)" "out = ot\<lparr>dim := (dim ot)[k := dim input ! nat ?p]\<rparr>"
    using s by (auto simp: andThen_Ret_iff not_less not_le)
  have tk: "take (Suc k) ps = take k ps @ [?p]" using st(1) by (simp add: take_Suc_conv_app_nth)
  have "int (nat ?p) \<notin> set (take k ps)" using IH st(4,5) by metis
  then have new: "?p \<notin> set (take k ps)" using st(2) by simp
  have "used ! j \<longleftrightarrow> int j \<in> set (take (Suc k) ps)" if "j < MNN_MAX_TENSOR_DIM" for j
    using IH st(2,4,6) that by (auto simp: tk nth_list_update)
  moreover have "out = out0\<lparr>dim := dim out\<rparr>" using IH st(8) by (cases out0, cases ot) auto
  moreover have "i < length (dim out) \<and> dim out ! i = dim input ! nat (ps ! i)" if "i < Suc k" for i
    using IH st(7,8) that by (auto simp: nth_list_update less_Suc_eq)
  ultimately show ?case using IH st new unfolding transpose_inv_def tk by auto
qed

lemma permuted_mset:
  assumes "length ps = n" and "distinct ps" and "\<forall>p \<in> set ps. 0 \<le> p \<and> p < int n" and "n \<le> length xs"
  shows "mset (map (\<lambda>p. xs ! nat p) ps) = mset (take n xs)"
proof -
  have "inj_on nat (set ps)" using assms(3) by (intro inj_on_nat) simp
  then have d: "distinct (map nat ps)" using assms(2) by (simp add: distinct_map)
  have "set (map nat ps) \<subseteq> {..<n}" using assms(3) by auto
  moreover have "card (set (map nat ps)) = n" using distinct_card [OF d] assms(1) by simp
  ultimately have "set (map nat ps) = set [0..<n]" by (simp add: card_subset_eq atLeast0LessThan)
  then have "mset (map nat ps) = mset [0..<n]" using d by (metis distinct_upt set_eq_iff_mset_eq_distinct)
  then have "image_mset ((!) xs) (mset (map nat ps)) = image_mset ((!) xs) (mset [0..<n])" by simp
  then have "mset (map ((!) xs) (map nat ps)) = mset (map ((!) xs) [0..<n])" by (simp only: mset_map)
  then show ?thesis using assms(4) by (simp add: take_nth o_def)
qed

text \<open>
  C37: \<open>Transpose\<close> permutes. When the computer succeeds, its second input held a permutation of
  the dimensions, every extent is the one the permutation names, and the output has the same
  extents as the input in another order, so as many elements.
\<close>

theorem transpose_permutes:
  assumes i: "tensor_ok input" and o: "tensor_ok out0" and r: "TransposeComputer [input, perm] [out0] = Ret [out]"
  shows "distinct (take (nat (dimensions input)) (host perm)) \<and> dimensions out = dimensions input \<and>
    (\<forall>k < nat (dimensions input). dim out ! k = dim input ! nat (host perm ! k)) \<and>
    mset (shape out) = mset (shape input) \<and> elements out = elements input"
proof -
  let ?n = "nat (dimensions input)"
  obtain used ot where l: "for_each (map int [0..<?n]) (\<lambda>i (used, out).
            andThen (at (host perm) i) (\<lambda>d.
            andThen (require (\<not> (d < 0 \<or> d \<ge> dimensions input))) (\<lambda>_.
            andThen (at used d) (\<lambda>u.
            andThen (require (\<not> u)) (\<lambda>_.
            andThen (put used d True) (\<lambda>used.
            andThen (length_at input d) (\<lambda>l.
            andThen (setLength out i l) (\<lambda>out. Ret (used, out)))))))))
          (replicate MNN_MAX_TENSOR_DIM False, out0\<lparr>dimensions := dimensions input\<rparr>) = Ret (used, ot)" and out: "out = like input ot"
    using r by (auto simp: TransposeComputer_def in_range_0 Let_def andThen_Ret_iff)
  note v = transpose_loop [OF l, unfolded transpose_inv_def]
  have n: "?n \<le> length (dim input)" "int ?n = dimensions input" using tensor_ok_length [OF i] i by (auto simp: tensor_ok_def)
  have "ot = out0\<lparr>dimensions := dimensions input, dim := dim ot\<rparr>" using v by blast
  then have dm: "dimensions ot = dimensions input" by (metis Tensor.select_convs(1) Tensor.surjective Tensor.update_convs(1,2))
  have lo: "?n \<le> length (dim ot)" using v i o by (auto simp: tensor_ok_def nat_le_iff)
  have "shape out = map (\<lambda>p. dim input ! nat p) (take ?n (host perm))"
  proof (rule nth_equalityI)
    show "length (shape out) = length (map (\<lambda>p. dim input ! nat p) (take ?n (host perm)))"
      using v lo by (simp add: shape_def out dm)
    show "shape out ! k = map (\<lambda>p. dim input ! nat p) (take ?n (host perm)) ! k" if "k < length (shape out)" for k
      using that v lo by (simp add: shape_def out dm)
  qed
  then have "mset (shape out) = mset (shape input)"
    using permuted_mset [of "take ?n (host perm)" ?n "dim input"] v n by (simp add: shape_def min_def)
  moreover from this have "elements out = elements input" unfolding elements_def by (metis prod_mset_prod_list)
  ultimately show ?thesis using v dm by (simp add: out)
qed

text \<open>\<open>Transpose\<close> by \<open>[2, 0, 1]\<close>.\<close>

definition demo_ints :: "int list \<Rightarrow> Tensor" where
  "demo_ints xs = \<lparr>dimensions = 1, dim = int (length xs) # replicate 8 0, ttype = halide_int32, dimensionFormat = NCHW, host = xs\<rparr>"

lemma demo_ok: "length ds \<le> MNN_MAX_TENSOR_DIM \<Longrightarrow> tensor_ok (demo_tensor ds)"
  by (simp add: tensor_ok_def demo_tensor_def)

theorem transpose_permutes_witness:
  "\<exists>out. TransposeComputer [demo_tensor [2, 3, 5], demo_ints [2, 0, 1]] [demo_tensor []] = Ret [out] \<and>
     dim out ! 0 = 5 \<and> mset (shape out) = {#2, 3, 5#}"
proof -
  have "case TransposeComputer [demo_tensor [2, 3, 5], demo_ints [2, 0, 1]] [demo_tensor []] of Ret [u] \<Rightarrow> True | _ \<Rightarrow> False" by code_simp
  then obtain out where o: "TransposeComputer [demo_tensor [2, 3, 5], demo_ints [2, 0, 1]] [demo_tensor []] = Ret [out]"
    by (auto split: res.splits list.splits)
  have "tensor_ok (demo_tensor [2, 3, 5])" "tensor_ok (demo_tensor [])" by (simp_all add: demo_ok MNN_MAX_TENSOR_DIM_def)
  then show ?thesis using o transpose_permutes [OF _ _ o] by (auto simp: demo_tensor_def demo_ints_def shape_def)
qed

subsection \<open>Flatten\<close>

text \<open>
  \<open>Flatten\<close> of inner dimensions. The computer copies the extents behind the flattened range
  to their old positions and not behind the new extent: \<open>[2, 3, 4, 5]\<close> flattened from axis 1 to
  axis 2 gives the shape \<open>[2, 12, x]\<close> where \<open>x\<close> is whatever the output tensor held before.
\<close>

theorem flatten_misplaces_tail:
  "map (\<lambda>x. case FlattenComputer (Some (1, 2)) [demo_tensor [2, 3, 4, 5]] [demo_tensor [7, 7, x, 7]] of
       Ret [out] \<Rightarrow> shape out | _ \<Rightarrow> []) [1, 100] = [[2, 12, 1], [2, 12, 100]]"
  by code_simp

end
