(* ===== verification/MNN_Shape_Join.thy ===== *)
theory MNN_Shape_Join
  imports MNN_Shape_Facts
begin

text \<open>
  Shape inference for operators that join or part tensors: \<open>Concat\<close>, \<open>Slice\<close>, \<open>Pack\<close>, \<open>Unpack\<close>,
  \<open>Tile\<close>, \<open>Padding\<close>, \<open>GatherV2\<close>, \<open>Reduction\<close>, broadcasting (\<open>SizeComputer.cpp\<close>), \<open>BroadcastTo\<close>,
  \<open>BinaryOp\<close> and \<open>MatMul\<close> (\<open>MNN/source/shape\<close>).
\<close>

subsection \<open>Concat and Slice\<close>

definition ConcatSizeComputer :: "int option \<Rightarrow> Tensor list \<Rightarrow> Tensor list \<Rightarrow> Tensor list res" where
  "ConcatSizeComputer axis_param inputs outputs =
     andThen (at outputs 0) (\<lambda>ob0.
     let basicAxis = (case axis_param of Some a \<Rightarrow> a | None \<Rightarrow> 0)
     in andThen (case inputs of
            [] \<Rightarrow> Ret (basicAxis, ob0)
          | input # _ \<Rightarrow>
              andThen (copy_dims input (dimensions input) ob0) (\<lambda>ob.
              Ret (if basicAxis < 0 then dimensions input + basicAxis else basicAxis,
                   ob\<lparr>dimensions := dimensions input, ttype := ttype input\<rparr>))) (\<lambda>(axis, ob).
        andThen (for_each inputs (\<lambda>t (sum, ob).
            andThen (length_at t axis) (\<lambda>l.
            andThen (i32 (sum + l)) (\<lambda>sum.
            andThen (for_each (in_range 0 (dimensions t)) (\<lambda>i u.
                if axis = i then Ret u
                else andThen (length_at t i) (\<lambda>a. andThen (length_at ob i) (\<lambda>b. require (a = b)))) ()) (\<lambda>_.
            Ret (sum, ob\<lparr>ttype := ttype t\<rparr>))))) (0, ob)) (\<lambda>(sum, ob).
        andThen (setLength ob axis sum) (\<lambda>ob.
        andThen (at inputs 0) (\<lambda>input.
        Ret (ob\<lparr>dimensionFormat := dimensionFormat input\<rparr> # tl outputs))))))"

datatype NetSource = NetSource_CAFFE | NetSource_TENSORFLOW | NetSource_TFLITE | NetSource_ONNX | NetSource_TORCH

text \<open>One output of \<open>Slice\<close>: the input's extents, \<open>ext\<close> along the axis.\<close>

definition slice_out :: "Tensor \<Rightarrow> int \<Rightarrow> int \<Rightarrow> Tensor \<Rightarrow> Tensor res" where
  "slice_out input axis ext out =
     andThen (copy_dims input (dimensions input) (out\<lparr>dimensions := dimensions input, ttype := ttype input\<rparr>)) (\<lambda>out.
     setLength out axis ext)"

definition slice_to :: "Tensor \<Rightarrow> int \<Rightarrow> int \<Rightarrow> int \<Rightarrow> Tensor list \<Rightarrow> Tensor list res" where
  "slice_to input axis i ext outs =
     andThen (at outs i) (\<lambda>out. andThen (slice_out input axis ext out) (\<lambda>out. put outs i out))"

definition slice_caffe :: "Tensor \<Rightarrow> int \<Rightarrow> int list option \<Rightarrow> Tensor list \<Rightarrow> Tensor list res" where
  "slice_caffe input axis slicePoints outputs =
     (case slicePoints of
        None \<Rightarrow> Undefined
      | Some pts \<Rightarrow>
          andThen (for_each (in_range 0 (int (length pts))) (\<lambda>i (previous, outs).
              andThen (at pts i) (\<lambda>sliceIndex.
              andThen (i32 (sliceIndex - previous)) (\<lambda>ext.
              andThen (slice_to input axis i ext outs) (\<lambda>outs. Ret (sliceIndex, outs))))) (0, outputs)) (\<lambda>(previous, outs).
          andThen (length_at input axis) (\<lambda>l.
          andThen (i32 (l - previous)) (\<lambda>ext. slice_to input axis (int (length outputs) - 1) ext outs))))"

definition slice_even :: "NetSource \<Rightarrow> Tensor \<Rightarrow> int \<Rightarrow> int list option \<Rightarrow> Tensor list \<Rightarrow> Tensor list res" where
  "slice_even src input axis slicePoints outputs =
     (let outputSize = int (length outputs)
      in andThen (length_at input axis) (\<lambda>l.
         andThen (div32 l outputSize) (\<lambda>splitDim0.
         andThen
           (if src = NetSource_TORCH then
              andThen (case slicePoints of Some pts \<Rightarrow> at pts 0 | None \<Rightarrow> Ret splitDim0) (\<lambda>splitDim.
              andThen (div32 l splitDim) (\<lambda>_. Ret splitDim))
            else if src = NetSource_TENSORFLOW then
              andThen (case slicePoints of Some pts \<Rightarrow> andThen (at pts 0) (\<lambda>p. Ret (if p \<noteq> outputSize then p else outputSize))
                       | None \<Rightarrow> Ret outputSize) (\<lambda>numSplits. div32 l numSplits)
            else Ret splitDim0) (\<lambda>splitDim.
         for_each (in_range 0 outputSize) (\<lambda>i outs. slice_to input axis i splitDim outs) outputs))))"

definition slice_points :: "Tensor \<Rightarrow> int \<Rightarrow> int list \<Rightarrow> Tensor list \<Rightarrow> Tensor list res" where
  "slice_points input axis points outputs =
     andThen (for_each points (\<lambda>p s. i32 (s + p)) 0) (\<lambda>totalLen.
     andThen (length_at input axis) (\<lambda>l.
     andThen (require (\<not> totalLen > l)) (\<lambda>_.
     let numberSplits = min (int (length points)) (int (length outputs))
     in andThen (for_each (in_range 0 numberSplits) (\<lambda>i (determineTensorIndex, maxSize, outs).
            andThen (at points i) (\<lambda>len.
            if - 1 \<noteq> len then
              andThen (slice_to input axis i len outs) (\<lambda>outs.
              andThen (i32 (maxSize + len)) (\<lambda>maxSize. Ret (determineTensorIndex, maxSize, outs)))
            else
              andThen (slice_to input axis i l outs) (\<lambda>outs.
              andThen (require (\<not> determineTensorIndex \<ge> 0)) (\<lambda>_. Ret (i, maxSize, outs))))) (-1, 0, outputs))
          (\<lambda>(determineTensorIndex, maxSize, outs).
        if determineTensorIndex \<ge> 0 then
          andThen (i32 (l - maxSize)) (\<lambda>ext.
          andThen (at outs determineTensorIndex) (\<lambda>out.
          andThen (setLength out axis ext) (\<lambda>out. put outs determineTensorIndex out)))
        else Ret outs))))"

definition SliceComputer :: "NetSource \<Rightarrow> int \<Rightarrow> int list option \<Rightarrow> Tensor list \<Rightarrow> Tensor list \<Rightarrow> Tensor list res" where
  "SliceComputer src axis0 slicePoints inputs outputs =
     andThen (at inputs 0) (\<lambda>input.
     let axis = (if axis0 < 0 then axis0 + dimensions input else axis0)
     in andThen
          (if src = NetSource_CAFFE then slice_caffe input axis slicePoints outputs
           else if length inputs = 1 \<and> (slicePoints = None \<or> length (the slicePoints) = 1) then
             slice_even src input axis slicePoints outputs
           else
             andThen (if length inputs = 2 then
                 andThen (elementSize (inputs ! 1)) (\<lambda>n.
                 andThen (defined_if (0 \<le> n \<and> n \<le> int (length (host (inputs ! 1))))) (\<lambda>_. Ret (take (nat n) (host (inputs ! 1)))))
               else Ret (case slicePoints of Some pts \<Rightarrow> pts | None \<Rightarrow> [])) (\<lambda>points.
             slice_points input axis points outputs)) (\<lambda>outs.
        Ret (map (\<lambda>out. out\<lparr>dimensionFormat := dimensionFormat input\<rparr>) outs)))"

subsection \<open>Pack, Unpack, Tile, Padding, Gather, Reduction\<close>

definition PackComputer :: "int \<Rightarrow> Tensor list \<Rightarrow> Tensor list \<Rightarrow> Tensor list res" where
  "PackComputer axis0 inputs outputs =
     andThen (at inputs 0) (\<lambda>input.
     andThen (at outputs 0) (\<lambda>out0.
     let n = dimensions input + 1; axis = (if axis0 < 0 then axis0 + n else axis0)
     in andThen (for_each (in_range 0 n) (\<lambda>i (j, out).
            if i = axis then andThen (setLength out i (int (length inputs))) (\<lambda>out. Ret (j, out))
            else andThen (length_at input j) (\<lambda>l. andThen (setLength out i l) (\<lambda>out. Ret (j + 1, out))))
          (0, out0\<lparr>dimensions := n\<rparr>)) (\<lambda>(_, out). Ret (like input out # tl outputs))))"

definition UnpackComputer :: "int \<Rightarrow> Tensor list \<Rightarrow> Tensor list \<Rightarrow> Tensor list res" where
  "UnpackComputer axis0 inputs outputs =
     (if inputs = [] \<or> outputs = [] then ReturnFalse
      else
        let input = inputs ! 0; n = dimensions input; axis = (if axis0 < 0 then axis0 + n else axis0)
        in andThen (length_at input axis) (\<lambda>l.
           andThen (require (\<not> int (length outputs) > (if l < 0 then l + 2 ^ 64 else l))) (\<lambda>_.
           andThen (for_each (in_range 0 axis) (\<lambda>i ds. andThen (length_at input i) (\<lambda>x. put ds i x))
             (replicate MNN_MAX_TENSOR_DIM 0)) (\<lambda>ds.
           andThen (for_each (in_range (axis + 1) n) (\<lambda>i ds. andThen (length_at input i) (\<lambda>x. put ds (i - 1) x)) ds) (\<lambda>outDims.
           for_each (in_range 0 (int (length outputs))) (\<lambda>i outs.
             andThen (at outs i) (\<lambda>out.
             andThen (for_each (in_range 0 (n - 1)) (\<lambda>j out. andThen (at outDims j) (\<lambda>x. setLength out j x))
               (out\<lparr>dimensions := n - 1\<rparr>)) (\<lambda>out. put outs i (like input out)))) outputs)))))"

definition TileComputer :: "Tensor list \<Rightarrow> Tensor list \<Rightarrow> Tensor list res" where
  "TileComputer inputs outputs =
     andThen (at inputs 0) (\<lambda>input.
     andThen (at inputs 1) (\<lambda>multiples.
     andThen (at outputs 0) (\<lambda>out0.
     andThen (copy_dims input (dimensions input) out0) (\<lambda>out.
     andThen (for_each (in_range 0 (dimensions input)) (\<lambda>i out.
         andThen (length_at input i) (\<lambda>l.
         andThen (at (host multiples) i) (\<lambda>k.
         andThen (i32 (l * k)) (\<lambda>p. setLength out i p)))) (out\<lparr>dimensions := dimensions input\<rparr>)) (\<lambda>out.
     Ret (like input out # tl outputs))))))"

definition PaddingComputer :: "Tensor list \<Rightarrow> Tensor list \<Rightarrow> Tensor list res" where
  "PaddingComputer inputs outputs =
     (if (length inputs \<noteq> 2 \<and> length inputs \<noteq> 3) \<or> length outputs \<noteq> 1 then ReturnFalse
      else
        let input = inputs ! 0; paddings = inputs ! 1
        in andThen (copyShape input ((outputs ! 0)\<lparr>ttype := ttype input\<rparr>) True) (\<lambda>out.
           andThen (elementSize paddings) (\<lambda>size.
           andThen (require (\<not> size < dimensions out * 2)) (\<lambda>_.
           andThen (for_each (in_range 0 (dimensions input)) (\<lambda>i out.
               andThen (length_at input i) (\<lambda>l.
               andThen (at (host paddings) (2 * i)) (\<lambda>a.
               andThen (at (host paddings) (2 * i + 1)) (\<lambda>b.
               andThen (i32 (l + a)) (\<lambda>la.
               andThen (i32 (la + b)) (\<lambda>lab. setLength out i lab)))))) out) (\<lambda>out. Ret [out])))))"

definition GatherV2Computer :: "int option \<Rightarrow> Tensor list \<Rightarrow> Tensor list \<Rightarrow> Tensor list res" where
  "GatherV2Computer axis_param inputs outputs =
     andThen (at inputs 0) (\<lambda>params.
     andThen (at inputs 1) (\<lambda>indices.
     andThen (at outputs 0) (\<lambda>out0.
     andThen (require (type_code (ttype indices) = Type_int)) (\<lambda>_.
     andThen (if length inputs = 3 then at (host (inputs ! 2)) 0 else Ret 0) (\<lambda>axis1.
     let axis2 = (case axis_param of Some a \<Rightarrow> a | None \<Rightarrow> axis1); n = dimensions params
     in andThen (require (\<not> (axis2 \<le> - n \<or> axis2 \<ge> n))) (\<lambda>_.
        let axis = (if axis2 < 0 then n + axis2 else axis2);
            push = (\<lambda>t is ds. for_each is (\<lambda>i ds. andThen (length_at t i) (\<lambda>l. Ret (ds @ [l]))) ds)
        in andThen (length_at params axis) (\<lambda>_.
           andThen (push params (in_range 0 axis) []) (\<lambda>r.
           andThen (push indices (in_range 0 (dimensions indices)) r) (\<lambda>r.
           andThen (push params (in_range (axis + 1) n) r) (\<lambda>r.
           andThen (for_each (in_range 0 (int (length r))) (\<lambda>i out. setLength out i (r ! nat i))
             (out0\<lparr>dimensions := int (length r)\<rparr>)) (\<lambda>out.
           Ret (like params out # tl outputs))))))))))))"

definition getRealAxis :: "int \<Rightarrow> int \<Rightarrow> int" where
  "getRealAxis axis n = (if axis < 0 then axis + n else axis)"

definition ReductionComputer :: "int list option \<Rightarrow> bool \<Rightarrow> Tensor list \<Rightarrow> Tensor list \<Rightarrow> Tensor list res" where
  "ReductionComputer reduce_dim keepDims inputs outputs =
     andThen (at inputs 0) (\<lambda>input.
     andThen (at outputs 0) (\<lambda>out0.
     let out = like input out0; n = dimensions input
     in if reduce_dim = None \<and> length inputs = 1 then
          if keepDims then
            andThen (for_each (in_range 0 n) (\<lambda>i out. setLength out i 1) (out\<lparr>dimensions := n\<rparr>)) (\<lambda>out. Ret (out # tl outputs))
          else Ret (out\<lparr>dimensions := 0\<rparr> # tl outputs)
        else
          andThen (case reduce_dim of
              Some ds \<Rightarrow> Ret ds
            | None \<Rightarrow>
                andThen (at inputs 1) (\<lambda>input1.
                andThen (elementSize input1) (\<lambda>size.
                andThen (defined_if (size \<le> int (length (host input1)))) (\<lambda>_. Ret (take (nat size) (host input1)))))) (\<lambda>dims.
          andThen (for_each dims (\<lambda>d mask. put mask (getRealAxis d n) True) (replicate MNN_MAX_TENSOR_DIM False)) (\<lambda>reduceMask.
          andThen (for_each (in_range 0 n) (\<lambda>i (offset, out).
              andThen (at reduceMask i) (\<lambda>r.
              if r then
                if keepDims then andThen (setLength out offset 1) (\<lambda>out. Ret (offset + 1, out)) else Ret (offset, out)
              else andThen (length_at input i) (\<lambda>l. andThen (setLength out offset l) (\<lambda>out. Ret (offset + 1, out))))) (0, out)) (\<lambda>(offset, out).
          Ret (out\<lparr>dimensions := offset\<rparr> # tl outputs))))))"

subsection \<open>Broadcasting and MatMul\<close>

text \<open>One cell of a broadcast; the product is the other extent when one of them is 1.\<close>

definition broadcast_cell :: "int \<Rightarrow> int \<Rightarrow> int res" where
  "broadcast_cell dim1 out =
     (if dim1 \<noteq> out \<and> (dim1 \<noteq> 1 \<and> out \<noteq> 1) then ReturnFalse
      else if dim1 = out then Ret out
      else if dim1 \<noteq> out \<and> (dim1 = 1 \<or> out = 1) then i32 (out * dim1)
      else ReturnFalse)"

definition computeBroadCastDims :: "Tensor list \<Rightarrow> Tensor list \<Rightarrow> Tensor list res" where
  "computeBroadCastDims inputs outputs =
     andThen (at inputs 0) (\<lambda>input0.
     andThen (at outputs 0) (\<lambda>out0.
     let (maxDimensions, maxIndex) = foldl (\<lambda>(md, mi) index. if dimensions (inputs ! index) > md
           then (dimensions (inputs ! index), index) else (md, mi)) (dimensions input0, 0) [1..<length inputs]
     in andThen (for_each (in_range 0 maxDimensions) (\<lambda>i ds. andThen (length_at (inputs ! maxIndex) i) (\<lambda>l. put ds i l))
            (replicate MNN_MAX_TENSOR_DIM 0)) (\<lambda>ds.
        andThen (for_each [0..<length inputs] (\<lambda>index ds.
            if index = maxIndex then Ret ds
            else
              let input1 = inputs ! index; diffDimension = maxDimensions - dimensions input1
              in for_each (in_range diffDimension maxDimensions) (\<lambda>i ds.
                   andThen (length_at input1 (i - diffDimension)) (\<lambda>dim1.
                   andThen (at ds i) (\<lambda>d. andThen (broadcast_cell dim1 d) (\<lambda>d. put ds i d)))) ds) ds) (\<lambda>ds.
        andThen (for_each (in_range 0 maxDimensions) (\<lambda>i out. andThen (at ds i) (\<lambda>l. setLength out i l))
            (out0\<lparr>dimensions := maxDimensions\<rparr>)) (\<lambda>out.
        Ret (out # tl outputs))))))"

definition ShapeBroadcastTo :: "bool \<Rightarrow> Tensor list \<Rightarrow> Tensor list \<Rightarrow> Tensor list res" where
  "ShapeBroadcastTo axis_set inputs outputs =
     andThen (at inputs 0) (\<lambda>input.
     andThen (at inputs 1) (\<lambda>sh.
     andThen (at outputs 0) (\<lambda>out0.
     andThen (elementSize sh) (\<lambda>shapeDims.
     let inputDims = dimensions input; n = (if inputDims > shapeDims then inputDims else shapeDims);
         out = out0\<lparr>dimensions := n\<rparr>;
         zeros = replicate MNN_MAX_TENSOR_DIM 0
     in andThen
          (if axis_set then for_each (in_range 0 n) (\<lambda>i out. andThen (at (host sh) i) (\<lambda>l. setLength out i l)) out
           else
             andThen
               (if inputDims > shapeDims then
                  andThen (keep_lengths input (in_range 0 inputDims) out) (\<lambda>out.
                  andThen (for_each (in_range 0 shapeDims) (\<lambda>i al. andThen (at (host sh) i) (\<lambda>l. put al i l)) zeros) (\<lambda>al.
                  Ret (inputDims - shapeDims, al, out)))
                else
                  andThen (for_each (in_range 0 shapeDims) (\<lambda>i out. andThen (at (host sh) i) (\<lambda>l. setLength out i l)) out) (\<lambda>out.
                  andThen (for_each (in_range 0 inputDims) (\<lambda>i al. andThen (length_at input i) (\<lambda>l. put al i l)) zeros) (\<lambda>al.
                  Ret (shapeDims - inputDims, al, out)))) (\<lambda>(offset, alignShape, out).
             for_each (in_range offset n) (\<lambda>i out.
               andThen (at alignShape (i - offset)) (\<lambda>dim1.
               andThen (length_at out i) (\<lambda>dim2.
               andThen (require (\<not> (dim1 \<noteq> dim2 \<and> (dim1 \<noteq> 1 \<and> dim2 \<noteq> 1)))) (\<lambda>_.
               if dim1 = dim2 then Ret out else if dim1 \<noteq> 1 then setLength out i dim1 else Ret out)))) out)) (\<lambda>out.
        Ret (like input out # tl outputs))))))"

text \<open>The values of \<open>BinaryOpOperation\<close> whose result is a truth value.\<close>

definition outputBool :: "int \<Rightarrow> bool" where
  "outputBool operation \<longleftrightarrow> operation = 11 \<or> operation = 10 \<or> operation = 12 \<or> operation = 16 \<or> operation = 15 \<or> operation = 22"

definition BinaryOpComputer :: "int \<Rightarrow> Tensor list \<Rightarrow> Tensor list \<Rightarrow> Tensor list res" where
  "BinaryOpComputer opType inputs outputs =
     andThen (at inputs 0) (\<lambda>input0.
     andThen (at inputs 1) (\<lambda>input1.
     andThen (at outputs 0) (\<lambda>out0.
     andThen (require (type_code (ttype input0) = type_code (ttype input1))) (\<lambda>_.
     let larger = (if dimensions input0 < dimensions input1 then input1 else input0)
     in computeBroadCastDims inputs
          (out0\<lparr>ttype := (if outputBool opType then halide_int32 else ttype input0),
                dimensionFormat := dimensionFormat larger\<rparr> # tl outputs)))))"

definition computeMatMulSize :: "bool \<Rightarrow> bool \<Rightarrow> Tensor \<Rightarrow> Tensor \<Rightarrow> (int \<times> int \<times> int) res" where
  "computeMatMulSize transposeA transposeB A B =
     (let i0Dim = dimensions A; i1Dim = dimensions B
      in if i0Dim < 1 \<or> i1Dim < 1 then ReturnFalse
         else
           andThen (if i0Dim = 1 then andThen (length_at A 0) (\<lambda>w. Ret (w, 1))
             else andThen (length_at A (i0Dim - 1)) (\<lambda>w. andThen (length_at A (i0Dim - 2)) (\<lambda>h. Ret (w, h)))) (\<lambda>(w0, h0).
           andThen (if i1Dim = 1 then andThen (length_at B 0) (\<lambda>h. Ret (1, h))
             else andThen (length_at B (i1Dim - 1)) (\<lambda>w. andThen (length_at B (i1Dim - 2)) (\<lambda>h. Ret (w, h)))) (\<lambda>(w1, h1).
           let (w0', h0') = (if transposeA \<and> i0Dim \<noteq> 1 then (h0, w0) else (w0, h0));
               (w1', h1') = (if transposeB \<and> i1Dim \<noteq> 1 then (h1, w1) else (w1, h1))
           in if w0' \<noteq> h1' then ReturnFalse else Ret (h0', w0', w1'))))"

definition MatMulSizeComputer :: "bool \<Rightarrow> bool \<Rightarrow> Tensor list \<Rightarrow> Tensor list \<Rightarrow> Tensor list res" where
  "MatMulSizeComputer transposeA transposeB inputs outputs =
     andThen (at outputs 0) (\<lambda>out0.
     andThen (at inputs 0) (\<lambda>A.
     andThen (at inputs 1) (\<lambda>B.
     andThen (computeMatMulSize transposeA transposeB A B) (\<lambda>(e, l, h).
     let i0Dim = dimensions A; i1Dim = dimensions B;
         (o0Dim, input0, input1) = (if i1Dim > i0Dim then (i1Dim, B, A) else (i0Dim, A, B));
         maxDimensions = o0Dim - 2; diffDimension = dimensions input0 - dimensions input1
     in andThen (keep_lengths input0 (in_range 0 maxDimensions) (out0\<lparr>ttype := ttype A, dimensions := o0Dim\<rparr>)) (\<lambda>out.
        andThen (for_each (in_range diffDimension maxDimensions) (\<lambda>i out.
            andThen (length_at input1 (i - diffDimension)) (\<lambda>dim1.
            andThen (length_at out i) (\<lambda>d. andThen (broadcast_cell dim1 d) (\<lambda>d. setLength out i d)))) out) (\<lambda>out.
        andThen (setLength out (o0Dim - 2) e) (\<lambda>out.
        andThen (setLength out (o0Dim - 1) h) (\<lambda>out.
        let eValid = (i0Dim > 1); hValid = (i1Dim > 1)
        in andThen (if \<not> eValid then setLength out (o0Dim - 2) h else Ret out) (\<lambda>out.
           andThen (if \<not> hValid then setLength out (o0Dim - 1) e else Ret out) (\<lambda>out.
           let squeezeDim = (if eValid then 0 else 1) + (if hValid then 0 else 1)
           in Ret (out\<lparr>dimensions := o0Dim - squeezeDim, dimensionFormat := dimensionFormat A\<rparr> # tl outputs)))))))))))"

end
