(* ===== verification/MNN_Shape_Join_Facts.thy ===== *)
theory MNN_Shape_Join_Facts
  imports MNN_Shape_Join
begin

text \<open>
  Properties of the operators that join and part tensors: broadcasting is the broadcasting of
  NumPy, \<open>Concat\<close> undoes \<open>Slice\<close>, and the shapes of \<open>MatMul\<close>.
\<close>

subsection \<open>Broadcasting\<close>

text \<open>
  The reference: the shorter shape is filled up with ones in front, two extents agree when
  they are equal or one of them is 1, and the result has the other one.
\<close>

definition pad_ones :: "nat \<Rightarrow> int list \<Rightarrow> int list" where
  "pad_ones n xs = replicate (n - length xs) 1 @ xs"

definition compatible :: "int \<Rightarrow> int \<Rightarrow> bool" where
  "compatible x y \<longleftrightarrow> x = y \<or> x = 1 \<or> y = 1"

definition joined :: "int \<Rightarrow> int \<Rightarrow> int" where
  "joined x y = (if x = 1 then y else x)"

definition numpy_broadcast :: "int list \<Rightarrow> int list \<Rightarrow> int list option" where
  "numpy_broadcast xs ys =
     (let n = max (length xs) (length ys); xs' = pad_ones n xs; ys' = pad_ones n ys
      in if list_all2 compatible xs' ys' then Some (map2 joined xs' ys') else None)"

lemma numpy_broadcast_commute: "numpy_broadcast xs ys = numpy_broadcast ys xs"
proof -
  let ?n = "max (length xs) (length ys)"
  have s: "list_all2 compatible as bs = list_all2 compatible bs as" for as bs
    by (auto simp: list_all2_conv_all_nth compatible_def)
  have "map2 joined as bs = map2 joined bs as" if "list_all2 compatible as bs" for as bs
    using that by (induction rule: list_all2_induct) (auto simp: compatible_def joined_def)
  then show ?thesis unfolding numpy_broadcast_def Let_def by (simp add: max.commute s)
qed

text \<open>For a second shape that is not longer, only its own positions matter.\<close>

lemma numpy_broadcast_short:
  assumes "length ys \<le> length xs" and "k = length xs - length ys"
  shows "numpy_broadcast xs ys =
    (if \<forall>j < length ys. compatible (xs ! (k + j)) (ys ! j)
     then Some (take k xs @ map (\<lambda>j. joined (xs ! (k + j)) (ys ! j)) [0..<length ys]) else None)"
proof -
  have p: "pad_ones (length xs) xs = take k xs @ drop k xs" "pad_ones (length xs) ys = replicate k 1 @ ys"
    by (simp_all add: pad_ones_def assms(2))
  have len: "length (take k xs) = k" "length (drop k xs) = length ys" using assms by simp_all
  have c: "list_all2 compatible (take k xs @ drop k xs) (replicate k 1 @ ys) \<longleftrightarrow> list_all2 compatible (drop k xs) ys"
  proof -
    have "list_all2 compatible (take k xs) (replicate k 1)" using len by (simp add: list_all2_conv_all_nth compatible_def)
    then show ?thesis using len by (simp add: list_all2_append del: append_take_drop_id)
  qed
  have d: "list_all2 compatible (drop k xs) ys \<longleftrightarrow> (\<forall>j < length ys. compatible (xs ! (k + j)) (ys ! j))"
    using len by (simp add: list_all2_conv_all_nth)
  have one: "map2 joined (take k xs) (replicate k 1) = take k xs"
    using len by (intro nth_equalityI) (auto simp: joined_def)
  have "map2 joined (drop k xs) ys = map (\<lambda>j. joined (xs ! (k + j)) (ys ! j)) [0..<length ys]"
    using len by (intro nth_equalityI) auto
  then have m: "map2 joined (take k xs @ drop k xs) (replicate k 1 @ ys) =
      take k xs @ map (\<lambda>j. joined (xs ! (k + j)) (ys ! j)) [0..<length ys]"
    using len one by (simp del: append_take_drop_id)
  have mx: "max (length xs) (length ys) = length xs" using assms(1) by simp
  show ?thesis unfolding numpy_broadcast_def Let_def mx p c d m ..
qed

definition int32 :: "int \<Rightarrow> bool" where
  "int32 x \<longleftrightarrow> - (2 ^ 31) \<le> x \<and> x < 2 ^ 31"

lemma broadcast_cell_eq:
  assumes "int32 x" and "int32 d"
  shows "broadcast_cell x d = (if compatible d x then Ret (joined d x) else ReturnFalse)"
  using assms by (auto simp: broadcast_cell_def compatible_def joined_def int32_def i32_def)

text \<open>The inner loop of a broadcast, on an array.\<close>

lemma broadcast_loop:
  assumes "k + m \<le> length ds" and "m \<le> length xs" and "\<forall>x \<in> set xs. int32 x" and "\<forall>d \<in> set ds. int32 d"
  shows "for_each (map (\<lambda>j. int k + int j) [0..<m]) (\<lambda>i ds. andThen (at xs (i - int k)) (\<lambda>dim1.
       andThen (at ds i) (\<lambda>d. andThen (broadcast_cell dim1 d) (\<lambda>d. put ds i d)))) ds =
    (if \<forall>j < m. compatible (ds ! (k + j)) (xs ! j)
     then Ret (take k ds @ map (\<lambda>j. joined (ds ! (k + j)) (xs ! j)) [0..<m] @ drop (k + m) ds) else ReturnFalse)"
  using assms(1,2)
proof (induction m)
  case 0
  then show ?case by simp
next
  case (Suc m)
  let ?g = "\<lambda>j. joined (ds ! (k + j)) (xs ! j)"
  let ?ds = "take k ds @ map ?g [0..<m] @ drop (k + m) ds"
  have l: "m < length xs" "k + m < length ds" "nat (int k + int m) = k + m" using Suc.prems by auto
  have at1: "at xs (int k + int m - int k) = Ret (xs ! m)" using l(1) by simp
  have dr: "drop (k + m) ds = ds ! (k + m) # drop (k + Suc m) ds" using l(2) by (simp add: Cons_nth_drop_Suc)
  have at2: "at ?ds (int k + int m) = Ret (ds ! (k + m))" using l by (simp add: nth_append dr)
  have put: "put ?ds (int k + int m) v = Ret (take k ds @ map ?g [0..<m] @ v # drop (k + Suc m) ds)" for v
    using l by (simp add: list_update_append dr)
  have cell: "broadcast_cell (xs ! m) (ds ! (k + m)) = (if compatible (ds ! (k + m)) (xs ! m) then Ret (?g m) else ReturnFalse)"
    using broadcast_cell_eq assms(3,4) l by simp
  show ?case
    unfolding loop_Suc using Suc.IH l at1 at2 put cell Suc.prems
    by (auto simp: less_Suc_eq simp del: at_simps put_simps)
qed

lemma for_each_single: "for_each [x] f = f x"
proof
  fix s show "for_each [x] f s = f x s" by (cases "f x s") simp_all
qed

lemma andThen_Ret [simp]: "andThen m Ret = m" "andThen m (\<lambda>x. Ret x) = m"
  by (cases m; simp)+

lemma for_each_cong:
  assumes "\<And>x s. x \<in> set xs \<Longrightarrow> f x s = g x s"
  shows "for_each xs f s = for_each xs g s"
  using assms
proof (induction xs arbitrary: s)
  case (Cons x xs)
  then have "f x s = g x s" by simp
  then show ?case using Cons by (cases "g x s") simp_all
qed simp

lemma for_each_lift:
  assumes "\<And>x s. x \<in> set xs \<Longrightarrow> f x (g s) = andThen (h x s) (\<lambda>s. Ret (g s))"
  shows "for_each xs f (g s) = andThen (for_each xs h s) (\<lambda>s. Ret (g s))"
  using assms
proof (induction xs arbitrary: s)
  case (Cons x xs)
  then show ?case by (cases "h x s") simp_all
qed simp

lemma fill_array_eq:
  assumes "n \<le> length xs" and "\<And>i. i < n \<Longrightarrow> G (int i) = Ret (g i)"
  shows "for_each (map int [0..<n]) (\<lambda>i xs. andThen (G i) (\<lambda>x. put xs i x)) xs = Ret (map g [0..<n] @ drop n xs)"
  using assms
proof (induction n)
  case (Suc n)
  have d: "drop n xs = xs ! n # drop (Suc n) xs" using Suc.prems(1) by (simp add: Cons_nth_drop_Suc)
  have "put (map g [0..<n] @ drop n xs) (int n) (g n) = Ret (map g [0..<Suc n] @ drop (Suc n) xs)"
    using Suc.prems(1) d by (simp add: list_update_append)
  moreover have "G (int n) = Ret (g n)" using Suc.prems(2) by simp
  moreover have "for_each (map int [0..<n]) (\<lambda>i xs. andThen (G i) (\<lambda>x. put xs i x)) xs = Ret (map g [0..<n] @ drop n xs)"
    by (rule Suc.IH) (use Suc.prems in auto)
  ultimately show ?case unfolding loop_Suc by (simp only: andThen.simps)
qed simp

lemma fill_tensor_eq:
  assumes "n \<le> length (dim t)" and "\<And>i. i < n \<Longrightarrow> G (int i) = Ret (g i)"
  shows "for_each (map int [0..<n]) (\<lambda>i t. andThen (G i) (\<lambda>x. setLength t i x)) t = Ret (t\<lparr>dim := map g [0..<n] @ drop n (dim t)\<rparr>)"
proof -
  have "for_each (map int [0..<n]) (\<lambda>i t. andThen (G i) (\<lambda>x. setLength t i x)) ((\<lambda>ds. t\<lparr>dim := ds\<rparr>) (dim t)) =
      andThen (for_each (map int [0..<n]) (\<lambda>i xs. andThen (G i) (\<lambda>x. put xs i x)) (dim t)) (\<lambda>ds. Ret (t\<lparr>dim := ds\<rparr>))"
    by (rule for_each_lift) (simp add: setLength_def andThen_assoc)
  then show ?thesis using fill_array_eq [of n "dim t" G g, OF assms] by simp
qed

lemma shape_nth:
  assumes "tensor_ok t"
  shows "length (shape t) = nat (dimensions t)" "\<And>i. i < nat (dimensions t) \<Longrightarrow> length_at t (int i) = Ret (shape t ! i)"
  using tensor_ok_length [OF assms] by (simp_all add: shape_def)

text \<open>Two inputs, the first of which has at least as many dimensions.\<close>

definition broadcast_into :: "int list option \<Rightarrow> Tensor \<Rightarrow> Tensor list res" where
  "broadcast_into r out = (case r of None \<Rightarrow> ReturnFalse
     | Some ds \<Rightarrow> Ret [out\<lparr>dimensions := int (length ds), dim := ds @ drop (length ds) (dim out)\<rparr>])"

text \<open>The loop that joins the shorter shape to the array filled with the longer one.\<close>

lemma broadcast_rows:
  assumes b: "tensor_ok big" and s: "tensor_ok small" and le: "nat (dimensions small) \<le> nat (dimensions big)" "nat (dimensions big) \<le> MNN_MAX_TENSOR_DIM"
    and i32: "\<forall>x \<in> set (shape big) \<union> set (shape small). int32 x"
    and k: "k = nat (dimensions big) - nat (dimensions small)" and ds: "ds = shape big @ drop (nat (dimensions big)) (replicate MNN_MAX_TENSOR_DIM 0)"
  shows "for_each (map (\<lambda>j. int k + int j) [0..<nat (dimensions small)]) (\<lambda>i ds. andThen (length_at small (i - int k)) (\<lambda>dim1.
         andThen (at ds i) (\<lambda>d. andThen (broadcast_cell dim1 d) (\<lambda>d. put ds i d)))) ds =
     (case numpy_broadcast (shape big) (shape small) of None \<Rightarrow> ReturnFalse | Some rs \<Rightarrow> Ret (rs @ drop (nat (dimensions big)) ds))"
proof -
  let ?n = "nat (dimensions big)" and ?m = "nat (dimensions small)"
  note sb = shape_nth [OF b] and ss = shape_nth [OF s]
  have kn: "k + ?m = ?n" using k le by simp
  have di: "\<forall>d \<in> set ds. int32 d" using i32 ds by (auto simp: int32_def)
  have "length_at small (int k + int j - int k) = at (shape small) (int k + int j - int k)" if "j < ?m" for j
    using ss that by (simp add: at_def)
  then have "for_each (map (\<lambda>j. int k + int j) [0..<?m]) (\<lambda>i ds. andThen (length_at small (i - int k)) (\<lambda>dim1.
         andThen (at ds i) (\<lambda>d. andThen (broadcast_cell dim1 d) (\<lambda>d. put ds i d)))) ds =
      for_each (map (\<lambda>j. int k + int j) [0..<?m]) (\<lambda>i ds. andThen (at (shape small) (i - int k)) (\<lambda>dim1.
         andThen (at ds i) (\<lambda>d. andThen (broadcast_cell dim1 d) (\<lambda>d. put ds i d)))) ds"
    by (intro for_each_cong) auto
  also have "\<dots> = (if \<forall>j < ?m. compatible (ds ! (k + j)) (shape small ! j)
     then Ret (take k ds @ map (\<lambda>j. joined (ds ! (k + j)) (shape small ! j)) [0..<?m] @ drop (k + ?m) ds) else ReturnFalse)"
    by (rule broadcast_loop) (use i32 di ss(1) sb(1) kn le ds in auto)
  finally have calc: "for_each (map (\<lambda>j. int k + int j) [0..<?m]) (\<lambda>i ds. andThen (length_at small (i - int k)) (\<lambda>dim1.
         andThen (at ds i) (\<lambda>d. andThen (broadcast_cell dim1 d) (\<lambda>d. put ds i d)))) ds =
     (if \<forall>j < ?m. compatible (ds ! (k + j)) (shape small ! j)
     then Ret (take k ds @ map (\<lambda>j. joined (ds ! (k + j)) (shape small ! j)) [0..<?m] @ drop (k + ?m) ds) else ReturnFalse)" .
  have "ds ! (k + j) = shape big ! (k + j)" if "j < ?m" for j using that kn sb(1) ds by (simp add: nth_append)
  then have j: "map (\<lambda>j. joined (ds ! (k + j)) (shape small ! j)) [0..<?m] = map (\<lambda>j. joined (shape big ! (k + j)) (shape small ! j)) [0..<?m]"
    "(\<forall>j < ?m. compatible (ds ! (k + j)) (shape small ! j)) = (\<forall>j < ?m. compatible (shape big ! (k + j)) (shape small ! j))" by auto
  have t: "take k ds = take k (shape big)" using kn sb(1) ds by simp
  have kk: "k = length (shape big) - length (shape small)" using k sb(1) ss(1) by simp
  have ll: "length (shape small) \<le> length (shape big)" using le sb(1) ss(1) by simp
  show ?thesis unfolding calc j t kn numpy_broadcast_short [OF ll kk] ss(1) by (simp del: drop_append)
qed

lemma broadcast_onto:
  assumes b: "tensor_ok big" and s: "tensor_ok small" and o: "tensor_ok out" and le: "dimensions small \<le> dimensions big"
    and i32: "\<forall>x \<in> set (shape big) \<union> set (shape small). int32 x"
  shows "andThen (for_each (in_range 0 (dimensions big)) (\<lambda>i ds. andThen (length_at big i) (\<lambda>l. put ds i l)) (replicate MNN_MAX_TENSOR_DIM 0)) (\<lambda>ds.
      andThen (for_each (in_range (dimensions big - dimensions small) (dimensions big)) (\<lambda>i ds.
         andThen (length_at small (i - (dimensions big - dimensions small))) (\<lambda>dim1.
         andThen (at ds i) (\<lambda>d. andThen (broadcast_cell dim1 d) (\<lambda>d. put ds i d)))) ds) (\<lambda>ds.
      andThen (for_each (in_range 0 (dimensions big)) (\<lambda>i out. andThen (at ds i) (\<lambda>l. setLength out i l)) (out\<lparr>dimensions := dimensions big\<rparr>)) (\<lambda>out.
      Ret [out]))) = broadcast_into (numpy_broadcast (shape big) (shape small)) out"
proof -
  let ?n = "nat (dimensions big)" and ?m = "nat (dimensions small)"
  define k where "k = ?n - ?m"
  have z: "0 \<le> dimensions big" "0 \<le> dimensions small" "?n \<le> MNN_MAX_TENSOR_DIM" "?m \<le> ?n" "length (dim out) = MNN_MAX_TENSOR_DIM"
    using b s o le by (auto simp: tensor_ok_def nat_le_iff)
  have k: "dimensions big - dimensions small = int k" "nat (dimensions big - int k) = ?m" "k + ?m = ?n" using z le by (simp_all add: k_def)
  note sb = shape_nth [OF b] and ss = shape_nth [OF s]
  let ?ds = "shape big @ drop ?n (replicate MNN_MAX_TENSOR_DIM 0)"
  have f1: "for_each (map int [0..<?n]) (\<lambda>i ds. andThen (length_at big i) (\<lambda>l. put ds i l)) (replicate MNN_MAX_TENSOR_DIM 0) = Ret ?ds"
    using fill_array_eq [of ?n "replicate MNN_MAX_TENSOR_DIM 0" "length_at big" "(!) (shape big)"] sb z(3)
    by (simp add: take_nth)
  note f2 = broadcast_rows [OF b s z(4,3) i32 k_def refl]
  show ?thesis
  proof (cases "numpy_broadcast (shape big) (shape small)")
    case None
    then show ?thesis using f1 f2 unfolding in_range_0 in_range_upt k(1,2) by (simp add: broadcast_into_def)
  next
    case (Some rs)
    have rs: "length rs = ?n" using Some numpy_broadcast_short [of "shape small" "shape big" k] sb(1) ss(1) z(4)
      by (auto simp: k_def split: if_splits)
    have "for_each (map int [0..<?n]) (\<lambda>i out. andThen (at (rs @ drop ?n ?ds) i) (\<lambda>l. setLength out i l)) (out\<lparr>dimensions := dimensions big\<rparr>) =
        Ret (out\<lparr>dimensions := dimensions big, dim := rs @ drop ?n (dim out)\<rparr>)"
      using fill_tensor_eq [of ?n "out\<lparr>dimensions := dimensions big\<rparr>" "at (rs @ drop ?n ?ds)" "(!) rs"] rs z
      by (simp add: nth_append take_nth)
    then show ?thesis using f1 f2 Some rs z(1) unfolding in_range_0 in_range_upt k(1,2) by (simp add: broadcast_into_def)
  qed
qed

text \<open>On well-formed tensors \<open>computeBroadCastDims\<close> computes exactly the reference.\<close>

lemma computeBroadCastDims_eq:
  assumes "tensor_ok a" and "tensor_ok b" and "tensor_ok out" and "\<forall>x \<in> set (shape a) \<union> set (shape b). int32 x"
  shows "computeBroadCastDims [a, b] [out] = broadcast_into (numpy_broadcast (shape a) (shape b)) out"
proof (cases "dimensions b > dimensions a")
  case True
  then have "dimensions a \<le> dimensions b" by simp
  from broadcast_onto [OF assms(2,1,3) this] assms(4) True show ?thesis
    by (simp add: computeBroadCastDims_def upt_rec Let_def for_each_single numpy_broadcast_commute [of "shape b"] Un_commute)
next
  case False
  then have "dimensions b \<le> dimensions a" by simp
  from broadcast_onto [OF assms(1,2,3) this] assms(4) False show ?thesis
    by (simp add: computeBroadCastDims_def upt_rec Let_def for_each_single)
qed

text \<open>
  C16: binary operators broadcast. On well-formed tensors of the same type code the computer of
  \<open>BinaryOp\<close> gives the output exactly NumPy's broadcast of the two shapes and fails exactly when
  there is none; it also fails when the type codes differ. No access is out of bounds and no
  product overflows. Comparisons have integer results.
\<close>

theorem binary_op_broadcasts:
  assumes "tensor_ok a" and "tensor_ok b" and "tensor_ok out" and "\<forall>x \<in> set (shape a) \<union> set (shape b). int32 x"
  shows "BinaryOpComputer opType [a, b] [out] =
    (if type_code (ttype a) \<noteq> type_code (ttype b) then ReturnFalse
     else broadcast_into (numpy_broadcast (shape a) (shape b))
       (out\<lparr>ttype := (if outputBool opType then halide_int32 else ttype a),
            dimensionFormat := dimensionFormat (if dimensions a < dimensions b then b else a)\<rparr>))"
proof -
  have "tensor_ok (out\<lparr>ttype := x, dimensionFormat := f\<rparr>)" for x f using assms(3) by (simp add: tensor_ok_def)
  note c = computeBroadCastDims_eq [OF assms(1,2) this assms(4)]
  show ?thesis by (simp add: BinaryOpComputer_def require_def c Let_def)
qed

theorem binary_op_broadcasts_witness:
  "BinaryOpComputer 10 [demo_tensor [4, 1, 3], demo_tensor [2, 1]] [demo_tensor []] =
     broadcast_into (Some [4, 2, 3]) ((demo_tensor [])\<lparr>ttype := halide_int32\<rparr>)"
proof -
  have "numpy_broadcast (shape (demo_tensor [4, 1, 3])) (shape (demo_tensor [2, 1])) = Some [4, 2, 3]" by code_simp
  moreover have "\<forall>x \<in> set (shape (demo_tensor [4, 1, 3])) \<union> set (shape (demo_tensor [2, 1])). int32 x" by code_simp
  moreover have "tensor_ok (demo_tensor [4, 1, 3])" "tensor_ok (demo_tensor [2, 1])" "tensor_ok (demo_tensor [])"
    by (simp_all add: demo_ok MNN_MAX_TENSOR_DIM_def)
  ultimately show ?thesis
    using binary_op_broadcasts [of "demo_tensor [4, 1, 3]" "demo_tensor [2, 1]" "demo_tensor []" 10]
    by (simp add: demo_tensor_def outputBool_def)
qed

subsection \<open>Slice and Concat\<close>

text \<open>The output of \<open>Slice\<close> with extent \<open>ext\<close>.\<close>

definition sliced :: "Tensor \<Rightarrow> nat \<Rightarrow> int \<Rightarrow> Tensor \<Rightarrow> Tensor" where
  "sliced input axis ext out = out\<lparr>dimensions := dimensions input, ttype := ttype input,
     dim := (take (nat (dimensions input)) (dim input) @ drop (nat (dimensions input)) (dim out))[axis := ext]\<rparr>"

lemma slice_to_eq:
  assumes "tensor_ok input" and "tensor_ok (outs ! i)" and "i < length outs" and "axis < nat (dimensions input)"
  shows "slice_to input (int axis) (int i) ext outs = Ret (outs[i := sliced input axis ext (outs ! i)])"
proof -
  have l: "length (dim input) = MNN_MAX_TENSOR_DIM" "length (dim (outs ! i)) = MNN_MAX_TENSOR_DIM" "0 \<le> dimensions input"
    "nat (dimensions input) \<le> MNN_MAX_TENSOR_DIM" using assms(1,2) by (auto simp: tensor_ok_def nat_le_iff)
  have "slice_out input (int axis) ext (outs ! i) = Ret (sliced input axis ext (outs ! i))"
    using l assms(4) by (simp add: slice_out_def copy_dims_def setLength_def put_def sliced_def)
  then show ?thesis using assms(3) by (simp add: slice_to_def at_def put_def)
qed

lemma sum_loop:
  assumes "\<forall>p \<in> set pts. 0 \<le> p" and "0 \<le> s" and "s + sum_list pts < 2 ^ 31"
  shows "for_each pts (\<lambda>p s. i32 (s + p)) s = Ret (s + sum_list pts)"
  using assms
proof (induction pts arbitrary: s)
  case (Cons p pts)
  have "0 \<le> sum_list pts" using Cons.prems(1) by (intro sum_list_nonneg) auto
  then have "i32 (s + p) = Ret (s + p)" using Cons.prems by simp
  then show ?case using Cons.IH [of "s + p"] Cons.prems by (simp add: add.assoc del: i32_simps)
qed simp

lemma slice_loop:
  assumes ok: "tensor_ok input" "\<forall>out \<in> set outs. tensor_ok out" and ax: "axis < nat (dimensions input)"
    and pts: "\<forall>p \<in> set pts. 0 \<le> p" "sum_list pts < 2 ^ 31" "length pts = length outs" and k: "k \<le> length pts"
  shows "for_each (map int [0..<k]) (\<lambda>i (determineTensorIndex, maxSize, outs).
            andThen (at pts i) (\<lambda>len.
            if - 1 \<noteq> len then
              andThen (slice_to input (int axis) i len outs) (\<lambda>outs.
              andThen (i32 (maxSize + len)) (\<lambda>maxSize. Ret (determineTensorIndex, maxSize, outs)))
            else
              andThen (slice_to input (int axis) i l outs) (\<lambda>outs.
              andThen (require (\<not> determineTensorIndex \<ge> 0)) (\<lambda>_. Ret (i, maxSize, outs))))) (-1, 0, outs) =
    Ret (-1, sum_list (take k pts), map (\<lambda>i. sliced input axis (pts ! i) (outs ! i)) [0..<k] @ drop k outs)"
    (is "for_each _ ?f _ = _")
  using k
proof (induction k)
  case (Suc k)
  let ?s = "\<lambda>i. sliced input axis (pts ! i) (outs ! i)"
  let ?os = "map ?s [0..<k] @ drop k outs"
  have k: "k < length pts" "k < length outs" using Suc.prems pts(3) by simp_all
  have dr: "drop k outs = outs ! k # drop (Suc k) outs" using k(2) by (simp add: Cons_nth_drop_Suc)
  have nth: "?os ! k = outs ! k" using k by (simp add: nth_append)
  have "slice_to input (int axis) (int k) (pts ! k) ?os = Ret (?os[k := ?s k])"
    using slice_to_eq [of input ?os k axis] ok ax k nth by simp
  then have sl: "slice_to input (int axis) (int k) (pts ! k) ?os = Ret (map ?s [0..<Suc k] @ drop (Suc k) outs)"
    using dr by (simp add: list_update_append)
  have tk: "sum_list (take (Suc k) pts) = sum_list (take k pts) + pts ! k" using k(1) by (simp add: take_Suc_conv_app_nth)
  have "0 \<le> sum_list (take k pts)" "sum_list (take (Suc k) pts) \<le> sum_list pts"
  proof -
    show "0 \<le> sum_list (take k pts)" using pts(1) by (intro sum_list_nonneg) (meson in_set_takeD)
    have "0 \<le> sum_list (drop (Suc k) pts)" using pts(1) by (intro sum_list_nonneg) (meson in_set_dropD)
    moreover have "sum_list pts = sum_list (take (Suc k) pts) + sum_list (drop (Suc k) pts)"
      by (metis append_take_drop_id sum_list_append)
    ultimately show "sum_list (take (Suc k) pts) \<le> sum_list pts" by simp
  qed
  moreover have p0: "0 \<le> pts ! k" using pts(1) k(1) by simp
  ultimately have "i32 (sum_list (take k pts) + pts ! k) = Ret (sum_list (take (Suc k) pts))" using pts(2) tk by simp
  then have "?f (int k) (-1, sum_list (take k pts), ?os) = Ret (-1, sum_list (take (Suc k) pts), map ?s [0..<Suc k] @ drop (Suc k) outs)"
    using sl k p0 by (simp add: at_def del: i32_simps)
  then show ?case unfolding loop_Suc using Suc by (simp only: andThen.simps)
qed simp

text \<open>What \<open>Concat\<close> checks of each input, and its loop over the inputs.\<close>

definition joins_along :: "nat \<Rightarrow> nat \<Rightarrow> int list \<Rightarrow> Tensor \<Rightarrow> bool" where
  "joins_along axis n ds t \<longleftrightarrow> tensor_ok t \<and> dimensions t = int n \<and> 0 \<le> dim t ! axis \<and> (\<forall>i < n. i \<noteq> axis \<longrightarrow> dim t ! i = ds ! i)"

lemma concat_check:
  assumes "joins_along axis n (dim ob) t" and "length (dim ob) = MNN_MAX_TENSOR_DIM"
  shows "for_each (map int [0..<n]) (\<lambda>i u. if int axis = i then Ret u
      else andThen (length_at t i) (\<lambda>a. andThen (length_at ob i) (\<lambda>b. require (a = b)))) () = Ret ()"
proof -
  have l: "length (dim t) = MNN_MAX_TENSOR_DIM" "n \<le> MNN_MAX_TENSOR_DIM" using assms(1) by (auto simp: joins_along_def tensor_ok_def)
  have "for_each (map int [0..<k]) (\<lambda>i u. if int axis = i then Ret u
      else andThen (length_at t i) (\<lambda>a. andThen (length_at ob i) (\<lambda>b. require (a = b)))) () = Ret ()" if "k \<le> n" for k
    using that
  proof (induction k)
    case (Suc k)
    then have "k < MNN_MAX_TENSOR_DIM" using l by simp
    then show ?case unfolding loop_Suc using Suc assms l by (auto simp: joins_along_def length_at_def at_def)
  qed simp
  then show ?thesis by simp
qed

lemma concat_loop:
  assumes "\<forall>t \<in> set ts. joins_along axis n (dim ob) t" and "length (dim ob) = MNN_MAX_TENSOR_DIM" and "axis < n"
    and "0 \<le> s" and "s + sum_list (map (\<lambda>t. dim t ! axis) ts) < 2 ^ 31"
  shows "\<exists>ty. for_each ts (\<lambda>t (sum, ob).
            andThen (length_at t (int axis)) (\<lambda>l.
            andThen (i32 (sum + l)) (\<lambda>sum.
            andThen (for_each (in_range 0 (dimensions t)) (\<lambda>i u.
                if int axis = i then Ret u
                else andThen (length_at t i) (\<lambda>a. andThen (length_at ob i) (\<lambda>b. require (a = b)))) ()) (\<lambda>_.
            Ret (sum, ob\<lparr>ttype := ttype t\<rparr>))))) (s, ob) =
    Ret (s + sum_list (map (\<lambda>t. dim t ! axis) ts), ob\<lparr>ttype := ty\<rparr>)"
  using assms
proof (induction ts arbitrary: s ob)
  case Nil
  then show ?case by (auto intro: exI [of _ "ttype ob"])
next
  case (Cons t ts)
  have j: "joins_along axis n (dim ob) t" using Cons.prems(1) by simp
  have l: "length (dim t) = MNN_MAX_TENSOR_DIM" "n \<le> MNN_MAX_TENSOR_DIM" "dimensions t = int n" "0 \<le> dim t ! axis"
    using j by (auto simp: joins_along_def tensor_ok_def)
  have "0 \<le> sum_list (map (\<lambda>t. dim t ! axis) ts)"
    using Cons.prems(1) by (intro sum_list_nonneg) (auto simp: joins_along_def)
  then have s: "i32 (s + dim t ! axis) = Ret (s + dim t ! axis)" "s + dim t ! axis + sum_list (map (\<lambda>t. dim t ! axis) ts) < 2 ^ 31"
    "0 \<le> s + dim t ! axis" using Cons.prems(4,5) l(4) by (simp_all add: add.assoc)
  have a: "length_at t (int axis) = Ret (dim t ! axis)" using l Cons.prems(3) by simp
  have c: "for_each (in_range 0 (dimensions t)) (\<lambda>i u. if int axis = i then Ret u
      else andThen (length_at t i) (\<lambda>a. andThen (length_at ob i) (\<lambda>b. require (a = b)))) () = Ret ()"
    using concat_check [OF j Cons.prems(2)] l(3) by (simp add: in_range_0)
  have "\<forall>u \<in> set ts. joins_along axis n (dim (ob\<lparr>ttype := ttype t\<rparr>)) u" "length (dim (ob\<lparr>ttype := ttype t\<rparr>)) = MNN_MAX_TENSOR_DIM"
    using Cons.prems(1,2) by simp_all
  from Cons.IH [OF this Cons.prems(3) s(3,2)] show ?case
    using a s(1) c by (auto simp: add.assoc simp del: length_at_Ret i32_simps)
qed

lemma concat_eq:
  assumes "\<forall>t \<in> set ts. joins_along axis n (dim (hd ts)) t" and "ts \<noteq> []" and "tensor_ok out" and "axis < n"
    and "sum_list (map (\<lambda>t. dim t ! axis) ts) < 2 ^ 31"
  shows "\<exists>c. ConcatSizeComputer (Some (int axis)) ts [out] = Ret [c] \<and>
    shape c = (take n (dim (hd ts)))[axis := sum_list (map (\<lambda>t. dim t ! axis) ts)]"
proof -
  obtain t us where ts: "ts = t # us" using assms(2) by (cases ts) auto
  have t: "dimensions t = int n" "length (dim t) = MNN_MAX_TENSOR_DIM" "n \<le> MNN_MAX_TENSOR_DIM"
    using assms(1) ts by (auto simp: joins_along_def tensor_ok_def)
  have lo: "length (dim out) = MNN_MAX_TENSOR_DIM" using assms(3) by (simp add: tensor_ok_def)
  let ?ob = "out\<lparr>dim := take n (dim t) @ drop n (dim out), dimensions := int n, ttype := ttype t\<rparr>"
  have "\<forall>u \<in> set ts. joins_along axis n (dim ?ob) u" using assms(1) t ts by (auto simp: joins_along_def nth_append)
  moreover have "length (dim ?ob) = MNN_MAX_TENSOR_DIM" using lo t by simp
  ultimately obtain ty where l: "for_each ts (\<lambda>t (sum, ob).
            andThen (length_at t (int axis)) (\<lambda>l.
            andThen (i32 (sum + l)) (\<lambda>sum.
            andThen (for_each (in_range 0 (dimensions t)) (\<lambda>i u.
                if int axis = i then Ret u
                else andThen (length_at t i) (\<lambda>a. andThen (length_at ob i) (\<lambda>b. require (a = b)))) ()) (\<lambda>_.
            Ret (sum, ob\<lparr>ttype := ttype t\<rparr>))))) (0, ?ob) =
      Ret (sum_list (map (\<lambda>t. dim t ! axis) ts), ?ob\<lparr>ttype := ty\<rparr>)"
    using concat_loop [of ts axis n ?ob 0] assms(4,5) by auto
  let ?c = "?ob\<lparr>ttype := ty, dim := (take n (dim t) @ drop n (dim out))[axis := sum_list (map (\<lambda>t. dim t ! axis) ts)], dimensionFormat := dimensionFormat t\<rparr>"
  have cp: "copy_dims t (dimensions t) out = Ret (out\<lparr>dim := take n (dim t) @ drop n (dim out)\<rparr>)"
    using t lo by (simp add: copy_dims_def)
  have set: "setLength (?ob\<lparr>ttype := ty\<rparr>) (int axis) v = Ret (?ob\<lparr>ttype := ty, dim := (take n (dim t) @ drop n (dim out))[axis := v]\<rparr>)" for v
    using t lo assms(4) by simp
  have "ConcatSizeComputer (Some (int axis)) ts [out] = Ret [?c]"
    unfolding ConcatSizeComputer_def Let_def ts list.simps option.simps at_0 andThen.simps
    using cp set l [unfolded ts] by (simp add: t(1) del: for_each.simps setLength_Ret)
  moreover have "shape ?c = (take n (dim t))[axis := sum_list (map (\<lambda>t. dim t ! axis) ts)]"
    using t assms(4) by (simp add: shape_def list_update_append)
  ultimately show ?thesis using ts by auto
qed

text \<open>
  C17: \<open>Concat\<close> undoes \<open>Slice\<close>. For an operator that does not come from Caffe (whose points are positions of cuts) and two or more points
  (a single one is a number of parts), one for each output: splitting a tensor along an axis with points, the sizes of the
  parts, that are not negative and add up to its extent succeeds, gives outputs with exactly these extents, and
  concatenating them along the same axis succeeds and gives the original shape.
\<close>

theorem concat_inverts_slice:
  assumes t: "tensor_ok t" and o: "\<forall>out \<in> set outs0. tensor_ok out" "tensor_ok c0" and src: "src \<noteq> NetSource_CAFFE"
    and np: "length pts = length outs0" "2 \<le> length pts" and ax: "axis < nat (dimensions t)"
    and p: "\<forall>p \<in> set pts. 0 \<le> p" "sum_list pts = dim t ! axis" "dim t ! axis < 2 ^ 31"
  shows "\<exists>outs c. SliceComputer src (int axis) (Some pts) [t] outs0 = Ret outs \<and>
    map shape outs = map (\<lambda>p. (shape t)[axis := p]) pts \<and>
    ConcatSizeComputer (Some (int axis)) outs [c0] = Ret [c] \<and> shape c = shape t"
proof -
  define n where "n = nat (dimensions t)"
  let ?s = "\<lambda>i. (sliced t axis (pts ! i) (outs0 ! i))\<lparr>dimensionFormat := dimensionFormat t\<rparr>"
  let ?outs = "map ?s [0..<length pts]"
  have l: "length (dim t) = MNN_MAX_TENSOR_DIM" "n \<le> MNN_MAX_TENSOR_DIM" "dimensions t = int n" and ax': "axis < n"
    using t ax by (auto simp: n_def tensor_ok_def nat_le_iff)
  have at: "length_at t (int axis) = Ret (dim t ! axis)" using l ax' by simp
  have sum: "for_each pts (\<lambda>p s. i32 (s + p)) 0 = Ret (dim t ! axis)" using sum_loop [of pts 0] p by simp
  have "slice_points t (int axis) pts outs0 = Ret (map (\<lambda>i. sliced t axis (pts ! i) (outs0 ! i)) [0..<length pts])"
    using slice_loop [OF t o(1) ax p(1) _ np(1) order_refl, of "dim t ! axis"] p(2,3) np(1) sum at
    by (simp add: slice_points_def in_range_0 require_def Let_def del: length_at_Ret)
  then have sl: "SliceComputer src (int axis) (Some pts) [t] outs0 = Ret ?outs"
    using src np(2) by (simp add: SliceComputer_def Let_def)
  have dims: "dimensions (?s i) = int n" "dim (?s i) = (take n (dim t) @ drop n (dim (outs0 ! i)))[axis := pts ! i]" for i
    using l(3) by (simp_all add: sliced_def)
  have sh: "shape (?s i) = (shape t)[axis := pts ! i]" for i
    using l ax' by (simp add: shape_def sliced_def list_update_append)
  have ext: "dim (?s i) ! axis = pts ! i" for i using l ax' unfolding dims by simp
  have "0 < length pts" using np(2) by linarith
  then have hd: "hd ?outs = ?s 0" by (simp add: hd_map hd_upt)
  have "joins_along axis n (dim (hd ?outs)) (?s i)" if "i < length pts" for i
  proof -
    have "tensor_ok (outs0 ! i)" "0 \<le> pts ! i" using that o(1) np(1) p(1) by simp_all
    then show ?thesis using l ax' unfolding hd joins_along_def dims tensor_ok_def by (simp add: nth_list_update nth_append)
  qed
  then have j: "\<forall>u \<in> set ?outs. joins_along axis n (dim (hd ?outs)) u" by auto
  have s: "map (\<lambda>t. dim t ! axis) ?outs = pts"
    using ext by (simp add: o_def map_nth del: Tensor.simps)
  obtain c where c: "ConcatSizeComputer (Some (int axis)) ?outs [c0] = Ret [c]" "shape c = (take n (dim (hd ?outs)))[axis := sum_list pts]"
    using concat_eq [OF j _ o(2) ax'] \<open>0 < length pts\<close> p(2,3) unfolding s by auto
  have "shape c = (shape (?s 0))[axis := sum_list pts]" unfolding c(2) hd by (simp add: shape_def sliced_def l(3))
  then have "shape c = shape t" using p(2) ax' l unfolding sh by (simp add: shape_def list_update_same_conv)
  moreover have "map shape ?outs = map (\<lambda>p. (shape t)[axis := p]) pts"
    unfolding map_map o_def sh by (metis (no_types, lifting) list.map_comp map_eq_conv map_nth o_def)
  ultimately show ?thesis using sl c(1) by blast
qed

theorem concat_inverts_slice_witness:
  "\<exists>outs c. SliceComputer NetSource_ONNX 1 (Some [1, 2, 3]) [demo_tensor [4, 6]] [demo_tensor [], demo_tensor [], demo_tensor []] = Ret outs \<and>
     map shape outs = [[4, 1], [4, 2], [4, 3]] \<and> ConcatSizeComputer (Some 1) outs [demo_tensor []] = Ret [c] \<and> shape c = [4, 6]"
proof -
  have ok: "tensor_ok (demo_tensor [4, 6])" "tensor_ok (demo_tensor [])" by (simp_all add: demo_ok MNN_MAX_TENSOR_DIM_def)
  have d: "dimensions (demo_tensor [4, 6]) = 2" "dim (demo_tensor [4, 6]) ! 1 = 6" "shape (demo_tensor [4, 6]) = [4, 6]"
    by (simp_all add: demo_tensor_def shape_def)
  show ?thesis
    using concat_inverts_slice [of "demo_tensor [4, 6]" "[demo_tensor [], demo_tensor [], demo_tensor []]" "demo_tensor []" NetSource_ONNX "[1, 2, 3]" 1] ok d
    by simp
qed

text \<open>
  The comment in \<open>ShapeSlice.cpp\<close> gives the points \<open>[3, 8, 10]\<close> for cutting ten cells of a Caffe network into three, five and two. With these points the
  third part gets no cell: what is written for it first is overwritten with the rest behind the last point.
\<close>

theorem caffe_points_lose_last:
  "map_res (map shape) (SliceComputer NetSource_CAFFE 1 (Some [3, 8, 10]) [demo_tensor [2, 10]] [demo_tensor [], demo_tensor [], demo_tensor []]) =
     Ret [[2, 3], [2, 5], [2, 0]]"
  by code_simp

subsection \<open>MatMul\<close>

text \<open>
  \<open>MatMul\<close> of two vectors. Both inputs may have one dimension as far as
  \<open>computeMatMulSize\<close> goes, but the computer then writes the extent at position \<open>-1\<close> of the
  output: vectors of the same length always lead out of bounds.
\<close>

theorem matmul_vectors_undefined:
  assumes "tensor_ok a" and "tensor_ok b" and "tensor_ok out" and "dimensions a = 1" and "dimensions b = 1" and "dim a ! 0 = dim b ! 0"
  shows "MatMulSizeComputer transposeA transposeB [a, b] [out] = Undefined"
proof -
  have l: "length_at a 0 = Ret (dim b ! 0)" "length_at b 0 = Ret (dim b ! 0)"
    using assms by (simp_all add: tensor_ok_def MNN_MAX_TENSOR_DIM_def)
  have "computeMatMulSize transposeA transposeB a b = Ret (1, dim b ! 0, 1)"
    using l assms(4,5) by (simp add: computeMatMulSize_def del: length_at_Ret)
  moreover have "setLength u (-1) x = Undefined" for u x by (simp add: setLength_def put_def)
  ultimately show ?thesis
    using assms(4,5) by (simp add: MatMulSizeComputer_def Let_def in_range_def keep_lengths_def del: setLength_Ret)
qed

theorem matmul_vectors_undefined_witness:
  "MatMulSizeComputer False False [demo_tensor [3], demo_tensor [3]] [demo_tensor []] = Undefined"
  using matmul_vectors_undefined [of "demo_tensor [3]" "demo_tensor [3]" "demo_tensor []" False False]
  by (simp add: demo_ok MNN_MAX_TENSOR_DIM_def) (simp add: demo_tensor_def)

text \<open>The leading extents of a stack of matrices, and its rows and columns.\<close>

definition stack_of :: "Tensor \<Rightarrow> int list" where
  "stack_of t = take (nat (dimensions t) - 2) (dim t)"

definition rows :: "bool \<Rightarrow> Tensor \<Rightarrow> int" where
  "rows transposed t = dim t ! (nat (dimensions t) - (if transposed then 1 else 2))"

definition columns :: "bool \<Rightarrow> Tensor \<Rightarrow> int" where
  "columns transposed t = dim t ! (nat (dimensions t) - (if transposed then 2 else 1))"

lemma computeMatMulSize_eq:
  assumes "tensor_ok a" and "tensor_ok b" and "2 \<le> dimensions a" and "2 \<le> dimensions b"
  shows "computeMatMulSize tA tB a b =
    (if columns tA a \<noteq> rows tB b then ReturnFalse else Ret (rows tA a, columns tA a, columns tB b))"
proof -
  have "length_at t (dimensions t - 1) = Ret (dim t ! (nat (dimensions t) - 1))"
    "length_at t (dimensions t - 2) = Ret (dim t ! (nat (dimensions t) - 2))" if "tensor_ok t" "2 \<le> dimensions t" for t
    using that by (auto simp: tensor_ok_def nat_diff_distrib)
  then show ?thesis using assms by (auto simp: computeMatMulSize_def rows_def columns_def Let_def simp del: length_at_Ret)
qed

definition extents_int32 :: "Tensor \<Rightarrow> bool" where
  "extents_int32 t \<longleftrightarrow> (\<forall>x \<in> set (dim t). int32 x)"

text \<open>The broadcast of the leading extents, written into the output tensor.\<close>

lemma stack_broadcast:
  assumes b: "tensor_ok big" and s: "tensor_ok small" and o: "tensor_ok out" and le: "2 \<le> dimensions small" "dimensions small \<le> dimensions big"
    and i32: "extents_int32 big" "extents_int32 small" "extents_int32 out" and n: "n = nat (dimensions big)"
  shows "andThen (keep_lengths big (in_range 0 (dimensions big - 2)) out) (\<lambda>out.
      for_each (in_range (dimensions big - dimensions small) (dimensions big - 2)) (\<lambda>i out.
        andThen (length_at small (i - (dimensions big - dimensions small))) (\<lambda>dim1.
        andThen (length_at out i) (\<lambda>d. andThen (broadcast_cell dim1 d) (\<lambda>d. setLength out i d)))) out) =
    (case numpy_broadcast (stack_of big) (stack_of small) of None \<Rightarrow> ReturnFalse
     | Some ds \<Rightarrow> Ret (out\<lparr>dim := ds @ drop (n - 2) (dim out)\<rparr>))"
proof -
  define m where "m = nat (dimensions small) - 2"
  define k where "k = n - 2 - m"
  have z: "dimensions big = int n" "dimensions small = int (m + 2)" "n - 2 = k + m" "2 \<le> n" "n \<le> MNN_MAX_TENSOR_DIM" "length (dim out) = MNN_MAX_TENSOR_DIM"
    "length (dim big) = MNN_MAX_TENSOR_DIM" "length (dim small) = MNN_MAX_TENSOR_DIM"
    using b s o le n by (auto simp: tensor_ok_def k_def m_def)
  have r: "dimensions big - 2 = int (k + m)" "dimensions big - dimensions small = int k" "nat (int (k + m) - int k) = m"
    using z(1-4) by linarith+
  have stk: "stack_of big = take (k + m) (dim big)" "stack_of small = take m (dim small)"
    using z(1-3) by (simp_all add: stack_of_def nat_add_distrib)
  let ?ds = "take (k + m) (dim big) @ drop (k + m) (dim out)"
  have keep: "keep_lengths big (map int [0..<k + m]) out = Ret (out\<lparr>dim := ?ds\<rparr>)"
    using fill_tensor_eq [of "k + m" out "length_at big" "(!) (dim big)"] z by (simp add: keep_lengths_def take_nth)
  let ?P = "\<lambda>i ds. andThen (at (dim small) (i - int k)) (\<lambda>dim1. andThen (at ds i) (\<lambda>d. andThen (broadcast_cell dim1 d) (\<lambda>d. put ds i d)))"
  let ?xs = "map (\<lambda>j. int k + int j) [0..<m]"
  have lift: "for_each ?xs (\<lambda>i out. andThen (length_at small (i - int k)) (\<lambda>dim1.
        andThen (length_at out i) (\<lambda>d. andThen (broadcast_cell dim1 d) (\<lambda>d. setLength out i d)))) ((\<lambda>ds. out\<lparr>dim := ds\<rparr>) ?ds) =
      andThen (for_each ?xs ?P ?ds) (\<lambda>ds. Ret (out\<lparr>dim := ds\<rparr>))"
    by (rule for_each_lift) (simp add: length_at_def setLength_def andThen_assoc)
  have bl: "for_each ?xs ?P ?ds = (if \<forall>j < m. compatible (?ds ! (k + j)) (dim small ! j)
     then Ret (take k ?ds @ map (\<lambda>j. joined (?ds ! (k + j)) (dim small ! j)) [0..<m] @ drop (k + m) ?ds) else ReturnFalse)"
    by (rule broadcast_loop) (use z i32 in \<open>auto simp: extents_int32_def dest: in_set_takeD in_set_dropD\<close>)
  have nth: "?ds ! (k + j) = stack_of big ! (k + j)" "dim small ! j = stack_of small ! j" if "j < m" for j
    using that z by (simp_all add: stk nth_append)
  have len: "length (stack_of small) = m" "length (stack_of big) = k + m" "take k ?ds = take k (stack_of big)" "drop (k + m) ?ds = drop (k + m) (dim out)"
    using z by (simp_all add: stk)
  have "for_each ?xs ?P ?ds = (case numpy_broadcast (stack_of big) (stack_of small) of None \<Rightarrow> ReturnFalse | Some ds \<Rightarrow> Ret (ds @ drop (n - 2) (dim out)))"
    unfolding bl len(3,4) numpy_broadcast_short [of "stack_of small" "stack_of big" k, unfolded len(1,2), OF le_add2 diff_add_inverse2 [symmetric]] z(3)
    using nth by (simp cong: if_cong)
  moreover have "in_range 0 (dimensions big - 2) = map int [0..<k + m]" by (simp only: r in_range_0 nat_int)
  moreover have "in_range (dimensions big - dimensions small) (dimensions big - 2) = ?xs" by (simp only: r in_range_upt)
  ultimately show ?thesis using keep lift unfolding r(2) by (simp split: option.split)
qed

text \<open>The result of a matrix product ends with the two extents written last.\<close>

lemma set_last_two:
  assumes l: "length (dim out) = MNN_MAX_TENSOR_DIM" and n: "2 \<le> n" "n \<le> MNN_MAX_TENSOR_DIM" "d = int n" and ds: "length ds = n - 2"
  shows "andThen (setLength (out\<lparr>dim := ds @ drop (n - 2) (dim out)\<rparr>) (d - 2) e) (\<lambda>o1. andThen (setLength o1 (d - 1) h) f) =
    f (out\<lparr>dim := ds @ [e, h] @ drop n (dim out)\<rparr>)"
proof -
  obtain k where k: "n = Suc (Suc k)" using n(1) by (metis add_2_eq_Suc le_Suc_ex)
  have dr: "drop k (dim out) = dim out ! k # dim out ! Suc k # drop n (dim out)" using l n(2) k by (simp add: Cons_nth_drop_Suc)
  have i: "d - 2 = int k" "d - 1 = int (Suc k)" "n - 2 = k" using n(3) k by simp_all
  have le: "k < length (ds @ drop k (dim out))" "Suc k < length (ds @ e # dim out ! Suc k # drop n (dim out))"
    using ds k dr by simp_all
  have "setLength (out\<lparr>dim := ds @ drop k (dim out)\<rparr>) (int k) e = Ret (out\<lparr>dim := ds @ e # dim out ! Suc k # drop n (dim out)\<rparr>)"
    using ds k dr le(1) by (simp add: list_update_append)
  moreover have "setLength (out\<lparr>dim := ds @ e # dim out ! Suc k # drop n (dim out)\<rparr>) (int (Suc k)) h = Ret (out\<lparr>dim := ds @ [e, h] @ drop n (dim out)\<rparr>)"
    using ds k le(2) by (simp add: list_update_append del: of_nat_Suc)
  ultimately show ?thesis unfolding i by (simp only: andThen.simps)
qed

lemma broadcast_length:
  assumes "length ys \<le> length xs" and "numpy_broadcast xs ys = Some ds"
  shows "length ds = length xs"
  using assms(2) unfolding numpy_broadcast_short [OF assms(1) refl] using assms(1) by (auto split: if_splits)

text \<open>The computer on stacks of matrices, with the longer stack first.\<close>

lemma matmul_on_stacks:
  assumes d: "2 \<le> dimensions a" "2 \<le> dimensions b"
    and big: "big = (if dimensions b > dimensions a then b else a)" and small: "small = (if dimensions b > dimensions a then a else b)"
  shows "MatMulSizeComputer tA tB [a, b] [out] =
      andThen (computeMatMulSize tA tB a b) (\<lambda>(e, l, h).
      andThen (andThen (keep_lengths big (in_range 0 (dimensions big - 2)) (out\<lparr>ttype := ttype a, dimensions := dimensions big\<rparr>)) (\<lambda>out.
      for_each (in_range (dimensions big - dimensions small) (dimensions big - 2)) (\<lambda>i out.
        andThen (length_at small (i - (dimensions big - dimensions small))) (\<lambda>dim1.
        andThen (length_at out i) (\<lambda>d. andThen (broadcast_cell dim1 d) (\<lambda>d. setLength out i d)))) out)) (\<lambda>o1.
      andThen (setLength o1 (dimensions big - 2) e) (\<lambda>o1.
      andThen (setLength o1 (dimensions big - 1) h) (\<lambda>o1.
      Ret [o1\<lparr>dimensions := dimensions big, dimensionFormat := dimensionFormat a\<rparr>]))))"
proof -
  have "(1 < dimensions a) = True" "(1 < dimensions b) = True" using d by simp_all
  then show ?thesis unfolding big small
    by (cases "dimensions b > dimensions a")
      (simp_all only: MatMulSizeComputer_def Let_def at_0 at_1 andThen.simps andThen_assoc case_prod_conv if_True if_False simp_thms list.sel add_0 diff_zero)
qed

text \<open>
  C18: \<open>MatMul\<close> of matrices. For two tensors of at least two dimensions the computer fails when
  the inner extents differ; otherwise the output has NumPy's broadcast of the leading extents
  (and the computer fails when there is none) followed by the rows of the first and the columns
  of the second matrix, transposed as asked.
\<close>

theorem matmul_shape:
  assumes ok: "tensor_ok a" "tensor_ok b" "tensor_ok out" and d: "2 \<le> dimensions a" "2 \<le> dimensions b"
    and i32: "extents_int32 a" "extents_int32 b" "extents_int32 out"
  shows "andThen (MatMulSizeComputer tA tB [a, b] [out]) (\<lambda>outs. Ret (map shape outs)) =
    (if columns tA a \<noteq> rows tB b then ReturnFalse
     else case numpy_broadcast (stack_of a) (stack_of b) of None \<Rightarrow> ReturnFalse
          | Some ds \<Rightarrow> Ret [ds @ [rows tA a, columns tB b]])"
proof -
  define big small where "big = (if dimensions b > dimensions a then b else a)" and "small = (if dimensions b > dimensions a then a else b)"
  define n where "n = nat (dimensions big)"
  let ?o = "out\<lparr>ttype := ttype a, dimensions := dimensions big\<rparr>"
  have bs: "tensor_ok big" "tensor_ok small" "2 \<le> dimensions small" "dimensions small \<le> dimensions big" "extents_int32 big" "extents_int32 small"
    "dimensions big = int n" "2 \<le> n" "n \<le> MNN_MAX_TENSOR_DIM"
    using ok d i32 by (auto simp: big_def small_def n_def tensor_ok_def nat_le_iff le_nat_iff)
  have o: "tensor_ok ?o" "extents_int32 ?o" "length (dim out) = MNN_MAX_TENSOR_DIM"
    using ok(3) bs(1) i32(3) by (auto simp: tensor_ok_def extents_int32_def)
  have comm: "numpy_broadcast (stack_of big) (stack_of small) = numpy_broadcast (stack_of a) (stack_of b)"
    by (simp add: big_def small_def numpy_broadcast_commute)
  have od: "dim ?o = dim out" by simp
  note sb = stack_broadcast [OF bs(1,2) o(1) bs(3-6) o(2) n_def, unfolded comm od]
  have sl: "length (dim ?o) = MNN_MAX_TENSOR_DIM" using o(3) by simp
  note sh = set_last_two [OF sl bs(8,9,7), unfolded od]
  note eq = matmul_on_stacks [OF d big_def small_def]
  have len: "length ds = n - 2" if "numpy_broadcast (stack_of a) (stack_of b) = Some ds" for ds
  proof -
    have l: "length (stack_of big) = n - 2" "length (stack_of small) \<le> length (stack_of big)"
      using bs by (auto simp: stack_of_def tensor_ok_def)
    show ?thesis using broadcast_length [OF l(2)] that l(1) comm by simp
  qed
  show ?thesis
  proof (cases "columns tA a \<noteq> rows tB b")
    case True
    then show ?thesis unfolding eq computeMatMulSize_eq [OF ok(1,2) d] by simp
  next
    case False
    have "shape (u\<lparr>dim := ds @ [e, h] @ zs, dimensions := int n, dimensionFormat := f\<rparr>) = ds @ [e, h]" if "length ds = n - 2" for u ds e h zs f
      using that bs(8) by (simp add: shape_def)
    note res = this
    show ?thesis
    proof (cases "numpy_broadcast (stack_of a) (stack_of b)")
      case None
      then show ?thesis using False unfolding eq computeMatMulSize_eq [OF ok(1,2) d] andThen.simps case_prod_conv sb by simp
    next
      case (Some ds)
      have cm: "computeMatMulSize tA tB a b = Ret (rows tA a, columns tA a, columns tB b)"
        using False by (simp add: computeMatMulSize_eq [OF ok(1,2) d])
      have "MatMulSizeComputer tA tB [a, b] [out] =
          Ret [?o\<lparr>dim := ds @ [rows tA a, columns tB b] @ drop n (dim out), dimensions := dimensions big, dimensionFormat := dimensionFormat a\<rparr>]"
        by (simp only: eq cm andThen.simps case_prod_conv sb Some option.simps sh [OF len [OF Some]])
      then show ?thesis using False Some by (simp only: bs(7) andThen.simps list.map res [OF len [OF Some]] if_False option.simps)
    qed
  qed
qed

theorem matmul_shape_witness:
  "andThen (MatMulSizeComputer False True [demo_tensor [5, 2, 3], demo_tensor [4, 3]] [demo_tensor []]) (\<lambda>outs. Ret (map shape outs)) =
     Ret [[5, 2, 4]]"
proof -
  have "tensor_ok (demo_tensor [5, 2, 3])" "tensor_ok (demo_tensor [4, 3])" "tensor_ok (demo_tensor [])"
    by (simp_all add: demo_ok MNN_MAX_TENSOR_DIM_def)
  moreover have "2 \<le> dimensions (demo_tensor [5, 2, 3])" "2 \<le> dimensions (demo_tensor [4, 3])" by (simp_all add: demo_tensor_def)
  moreover have "extents_int32 (demo_tensor [5, 2, 3])" "extents_int32 (demo_tensor [4, 3])" "extents_int32 (demo_tensor [])" by code_simp+
  moreover have "numpy_broadcast (stack_of (demo_tensor [5, 2, 3])) (stack_of (demo_tensor [4, 3])) = Some [5]" by code_simp
  ultimately show ?thesis
    using matmul_shape [of "demo_tensor [5, 2, 3]" "demo_tensor [4, 3]" "demo_tensor []" False True]
    by (simp add: rows_def columns_def demo_tensor_def)
qed

end
