(* ===== verification/MNN_Tensor_Host.thy ===== *)
theory MNN_Tensor_Host
  imports MNN_Shape_Join_Facts
begin

text \<open>
  Host tensors (\<open>MNN/source/core/Tensor.cpp\<close>): the constructor that makes a tensor in memory with the shape of another one,
  and how many bytes and elements the two have. A tensor in the layout \<open>NC4HW4\<close> counts its channels rounded up to a multiple of
  four, the host tensor made for it does not.
\<close>

subsection \<open>The constructor\<close>

datatype DimensionType = TENSORFLOW | CAFFE | CAFFE_C4

definition getDimensionType :: "Tensor \<Rightarrow> DimensionType" where
  "getDimensionType t = (if dimensionFormat t = NHWC then TENSORFLOW else CAFFE)"

definition axisMap :: "DimensionType \<Rightarrow> int \<Rightarrow> int list" where
  "axisMap originType n = (if originType = CAFFE then 0 # in_range 2 n @ [1] else 0 # (n - 1) # in_range 1 (n - 1))"

text \<open>The extents of a new tensor are zero; strides are not modelled.\<close>

definition Tensor_like :: "Tensor \<Rightarrow> DimensionType \<Rightarrow> Tensor res" where
  "Tensor_like tensor dimType =
     (let new = \<lparr>dimensions = dimensions tensor, dim = replicate MNN_MAX_TENSOR_DIM 0, ttype = ttype tensor,
            dimensionFormat = (case dimType of CAFFE \<Rightarrow> NCHW | TENSORFLOW \<Rightarrow> NHWC | CAFFE_C4 \<Rightarrow> NC4HW4), host = []\<rparr>;
          target = (if dimType = CAFFE_C4 then CAFFE else dimType); originType = getDimensionType tensor
      in andThen (for_each (in_range 0 (dimensions tensor)) (\<lambda>i t. andThen (length_at tensor i) (\<lambda>l. setLength t i l)) new) (\<lambda>t.
         andThen (if originType \<noteq> target \<and> dimensions tensor \<ge> 3
                  then for_each (in_range 0 (dimensions tensor)) (\<lambda>i t.
                         andThen (at (axisMap originType (dimensions tensor)) i) (\<lambda>a.
                         andThen (length_at tensor a) (\<lambda>l. setLength t i l))) t
                  else Ret t) (\<lambda>t.
         for_each (in_range (dimensions t) 4) (\<lambda>i t. setLength t i 1) t)))"

text \<open>The bytes allocated for it.\<close>

definition host_bytes :: "Tensor \<Rightarrow> nat res" where
  "host_bytes t = andThen (tensor_size t) (\<lambda>memorySize. Ret (if memorySize > 0 then nat memorySize else 0))"

subsection \<open>Sizes\<close>

text \<open>The extents that count for the size of a tensor.\<close>

definition stored_shape :: "Tensor \<Rightarrow> int list" where
  "stored_shape t = (if dimensionFormat t = NC4HW4 then (shape t)[1 := (shape t ! 1 + 3) div 4 * 4] else shape t)"

lemma length_stored [simp]: "length (stored_shape t) = length (shape t)"
  by (simp add: stored_shape_def)

lemma usize_eq:
  assumes "tensor_ok t" and "\<forall>l \<in> set (shape t). 0 \<le> l \<and> l + 3 < 2 ^ 31"
  shows "usize t = Ret (of_int (int (type_bytes (ttype t)) * prod_list (stored_shape t)))"
proof -
  let ?F = "\<lambda>i s. andThen (length_at t i) (\<lambda>l.
     andThen (if dimensionFormat t = NC4HW4 \<and> i = 1 then andThen (i32 (l + 4 - 1)) (\<lambda>m. Ret (m sdiv 4 * 4)) else Ret l)
       (\<lambda>l'. Ret (s * of_int l' :: size_t)))"
  note sn = shape_nth [OF assms(1)]
  have step: "?F (int i) s = Ret (s * of_int (stored_shape t ! i))" if "i < nat (dimensions t)" for i s
  proof -
    have "shape t ! i \<in> set (shape t)" using that sn(1) by simp
    then have l: "0 \<le> shape t ! i" "shape t ! i + 3 < 2 ^ 31" using assms(2) by blast+
    then have "(shape t ! i + 3) sdiv 4 = (shape t ! i + 3) div 4" "(3 + shape t ! i) sdiv 4 = (shape t ! i + 3) div 4"
      by (simp_all add: signed_divide_int_def add.commute)
    then show ?thesis using sn(2) [OF that] l that sn(1) by (auto simp: stored_shape_def i32_def nth_list_update simp del: length_at_Ret)
  qed
  have "for_each (map int [0..<k]) ?F s = Ret (s * of_int (prod_list (take k (stored_shape t))))" if "k \<le> nat (dimensions t)" for k s
    using that
  proof (induction k)
    case (Suc k)
    then show ?case using step [of k] sn(1) by (simp add: loop_Suc take_Suc_conv_app_nth mult.assoc del: upt_Suc)
  qed simp
  from this [of "nat (dimensions t)"] show ?thesis using sn(1) by (simp add: usize_def in_range_0 [unfolded in_range_def])
qed

lemma tensor_size_eq:
  assumes "tensor_ok t" and "\<forall>l \<in> set (shape t). 0 \<le> l \<and> l + 3 < 2 ^ 31"
    and "0 \<le> prod_list (stored_shape t)" "int (type_bytes (ttype t)) * prod_list (stored_shape t) < 2 ^ 31"
  shows "tensor_size t = Ret (int (type_bytes (ttype t)) * prod_list (stored_shape t))"
proof -
  let ?n = "int (type_bytes (ttype t)) * prod_list (stored_shape t)"
  have "0 \<le> ?n" using assms(3) by simp
  then obtain k where k: "?n = int k" using nonneg_int_cases by blast
  then have "k < 2 ^ 31" using assms(4) by simp
  then have "sint (of_nat k :: 32 word) = int k" by (simp add: signed_of_nat signed_take_bit_int_eq_self)
  moreover have "ucast (of_nat k :: size_t) = (of_nat k :: 32 word)"
    using \<open>k < 2 ^ 31\<close> by (simp add: unsigned_of_nat take_bit_nat_eq_self)
  ultimately have "sint (ucast (of_nat k :: size_t) :: 32 word) = int k" by simp
  then show ?thesis unfolding tensor_size_def usize_eq [OF assms(1,2)] k by simp
qed

lemma elementSize_eq:
  assumes "tensor_ok t" and "\<forall>l \<in> set (shape t). 0 \<le> l \<and> l + 3 < 2 ^ 31" and "0 < type_bytes (ttype t)"
    and "0 \<le> prod_list (stored_shape t)" "int (type_bytes (ttype t)) * prod_list (stored_shape t) < 2 ^ 31"
  shows "elementSize t = Ret (prod_list (stored_shape t))"
proof -
  have "1 * prod_list (stored_shape t) \<le> int (type_bytes (ttype t)) * prod_list (stored_shape t)"
    using assms(3,4) by (intro mult_right_mono) auto
  then have "prod_list (stored_shape t) < 2 ^ 31" using assms(5) by simp
  moreover have "(int (type_bytes (ttype t)) * prod_list (stored_shape t)) sdiv int (type_bytes (ttype t)) = prod_list (stored_shape t)"
    using assms(3,4) by (cases "prod_list (stored_shape t) = 0") (simp_all add: signed_divide_int_def sgn_mult abs_mult)
  ultimately show ?thesis using assms(3,4)
    by (simp add: elementSize_def tensor_size_eq [OF assms(1,2,4,5)] div32_def i32_def)
qed

text \<open>Rounding the channels up changes the number of elements unless they are a multiple of four.\<close>

lemma prod_list_pos: "\<forall>l \<in> set xs. (0 :: int) < l \<Longrightarrow> 0 < prod_list xs"
  by (induction xs) simp_all

lemma prod_list_update_less:
  assumes "\<forall>l \<in> set xs. (0 :: int) < l" and "i < length xs" and "xs ! i < y"
  shows "prod_list xs < prod_list (xs[i := y])"
proof -
  have split: "prod_list (xs[i := z]) = prod_list (take i xs) * z * prod_list (drop (Suc i) xs)" for z
    using assms(2) by (simp add: upd_conv_take_nth_drop)
  have "0 < prod_list (take i xs)" "0 < prod_list (drop (Suc i) xs)"
    by (rule prod_list_pos; use assms(1) in \<open>auto dest: in_set_takeD in_set_dropD\<close>)+
  then show ?thesis using split [of y] split [of "xs ! i"] assms(3) by simp
qed

lemma stored_grows:
  assumes "\<forall>l \<in> set (shape t). 0 < l"
  shows "prod_list (shape t) \<le> prod_list (stored_shape t)"
    "prod_list (shape t) < prod_list (stored_shape t) \<longleftrightarrow> dimensionFormat t = NC4HW4 \<and> 1 < length (shape t) \<and> \<not> 4 dvd shape t ! 1"
proof -
  let ?c = "shape t ! 1"
  have up: "?c \<le> (?c + 3) div 4 * 4" "?c = (?c + 3) div 4 * 4 \<longleftrightarrow> 4 dvd ?c" by presburger+
  have small: "length (shape t) \<le> 1 \<Longrightarrow> stored_shape t = shape t" by (simp add: stored_shape_def list_update_beyond)
  have less: "prod_list (shape t) < prod_list (stored_shape t)" if "dimensionFormat t = NC4HW4" "1 < length (shape t)" "\<not> 4 dvd ?c"
    using prod_list_update_less [OF assms that(2), of "(?c + 3) div 4 * 4"] up that by (simp add: stored_shape_def)
  have same: "stored_shape t = shape t" if "\<not> (dimensionFormat t = NC4HW4 \<and> 1 < length (shape t) \<and> \<not> 4 dvd ?c)"
    using that up(2) small by (auto simp: stored_shape_def not_less)
  show "prod_list (shape t) \<le> prod_list (stored_shape t)" using less same by (metis less_imp_le order_refl)
  show "prod_list (shape t) < prod_list (stored_shape t) \<longleftrightarrow> dimensionFormat t = NC4HW4 \<and> 1 < length (shape t) \<and> \<not> 4 dvd ?c"
    using less same by (metis less_irrefl)
qed

text \<open>The host tensor for a tensor, made with its dimension type.\<close>

lemma write_ones:
  assumes "tensor_ok u" and "\<forall>i \<in> set is. dimensions u \<le> i \<and> i < 4"
  shows "\<exists>v. for_each is (\<lambda>i u. setLength u i 1) u = Ret v \<and> tensor_ok v \<and> shape v = shape u \<and>
    ttype v = ttype u \<and> dimensionFormat v = dimensionFormat u"
  using assms
proof (induction "is" arbitrary: u)
  case (Cons i "is")
  have i: "0 \<le> i" "nat i < length (dim u)" "nat (dimensions u) \<le> nat i"
    using Cons.prems by (auto simp: tensor_ok_def MNN_MAX_TENSOR_DIM_def)
  let ?u = "u\<lparr>dim := (dim u)[nat i := 1]\<rparr>"
  have u: "setLength u i 1 = Ret ?u" using i by simp
  have s: "shape ?u = shape u" using i by (simp add: shape_def)
  have "\<exists>v. for_each is (\<lambda>i u. setLength u i 1) ?u = Ret v \<and> tensor_ok v \<and> shape v = shape ?u \<and> ttype v = ttype ?u \<and>
      dimensionFormat v = dimensionFormat ?u"
    by (rule Cons.IH) (use Cons.prems in \<open>simp_all add: tensor_ok_def\<close>)
  then show ?case unfolding for_each.simps u andThen.simps s by simp
qed simp

lemma Tensor_like_eq:
  assumes "tensor_ok t"
  shows "\<exists>h. Tensor_like t (getDimensionType t) = Ret h \<and> tensor_ok h \<and> shape h = shape t \<and> ttype h = ttype t \<and> dimensionFormat h \<noteq> NC4HW4"
proof -
  let ?n = "nat (dimensions t)"
  define f where "f = (case getDimensionType t of CAFFE \<Rightarrow> NCHW | TENSORFLOW \<Rightarrow> NHWC | CAFFE_C4 \<Rightarrow> NC4HW4)"
  define new where "new = \<lparr>dimensions = dimensions t, dim = replicate MNN_MAX_TENSOR_DIM 0, ttype = ttype t, dimensionFormat = f, host = []\<rparr>"
  define u where "u = new\<lparr>dim := shape t @ drop ?n (dim new)\<rparr>"
  have n: "?n \<le> MNN_MAX_TENSOR_DIM" "0 \<le> dimensions t" "dimensions t \<le> int MNN_MAX_TENSOR_DIM" using assms by (auto simp: tensor_ok_def)
  note sn = shape_nth [OF assms]
  have "for_each (map int [0..<?n]) (\<lambda>i u. andThen (length_at t i) (\<lambda>x. setLength u i x)) new =
      Ret (new\<lparr>dim := map ((!) (shape t)) [0..<?n] @ drop ?n (dim new)\<rparr>)"
    by (rule fill_tensor_eq) (use n sn(2) in \<open>simp_all add: new_def del: length_at_Ret\<close>)
  moreover have "map ((!) (shape t)) [0..<?n] = shape t" using sn(1) by (metis map_nth)
  ultimately have fill: "for_each (in_range 0 (dimensions t)) (\<lambda>i u. andThen (length_at t i) (\<lambda>x. setLength u i x)) new = Ret u"
    by (simp only: in_range_0 u_def)
  have d: "getDimensionType t \<noteq> CAFFE_C4" "f \<noteq> NC4HW4" by (auto simp: getDimensionType_def f_def)
  have "Tensor_like t (getDimensionType t) = for_each (in_range (dimensions u) 4) (\<lambda>i u. setLength u i 1) u"
    unfolding Tensor_like_def f_def [symmetric] new_def [symmetric] Let_def fill andThen.simps using d(1) by simp
  moreover have "tensor_ok u" "shape u = shape t" "ttype u = ttype t" "dimensionFormat u = f"
    using n sn(1) by (simp_all add: tensor_ok_def u_def new_def shape_def)
  ultimately show ?thesis using write_ones [of u "in_range (dimensions u) 4"] d(2) by (auto simp: in_range_def)
qed

end
