(* ===== verification/TN_Api_Tensors.thy ===== *)
theory TN_Api_Tensors
  imports TN_Api_Infer MNN_Tensor_Host
begin

text \<open>
  The inference call on the engine's own tensors (\<open>api.cpp\<close>, lines 424 to 450): the host tensor it fills is made by the constructor
  of \<open>Tensor.cpp\<close>, the number of bytes it writes comes from \<open>elementSize\<close>, and the two do not always agree.
\<close>

text \<open>
  The engine's tensor \<open>t\<close> is \<open>T\<close>: the number of elements it reports is that of \<open>Tensor::elementSize\<close>, and a host tensor made for it with
  its own dimension type has the bytes the constructor allocates.
\<close>

definition engine_tensor :: "('net, 'sess, 'tensor) mnn_env \<Rightarrow> 'sess \<Rightarrow> 'tensor \<Rightarrow> Tensor \<Rightarrow> bool" where
  "engine_tensor env s t T \<longleftrightarrow> tensor_ok T \<and> MNN_Tensor.elementSize T = Ret (mnn_env.elementSize env s t) \<and>
     andThen (Tensor_like T (getDimensionType T)) host_bytes = Ret (length (host_init env s t))"

text \<open>Extents whose rounded product fits four times into an \<open>int\<close>.\<close>

definition extents_small :: "Tensor \<Rightarrow> bool" where
  "extents_small T \<longleftrightarrow> (\<forall>l \<in> set (shape T). 0 < l) \<and> 4 * prod_list (stored_shape T) < 2 ^ 31"

lemma member_le_prod: "l \<in> set xs \<Longrightarrow> \<forall>l \<in> set xs. (0 :: int) < l \<Longrightarrow> l \<le> prod_list xs"
proof (induction xs)
  case (Cons x xs)
  have p: "1 \<le> prod_list xs" "1 \<le> x" using prod_list_pos [of xs] Cons.prems(2) by auto
  then show ?case using Cons mult_mono [of 1 x l "prod_list xs"] mult_left_mono [of 1 "prod_list xs" x] by auto
qed simp

lemma host_sizes:
  assumes T: "tensor_ok T" "extents_small T" and b: "0 < type_bytes (ttype T)" "type_bytes (ttype T) \<le> 4"
  shows "MNN_Tensor.elementSize T = Ret (prod_list (stored_shape T))"
    "andThen (Tensor_like T (getDimensionType T)) host_bytes = Ret (nat (int (type_bytes (ttype T)) * prod_list (shape T)))"
proof -
  have T2: "\<forall>l \<in> set (shape T). 0 < l" "4 * prod_list (stored_shape T) < 2 ^ 31" using T(2) by (auto simp: extents_small_def)
  note g = stored_grows(1) [OF T2(1)]
  have p: "0 < prod_list (shape T)" by (rule prod_list_pos [OF T2(1)])
  have l: "\<forall>l \<in> set (shape T). 0 \<le> l \<and> l + 3 < 2 ^ 31"
  proof
    fix l assume "l \<in> set (shape T)"
    then have "0 < l" "l \<le> prod_list (shape T)" using T2(1) member_le_prod by auto
    then show "0 \<le> l \<and> l + 3 < 2 ^ 31" using g T2(2) by simp
  qed
  have small: "int (type_bytes (ttype T)) * prod_list xs < 2 ^ 31" if "0 \<le> prod_list xs" "prod_list xs \<le> prod_list (stored_shape T)" for xs
    using mult_mono [of "int (type_bytes (ttype T))" 4 "prod_list xs" "prod_list (stored_shape T)"] b(2) that T2(2) by simp
  show "MNN_Tensor.elementSize T = Ret (prod_list (stored_shape T))"
    by (rule elementSize_eq [OF T(1) l b(1)]) (use p g small in auto)
  obtain H where H: "Tensor_like T (getDimensionType T) = Ret H" "tensor_ok H" "shape H = shape T" "ttype H = ttype T" "dimensionFormat H \<noteq> NC4HW4"
    using Tensor_like_eq [OF T(1)] by blast
  have st: "stored_shape H = shape T" using H by (simp add: stored_shape_def)
  have "tensor_size H = Ret (int (type_bytes (ttype H)) * prod_list (stored_shape H))"
    by (rule tensor_size_eq [OF H(2)]) (use l p g small [of "shape T"] H st in simp_all)
  then show "andThen (Tensor_like T (getDimensionType T)) host_bytes = Ret (nat (int (type_bytes (ttype T)) * prod_list (shape T)))"
    using b(1) H(1,4) p st by (simp add: host_bytes_def)
qed

lemma engine_sizes:
  assumes "engine_tensor env s t T" and "extents_small T" and "0 < type_bytes (ttype T)" "type_bytes (ttype T) \<le> 4"
  shows "mnn_env.elementSize env s t = prod_list (stored_shape T)"
    "int (length (host_init env s t)) = int (type_bytes (ttype T)) * prod_list (shape T)"
proof -
  have "tensor_ok T" and p: "0 < prod_list (shape T)"
    using assms(1,2) prod_list_pos [of "shape T"] by (auto simp: engine_tensor_def extents_small_def)
  note h = host_sizes [OF this(1) assms(2-4)]
  show "mnn_env.elementSize env s t = prod_list (stored_shape T)" using h(1) assms(1) by (simp add: engine_tensor_def)
  have "length (host_init env s t) = nat (int (type_bytes (ttype T)) * prod_list (shape T))" using h(2) assms(1) by (simp add: engine_tensor_def)
  then show "int (length (host_init env s t)) = int (type_bytes (ttype T)) * prod_list (shape T)" using p by simp
qed


text \<open>A float image with three channels in the layout NC4HW4: four elements, but a host tensor of twelve bytes.\<close>

definition packed_env :: "(unit, byte list, bool) mnn_env" where
  "packed_env = demo_env\<lparr>elementSize := \<lambda>_ _. 4, host_init := \<lambda>_ _. replicate 12 0\<rparr>"

definition packed_image :: Tensor where
  "packed_image = \<lparr>dimensions = 4, dim = [1, 3, 1, 1, 0, 0, 0, 0, 0], ttype = halide_float, dimensionFormat = NC4HW4, host = []\<rparr>"

lemma packed_facts:
  "tensor_ok packed_image" "shape packed_image = [1, 3, 1, 1]" "stored_shape packed_image = [1, 4, 1, 1]" "extents_small packed_image"
  "type_bytes (ttype packed_image) = 4" "dimensionFormat packed_image = NC4HW4"
proof -
  show s: "shape packed_image = [1, 3, 1, 1]" by (simp add: packed_image_def shape_def)
  show f: "dimensionFormat packed_image = NC4HW4" by (simp add: packed_image_def)
  show st: "stored_shape packed_image = [1, 4, 1, 1]" by (simp add: stored_shape_def s f)
  show "extents_small packed_image" by (simp add: extents_small_def s st)
  show "tensor_ok packed_image" by (simp add: tensor_ok_def MNN_MAX_TENSOR_DIM_def packed_image_def)
  show "type_bytes (ttype packed_image) = 4" by (simp add: type_bytes_def packed_image_def halide_float_def)
qed

lemma packed_described: "engine_tensor packed_env s t packed_image"
  using host_sizes [OF packed_facts(1,4)] by (simp add: engine_tensor_def packed_facts packed_env_def)

lemma packed_session:
  "\<exists>h' hnd. api_reach packed_env (\<lambda>_. True) (api_heap []) h' hnd \<and>
     tn_loader_get_model (Some ''net'') (loader hnd) = Some \<lparr>interpreter = Some (), session = Some [0, 0, 0, 0], model_size = 100\<rparr>"
proof -
  obtain hnd :: "(unit, byte list) tn_infer_handle" and h' x where
    c: "tn_infer_create (Some demo_config) (api_heap []) = (Some hnd, h')" and
    f: "initialized hnd" "model_count hnd = 0" "max_models hnd = 16" "models hnd = replicate 16 tn_model_info_zero"
     "loader hnd = Some x" "impl x = \<lparr>max_model_size = 536870912, l_models = []\<rparr>"
    using demo_create by blast
  have r: "api_reach packed_env (\<lambda>_. True) (api_heap []) h' hnd" by (rule created [OF api_heap_wf c])
  obtain hnd' where l: "tn_infer_load packed_env (Some hnd) (Some ''m.mnn'') (Some ''net'') = (TN_INFER_SUCCESS, Some hnd')"
    and m: "tn_loader_get_model (Some ''net'') (loader hnd') = Some \<lparr>interpreter = Some (), session = Some [0, 0, 0, 0], model_size = 100\<rparr>"
    using f by (simp add: tn_infer_load_def take_slot_def find_slot_def tn_loader_load_def ModelLoader_Load_def
        LoadFromFile_def packed_env_def demo_env_def CreateSession_def MNNWrapper_ctor_def GetModelSize_def
        tn_loader_get_model_def ModelLoader_GetModel_def Let_def word_less_nat_alt)
  have "api_reach packed_env (\<lambda>_. True) (api_heap []) h' hnd'" by (rule load [OF r _ l]) simp
  then show ?thesis using m by blast
qed


end
