(* ===== verification/MNN_Memory.thy ===== *)
theory MNN_Memory
  imports MNN_Wrapper
begin

unbundle bit_operations_syntax

text \<open>
  The engine's memory layer below its buffer allocators: aligned allocation
  (\<open>MNN/source/core/MNNMemoryUtils.cpp\<close>), \<open>MemChunk\<close>, the allocator interface with its
  default implementation, and the one-buffer holder \<open>SingleBufferWithAllocator\<close>
  (\<open>MNN/source/core/BufferAllocator.hpp\<close>, \<open>BufferAllocator.cpp\<close>). The C library's \<open>malloc\<close>
  and \<open>free\<close> are the heap of \<open>Uk_Heap\<close>, with addresses as natural numbers; \<open>c_words\<close> are
  the pointers stored in memory, by address.
\<close>

subsection \<open>Aligned allocation\<close>

record c_memory =
  c_heap :: uk_alloc
  c_words :: "addr \<Rightarrow> addr"

definition MNN_MEMORY_ALIGN_DEFAULT :: size_t where "MNN_MEMORY_ALIGN_DEFAULT = 64"

definition alignPointer :: "addr \<Rightarrow> size_t \<Rightarrow> addr" where
  "alignPointer ptr alignment = nat ((int ptr + uint alignment - 1) AND (- uint alignment))"

definition MNNMemoryAllocAlign :: "size_t \<Rightarrow> size_t \<Rightarrow> c_memory \<Rightarrow> addr option \<times> c_memory" where
  "MNNMemoryAllocAlign sz alignment m =
     (case uk_malloc (sz + 8 + alignment) (c_heap m) of
        (None, h) \<Rightarrow> (None, m\<lparr>c_heap := h\<rparr>)
      | (Some origin, h) \<Rightarrow>
          let aligned = alignPointer (origin + 8) alignment
          in (Some aligned, m\<lparr>c_heap := h, c_words := (c_words m)(aligned - 8 := origin)\<rparr>))"

definition MNNMemoryFreeAlign :: "addr option \<Rightarrow> c_memory \<Rightarrow> c_memory" where
  "MNNMemoryFreeAlign aligned m =
     (case aligned of None \<Rightarrow> m
      | Some a \<Rightarrow> m\<lparr>c_heap := uk_free (Some (c_words m (a - 8))) (c_heap m)\<rparr>)"

subsection \<open>Chunks and allocators\<close>

text \<open>
  A chunk points either to memory (\<open>chunk_first\<close> is the pointer) or to a node of a deferred
  allocator, by its number, whose address is known only later.
\<close>

record MemChunk =
  chunk_first :: "addr option"
  chunk_second :: size_t
  chunk_mNode :: "nat option"

definition MemChunk_null :: MemChunk where
  "MemChunk_null = \<lparr>chunk_first = None, chunk_second = 0, chunk_mNode = None\<rparr>"

definition MemChunk_ptr :: "addr option \<Rightarrow> size_t \<Rightarrow> MemChunk" where
  "MemChunk_ptr p offset = \<lparr>chunk_first = p, chunk_second = offset, chunk_mNode = None\<rparr>"

definition MemChunk_node :: "nat \<Rightarrow> MemChunk" where
  "MemChunk_node n = \<lparr>chunk_first = None, chunk_second = 0, chunk_mNode = Some n\<rparr>"

definition MemChunk_invalid :: "MemChunk \<Rightarrow> bool" where
  "MemChunk_invalid c \<longleftrightarrow> chunk_mNode c = None \<and> chunk_first c = None"

definition MemChunk_plus :: "MemChunk \<Rightarrow> size_t \<Rightarrow> MemChunk" where
  "MemChunk_plus c offset = c\<lparr>chunk_second := chunk_second c + offset\<rparr>"

text \<open>The interface \<open>BufferAllocator::Allocator\<close>: a pair of methods over the allocator's state.\<close>

record 'st Allocator =
  onAlloc :: "size_t \<Rightarrow> size_t \<Rightarrow> 'st \<Rightarrow> MemChunk \<times> 'st"
  onRelease :: "MemChunk \<Rightarrow> 'st \<Rightarrow> 'st"

definition Default_onAlloc :: "size_t \<Rightarrow> size_t \<Rightarrow> c_memory \<Rightarrow> MemChunk \<times> c_memory" where
  "Default_onAlloc sz align m =
     (case MNNMemoryAllocAlign sz MNN_MEMORY_ALIGN_DEFAULT m of (p, m') \<Rightarrow> (MemChunk_ptr p 0, m'))"

definition Default_onRelease :: "MemChunk \<Rightarrow> c_memory \<Rightarrow> c_memory" where
  "Default_onRelease c m = MNNMemoryFreeAlign (chunk_first c) m"

definition DefaultAllocator :: "c_memory Allocator" where
  "DefaultAllocator = \<lparr>onAlloc = Default_onAlloc, onRelease = Default_onRelease\<rparr>"

text \<open>\<open>RecurseAllocator\<close>: an allocator made of a buffer allocator's \<open>alloc\<close> and \<open>free\<close>.\<close>

definition RecurseAllocator ::
    "(size_t \<Rightarrow> bool \<Rightarrow> size_t \<Rightarrow> 'st \<Rightarrow> MemChunk \<times> 'st) \<Rightarrow> (MemChunk \<Rightarrow> 'st \<Rightarrow> bool \<times> 'st) \<Rightarrow> 'st Allocator" where
  "RecurseAllocator parent_alloc parent_free =
     \<lparr>onAlloc = (\<lambda>sz align. parent_alloc sz False align), onRelease = (\<lambda>c s. snd (parent_free c s))\<rparr>"

subsection \<open>A single buffer\<close>

record SingleBuffer =
  current :: MemChunk
  currentSize :: size_t

definition SingleBuffer_empty :: SingleBuffer where
  "SingleBuffer_empty = \<lparr>current = MemChunk_null, currentSize = 0\<rparr>"

definition SingleBuffer_release :: "'st Allocator \<Rightarrow> SingleBuffer \<Rightarrow> 'st \<Rightarrow> SingleBuffer \<times> 'st" where
  "SingleBuffer_release root b s =
     (if chunk_first (current b) \<noteq> None
      then (b\<lparr>current := (current b)\<lparr>chunk_first := None, chunk_second := 0\<rparr>, currentSize := 0\<rparr>,
            onRelease root (current b) s)
      else (b, s))"

definition SingleBuffer_realloc ::
    "'st Allocator \<Rightarrow> size_t \<Rightarrow> size_t \<Rightarrow> SingleBuffer \<Rightarrow> 'st \<Rightarrow> ErrorCode \<times> SingleBuffer \<times> 'st" where
  "SingleBuffer_realloc root sz align b s =
     (if currentSize b < sz then
        let s1 = (if chunk_first (current b) \<noteq> None then onRelease root (current b) s else s)
        in case onAlloc root sz align s1 of
             (c, s2) \<Rightarrow>
               let b1 = b\<lparr>current := c\<rparr>
               in if chunk_first c = None then (OUT_OF_MEMORY, b1, s2)
                  else (NO_ERROR, b1\<lparr>currentSize := sz\<rparr>, s2)
      else (NO_ERROR, b, s))"

section \<open>Properties\<close>

lemma int_and_minus_power: "(x :: int) AND - (2 ^ k) = x - x mod 2 ^ k"
proof -
  have "x AND - (2 ^ k) = push_bit k (drop_bit k x)"
    by (rule bit_eqI) (auto simp: minus_exp_eq_not_mask bit_simps)
  then show ?thesis by (simp add: push_bit_eq_mult drop_bit_eq_div minus_mod_eq_div_mult)
qed

lemma alignPointer_power:
  assumes "unat alignment = 2 ^ k"
  shows "p \<le> alignPointer p alignment" "alignPointer p alignment < p + 2 ^ k" "2 ^ k dvd alignPointer p alignment"
proof -
  let ?n = "p + 2 ^ k - 1"
  have "uint alignment = 2 ^ k" using assms by (metis of_nat_numeral of_nat_power uint_nat)
  moreover have "1 \<le> p + 2 ^ k" by (simp add: Suc_leI)
  then have "int ?n = int p + 2 ^ k - 1" by (subst of_nat_diff) simp_all
  ultimately have "alignPointer p alignment = nat (int ?n - int ?n mod 2 ^ k)"
    by (simp add: alignPointer_def int_and_minus_power)
  also have "int j - int j mod 2 ^ k = int (j - j mod 2 ^ k)" for j
    by (simp add: of_nat_diff zmod_int)
  finally have r: "alignPointer p alignment = ?n - ?n mod 2 ^ k" by simp
  have m: "?n mod 2 ^ k < 2 ^ k" by simp
  show "p \<le> alignPointer p alignment" "alignPointer p alignment < p + 2 ^ k"
    unfolding r using m by linarith+
  show "2 ^ k dvd alignPointer p alignment" unfolding r by (rule dvd_minus_mod)
qed

text \<open>
  A pointer handed out for \<open>n\<close> bytes at \<open>alignment\<close>: it is aligned, its word in front
  names a live block, and the \<open>n\<close> bytes lie inside that block, after that word.
\<close>

definition aligned_block :: "c_memory \<Rightarrow> nat \<Rightarrow> addr \<Rightarrow> nat \<Rightarrow> bool" where
  "aligned_block m k a n \<longleftrightarrow> 2 ^ k dvd a \<and>
     (\<exists>bs. blocks (c_heap m) (c_words m (a - 8)) = Some bs \<and> c_words m (a - 8) + 8 \<le> a \<and>
        a + n \<le> c_words m (a - 8) + unat bs)"

lemma alloc_align_Some:
  assumes "heap_wf (c_heap m)" and "unat alignment = 2 ^ k" and "unat sz + 8 + 2 ^ k < 2 ^ 64"
    and "MNNMemoryAllocAlign sz alignment m = (Some a, m')"
  shows "aligned_block m' k a (unat sz)" "gained (c_heap m) (c_heap m') {c_words m' (a - 8)}"
    "c_words m' = (c_words m)(a - 8 := c_words m' (a - 8))" "a = alignPointer (c_words m' (a - 8) + 8) alignment"
proof -
  obtain origin h where h: "uk_malloc (sz + 8 + alignment) (c_heap m) = (Some origin, h)"
    and a: "a = alignPointer (origin + 8) alignment" and m': "m' = m\<lparr>c_heap := h, c_words := (c_words m)(a - 8 := origin)\<rparr>"
    using assms(4) by (auto simp: MNNMemoryAllocAlign_def Let_def split: prod.splits option.splits)
  have "unat (sz + 8) = unat sz + 8" using assms(3) unat_add_no_wrap [of sz 8] by simp
  then have bs: "unat (sz + 8 + alignment) = unat sz + 8 + 2 ^ k"
    using assms(2,3) unat_add_no_wrap [of "sz + 8" alignment] by simp
  note g = uk_malloc_Some [OF assms(1) h]
  note p = alignPointer_power [OF assms(2), of "origin + 8", folded a]
  have w: "c_words m' (a - 8) = origin" using m' by simp
  show "aligned_block m' k a (unat sz)"
    unfolding aligned_block_def w using g(2) m' p bs by simp
  show "gained (c_heap m) (c_heap m') {c_words m' (a - 8)}" using g(1) m' by simp
  show "c_words m' = (c_words m)(a - 8 := c_words m' (a - 8))" "a = alignPointer (c_words m' (a - 8) + 8) alignment"
    using m' a by simp_all
qed

text \<open>
  C33: aligned allocation. For a power-of-two alignment and a request that does not overflow,
  a returned pointer is aligned, the requested bytes and the word in front of it lie inside
  one block that was newly allocated, and \<open>MNNMemoryFreeAlign\<close> gives exactly that block back.
\<close>

theorem alloc_align_roundtrip:
  assumes "heap_wf (c_heap m)" and "unat alignment = 2 ^ k" and "unat sz + 8 + 2 ^ k < 2 ^ 64"
    and "MNNMemoryAllocAlign sz alignment m = (Some a, m')"
  shows "aligned_block m' k a (unat sz) \<and> gained (c_heap m) (c_heap m') {c_words m' (a - 8)} \<and>
    gained (c_heap m) (c_heap (MNNMemoryFreeAlign (Some a) m')) {}"
proof -
  note al = alloc_align_Some [OF assms]
  have "lost (c_heap m') (c_heap (MNNMemoryFreeAlign (Some a) m')) {c_words m' (a - 8)}"
    using uk_free_lost [OF gained_wf [OF al(2)]] al(2) by (auto simp: MNNMemoryFreeAlign_def gained_def)
  then have "gained (c_heap m) (c_heap (MNNMemoryFreeAlign (Some a) m')) {}"
    using gained_lost [OF al(2), of _ "{c_words m' (a - 8)}" "{}"] by simp
  then show ?thesis using al by blast
qed

definition demo_memory :: c_memory where
  "demo_memory = \<lparr>c_heap = demo_heap, c_words = (\<lambda>_. 0)\<rparr>"

theorem alloc_align_roundtrip_witness:
  "\<exists>m'. MNNMemoryAllocAlign 100 64 demo_memory = (Some 64, m') \<and> aligned_block m' 6 64 100 \<and>
     gained demo_heap (c_heap (MNNMemoryFreeAlign (Some 64) m')) {}"
proof -
  obtain m' where a: "MNNMemoryAllocAlign 100 64 demo_memory = (Some 64, m')"
    by (simp add: MNNMemoryAllocAlign_def demo_memory_def tn_defs demo_heap_def alignPointer_def Let_def)
  have "heap_wf (c_heap demo_memory)" by (simp add: demo_memory_def)
  then show ?thesis using a alloc_align_roundtrip [OF _ _ _ a, of 6] by (simp add: demo_memory_def)
qed

subsection \<open>The allocator interface\<close>

text \<open>
  What a client may rely on: \<open>live s c n\<close> says that chunk \<open>c\<close> holds \<open>n\<close> bytes. A chunk that
  \<open>alloc\<close> returns with a pointer holds the bytes asked for (when \<open>fits\<close> allows the size) and
  shares its pointer with no other live chunk; allocation and release leave the other live
  chunks alone.
\<close>

locale chunk_source =
  fixes alloc :: "size_t \<Rightarrow> size_t \<Rightarrow> 'st \<Rightarrow> MemChunk \<times> 'st"
    and rel :: "MemChunk \<Rightarrow> 'st \<Rightarrow> 'st"
    and wf :: "'st \<Rightarrow> bool"
    and live :: "'st \<Rightarrow> MemChunk \<Rightarrow> nat \<Rightarrow> bool"
    and fits :: "size_t \<Rightarrow> bool"
  assumes alloc_wf: "wf s \<Longrightarrow> alloc n al s = (c, s') \<Longrightarrow> fits n \<Longrightarrow> wf s'"
    and alloc_live: "wf s \<Longrightarrow> alloc n al s = (c, s') \<Longrightarrow> fits n \<Longrightarrow> chunk_first c \<noteq> None \<Longrightarrow> live s' c (unat n)"
    and alloc_new: "wf s \<Longrightarrow> alloc n al s = (c, s') \<Longrightarrow> fits n \<Longrightarrow> chunk_first c \<noteq> None \<Longrightarrow> live s d k \<Longrightarrow>
      chunk_first d \<noteq> chunk_first c"
    and alloc_keeps: "wf s \<Longrightarrow> alloc n al s = (c, s') \<Longrightarrow> fits n \<Longrightarrow> live s d k \<Longrightarrow> live s' d k"
    and rel_wf: "wf s \<Longrightarrow> live s c k \<Longrightarrow> wf (rel c s)"
    and rel_keeps: "wf s \<Longrightarrow> live s c j \<Longrightarrow> live s d k \<Longrightarrow> chunk_first d \<noteq> chunk_first c \<Longrightarrow> live (rel c s) d k"
begin

text \<open>
  A buffer that has a pointer has a live chunk of \<open>currentSize\<close> bytes; \<open>sound\<close> adds that a
  buffer without a pointer claims no bytes.
\<close>

definition holds :: "'st \<Rightarrow> SingleBuffer \<Rightarrow> bool" where
  "holds s b \<longleftrightarrow> (chunk_first (current b) \<noteq> None \<longrightarrow> live s (current b) (unat (currentSize b)))"

definition sound :: "SingleBuffer \<Rightarrow> bool" where
  "sound b \<longleftrightarrow> (chunk_first (current b) = None \<longrightarrow> currentSize b = 0)"

lemma release_holds:
  assumes "wf s" and "holds s b" and "SingleBuffer_release \<lparr>onAlloc = alloc, onRelease = rel\<rparr> b s = (b', s')"
  shows "wf s'" "holds s' b'" "sound b \<Longrightarrow> sound b'"
  using assms rel_wf by (auto simp: SingleBuffer_release_def holds_def sound_def split: if_splits)

lemma realloc_holds:
  assumes "wf s" and "holds s b" and "fits n"
    and "SingleBuffer_realloc \<lparr>onAlloc = alloc, onRelease = rel\<rparr> n al b s = (e, b', s')"
  shows "wf s'" "holds s' b'" "sound b \<Longrightarrow> e = NO_ERROR \<Longrightarrow> sound b' \<and> (0 < n \<longrightarrow> chunk_first (current b') \<noteq> None) \<and> n \<le> currentSize b'"
    "e = NO_ERROR \<or> e = OUT_OF_MEMORY \<and> chunk_first (current b') = None"
proof -
  let ?s1 = "if chunk_first (current b) \<noteq> None then rel (current b) s else s"
  have w1: "wf ?s1" using assms(1,2) rel_wf by (auto simp: holds_def)
  show "wf s'" "holds s' b'"
    using assms(1,2,4) alloc_wf [OF w1 _ assms(3)] alloc_live [OF w1 _ assms(3)]
    by (auto simp: SingleBuffer_realloc_def holds_def Let_def split: if_splits prod.splits)
  show "sound b' \<and> (0 < n \<longrightarrow> chunk_first (current b') \<noteq> None) \<and> n \<le> currentSize b'" if "sound b" "e = NO_ERROR"
    using that assms(4) by (auto simp: SingleBuffer_realloc_def sound_def Let_def not_less split: if_splits prod.splits)
  show "e = NO_ERROR \<or> e = OUT_OF_MEMORY \<and> chunk_first (current b') = None"
    using assms(4) by (auto simp: SingleBuffer_realloc_def Let_def split: if_splits prod.splits)
qed

lemma realloc_live:
  assumes "wf s" and "holds s b" and "sound b" and "fits n" and "0 < n"
    and "SingleBuffer_realloc \<lparr>onAlloc = alloc, onRelease = rel\<rparr> n al b s = (NO_ERROR, b', s')"
  shows "live s' (current b') (unat (currentSize b'))" "n \<le> currentSize b'"
  using realloc_holds [OF assms(1,2,4,6)] assms(3,5) by (auto simp: holds_def)

end

text \<open>The default allocator provides that interface on the C heap.\<close>

definition default_live :: "c_memory \<Rightarrow> MemChunk \<Rightarrow> nat \<Rightarrow> bool" where
  "default_live m c n \<longleftrightarrow> (\<exists>a. chunk_first c = Some a \<and> aligned_block m 6 a n \<and>
     a = alignPointer (c_words m (a - 8) + 8) MNN_MEMORY_ALIGN_DEFAULT)"

definition default_fits :: "size_t \<Rightarrow> bool" where
  "default_fits n \<longleftrightarrow> unat n + 72 < 2 ^ 64"

lemma default_alloc_Some:
  assumes "heap_wf (c_heap m)" and "Default_onAlloc n al m = (c, m')" and "default_fits n" and "chunk_first c = Some a"
  shows "aligned_block m' 6 a (unat n)" "gained (c_heap m) (c_heap m') {c_words m' (a - 8)}"
    "c_words m' = (c_words m)(a - 8 := c_words m' (a - 8))"
    "a = alignPointer (c_words m' (a - 8) + 8) MNN_MEMORY_ALIGN_DEFAULT"
proof -
  have "MNNMemoryAllocAlign n MNN_MEMORY_ALIGN_DEFAULT m = (Some a, m')"
    using assms(2,4) by (auto simp: Default_onAlloc_def MemChunk_ptr_def split: prod.splits)
  note al = alloc_align_Some [OF assms(1) _ _ this, of 6]
  show "aligned_block m' 6 a (unat n)" "gained (c_heap m) (c_heap m') {c_words m' (a - 8)}"
    "c_words m' = (c_words m)(a - 8 := c_words m' (a - 8))"
    "a = alignPointer (c_words m' (a - 8) + 8) MNN_MEMORY_ALIGN_DEFAULT"
    using al assms(3) by (simp_all add: MNN_MEMORY_ALIGN_DEFAULT_def default_fits_def)
qed

lemma default_alloc_None:
  assumes "heap_wf (c_heap m)" and "Default_onAlloc n al m = (c, m')" and "chunk_first c = None"
  shows "gained (c_heap m) (c_heap m') {}" "c_words m' = c_words m"
  using assms uk_malloc_None [OF assms(1)]
  by (auto simp: Default_onAlloc_def MNNMemoryAllocAlign_def MemChunk_ptr_def Let_def split: prod.splits option.splits)

text \<open>The word in front of a live chunk lies below the heap's break, a new chunk above it.\<close>

lemma aligned_block_below:
  assumes "heap_wf (c_heap m)" and "aligned_block m k a n"
  shows "a \<le> brk (c_heap m)"
  using assms unfolding aligned_block_def heap_wf_def by (meson add_leD1 le_trans)

lemma default_live_keeps:
  assumes "heap_wf (c_heap m)" and "default_live m d k" and "Default_onAlloc n al m = (c, m')" and "default_fits n"
  shows "default_live m' d k" "chunk_first c \<noteq> None \<Longrightarrow> chunk_first d \<noteq> chunk_first c"
proof -
  obtain b where b: "chunk_first d = Some b" "aligned_block m 6 b k"
    "b = alignPointer (c_words m (b - 8) + 8) MNN_MEMORY_ALIGN_DEFAULT" using assms(2) by (auto simp: default_live_def)
  have bb: "b \<le> brk (c_heap m)" by (rule aligned_block_below [OF assms(1) b(2)])
  have keep: "default_live m' d k" if "c_words m' (b - 8) = c_words m (b - 8)" "gained (c_heap m) (c_heap m') A" for A
  proof -
    have "blocks (c_heap m') p = blocks (c_heap m) p" if "p \<in> dom (blocks (c_heap m))" for p
      using \<open>gained (c_heap m) (c_heap m') A\<close> that unfolding gained_def by (metis Compl_iff IntI empty_iff restrict_in)
    then show ?thesis using b that(1) unfolding default_live_def aligned_block_def by (auto simp: domIff)
  qed
  have "default_live m' d k \<and> (chunk_first c \<noteq> None \<longrightarrow> chunk_first d \<noteq> chunk_first c)"
  proof (cases "chunk_first c")
    case None
    then show ?thesis using keep default_alloc_None [OF assms(1,3)] by simp
  next
    case (Some a)
    note al = default_alloc_Some [OF assms(1,3,4) Some]
    have "brk (c_heap m) \<le> c_words m' (a - 8)" using al(2) by (simp add: gained_def)
    moreover have "c_words m' (a - 8) + 8 \<le> a" using al(1) by (auto simp: aligned_block_def)
    ultimately have "brk (c_heap m) + 8 \<le> a" by simp
    moreover have "8 \<le> b" using b(2) by (auto simp: aligned_block_def)
    ultimately have ne: "b - 8 \<noteq> a - 8" "b \<noteq> a" using bb by auto
    then have "c_words m' (b - 8) = c_words m (b - 8)" by (subst al(3)) simp
    then show ?thesis using keep al(2) ne b(1) Some by simp
  qed
  then show "default_live m' d k" "chunk_first c \<noteq> None \<Longrightarrow> chunk_first d \<noteq> chunk_first c" by auto
qed

interpretation ds: chunk_source Default_onAlloc Default_onRelease "\<lambda>m. heap_wf (c_heap m)" default_live default_fits
proof
  fix m n al c m'
  assume w: "heap_wf (c_heap m)" and a: "Default_onAlloc n al m = (c, m')" and f: "default_fits n"
  show "heap_wf (c_heap m')"
    using default_alloc_Some(2) [OF w a f] default_alloc_None(1) [OF w a] by (cases "chunk_first c") auto
  show "chunk_first c \<noteq> None \<Longrightarrow> default_live m' c (unat n)"
    using default_alloc_Some [OF w a f] by (auto simp: default_live_def)
  show "chunk_first d \<noteq> chunk_first c" if "chunk_first c \<noteq> None" "default_live m d k" for d k
    by (rule default_live_keeps(2) [OF w that(2) a f that(1)])
  show "default_live m d k \<Longrightarrow> default_live m' d k" for d k by (rule default_live_keeps(1) [OF w _ a f])
next
  fix m c n
  assume w: "heap_wf (c_heap m)" and l: "default_live m c n"
  obtain a where a: "chunk_first c = Some a" "aligned_block m 6 a n"
    "a = alignPointer (c_words m (a - 8) + 8) MNN_MEMORY_ALIGN_DEFAULT" using l by (auto simp: default_live_def)
  have los: "lost (c_heap m) (c_heap (Default_onRelease c m)) {c_words m (a - 8)}"
    using uk_free_lost [OF w] a by (auto simp: Default_onRelease_def MNNMemoryFreeAlign_def aligned_block_def)
  then show "heap_wf (c_heap (Default_onRelease c m))" by blast
  show "default_live (Default_onRelease c m) d k" if dl: "default_live m d k" and ne: "chunk_first d \<noteq> chunk_first c" for d k
  proof -
    obtain b where b: "chunk_first d = Some b" "aligned_block m 6 b k"
      "b = alignPointer (c_words m (b - 8) + 8) MNN_MEMORY_ALIGN_DEFAULT" using dl by (auto simp: default_live_def)
    have "c_words m (b - 8) \<noteq> c_words m (a - 8)" using a b ne by metis
    moreover have "c_words (Default_onRelease c m) = c_words m"
      using a(1) by (simp add: Default_onRelease_def MNNMemoryFreeAlign_def)
    ultimately show ?thesis using b los unfolding default_live_def aligned_block_def lost_def by auto
  qed
qed

subsection \<open>A single buffer on the default allocator\<close>

text \<open>The states of a buffer as long as no reallocation has failed.\<close>

inductive buffer_reach :: "c_memory \<Rightarrow> SingleBuffer \<Rightarrow> bool" where
  empty: "heap_wf (c_heap m) \<Longrightarrow> buffer_reach m SingleBuffer_empty"
| realloc: "buffer_reach m b \<Longrightarrow> default_fits n \<Longrightarrow>
    SingleBuffer_realloc DefaultAllocator n al b m = (NO_ERROR, b', m') \<Longrightarrow> buffer_reach m' b'"
| release: "buffer_reach m b \<Longrightarrow> SingleBuffer_release DefaultAllocator b m = (b', m') \<Longrightarrow> buffer_reach m' b'"

lemma buffer_reach_holds: "buffer_reach m b \<Longrightarrow> heap_wf (c_heap m) \<and> ds.holds m b \<and> ds.sound b"
proof (induction rule: buffer_reach.induct)
  case (empty m)
  then show ?case by (simp add: ds.holds_def ds.sound_def SingleBuffer_empty_def MemChunk_null_def)
next
  case (realloc m b n al b' m')
  then show ?case using ds.realloc_holds [of m b n al NO_ERROR b' m'] by (simp add: DefaultAllocator_def)
next
  case (release m b b' m')
  then show ?case using ds.release_holds [of m b b' m'] by (simp add: DefaultAllocator_def)
qed

text \<open>
  C34: growing the buffer. From any state reached without a failed reallocation, a
  reallocation to \<open>n > 0\<close> bytes that reports success leaves a buffer of at least \<open>n\<close> bytes,
  aligned to 64, inside one live block of the heap; a failure reports \<open>OUT_OF_MEMORY\<close> and
  leaves the buffer without a pointer.
\<close>

theorem single_buffer_grows:
  assumes "buffer_reach m b" and "default_fits n" and "0 < n"
    and "SingleBuffer_realloc DefaultAllocator n al b m = (e, b', m')"
  shows "heap_wf (c_heap m') \<and>
    (e = NO_ERROR \<and> n \<le> currentSize b' \<and>
       (\<exists>a. chunk_first (current b') = Some a \<and> aligned_block m' 6 a (unat (currentSize b'))) \<or>
     e = OUT_OF_MEMORY \<and> chunk_first (current b') = None)"
proof -
  note inv = buffer_reach_holds [OF assms(1)]
  note r = ds.realloc_holds [of m b n al e b' m'] ds.realloc_live [of m b n al b' m']
  show ?thesis using inv assms(2-4) r by (auto simp: DefaultAllocator_def default_live_def)
qed

theorem single_buffer_grows_witness:
  "\<exists>b' m' a. SingleBuffer_realloc DefaultAllocator 100 64 SingleBuffer_empty demo_memory = (NO_ERROR, b', m') \<and>
     chunk_first (current b') = Some a \<and> aligned_block m' 6 a 100"
proof -
  obtain b' m' where r: "SingleBuffer_realloc DefaultAllocator 100 64 SingleBuffer_empty demo_memory = (NO_ERROR, b', m')"
    and c: "currentSize b' = 100"
    by (simp add: SingleBuffer_realloc_def DefaultAllocator_def Default_onAlloc_def SingleBuffer_empty_def MemChunk_null_def
        MNNMemoryAllocAlign_def MemChunk_ptr_def demo_memory_def tn_defs demo_heap_def MNN_MEMORY_ALIGN_DEFAULT_def Let_def)
  have b: "buffer_reach demo_memory SingleBuffer_empty" by (rule empty) (simp add: demo_memory_def)
  show ?thesis using r c single_buffer_grows [OF b _ _ r] by (auto simp: default_fits_def)
qed

text \<open>
  A failed reallocation is not remembered. \<open>realloc\<close> drops the old chunk but keeps the old
  \<open>currentSize\<close>, so when memory runs out the next request for no more than the old size
  reports success although the buffer has no pointer.
\<close>

theorem single_buffer_forgets_failure:
  "\<exists>b1 m1 b2 m2. let m0 = \<lparr>c_heap = demo_heap\<lparr>oom := [False, True]\<rparr>, c_words = (\<lambda>_. 0)\<rparr> in
     SingleBuffer_realloc DefaultAllocator 100 64 SingleBuffer_empty m0 = (NO_ERROR, b1, m1) \<and>
     SingleBuffer_realloc DefaultAllocator 200 64 b1 m1 = (OUT_OF_MEMORY, b2, m2) \<and>
     SingleBuffer_realloc DefaultAllocator 50 64 b2 m2 = (NO_ERROR, b2, m2) \<and> chunk_first (current b2) = None"
  by (simp add: SingleBuffer_realloc_def DefaultAllocator_def Default_onAlloc_def SingleBuffer_empty_def MemChunk_null_def
      Default_onRelease_def MNNMemoryFreeAlign_def
      MNNMemoryAllocAlign_def MemChunk_ptr_def tn_defs demo_heap_def MNN_MEMORY_ALIGN_DEFAULT_def Let_def)

end
