(* ===== verification/MNN_Defer.thy ===== *)
theory MNN_Defer
  imports MNN_Memory
begin

text \<open>
  The deferred buffer allocator (\<open>DeferBufferAllocator\<close> in
  \<open>MNN/source/core/BufferAllocator.cpp\<close>). It plans the memory of a network before any memory
  exists: chunks are nodes of a doubly linked list, in address order; a freed node is fused
  with free neighbours, the absorbed node becoming a child with an offset relative to its
  parent; \<open>compute\<close> lays the list out, adds the offsets down the tree and gets one buffer for
  all. Nodes are numbered by their position in \<open>mChunks\<close>, which only grows; pointers to
  nodes are these numbers. \<open>host\<close> maps a tensor to the address \<open>mApplyFunction\<close> gave it.
\<close>

record MemNode =
  n_size :: size_t
  n_offset :: size_t
  n_base :: "addr option"
  usage :: bool
  n_left :: "nat option"
  n_right :: "nat option"
  children :: "nat list"
  tensors :: "nat list"

definition MemNode_new :: "size_t \<Rightarrow> MemNode" where
  "MemNode_new s = \<lparr>n_size = s, n_offset = 0, n_base = None, usage = True, n_left = None, n_right = None,
     children = [], tensors = []\<rparr>"

type_synonym tensor_hosts = "nat \<Rightarrow> addr option"

type_synonym apply_fn = "addr option \<Rightarrow> size_t \<Rightarrow> nat \<Rightarrow> tensor_hosts \<Rightarrow> tensor_hosts"

record Defer =
  mTotalSize :: size_t
  mChunks :: "MemNode list"
  mHead :: "nat option"
  mTail :: "nat option"
  mFreeList :: "nat list"
  mPtr :: MemChunk
  mAlign :: size_t
  mBarrier :: bool
  mBarrierFreeChunks :: "MemChunk list"
  mApplyFunction :: apply_fn

definition plus_ptr :: "addr option \<Rightarrow> size_t \<Rightarrow> addr option" where
  "plus_ptr p n = map_option (\<lambda>a. a + unat n) p"

definition CPUMemChunkApplyToTensor :: apply_fn where
  "CPUMemChunkApplyToTensor ptr offset t host = host(t := plus_ptr ptr offset)"

definition Defer_ctor :: "size_t \<Rightarrow> apply_fn option \<Rightarrow> Defer" where
  "Defer_ctor align func = \<lparr>mTotalSize = 0, mChunks = [], mHead = None, mTail = None, mFreeList = [],
     mPtr = MemChunk_null, mAlign = align, mBarrier = False, mBarrierFreeChunks = [],
     mApplyFunction = (case func of None \<Rightarrow> CPUMemChunkApplyToTensor | Some f \<Rightarrow> f)\<rparr>"

definition node :: "Defer \<Rightarrow> nat \<Rightarrow> MemNode" where
  "node d i = mChunks d ! i"

definition upd_node :: "nat \<Rightarrow> (MemNode \<Rightarrow> MemNode) \<Rightarrow> Defer \<Rightarrow> Defer" where
  "upd_node i f d = d\<lparr>mChunks := (mChunks d)[i := f (mChunks d ! i)]\<rparr>"

subsection \<open>Chunks that are nodes\<close>

definition MemChunk_base :: "Defer \<Rightarrow> MemChunk \<Rightarrow> addr option" where
  "MemChunk_base d c = (case chunk_mNode c of Some n \<Rightarrow> n_base (node d n) | None \<Rightarrow> chunk_first c)"

definition MemChunk_offset :: "Defer \<Rightarrow> MemChunk \<Rightarrow> size_t" where
  "MemChunk_offset d c =
     (case chunk_mNode c of Some n \<Rightarrow> n_offset (node d n) + chunk_second c | None \<Rightarrow> chunk_second c)"

definition MemChunk_attach :: "nat \<Rightarrow> MemChunk \<Rightarrow> Defer \<Rightarrow> Defer" where
  "MemChunk_attach tensor c d =
     (case chunk_mNode c of Some n \<Rightarrow> upd_node n (\<lambda>x. x\<lparr>tensors := tensors x @ [tensor]\<rparr>) d | None \<Rightarrow> d)"

definition MemChunk_address :: "Defer \<Rightarrow> MemChunk \<Rightarrow> addr option" where
  "MemChunk_address d c =
     (case chunk_mNode c of
        Some n \<Rightarrow> plus_ptr (plus_ptr (n_base (node d n)) (n_offset (node d n))) (chunk_second c)
      | None \<Rightarrow> plus_ptr (chunk_first c) (chunk_second c))"

subsection \<open>The list of nodes and the free list\<close>

definition createMemNode :: "size_t \<Rightarrow> Defer \<Rightarrow> nat \<times> Defer" where
  "createMemNode s d = (length (mChunks d), d\<lparr>mChunks := mChunks d @ [MemNode_new s]\<rparr>)"

definition insert_after :: "nat \<Rightarrow> nat option \<Rightarrow> Defer \<Rightarrow> Defer" where
  "insert_after chunk pos d =
     (case pos of
        Some p \<Rightarrow>
          let right = n_right (node d p);
              d1 = (case right of Some r \<Rightarrow> upd_node r (\<lambda>x. x\<lparr>n_left := Some chunk\<rparr>) d | None \<Rightarrow> d);
              d2 = upd_node chunk (\<lambda>x. x\<lparr>n_right := right, n_left := Some p\<rparr>) d1;
              d3 = upd_node p (\<lambda>x. x\<lparr>n_right := Some chunk\<rparr>) d2
          in if Some p = mTail d3 then d3\<lparr>mTail := Some chunk\<rparr> else d3
      | None \<Rightarrow>
          (case mTail d of
             Some t \<Rightarrow>
               (upd_node chunk (\<lambda>x. x\<lparr>n_left := Some t\<rparr>) (upd_node t (\<lambda>x. x\<lparr>n_right := Some chunk\<rparr>) d))
                 \<lparr>mTail := Some chunk\<rparr>
           | None \<Rightarrow> d\<lparr>mHead := Some chunk, mTail := Some chunk\<rparr>))"

definition erase_node :: "nat \<Rightarrow> Defer \<Rightarrow> Defer" where
  "erase_node chunk d =
     (case (n_left (node d chunk), n_right (node d chunk)) of
        (Some l, Some r) \<Rightarrow>
          upd_node r (\<lambda>x. x\<lparr>n_left := Some l\<rparr>) (upd_node l (\<lambda>x. x\<lparr>n_right := Some r\<rparr>) d)
      | (Some l, None) \<Rightarrow> (upd_node l (\<lambda>x. x\<lparr>n_right := None\<rparr>) d)\<lparr>mTail := Some l\<rparr>
      | (None, Some r) \<Rightarrow> (upd_node r (\<lambda>x. x\<lparr>n_left := None\<rparr>) d)\<lparr>mHead := Some r\<rparr>
      | (None, None) \<Rightarrow> d\<lparr>mHead := None, mTail := None\<rparr>)"

definition fuse_to_left :: "nat \<Rightarrow> nat \<Rightarrow> Defer \<Rightarrow> Defer" where
  "fuse_to_left left right d =
     (let d1 = upd_node right (\<lambda>x. x\<lparr>n_offset := n_size (node d left)\<rparr>) d;
          d2 = upd_node left (\<lambda>x. x\<lparr>n_size := n_size x + n_size (node d1 right)\<rparr>) d1;
          d3 = upd_node left (\<lambda>x. x\<lparr>children := children x @ [right]\<rparr>) d2
      in erase_node right d3)"

text \<open>
  \<open>mFreeList\<close> is a multiset ordered by size, here a list in that order: \<open>insert\<close> puts a node
  behind those that are not larger, \<open>lower_bound\<close> finds the first that is not smaller, and a
  node that is listed is found in the range of its size.
\<close>

definition insertFree :: "nat \<Rightarrow> Defer \<Rightarrow> Defer" where
  "insertFree chunk d =
     (let small = (\<lambda>i. n_size (node d i) \<le> n_size (node d chunk))
      in d\<lparr>mFreeList := takeWhile small (mFreeList d) @ chunk # dropWhile small (mFreeList d)\<rparr>)"

definition eraseFree :: "nat \<Rightarrow> Defer \<Rightarrow> Defer" where
  "eraseFree chunk d = d\<lparr>mFreeList := remove1 chunk (mFreeList d)\<rparr>"

definition UP_DIV :: "size_t \<Rightarrow> size_t \<Rightarrow> size_t" where
  "UP_DIV x y = (x + y - 1) div y"

subsection \<open>Operations\<close>

definition Defer_alloc :: "size_t \<Rightarrow> bool \<Rightarrow> size_t \<Rightarrow> Defer \<Rightarrow> ub + (MemChunk \<times> Defer)" where
  "Defer_alloc sz0 separate align0 d =
     (let align = (if align0 = 0 then mAlign d else align0)
      in if align = 0 then Inl DivByZero
         else
           let sz = UP_DIV sz0 align * align
           in if mFreeList d = [] \<or> separate then
                (case createMemNode sz d of (n, d1) \<Rightarrow> Inr (MemChunk_node n, insert_after n None d1))
              else
                let select = (case find (\<lambda>i. sz \<le> n_size (node d i)) (mFreeList d) of
                                Some i \<Rightarrow> i | None \<Rightarrow> last (mFreeList d));
                    d1 = d\<lparr>mFreeList := remove1 select (mFreeList d)\<rparr>;
                    d2 = upd_node select (\<lambda>x. x\<lparr>usage := True\<rparr>) d1;
                    d3 = (if n_size (node d2 select) > sz then
                            (case createMemNode (n_size (node d2 select) - sz) d2 of
                               (rest, e1) \<Rightarrow>
                                 insertFree rest (insert_after rest (Some select)
                                   (upd_node rest (\<lambda>x. x\<lparr>usage := False\<rparr>) e1)))
                          else d2)
                in Inr (MemChunk_node select, upd_node select (\<lambda>x. x\<lparr>n_size := sz\<rparr>) d3))"

text \<open>A node pointer that is not in \<open>mChunks\<close> dangles: following it is \<open>OutOfBounds\<close>.\<close>

definition Defer_free :: "MemChunk \<Rightarrow> Defer \<Rightarrow> ub + (bool \<times> Defer)" where
  "Defer_free chunk d =
     (if mBarrier d then Inr (True, d\<lparr>mBarrierFreeChunks := mBarrierFreeChunks d @ [chunk]\<rparr>)
      else case chunk_mNode chunk of
        None \<Rightarrow> Inr (False, d)
      | Some n \<Rightarrow>
          if n \<ge> length (mChunks d) then Inl OutOfBounds
          else
            let left = n_left (node d n); right = n_right (node d n);
                (n1, d1) = (case left of
                   Some l \<Rightarrow> if \<not> usage (node d l) then (l, fuse_to_left l n (eraseFree l d)) else (n, d)
                 | None \<Rightarrow> (n, d));
                d2 = (case right of
                   Some r \<Rightarrow> if \<not> usage (node d1 r) then fuse_to_left n1 r (eraseFree r d1) else d1
                 | None \<Rightarrow> d1)
            in Inr (True, insertFree n1 (upd_node n1 (\<lambda>x. x\<lparr>usage := False\<rparr>) d2)))"

definition Defer_reset :: "Defer \<Rightarrow> Defer" where
  "Defer_reset d = d\<lparr>mTotalSize := 0, mChunks := [], mFreeList := [],
     mPtr := (mPtr d)\<lparr>chunk_first := None, chunk_second := 0\<rparr>, mHead := None, mTail := None,
     mBarrier := False, mBarrierFreeChunks := []\<rparr>"

definition Defer_release :: "bool \<Rightarrow> Defer \<Rightarrow> Defer" where
  "Defer_release allRelease d = (if allRelease then Defer_reset d else d)"

definition Defer_barrierBegin :: "Defer \<Rightarrow> Defer" where
  "Defer_barrierBegin d = d\<lparr>mBarrier := True\<rparr>"

fun free_each :: "MemChunk list \<Rightarrow> Defer \<Rightarrow> ub + Defer" where
  "free_each [] d = Inr d"
| "free_each (c # cs) d = (case Defer_free c d of Inl e \<Rightarrow> Inl e | Inr (_, d') \<Rightarrow> free_each cs d')"

definition Defer_barrierEnd :: "Defer \<Rightarrow> ub + Defer" where
  "Defer_barrierEnd d =
     (case free_each (mBarrierFreeChunks d) (d\<lparr>mBarrier := False\<rparr>) of
        Inl e \<Rightarrow> Inl e
      | Inr d' \<Rightarrow> Inr (d'\<lparr>mBarrierFreeChunks := []\<rparr>))"

text \<open>
  \<open>visiChildren\<close> with the depth of the recursion as fuel; \<open>visit_each\<close> is its loop over the
  children that remain.
\<close>

fun visiChildren :: "nat \<Rightarrow> nat \<Rightarrow> Defer \<Rightarrow> Defer option"
and visit_each :: "nat \<Rightarrow> nat list \<Rightarrow> nat \<Rightarrow> Defer \<Rightarrow> Defer option" where
  "visiChildren 0 chunk d = None"
| "visiChildren (Suc fuel) chunk d = visit_each fuel (children (node d chunk)) chunk d"
| "visit_each fuel [] chunk d = Some d"
| "visit_each fuel (child # rest) chunk d =
     (case visiChildren fuel child (upd_node child (\<lambda>x. x\<lparr>n_offset := n_offset x + n_offset (node d chunk)\<rparr>) d) of
        None \<Rightarrow> None
      | Some d' \<Rightarrow> visit_each fuel rest chunk d')"

text \<open>The loop of \<open>compute\<close> over the list; every node is in it at most once.\<close>

fun layout_loop :: "nat \<Rightarrow> nat option \<Rightarrow> Defer \<Rightarrow> Defer option" where
  "layout_loop fuel None d = Some d"
| "layout_loop 0 (Some c) d = None"
| "layout_loop (Suc fuel) (Some c) d =
     (case visiChildren (Suc (length (mChunks d))) c (upd_node c (\<lambda>x. x\<lparr>n_offset := mTotalSize d\<rparr>) d) of
        None \<Rightarrow> None
      | Some d1 \<Rightarrow>
          let d2 = d1\<lparr>mTotalSize := mTotalSize d1 + n_size (node d1 c)\<rparr>
          in layout_loop fuel (n_right (node d2 c)) d2)"

definition apply_each :: "Defer \<Rightarrow> tensor_hosts \<Rightarrow> tensor_hosts" where
  "apply_each d host =
     foldl (\<lambda>h n. foldl (\<lambda>h t. mApplyFunction d (MemChunk_base d (mPtr d)) (n_offset n + MemChunk_offset d (mPtr d)) t h)
       h (tensors n)) host (mChunks d)"

definition Defer_apply ::
    "'st Allocator \<Rightarrow> Defer \<Rightarrow> SingleBuffer \<Rightarrow> 'st \<Rightarrow> tensor_hosts \<Rightarrow> ErrorCode \<times> Defer \<times> SingleBuffer \<times> 'st \<times> tensor_hosts" where
  "Defer_apply root d parent s host =
     (if mFreeList d = [] then (NO_ERROR, d, parent, s, host)
      else
        let (code, parent1, s1, needApply) =
          (if currentSize parent < mTotalSize d
           then (case SingleBuffer_realloc root (mTotalSize d) (mAlign d) parent s of (c, p, s') \<Rightarrow> (c, p, s', True))
           else (NO_ERROR, parent, s,
                 chunk_first (mPtr d) \<noteq> chunk_first (current parent) \<or> chunk_second (mPtr d) \<noteq> chunk_second (current parent)))
        in if code \<noteq> NO_ERROR then (code, d, parent1, s1, host)
           else if \<not> needApply then (NO_ERROR, d, parent1, s1, host)
           else
             let d1 = d\<lparr>mPtr := current parent1\<rparr>;
                 d2 = d1\<lparr>mChunks := map (\<lambda>n. n\<lparr>n_base := MemChunk_address d1 (mPtr d1)\<rparr>) (mChunks d1)\<rparr>
             in (NO_ERROR, d2, parent1, s1, apply_each d2 host))"

text \<open>\<open>None\<close> is a recursion that does not end within the number of nodes.\<close>

definition Defer_compute ::
    "'st Allocator \<Rightarrow> Defer \<Rightarrow> SingleBuffer \<Rightarrow> 'st \<Rightarrow> tensor_hosts \<Rightarrow>
     (ErrorCode \<times> Defer \<times> SingleBuffer \<times> 'st \<times> tensor_hosts) option" where
  "Defer_compute root d parent s host =
     (if mTotalSize d > 0 then Some (NO_ERROR, d, parent, s, host)
      else
        let d0 = d\<lparr>mTotalSize := 0\<rparr>
        in if mFreeList d0 = [] then Some (NO_ERROR, d0, parent, s, host)
           else if length (mFreeList d0) \<noteq> 1 \<or> mHead d0 \<noteq> mTail d0 then Some (INVALID_VALUE, d0, parent, s, host)
           else case layout_loop (Suc (length (mChunks d0))) (mHead d0) d0 of
                  None \<Rightarrow> None
                | Some d1 \<Rightarrow> Some (Defer_apply root d1 parent s host))"

end
