(* ===== verification/MNN_Defer_Plan.thy ===== *)
theory MNN_Defer_Plan
  imports Main
begin

text \<open>
  The plan behind the deferred allocator, without pointers: a list of blocks in address
  order, each with its size, whether it is in use, and the nodes it absorbed with their
  offsets from its start. The allocator's operations are sequences of five moves on such
  lists; every move keeps the order of the blocks and never brings two nodes closer
  together, which is what makes memory reuse safe.
\<close>

record ablock =
  b_id :: nat
  b_size :: nat
  b_used :: bool
  b_kids :: "(nat \<times> nat) list"

definition shift :: "nat \<Rightarrow> (nat \<times> nat) list \<Rightarrow> (nat \<times> nat) list" where
  "shift z = map (\<lambda>(k, r). (k, z + r))"

definition members :: "ablock \<Rightarrow> (nat \<times> nat) list" where
  "members b = (b_id b, 0) # b_kids b"

definition all_ids :: "ablock list \<Rightarrow> nat list" where
  "all_ids bs = concat (map (\<lambda>b. map fst (members b)) bs)"

definition extent :: "ablock list \<Rightarrow> nat" where
  "extent bs = (\<Sum>b \<leftarrow> bs. b_size b)"

text \<open>The block that holds a node, and the position of the node if the list is laid out now.\<close>

fun locate :: "ablock list \<Rightarrow> nat \<Rightarrow> (nat \<times> nat) option" where
  "locate [] i = None"
| "locate (b # bs) i =
     (case map_of (members b) i of
        Some r \<Rightarrow> Some (0, r)
      | None \<Rightarrow> map_option (\<lambda>(k, p). (Suc k, b_size b + p)) (locate bs i))"

lemma extent_simps [simp]:
  "extent [] = 0" "extent (b # bs) = b_size b + extent bs" "extent (xs @ ys) = extent xs + extent ys"
  by (simp_all add: extent_def)

lemma all_ids_simps [simp]:
  "all_ids [] = []" "all_ids (b # bs) = b_id b # map fst (b_kids b) @ all_ids bs"
  "all_ids (xs @ ys) = all_ids xs @ all_ids ys"
  by (simp_all add: all_ids_def members_def)

lemma locate_append:
  "locate (xs @ ys) i = (case locate xs i of Some v \<Rightarrow> Some v
     | None \<Rightarrow> map_option (\<lambda>(k, p). (length xs + k, extent xs + p)) (locate ys i))"
  by (induction xs) (auto split: option.splits simp: option.map_comp option.map_id comp_def case_prod_beta ac_simps)

lemma locate_Some_ids: "(\<exists>v. locate bs i = Some v) \<longleftrightarrow> i \<in> set (all_ids bs)"
proof (induction bs)
  case (Cons b bs)
  have "map_of (members b) i = None \<longleftrightarrow> i \<notin> fst ` set (members b)" by (rule map_of_eq_None_iff)
  then show ?case using Cons.IH by (auto split: option.splits simp: members_def image_iff)
qed simp

lemma locate_bounds: "locate bs i = Some (k, p) \<Longrightarrow> k < length bs"
  by (induction bs arbitrary: k p) (auto split: option.splits)

lemma map_of_shift: "map_of (shift z ks) i = map_option (\<lambda>r. z + r) (map_of ks i)"
  by (induction ks) (auto simp: shift_def)

text \<open>
  A list \<open>bs'\<close> later than \<open>bs\<close>: every node is still there, the blocks kept their order, and
  the nodes moved up, those of later blocks by no less than those of earlier ones, and the
  end by no less than any node.
\<close>

definition evolves :: "ablock list \<Rightarrow> ablock list \<Rightarrow> bool" where
  "evolves bs bs' \<longleftrightarrow> (\<exists>f \<delta>. mono f \<and> mono \<delta> \<and>
     (\<forall>i k p. locate bs i = Some (k, p) \<longrightarrow>
        locate bs' i = Some (f k :: nat, p + \<delta> k :: nat) \<and> extent bs + \<delta> k \<le> extent bs'))"

lemma evolvesI:
  assumes "mono f" and "mono \<delta>"
    and "\<And>i k p. locate bs i = Some (k, p) \<Longrightarrow> locate bs' i = Some (f k, p + \<delta> k) \<and> extent bs + \<delta> k \<le> extent bs'"
  shows "evolves bs bs'"
  using assms unfolding evolves_def by blast

lemma evolves_refl [simp]: "evolves bs bs"
  by (rule evolvesI [of id "\<lambda>_. 0"]) (auto simp: mono_def)

lemma evolves_trans:
  assumes "evolves a b" and "evolves b c"
  shows "evolves a c"
proof -
  obtain f \<delta> where f: "mono f" "mono \<delta>"
    "\<And>i k p. locate a i = Some (k, p) \<Longrightarrow> locate b i = Some (f k, p + \<delta> k) \<and> extent a + \<delta> k \<le> extent b"
    using assms(1) unfolding evolves_def by blast
  obtain g \<epsilon> where g: "mono g" "mono \<epsilon>"
    "\<And>i k p. locate b i = Some (k, p) \<Longrightarrow> locate c i = Some (g k, p + \<epsilon> k) \<and> extent b + \<epsilon> k \<le> extent c"
    using assms(2) unfolding evolves_def by blast
  show ?thesis
  proof (rule evolvesI [of "g \<circ> f" "\<lambda>k. \<delta> k + \<epsilon> (f k)"])
    show "mono (g \<circ> f)" "mono (\<lambda>k. \<delta> k + \<epsilon> (f k))"
      using f(1,2) g(1,2) by (auto simp: mono_def add_mono)
    fix i k p assume "locate a i = Some (k, p)"
    then have "locate b i = Some (f k, p + \<delta> k)" "extent a + \<delta> k \<le> extent b" using f(3) by blast+
    then show "locate c i = Some ((g \<circ> f) k, p + (\<delta> k + \<epsilon> (f k))) \<and> extent a + (\<delta> k + \<epsilon> (f k)) \<le> extent c"
      using g(3) by fastforce
  qed
qed

subsection \<open>The moves\<close>

lemma evolves_new: "evolves bs (bs @ [b])"
  by (rule evolvesI [of id "\<lambda>_. 0"]) (auto simp: mono_def locate_append)

text \<open>A change of the use flag changes no position.\<close>

lemma locate_used: "locate (xs @ b\<lparr>b_used := u\<rparr> # ys) i = locate (xs @ b # ys) i"
proof -
  have "locate (b\<lparr>b_used := u\<rparr> # ys) i = locate (b # ys) i" by (simp add: members_def split: option.split)
  then show ?thesis unfolding locate_append by (simp only:)
qed

lemma evolves_used: "evolves (xs @ b # ys) (xs @ b\<lparr>b_used := u\<rparr> # ys)"
  by (rule evolvesI [of id "\<lambda>_. 0"]) (auto simp: mono_def locate_used)

lemma evolves_grow:
  assumes "b_size b \<le> s"
  shows "evolves (xs @ b # ys) (xs @ b\<lparr>b_size := s\<rparr> # ys)"
proof (rule evolvesI [of id "\<lambda>k. if length xs < k then s - b_size b else 0"])
  fix i k p assume "locate (xs @ b # ys) i = Some (k, p)"
  then show "locate (xs @ b\<lparr>b_size := s\<rparr> # ys) i = Some (id k, p + (if length xs < k then s - b_size b else 0)) \<and>
      extent (xs @ b # ys) + (if length xs < k then s - b_size b else 0) \<le> extent (xs @ b\<lparr>b_size := s\<rparr> # ys)"
    using assms locate_bounds [of xs i]
    by (auto simp: locate_append members_def split: option.splits if_splits)
qed (auto simp: mono_def)

lemma evolves_split:
  assumes "s \<le> b_size b" and "b_size r = b_size b - s" and "b_id r \<notin> set (all_ids (xs @ b # ys))" and "b_kids r = []"
  shows "evolves (xs @ b # ys) (xs @ b\<lparr>b_size := s\<rparr> # r # ys)"
proof (rule evolvesI [of "\<lambda>k. if length xs < k then Suc k else k" "\<lambda>_. 0"])
  fix i k p assume l: "locate (xs @ b # ys) i = Some (k, p)"
  then have "i \<noteq> b_id r" using assms(3) locate_Some_ids [of "xs @ b # ys" i] by blast
  then show "locate (xs @ b\<lparr>b_size := s\<rparr> # r # ys) i = Some (if length xs < k then Suc k else k, p + 0) \<and>
      extent (xs @ b # ys) + 0 \<le> extent (xs @ b\<lparr>b_size := s\<rparr> # r # ys)"
    using l assms locate_bounds [of xs i]
    by (auto simp: locate_append members_def split: option.splits if_splits)
qed (auto simp: mono_def)

definition fused :: "ablock \<Rightarrow> ablock \<Rightarrow> ablock" where
  "fused b c = b\<lparr>b_size := b_size b + b_size c, b_kids := b_kids b @ shift (b_size b) (members c)\<rparr>"

lemma fused_size [simp]: "b_size (fused b c) = b_size b + b_size c" "b_id (fused b c) = b_id b"
  "b_used (fused b c) = b_used b" "map fst (b_kids (fused b c)) = map fst (b_kids b) @ b_id c # map fst (b_kids c)"
  by (simp_all add: fused_def shift_def members_def case_prod_beta comp_def)

lemma evolves_fuse: "evolves (xs @ b # c # ys) (xs @ fused b c # ys)"
proof (rule evolvesI [of "\<lambda>k. if length xs < k then k - 1 else k" "\<lambda>_. 0"])
  fix i k p assume l: "locate (xs @ b # c # ys) i = Some (k, p)"
  have m: "map_of (members (fused b c)) i = (case map_of (members b) i of Some r \<Rightarrow> Some r
      | None \<Rightarrow> map_option (\<lambda>r. b_size b + r) (map_of (members c) i))"
    by (auto simp: members_def fused_def map_add_def map_of_shift [unfolded shift_def] shift_def split: option.splits)
  show "locate (xs @ fused b c # ys) i = Some (if length xs < k then k - 1 else k, p + 0) \<and>
      extent (xs @ b # c # ys) + 0 \<le> extent (xs @ fused b c # ys)"
    using l locate_bounds [of xs i] fused_size [of b c]
    by (auto simp: locate_append m split: option.splits if_splits)
qed (auto simp: mono_def)

subsection \<open>Where the blocks themselves are\<close>

lemma locate_head:
  assumes "distinct (all_ids (xs @ b # ys))"
  shows "locate (xs @ b # ys) (b_id b) = Some (length xs, extent xs)"
proof -
  have "locate xs (b_id b) = None" using assms locate_Some_ids [of xs "b_id b"] by (cases "locate xs (b_id b)") auto
  then show ?thesis by (simp add: locate_append members_def)
qed

end
