(* ===== verification/MNN_Defer_Refine.thy ===== *)
theory MNN_Defer_Refine
  imports MNN_Defer MNN_Defer_Plan
begin

text \<open>
  The deferred allocator refines its plan. \<open>rep d bs\<close> relates the linked nodes of \<open>d\<close> to the
  list of blocks \<open>bs\<close>: the chain from head to tail, the sizes and use flags, the trees of
  absorbed nodes and the free list. \<open>alloc\<close> and \<open>free\<close> are shown to make moves of the plan.
\<close>

subsection \<open>Node updates\<close>

lemma upd_node_fields [simp]:
  "length (mChunks (upd_node i f d)) = length (mChunks d)" "mHead (upd_node i f d) = mHead d"
  "mTail (upd_node i f d) = mTail d" "mFreeList (upd_node i f d) = mFreeList d"
  "mBarrier (upd_node i f d) = mBarrier d" "mBarrierFreeChunks (upd_node i f d) = mBarrierFreeChunks d"
  "mTotalSize (upd_node i f d) = mTotalSize d" "mAlign (upd_node i f d) = mAlign d"
  "mPtr (upd_node i f d) = mPtr d" "mApplyFunction (upd_node i f d) = mApplyFunction d"
  by (simp_all add: upd_node_def)

lemma node_upd_same [simp]: "i < length (mChunks d) \<Longrightarrow> node (upd_node i f d) i = f (node d i)"
  by (simp add: node_def upd_node_def)

lemma node_upd_other [simp]: "i \<noteq> j \<Longrightarrow> node (upd_node i f d) j = node d j"
  by (simp add: node_def upd_node_def)

lemma node_field_updates [simp]:
  "node (d\<lparr>mHead := x\<rparr>) i = node d i" "node (d\<lparr>mTail := x\<rparr>) i = node d i"
  "node (d\<lparr>mFreeList := fl\<rparr>) i = node d i" "node (d\<lparr>mTotalSize := t\<rparr>) i = node d i"
  "node (d\<lparr>mBarrier := b\<rparr>) i = node d i" "node (d\<lparr>mBarrierFreeChunks := cs\<rparr>) i = node d i"
  by (simp_all add: node_def)

text \<open>Everything but the links of the list is the same.\<close>

definition same_data :: "Defer \<Rightarrow> Defer \<Rightarrow> bool" where
  "same_data d d' \<longleftrightarrow> length (mChunks d') = length (mChunks d) \<and> mFreeList d' = mFreeList d \<and>
     mBarrier d' = mBarrier d \<and> mBarrierFreeChunks d' = mBarrierFreeChunks d \<and>
     mTotalSize d' = mTotalSize d \<and> mAlign d' = mAlign d \<and> mPtr d' = mPtr d \<and> mApplyFunction d' = mApplyFunction d \<and>
     (\<forall>i. n_size (node d' i) = n_size (node d i) \<and> usage (node d' i) = usage (node d i) \<and>
        children (node d' i) = children (node d i) \<and> n_offset (node d' i) = n_offset (node d i))"

lemma same_data_upd:
  assumes "\<And>x. n_size (f x) = n_size x \<and> usage (f x) = usage x \<and> children (f x) = children x \<and> n_offset (f x) = n_offset x"
  shows "same_data a (upd_node i f d) = same_data a d"
proof -
  have "n_size (node (upd_node i f d) j) = n_size (node d j) \<and> usage (node (upd_node i f d) j) = usage (node d j) \<and>
      children (node (upd_node i f d) j) = children (node d j) \<and> n_offset (node (upd_node i f d) j) = n_offset (node d j)" for j
  proof (cases "i = j \<and> i < length (mChunks d)")
    case True
    then show ?thesis using assms [of "node d i"] by simp
  next
    case False
    then have "node (upd_node i f d) j = node d j" by (cases "i = j") (simp_all add: node_def upd_node_def list_update_beyond)
    then show ?thesis by simp
  qed
  then show ?thesis by (simp add: same_data_def)
qed

lemma same_data_refl [simp]: "same_data d d"
  by (simp add: same_data_def)

lemma same_data_ends [simp]:
  "same_data a (d\<lparr>mHead := x\<rparr>) = same_data a d" "same_data a (d\<lparr>mTail := x\<rparr>) = same_data a d"
  by (simp_all add: same_data_def)

subsection \<open>The chain of nodes\<close>

definition first_of :: "nat list \<Rightarrow> nat option \<Rightarrow> nat option" where
  "first_of xs q = (if xs = [] then q else Some (hd xs))"

definition last_of :: "nat option \<Rightarrow> nat list \<Rightarrow> nat option" where
  "last_of p xs = (if xs = [] then p else Some (last xs))"

fun links :: "Defer \<Rightarrow> nat option \<Rightarrow> nat list \<Rightarrow> nat option \<Rightarrow> bool" where
  "links d p [] q \<longleftrightarrow> True"
| "links d p (x # xs) q \<longleftrightarrow> n_left (node d x) = p \<and> n_right (node d x) = first_of xs q \<and> links d (Some x) xs q"

lemma ends_simps [simp]:
  "first_of [] q = q" "first_of (x # xs) q = Some x" "first_of (xs @ ys) q = first_of xs (first_of ys q)"
  "last_of p [] = p" "last_of p (xs @ [x]) = Some x" "last_of p (x # xs) = last_of (Some x) xs"
  "last_of p (xs @ ys) = last_of (last_of p xs) ys"
  by (auto simp: first_of_def last_of_def)

lemma last_of_in: "last_of (Some a) xs = Some p \<Longrightarrow> p = a \<or> p \<in> set xs"
  by (auto simp: last_of_def split: if_splits)

lemma links_append [simp]: "links d p (xs @ ys) q \<longleftrightarrow> links d p xs (first_of ys q) \<and> links d (last_of p xs) ys q"
  by (induction xs arbitrary: p) auto

lemma links_frame:
  assumes "\<And>x. x \<in> set xs \<Longrightarrow> n_left (node d' x) = n_left (node d x) \<and> n_right (node d' x) = n_right (node d x)"
  shows "links d' p xs q = links d p xs q"
  using assms by (induction xs arbitrary: p) auto

lemma links_upd_other [simp]: "i \<notin> set xs \<Longrightarrow> links (upd_node i f d) p xs q = links d p xs q"
  by (intro links_frame) (metis node_upd_other)

lemma links_fields [simp]:
  "links (d\<lparr>mHead := x\<rparr>) p xs q = links d p xs q" "links (d\<lparr>mTail := x\<rparr>) p xs q = links d p xs q"
  by (intro links_frame, simp)+

definition chain_ok :: "Defer \<Rightarrow> nat list \<Rightarrow> bool" where
  "chain_ok d ids \<longleftrightarrow> links d None ids None \<and> mHead d = first_of ids None \<and> mTail d = last_of None ids \<and>
     distinct ids \<and> set ids \<subseteq> {..<length (mChunks d)}"

lemma erase_node_chain:
  assumes "chain_ok d (xs @ c # ys)"
  shows "chain_ok (erase_node c d) (xs @ ys)" "same_data d (erase_node c d)"
proof -
  have c: "n_left (node d c) = last_of None xs" "n_right (node d c) = first_of ys None"
    using assms by (auto simp: chain_ok_def)
  have "chain_ok (erase_node c d) (xs @ ys) \<and> same_data d (erase_node c d)"
  proof (cases xs rule: rev_cases)
    case Nil
    then show ?thesis using assms c
      by (cases ys) (auto simp: chain_ok_def erase_node_def same_data_upd)
  next
    case (snoc us l)
    then show ?thesis using assms c
      by (cases ys) (auto simp: chain_ok_def erase_node_def same_data_upd)
  qed
  then show "chain_ok (erase_node c d) (xs @ ys)" "same_data d (erase_node c d)" by auto
qed

lemma insert_tail_chain:
  assumes "chain_ok d ids" and "c \<notin> set ids" and "c < length (mChunks d)"
    and "n_left (node d c) = None" and "n_right (node d c) = None"
  shows "chain_ok (insert_after c None d) (ids @ [c])" "same_data d (insert_after c None d)"
proof -
  have "chain_ok (insert_after c None d) (ids @ [c]) \<and> same_data d (insert_after c None d)"
  proof (cases ids rule: rev_cases)
    case Nil
    then show ?thesis using assms by (auto simp: chain_ok_def insert_after_def)
  next
    case (snoc us t)
    then show ?thesis using assms by (auto simp: chain_ok_def insert_after_def same_data_upd)
  qed
  then show "chain_ok (insert_after c None d) (ids @ [c])" "same_data d (insert_after c None d)" by auto
qed

lemma insert_pos_chain:
  assumes "chain_ok d (xs @ p # ys)" and "c \<notin> set (xs @ p # ys)" and "c < length (mChunks d)"
  shows "chain_ok (insert_after c (Some p) d) (xs @ p # c # ys)" "same_data d (insert_after c (Some p) d)"
proof -
  have "chain_ok (insert_after c (Some p) d) (xs @ p # c # ys) \<and> same_data d (insert_after c (Some p) d)"
    using assms by (cases ys) (auto simp: chain_ok_def insert_after_def same_data_upd Let_def dest: last_of_in [OF sym])
  then show "chain_ok (insert_after c (Some p) d) (xs @ p # c # ys)" "same_data d (insert_after c (Some p) d)" by auto
qed

subsection \<open>Trees of absorbed nodes\<close>

text \<open>A node with its offset from its parent and its own absorbed nodes.\<close>

datatype ktree = Kid nat nat "ktree list"

primrec kid :: "ktree \<Rightarrow> nat" where
  "kid (Kid i r ts) = i"

fun tree_in :: "Defer \<Rightarrow> ktree \<Rightarrow> bool" where
  "tree_in d (Kid i r ts) \<longleftrightarrow> unat (n_offset (node d i)) = r \<and> children (node d i) = map kid ts \<and> (\<forall>t \<in> set ts. tree_in d t)"

fun flat :: "nat \<Rightarrow> ktree \<Rightarrow> (nat \<times> nat) list" where
  "flat z (Kid i r ts) = (i, z + r) # concat (map (flat (z + r)) ts)"

definition flats :: "nat \<Rightarrow> ktree list \<Rightarrow> (nat \<times> nat) list" where
  "flats z ts = concat (map (flat z) ts)"

lemma flats_simps [simp]:
  "flats z [] = []" "flats z (Kid i r us # ts) = (i, z + r) # flats (z + r) us @ flats z ts"
  "flats z (ts @ us) = flats z ts @ flats z us"
  by (simp_all add: flats_def)

lemma shift_simps [simp]:
  "shift z [] = []" "shift z ((i, r) # ks) = (i, z + r) # shift z ks" "shift z (ks @ ls) = shift z ks @ shift z ls"
  "map fst (shift z ks) = map fst ks"
  by (auto simp: shift_def)

lemma shift_concat: "shift z (concat xss) = concat (map (shift z) xss)"
  by (induction xss) auto

lemma flat_shift: "flat (z + y) t = shift z (flat y t)"
proof (induction t arbitrary: y)
  case (Kid i r ts)
  then show ?case by (simp add: shift_concat o_def add.assoc cong: map_cong)
qed

lemma flats_shift: "flats (z + y) ts = shift z (flats y ts)"
proof -
  have "flat (z + y) = (\<lambda>t. shift z (flat y t))" by (rule ext) (rule flat_shift)
  then show ?thesis unfolding flats_def shift_concat by (simp add: o_def)
qed

lemma flats_ids: "map fst (flats z ts) = map fst (flats 0 ts)"
  using flats_shift [of z 0 ts] by simp

definition kids_ok :: "Defer \<Rightarrow> nat \<Rightarrow> (nat \<times> nat) list \<Rightarrow> bool" where
  "kids_ok d i ks \<longleftrightarrow> (\<exists>ts. children (node d i) = map kid ts \<and> (\<forall>t \<in> set ts. tree_in d t) \<and> ks = flats 0 ts)"

lemma tree_in_frame:
  assumes "tree_in d t"
    and "\<And>i. i \<in> fst ` set (flat z t) \<Longrightarrow> n_offset (node d' i) = n_offset (node d i) \<and> children (node d' i) = children (node d i)"
  shows "tree_in d' t"
  using assms
proof (induction t arbitrary: z)
  case (Kid i r ts)
  have "tree_in d' t" if "t \<in> set ts" for t
    by (rule Kid.IH [OF that, of "z + r"]) (use Kid.prems that in auto)
  then show ?case using Kid.prems by auto
qed

lemma kids_ok_frame:
  assumes "kids_ok d i ks" and "children (node d' i) = children (node d i)"
    and "\<And>j. j \<in> fst ` set ks \<Longrightarrow> n_offset (node d' j) = n_offset (node d j) \<and> children (node d' j) = children (node d j)"
  shows "kids_ok d' i ks"
proof -
  obtain ts where ts: "children (node d i) = map kid ts" "\<forall>t \<in> set ts. tree_in d t" "ks = flats 0 ts"
    using assms(1) by (auto simp: kids_ok_def)
  have "tree_in d' t" if "t \<in> set ts" for t
    by (rule tree_in_frame [of d t 0]) (use ts assms(3) that in \<open>auto simp: flats_def\<close>)
  then show ?thesis using ts assms(2) by (auto simp: kids_ok_def)
qed

subsection \<open>The representation\<close>

definition block_ok :: "Defer \<Rightarrow> ablock \<Rightarrow> bool" where
  "block_ok d b \<longleftrightarrow> unat (n_size (node d (b_id b))) = b_size b \<and> usage (node d (b_id b)) = b_used b \<and>
     kids_ok d (b_id b) (b_kids b)"

definition rep0 :: "Defer \<Rightarrow> ablock list \<Rightarrow> bool" where
  "rep0 d bs \<longleftrightarrow> chain_ok d (map b_id bs) \<and> (\<forall>b \<in> set bs. block_ok d b) \<and> distinct (all_ids bs) \<and>
     set (all_ids bs) = {..<length (mChunks d)} \<and> extent bs < 2 ^ 64"

definition free_ids :: "ablock list \<Rightarrow> nat set" where
  "free_ids bs = b_id ` {b \<in> set bs. \<not> b_used b}"

definition coalesced :: "ablock list \<Rightarrow> bool" where
  "coalesced bs \<longleftrightarrow> successively (\<lambda>b c. b_used b \<or> b_used c) bs"

definition rep :: "Defer \<Rightarrow> ablock list \<Rightarrow> bool" where
  "rep d bs \<longleftrightarrow> rep0 d bs \<and> distinct (mFreeList d) \<and> set (mFreeList d) = free_ids bs \<and> coalesced bs"

lemma coalesced_parts:
  assumes "coalesced (xs @ b # ys)"
  shows "coalesced xs" "coalesced ys" "b_used b \<or> ys = [] \<or> b_used (hd ys)" "b_used b \<or> xs = [] \<or> b_used (last xs)"
  using assms by (auto simp: coalesced_def successively_append_iff successively_Cons)

lemma coalesced_used: "coalesced xs \<Longrightarrow> coalesced ys \<Longrightarrow> b_used b \<Longrightarrow> coalesced (xs @ b # ys)"
  by (auto simp: coalesced_def successively_append_iff successively_Cons)

text \<open>The part of the state a block depends on.\<close>

lemma block_ok_frame:
  assumes "block_ok d b" and "n_size (node d' (b_id b)) = n_size (node d (b_id b))"
    and "usage (node d' (b_id b)) = usage (node d (b_id b))" and "children (node d' (b_id b)) = children (node d (b_id b))"
    and "\<And>j. j \<in> fst ` set (b_kids b) \<Longrightarrow> n_offset (node d' j) = n_offset (node d j) \<and> children (node d' j) = children (node d j)"
  shows "block_ok d' b"
  using assms kids_ok_frame [of d "b_id b" "b_kids b" d'] by (simp add: block_ok_def)

lemma block_ok_same: "same_data d d' \<Longrightarrow> block_ok d b \<Longrightarrow> block_ok d' b"
  by (rule block_ok_frame) (auto simp: same_data_def)

lemma in_all_ids: "b \<in> set bs \<Longrightarrow> b_id b \<in> set (all_ids bs) \<and> fst ` set (b_kids b) \<subseteq> set (all_ids bs)"
  by (induction bs) auto

lemma rep0D:
  assumes "rep0 d bs"
  shows "chain_ok d (map b_id bs)" "\<And>b. b \<in> set bs \<Longrightarrow> block_ok d b" "distinct (all_ids bs)"
    "set (all_ids bs) = {..<length (mChunks d)}" "extent bs < 2 ^ 64" "\<And>b. b \<in> set bs \<Longrightarrow> b_id b < length (mChunks d)"
  using assms in_all_ids [of _ bs] unfolding rep0_def by blast+

lemma rep0_size_le: "rep0 d bs \<Longrightarrow> b \<in> set bs \<Longrightarrow> b_size b \<le> extent bs"
  by (auto simp: extent_def intro: member_le_sum_list)

text \<open>A block none of whose nodes has changed.\<close>

lemma block_ok_away:
  assumes "block_ok d a" and "\<And>j. j \<in> insert (b_id a) (fst ` set (b_kids a)) \<Longrightarrow> node d' j = node d j"
  shows "block_ok d' a"
  by (rule block_ok_frame [OF assms(1)]) (simp_all add: assms(2))

text \<open>The nodes below a block that has taken in its right neighbour.\<close>

lemma fused_kids:
  assumes bo: "block_ok d b" "block_ok d c"
    and l: "children (node e (b_id b)) = children (node d (b_id b)) @ [b_id c]"
    and r: "children (node e (b_id c)) = children (node d (b_id c))" "unat (n_offset (node e (b_id c))) = b_size b"
    and k: "\<And>j. j \<in> fst ` set (b_kids b) \<union> fst ` set (b_kids c) \<Longrightarrow> node e j = node d j"
  shows "kids_ok e (b_id b) (b_kids (fused b c))"
proof -
  obtain ts us where ts: "children (node d (b_id b)) = map kid ts" "\<forall>t \<in> set ts. tree_in d t" "b_kids b = flats 0 ts"
    and us: "children (node d (b_id c)) = map kid us" "\<forall>t \<in> set us. tree_in d t" "b_kids c = flats 0 us"
    using bo by (auto simp: block_ok_def kids_ok_def)
  have keep: "tree_in e t" if "tree_in d t" "fst ` set (flat 0 t) \<subseteq> fst ` set (b_kids b) \<union> fst ` set (b_kids c)" for t
    by (rule tree_in_frame [OF that(1), of 0]) (use k that(2) in \<open>simp add: subset_iff\<close>)
  have "tree_in e t" if "t \<in> set ts" for t using keep [of t] ts that by (auto simp: flats_def)
  moreover have "tree_in e t" if "t \<in> set us" for t using keep [of t] us that by (auto simp: flats_def)
  moreover have "children (node e (b_id b)) = map kid (ts @ [Kid (b_id c) (b_size b) us])" using l ts(1) by simp
  ultimately show ?thesis using ts us r flats_shift [of "b_size b" 0 us]
    by (auto simp: kids_ok_def fused_def members_def intro!: exI [of _ "ts @ [Kid (b_id c) (b_size b) us]"])
qed

lemma fuse_rep0:
  assumes r: "rep0 d (xs @ b # c # ys)"
  shows "rep0 (fuse_to_left (b_id b) (b_id c) d) (xs @ fused b c # ys)"
    "mFreeList (fuse_to_left (b_id b) (b_id c) d) = mFreeList d"
    "mBarrier (fuse_to_left (b_id b) (b_id c) d) = mBarrier d"
    "mBarrierFreeChunks (fuse_to_left (b_id b) (b_id c) d) = mBarrierFreeChunks d"
    "mTotalSize (fuse_to_left (b_id b) (b_id c) d) = mTotalSize d"
    "mAlign (fuse_to_left (b_id b) (b_id c) d) = mAlign d"
    "length (mChunks (fuse_to_left (b_id b) (b_id c) d)) = length (mChunks d)"
    "usage (node (fuse_to_left (b_id b) (b_id c) d) i) = usage (node d i)"
    "mPtr (fuse_to_left (b_id b) (b_id c) d) = mPtr d" "mApplyFunction (fuse_to_left (b_id b) (b_id c) d) = mApplyFunction d"
proof -
  let ?l = "b_id b" and ?r = "b_id c"
  define d1 where "d1 = upd_node ?r (\<lambda>x. x\<lparr>n_offset := n_size (node d ?l)\<rparr>) d"
  define d2 where "d2 = upd_node ?l (\<lambda>x. x\<lparr>n_size := n_size x + n_size (node d1 ?r)\<rparr>) d1"
  define d3 where "d3 = upd_node ?l (\<lambda>x. x\<lparr>children := children x @ [?r]\<rparr>) d2"
  have fd: "fuse_to_left ?l ?r d = erase_node ?r d3" by (simp add: fuse_to_left_def d1_def d2_def d3_def Let_def)
  have chain: "chain_ok d (map b_id xs @ ?l # ?r # map b_id ys)" using r by (simp add: rep0_def)
  have dist: "distinct (all_ids (xs @ b # c # ys))" using r by (simp add: rep0_def)
  have lr: "?l < length (mChunks d)" "?r < length (mChunks d)" "?l \<noteq> ?r" using chain by (auto simp: chain_ok_def)
  have n3: "node d3 i = (if i = ?l then (node d ?l)\<lparr>n_size := n_size (node d ?l) + n_size (node d ?r), children := children (node d ?l) @ [?r]\<rparr>
      else if i = ?r then (node d ?r)\<lparr>n_offset := n_size (node d ?l)\<rparr> else node d i)" for i
    using lr by (auto simp: d1_def d2_def d3_def)
  have "links d3 None (map b_id xs @ ?l # ?r # map b_id ys) None = links d None (map b_id xs @ ?l # ?r # map b_id ys) None"
    by (rule links_frame) (simp add: n3)
  then have "chain_ok d3 (map b_id xs @ ?l # ?r # map b_id ys)"
    using chain by (simp add: chain_ok_def d1_def d2_def d3_def)
  then have e: "chain_ok (erase_node ?r d3) ((map b_id xs @ [?l]) @ map b_id ys)" "same_data d3 (erase_node ?r d3)"
    using erase_node_chain [of d3 "map b_id xs @ [?l]" ?r "map b_id ys"] by simp_all
  show fields: "mFreeList (fuse_to_left ?l ?r d) = mFreeList d" "mBarrier (fuse_to_left ?l ?r d) = mBarrier d"
    "mBarrierFreeChunks (fuse_to_left ?l ?r d) = mBarrierFreeChunks d" "mTotalSize (fuse_to_left ?l ?r d) = mTotalSize d"
    "mAlign (fuse_to_left ?l ?r d) = mAlign d" "length (mChunks (fuse_to_left ?l ?r d)) = length (mChunks d)"
    "usage (node (fuse_to_left ?l ?r d) i) = usage (node d i)"
    "mPtr (fuse_to_left ?l ?r d) = mPtr d" "mApplyFunction (fuse_to_left ?l ?r d) = mApplyFunction d"
    using e(2) unfolding fd by (auto simp: same_data_def n3) (auto simp: d1_def d2_def d3_def)
  have other: "block_ok d3 a" if "a \<in> set (xs @ ys)" for a
  proof (rule block_ok_away [of d])
    show "block_ok d a" using r that by (auto simp: rep0_def)
    fix j assume "j \<in> insert (b_id a) (fst ` set (b_kids a))"
    then have "j \<in> set (all_ids xs) \<union> set (all_ids ys)" using that in_all_ids [of a xs] in_all_ids [of a ys] by auto
    then have "j \<noteq> ?l \<and> j \<noteq> ?r" using dist by auto
    then show "node d3 j = node d j" by (simp add: n3)
  qed
  have bo: "block_ok d b" "block_ok d c" using r by (auto simp: rep0_def)
  have sz: "b_size b + b_size c < 2 ^ 64" using r by (simp add: rep0_def)
  then have "unat (n_size (node d ?l) + n_size (node d ?r)) = b_size b + b_size c"
    using bo unat_add_no_wrap [of "n_size (node d ?l)" "n_size (node d ?r)"] by (simp add: block_ok_def)
  moreover have "kids_ok d3 ?l (b_kids (fused b c))"
  proof (rule fused_kids [OF bo])
    fix j assume "j \<in> fst ` set (b_kids b) \<union> fst ` set (b_kids c)"
    moreover have "?l \<notin> fst ` set (b_kids b) \<union> fst ` set (b_kids c)" "?r \<notin> fst ` set (b_kids b) \<union> fst ` set (b_kids c)" using dist by auto
    ultimately have "j \<noteq> ?l \<and> j \<noteq> ?r" by blast
    then show "node d3 j = node d j" by (simp add: n3)
  qed (use lr bo in \<open>simp_all add: n3 block_ok_def\<close>)
  ultimately have "block_ok d3 (fused b c)" using lr bo by (simp add: block_ok_def n3)
  then have "\<forall>a \<in> set (xs @ fused b c # ys). block_ok (fuse_to_left ?l ?r d) a"
    using other block_ok_same [OF e(2)] unfolding fd by auto
  then show "rep0 (fuse_to_left ?l ?r d) (xs @ fused b c # ys)"
    using r e(1) fields(6) unfolding rep0_def fd by (auto simp: Un_ac)
qed

subsection \<open>Free\<close>

definition used_of :: "ablock list \<Rightarrow> (nat \<times> nat) set" where
  "used_of bs = {(b_id b, b_size b) |b. b \<in> set bs \<and> b_used b}"

lemma used_of_simps [simp]:
  "used_of [] = {}" "used_of (b # bs) = (if b_used b then {(b_id b, b_size b)} else {}) \<union> used_of bs"
  "used_of (xs @ ys) = used_of xs \<union> used_of ys"
  by (auto simp: used_of_def)

lemma free_ids_simps [simp]:
  "free_ids [] = {}" "free_ids (b # bs) = (if b_used b then {} else {b_id b}) \<union> free_ids bs"
  "free_ids (xs @ ys) = free_ids xs \<union> free_ids ys"
  by (auto simp: free_ids_def)

lemma set_insertFree: "set (mFreeList (insertFree n d)) = insert n (set (mFreeList d))"
proof -
  let ?P = "\<lambda>i. n_size (node d i) \<le> n_size (node d n)"
  have "set (takeWhile ?P (mFreeList d)) \<union> set (dropWhile ?P (mFreeList d)) = set (mFreeList d)"
    by (metis set_append takeWhile_dropWhile_id)
  then show ?thesis by (simp add: insertFree_def Let_def)
qed

lemma distinct_insertFree:
  assumes "distinct (mFreeList d)" and "n \<notin> set (mFreeList d)"
  shows "distinct (mFreeList (insertFree n d))"
proof -
  let ?P = "\<lambda>i. n_size (node d i) \<le> n_size (node d n)"
  have "distinct (takeWhile ?P (mFreeList d) @ dropWhile ?P (mFreeList d))" using assms(1) by simp
  moreover have "n \<notin> set (takeWhile ?P (mFreeList d)) \<union> set (dropWhile ?P (mFreeList d))"
    using assms(2) by (metis set_append takeWhile_dropWhile_id)
  ultimately show ?thesis by (auto simp: insertFree_def Let_def simp del: takeWhile_dropWhile_id)
qed

lemma insertFree_fields [simp]:
  "node (insertFree n d) i = node d i" "mChunks (insertFree n d) = mChunks d" "mHead (insertFree n d) = mHead d"
  "mTail (insertFree n d) = mTail d" "mBarrier (insertFree n d) = mBarrier d"
  "mBarrierFreeChunks (insertFree n d) = mBarrierFreeChunks d" "mTotalSize (insertFree n d) = mTotalSize d"
  "mAlign (insertFree n d) = mAlign d" "mPtr (insertFree n d) = mPtr d" "mApplyFunction (insertFree n d) = mApplyFunction d"
  by (simp_all add: insertFree_def node_def Let_def)

lemma eraseFree_fields [simp]:
  "node (eraseFree n d) i = node d i" "mChunks (eraseFree n d) = mChunks d" "mHead (eraseFree n d) = mHead d"
  "mTail (eraseFree n d) = mTail d" "mBarrier (eraseFree n d) = mBarrier d" "mFreeList (eraseFree n d) = remove1 n (mFreeList d)"
  "mBarrierFreeChunks (eraseFree n d) = mBarrierFreeChunks d" "mTotalSize (eraseFree n d) = mTotalSize d"
  "mAlign (eraseFree n d) = mAlign d" "mPtr (eraseFree n d) = mPtr d" "mApplyFunction (eraseFree n d) = mApplyFunction d"
  by (simp_all add: eraseFree_def node_def)

text \<open>\<open>rep0\<close> looks at the nodes and the two ends only.\<close>

lemma rep0_cong:
  assumes "mChunks d' = mChunks d" and "mHead d' = mHead d" and "mTail d' = mTail d"
  shows "rep0 d' bs = rep0 d bs"
proof -
  have n: "node d' = node d" using assms(1) by (simp add: node_def fun_eq_iff)
  have "links d' p xs q = links d p xs q" for p xs q by (rule links_frame) (simp add: n)
  moreover have "tree_in d' t = tree_in d t" for t
    using tree_in_frame [of d t 0 d'] tree_in_frame [of d' t 0 d] n by auto
  ultimately show ?thesis
    using assms by (simp add: rep0_def chain_ok_def block_ok_def kids_ok_def n)
qed

text \<open>A change of one node that keeps links, children and offset, seen by the other blocks.\<close>

lemma rep0_others:
  assumes r: "rep0 d (xs @ b # ys)" and f: "\<And>x. n_left (f x) = n_left x \<and> n_right (f x) = n_right x \<and>
      children (f x) = children x \<and> n_offset (f x) = n_offset x"
  shows "chain_ok (upd_node (b_id b) f d) (map b_id (xs @ b # ys))"
    "\<And>a. a \<in> set (xs @ ys) \<Longrightarrow> block_ok (upd_node (b_id b) f d) a"
    "kids_ok (upd_node (b_id b) f d) (b_id b) (b_kids b)" "b_id b < length (mChunks d)"
proof -
  let ?d = "upd_node (b_id b) f d"
  show bl: "b_id b < length (mChunks d)" using rep0D(6) [OF r] by simp
  note dist = rep0D(3) [OF r]
  have n: "n_left (node ?d i) = n_left (node d i) \<and> n_right (node ?d i) = n_right (node d i) \<and>
      children (node ?d i) = children (node d i) \<and> n_offset (node ?d i) = n_offset (node d i)" for i
  proof (cases "i = b_id b")
    case True
    then have "node ?d i = f (node d i)" using bl by simp
    then show ?thesis using f [of "node d i"] by (simp only: simp_thms)
  next
    case False
    then have "node ?d i = node d i" by simp
    then show ?thesis by (simp only: simp_thms)
  qed
  have "links ?d None (map b_id (xs @ b # ys)) None = links d None (map b_id (xs @ b # ys)) None"
    by (rule links_frame) (intro conjI n [THEN conjunct1] n [THEN conjunct2, THEN conjunct1])
  then show "chain_ok ?d (map b_id (xs @ b # ys))" using rep0D(1) [OF r] by (simp add: chain_ok_def)
  have bo: "block_ok d b" "\<And>a. a \<in> set (xs @ ys) \<Longrightarrow> block_ok d a" using rep0D(2) [OF r] by simp_all
  show "block_ok ?d a" if "a \<in> set (xs @ ys)" for a
  proof (rule block_ok_frame [OF bo(2) [OF that]])
    have "b_id b \<notin> set (all_ids xs)" "b_id b \<notin> set (all_ids ys)" using dist by auto
    then have "b_id b \<noteq> b_id a" using that in_all_ids [of a xs] in_all_ids [of a ys] by (metis Un_iff set_append)
    then have "node ?d (b_id a) = node d (b_id a)" by (rule node_upd_other)
    then show "usage (node ?d (b_id a)) = usage (node d (b_id a))" "n_size (node ?d (b_id a)) = n_size (node d (b_id a))"
      by simp_all
  qed (intro conjI n [THEN conjunct2, THEN conjunct2, THEN conjunct1] n [THEN conjunct2, THEN conjunct2, THEN conjunct2])+
  show "kids_ok ?d (b_id b) (b_kids b)"
  proof (rule kids_ok_frame [of d])
    show "kids_ok d (b_id b) (b_kids b)" using bo(1) by (simp add: block_ok_def)
  qed (intro conjI n [THEN conjunct2, THEN conjunct2, THEN conjunct1] n [THEN conjunct2, THEN conjunct2, THEN conjunct2])+
qed

lemma rep0_set_used:
  assumes "rep0 d (xs @ b # ys)"
  shows "rep0 (upd_node (b_id b) (\<lambda>x. x\<lparr>usage := u\<rparr>) d) (xs @ b\<lparr>b_used := u\<rparr> # ys)"
proof -
  note o = rep0_others [OF assms, of "\<lambda>x. x\<lparr>usage := u\<rparr>"]
  have "block_ok d b" using rep0D(2) [OF assms(1)] by simp
  then have "block_ok (upd_node (b_id b) (\<lambda>x. x\<lparr>usage := u\<rparr>) d) (b\<lparr>b_used := u\<rparr>)"
    using o(3,4) by (simp add: block_ok_def)
  then show ?thesis using assms o by (simp add: rep0_def ball_Un)
qed

lemma rep0_set_size:
  assumes "rep0 d (xs @ b # ys)" and "extent (xs @ b\<lparr>b_size := unat s\<rparr> # ys) < 2 ^ 64"
  shows "rep0 (upd_node (b_id b) (\<lambda>x. x\<lparr>n_size := s\<rparr>) d) (xs @ b\<lparr>b_size := unat s\<rparr> # ys)"
proof -
  note o = rep0_others [OF assms(1), of "\<lambda>x. x\<lparr>n_size := s\<rparr>"]
  have "block_ok d b" using rep0D(2) [OF assms(1)] by simp
  then have "block_ok (upd_node (b_id b) (\<lambda>x. x\<lparr>n_size := s\<rparr>) d) (b\<lparr>b_size := unat s\<rparr>)"
    using o(3,4) by (simp add: block_ok_def)
  then show ?thesis using assms o by (simp add: rep0_def ball_Un)
qed

text \<open>The neighbours of a node in the chain.\<close>

lemma rep0_neighbours:
  assumes "rep0 d (xs @ b # ys)"
  shows "n_left (node d (b_id b)) = last_of None (map b_id xs)" "n_right (node d (b_id b)) = first_of (map b_id ys) None"
    "\<And>a. a \<in> set (xs @ b # ys) \<Longrightarrow> usage (node d (b_id a)) = b_used a \<and> b_id a < length (mChunks d)"
proof -
  show "n_left (node d (b_id b)) = last_of None (map b_id xs)" "n_right (node d (b_id b)) = first_of (map b_id ys) None"
    using rep0D(1) [OF assms] by (simp_all add: chain_ok_def)
  show "usage (node d (b_id a)) = b_used a \<and> b_id a < length (mChunks d)" if "a \<in> set (xs @ b # ys)" for a
    using rep0D(2,6) [OF assms that] by (simp add: block_ok_def)
qed

text \<open>The other fields, which no operation on nodes touches.\<close>

definition same_ctl :: "Defer \<Rightarrow> Defer \<Rightarrow> bool" where
  "same_ctl d d' \<longleftrightarrow> mBarrier d' = mBarrier d \<and> mBarrierFreeChunks d' = mBarrierFreeChunks d \<and>
     mTotalSize d' = mTotalSize d \<and> mAlign d' = mAlign d \<and> mPtr d' = mPtr d \<and> mApplyFunction d' = mApplyFunction d"

lemma free_ids_sub: "free_ids bs \<subseteq> set (all_ids bs)" "(n, s) \<in> used_of bs \<Longrightarrow> n \<in> set (all_ids bs)"
  by (induction bs) (auto split: if_splits)

text \<open>
  Freeing, first half: the node is fused into a free left neighbour. The result is a block
  \<open>m\<close> not in the free list, between blocks \<open>us\<close> and \<open>ys\<close>; the last of \<open>us\<close> is in use.
\<close>

lemma free_left:
  assumes r: "rep d (xs @ b # ys)" and u: "b_used b"
    and d1: "(n1, d1) = (case n_left (node d (b_id b)) of
        Some l \<Rightarrow> if \<not> usage (node d l) then (l, fuse_to_left l (b_id b) (eraseFree l d)) else (b_id b, d)
      | None \<Rightarrow> (b_id b, d))"
  obtains us m where "n1 = b_id m" "rep0 d1 (us @ m # ys)" "evolves (xs @ b # ys) (us @ m # ys)"
    "distinct (mFreeList d1)" "set (mFreeList d1) = free_ids us \<union> free_ids ys"
    "coalesced us" "us = [] \<or> b_used (last us)" "used_of us = used_of xs" "same_ctl d d1"
    "\<And>i. usage (node d1 i) = usage (node d i)" "extent (us @ m # ys) = extent (xs @ b # ys)"
proof -
  have r0: "rep0 d (xs @ b # ys)" and fl: "distinct (mFreeList d)" "set (mFreeList d) = free_ids xs \<union> free_ids ys"
    and co: "coalesced (xs @ b # ys)" using r u by (auto simp: rep_def)
  note nb = rep0_neighbours [OF r0]
  have cx: "coalesced xs" using co by (simp add: coalesced_def successively_append_iff)
  show thesis
  proof (cases "xs \<noteq> [] \<and> \<not> b_used (last xs)")
    case False
    then have "(n1, d1) = (b_id b, d)"
    proof (cases xs rule: rev_cases)
      case (snoc us a)
      then show ?thesis using d1 nb(1) nb(3) [of a] False by simp
    qed (use d1 nb(1) in simp)
    then show thesis using that [of b xs] r0 fl cx False by (auto simp: same_ctl_def)
  next
    case True
    then obtain us a where xs: "xs = us @ [a]" and a: "\<not> b_used a" by (metis append_butlast_last_id)
    have "(n1, d1) = (b_id a, fuse_to_left (b_id a) (b_id b) (eraseFree (b_id a) d))"
      using d1 nb(1) nb(3) [of a] xs a by simp
    then have n1: "n1 = b_id (fused a b)" and d1': "d1 = fuse_to_left (b_id a) (b_id b) (eraseFree (b_id a) d)" by auto
    have "rep0 (eraseFree (b_id a) d) (us @ a # b # ys)" using r0 xs rep0_cong [of "eraseFree (b_id a) d" d] by simp
    note f = fuse_rep0 [OF this, folded d1']
    have a_free: "b_id a \<notin> free_ids us \<union> free_ids ys"
      using rep0D(3) [OF r0] xs free_ids_sub(1) [of us] free_ids_sub(1) [of ys] by auto
    have "set (mFreeList d1) = free_ids us \<union> free_ids ys"
      using f(2) fl xs a a_free by (auto simp: set_remove1_eq)
    moreover have "coalesced us" "us = [] \<or> b_used (last us)"
      using cx a xs by (auto simp: coalesced_def successively_append_iff)
    ultimately show thesis
      using that [of "fused a b" us] n1 f fl xs a evolves_fuse [of us a b ys] by (auto simp: same_ctl_def)
  qed
qed

text \<open>Second half: a free right neighbour is fused into the block, which becomes free.\<close>

lemma free_right:
  assumes r0: "rep0 d (us @ m # ys)" and fl: "distinct (mFreeList d)" "set (mFreeList d) = free_ids us \<union> free_ids ys"
    and co: "coalesced us" "us = [] \<or> b_used (last us)" "coalesced ys"
    and d2: "d2 = (case first_of (map b_id ys) None of
        Some r \<Rightarrow> if \<not> usage (node d r) then fuse_to_left (b_id m) r (eraseFree r d) else d
      | None \<Rightarrow> d)"
    and d3: "d3 = insertFree (b_id m) (upd_node (b_id m) (\<lambda>x. x\<lparr>usage := False\<rparr>) d2)"
  shows "\<exists>bs. rep d3 bs \<and> evolves (us @ m # ys) bs \<and> used_of bs = used_of us \<union> used_of ys \<and> same_ctl d d3 \<and>
    extent bs = extent (us @ m # ys)"
proof -
  note nb = rep0_neighbours [OF r0]
  obtain m2 ys2 where r2: "rep0 d2 (us @ m2 # ys2)" and id: "b_id m2 = b_id m"
    and ev: "evolves (us @ m # ys) (us @ m2 # ys2)" and fl2: "distinct (mFreeList d2)"
      "set (mFreeList d2) = free_ids us \<union> free_ids ys2" and y2: "coalesced ys2" "ys2 = [] \<or> b_used (hd ys2)"
      "used_of ys2 = used_of ys" and ctl: "same_ctl d d2" and ex: "extent (us @ m2 # ys2) = extent (us @ m # ys)"
  proof (cases "ys \<noteq> [] \<and> \<not> b_used (hd ys)")
    case False
    then have "d2 = d" using d2 nb(3) by (cases ys) auto
    then show thesis using that [of m ys] r0 fl co(3) False by (auto simp: same_ctl_def)
  next
    case True
    then obtain c zs where ys: "ys = c # zs" and c: "\<not> b_used c" by (cases ys) auto
    have d2': "d2 = fuse_to_left (b_id m) (b_id c) (eraseFree (b_id c) d)" using d2 nb(3) [of c] ys c by simp
    have "rep0 (eraseFree (b_id c) d) (us @ m # c # zs)" using r0 ys rep0_cong [of "eraseFree (b_id c) d" d] by simp
    note f = fuse_rep0 [OF this, folded d2']
    have "b_id c \<notin> free_ids us \<union> free_ids zs"
      using rep0D(3) [OF r0] ys free_ids_sub(1) [of us] free_ids_sub(1) [of zs] by auto
    then have "set (mFreeList d2) = free_ids us \<union> free_ids zs"
      using f(2) fl ys c by (auto simp: set_remove1_eq)
    moreover have "coalesced zs" "zs = [] \<or> b_used (hd zs)"
      using co(3) c ys by (auto simp: coalesced_def successively_Cons)
    ultimately show thesis using that [of "fused m c" zs] f fl ys c evolves_fuse [of us m c zs]
      by (auto simp: same_ctl_def)
  qed
  let ?bs = "us @ m2\<lparr>b_used := False\<rparr> # ys2" and ?u = "upd_node (b_id m) (\<lambda>x. x\<lparr>usage := False\<rparr>) d2"
  have "rep0 ?u ?bs" using rep0_set_used [OF r2, of False] id by simp
  then have "rep0 d3 ?bs" using rep0_cong [of d3 ?u] d3 by simp
  moreover have "b_id m \<notin> set (mFreeList d2)"
    using rep0D(3) [OF r2] id fl2(2) free_ids_sub(1) [of us] free_ids_sub(1) [of ys2] by auto
  then have "distinct (mFreeList d3)" "set (mFreeList d3) = free_ids ?bs"
    using fl2 id d3 distinct_insertFree [of ?u "b_id m"] by (auto simp: set_insertFree)
  moreover have "coalesced ?bs"
    using co(1,2) y2 by (auto simp: coalesced_def successively_append_iff successively_Cons)
  ultimately have "rep d3 ?bs" by (simp add: rep_def)
  moreover have "same_ctl d d3" using ctl d3 by (simp add: same_ctl_def)
  ultimately show ?thesis
    using evolves_trans [OF ev evolves_used] y2(3) ex by (intro exI [of _ ?bs]) simp
qed

lemma free_rep:
  assumes r: "rep d (xs @ b # ys)" and u: "b_used b" and nb: "\<not> mBarrier d" and c: "chunk_mNode c = Some (b_id b)"
  shows "\<exists>d' bs'. Defer_free c d = Inr (True, d') \<and> rep d' bs' \<and> evolves (xs @ b # ys) bs' \<and>
    used_of bs' = used_of (xs @ b # ys) - {(b_id b, b_size b)} \<and> same_ctl d d' \<and> extent bs' = extent (xs @ b # ys)"
proof -
  define nd where "nd = (case n_left (node d (b_id b)) of
        Some l \<Rightarrow> if \<not> usage (node d l) then (l, fuse_to_left l (b_id b) (eraseFree l d)) else (b_id b, d)
      | None \<Rightarrow> (b_id b, d))"
  define n1 d1 where "n1 = fst nd" and "d1 = snd nd"
  have d1: "(n1, d1) = (case n_left (node d (b_id b)) of
        Some l \<Rightarrow> if \<not> usage (node d l) then (l, fuse_to_left l (b_id b) (eraseFree l d)) else (b_id b, d)
      | None \<Rightarrow> (b_id b, d))" unfolding n1_def d1_def nd_def [symmetric] by (rule prod.collapse)
  obtain us m where m: "n1 = b_id m" "rep0 d1 (us @ m # ys)" "evolves (xs @ b # ys) (us @ m # ys)"
    "distinct (mFreeList d1)" "set (mFreeList d1) = free_ids us \<union> free_ids ys"
    "coalesced us" "us = [] \<or> b_used (last us)" "used_of us = used_of xs" "same_ctl d d1"
    "\<And>i. usage (node d1 i) = usage (node d i)" "extent (us @ m # ys) = extent (xs @ b # ys)"
    by (rule free_left [OF r u d1], rule that, assumption+)
  have r0: "rep0 d (xs @ b # ys)" "coalesced ys"
    using r coalesced_parts [of xs b ys] by (simp_all add: rep_def)
  define d2 where "d2 = (case first_of (map b_id ys) None of
        Some r \<Rightarrow> if \<not> usage (node d1 r) then fuse_to_left n1 r (eraseFree r d1) else d1 | None \<Rightarrow> d1)"
  define d3 where "d3 = insertFree n1 (upd_node n1 (\<lambda>x. x\<lparr>usage := False\<rparr>) d2)"
  obtain bs where bs: "rep d3 bs" "evolves (us @ m # ys) bs" "used_of bs = used_of us \<union> used_of ys" "same_ctl d1 d3"
    "extent bs = extent (us @ m # ys)"
    using free_right [OF m(2,4-7) r0(2) d2_def [unfolded m(1)] d3_def [unfolded m(1)]] by blast
  have "Defer_free c d = Inr (True, d3)"
    using nb c rep0D(6) [OF r0(1), of b] rep0_neighbours(2) [OF r0(1)] d1 [symmetric]
    by (simp add: Defer_free_def Let_def d2_def d3_def not_le)
  moreover have "(b_id b, s) \<notin> used_of xs \<union> used_of ys" for s
    using rep0D(3) [OF r0(1)] free_ids_sub(2) [of "b_id b" s xs] free_ids_sub(2) [of "b_id b" s ys] by auto
  then have "used_of bs = used_of (xs @ b # ys) - {(b_id b, b_size b)}" using bs(3) m(8) u by auto
  moreover have "same_ctl d d3" using bs(4) m(9) by (simp add: same_ctl_def)
  moreover have "extent bs = extent (xs @ b # ys)" using bs(5) m(11) by (rule trans)
  ultimately show ?thesis using bs(1) evolves_trans [OF m(3) bs(2)] by blast
qed

subsection \<open>Alloc\<close>

lemma createMemNode_eqs:
  assumes "createMemNode s d = (n, d')"
  shows "n = length (mChunks d)" "length (mChunks d') = Suc n" "node d' n = MemNode_new s" "\<And>i. i < n \<Longrightarrow> node d' i = node d i"
    "mHead d' = mHead d" "mTail d' = mTail d" "mFreeList d' = mFreeList d" "same_ctl d d'"
  using assms by (auto simp: createMemNode_def node_def nth_append same_ctl_def)

text \<open>A new node, linked in or not, leaves the blocks that exist as they are.\<close>

lemma create_chain:
  assumes r: "rep0 d bs" and c: "createMemNode s d = (n, d')"
  shows "chain_ok d' (map b_id bs)" "\<And>b. b \<in> set bs \<Longrightarrow> block_ok d' b" "n \<notin> set (all_ids bs)"
    "set (all_ids bs) = {..<n}" "n \<notin> b_id ` set bs"
proof -
  note e = createMemNode_eqs [OF c] and R = rep0D [OF r]
  show ids: "set (all_ids bs) = {..<n}" "n \<notin> set (all_ids bs)" using R(4) e(1) by auto
  then show "n \<notin> b_id ` set bs" using in_all_ids by blast
  have old: "node d' i = node d i" if "i \<in> set (all_ids bs)" for i using e(4) ids that by blast
  have "links d' None (map b_id bs) None = links d None (map b_id bs) None"
    by (rule links_frame) (use old in_all_ids in auto)
  then show "chain_ok d' (map b_id bs)" using R(1) e by (auto simp: chain_ok_def)
  show "block_ok d' b" if "b \<in> set bs" for b
  proof (rule block_ok_frame [OF R(2) [OF that]])
    have "node d' (b_id b) = node d (b_id b)" using old in_all_ids [OF that] by blast
    then show "n_size (node d' (b_id b)) = n_size (node d (b_id b))" "usage (node d' (b_id b)) = usage (node d (b_id b))"
      "children (node d' (b_id b)) = children (node d (b_id b))" by simp_all
    fix j assume "j \<in> fst ` set (b_kids b)"
    then have "node d' j = node d j" using old in_all_ids [OF that] by blast
    then show "n_offset (node d' j) = n_offset (node d j) \<and> children (node d' j) = children (node d j)" by simp
  qed
qed

text \<open>The block of a fresh node.\<close>

definition fresh_block :: "nat \<Rightarrow> nat \<Rightarrow> bool \<Rightarrow> ablock" where
  "fresh_block n s u = \<lparr>b_id = n, b_size = s, b_used = u, b_kids = []\<rparr>"

lemma fresh_block_simps [simp]:
  "b_id (fresh_block n s u) = n" "b_size (fresh_block n s u) = s" "b_used (fresh_block n s u) = u" "b_kids (fresh_block n s u) = []"
  by (simp_all add: fresh_block_def)

lemma fresh_block_ok: "node d n = MemNode_new s \<Longrightarrow> block_ok d (fresh_block n (unat s) True)"
  by (auto simp: block_ok_def kids_ok_def MemNode_new_def intro!: exI [of _ "[]"])

lemma append_rep0:
  assumes r: "rep0 d bs" and c: "createMemNode s d = (n, d1)" and e: "extent bs + unat s < 2 ^ 64"
  shows "rep0 (insert_after n None d1) (bs @ [fresh_block n (unat s) True])" "mFreeList (insert_after n None d1) = mFreeList d"
    "same_ctl d (insert_after n None d1)"
proof -
  note q = createMemNode_eqs [OF c] and cc = create_chain [OF r c]
  have i: "chain_ok (insert_after n None d1) (map b_id bs @ [n])" "same_data d1 (insert_after n None d1)"
    using insert_tail_chain [OF cc(1), of n] cc(5) q(2,3) by (auto simp: MemNode_new_def)
  have b: "block_ok (insert_after n None d1) x" if "x \<in> set (bs @ [fresh_block n (unat s) True])" for x
    using that cc(2) block_ok_same [OF i(2)] fresh_block_ok [OF q(3)] by auto
  have len: "length (mChunks (insert_after n None d1)) = Suc n" using i(2) q(2) by (simp add: same_data_def)
  have "chain_ok (insert_after n None d1) (map b_id (bs @ [fresh_block n (unat s) True]))" using i(1) by simp
  moreover have "distinct (all_ids (bs @ [fresh_block n (unat s) True]))" using rep0D(3) [OF r] cc(3) by simp
  moreover have "set (all_ids (bs @ [fresh_block n (unat s) True])) = {..<Suc n}" using cc(4) by (simp add: lessThan_Suc)
  ultimately show "rep0 (insert_after n None d1) (bs @ [fresh_block n (unat s) True])"
    using b e len unfolding rep0_def by simp
  show "mFreeList (insert_after n None d1) = mFreeList d" "same_ctl d (insert_after n None d1)"
    using i(2) q(7,8) by (simp_all add: same_data_def same_ctl_def)
qed

text \<open>Cutting a block in two: the new node gets what is left.\<close>

text \<open>A block whose size is cut.\<close>

lemma shrunk_blocks:
  assumes ch: "chain_ok d (map b_id (xs @ b # zs))" and bo: "\<And>a. a \<in> set (xs @ b # zs) \<Longrightarrow> block_ok d a" and dist: "distinct (all_ids (xs @ b # zs))"
    and bl: "b_id b < length (mChunks d)" and e: "e = upd_node (b_id b) (\<lambda>x. x\<lparr>n_size := s\<rparr>) (insertFree n d)"
  shows "chain_ok e (map b_id (xs @ b\<lparr>b_size := unat s\<rparr> # zs))" "a \<in> set (xs @ b\<lparr>b_size := unat s\<rparr> # zs) \<Longrightarrow> block_ok e a"
proof -
  have ne: "node e i = (if i = b_id b then (node d (b_id b))\<lparr>n_size := s\<rparr> else node d i)" for i
    using bl by (cases "i = b_id b") (simp_all add: e)
  have "links e None (map b_id (xs @ b # zs)) None = links d None (map b_id (xs @ b # zs)) None"
    by (rule links_frame) (simp add: ne)
  then show "chain_ok e (map b_id (xs @ b\<lparr>b_size := unat s\<rparr> # zs))" using ch by (simp add: chain_ok_def e)
  have own: "block_ok e (b\<lparr>b_size := unat s\<rparr>)"
  proof -
    have "kids_ok d (b_id b) (b_kids b)" "usage (node d (b_id b)) = b_used b" using bo [of b] by (simp_all add: block_ok_def)
    moreover from this have "kids_ok e (b_id b) (b_kids b)" by (elim kids_ok_frame) (simp_all add: ne)
    ultimately show ?thesis by (simp add: block_ok_def ne)
  qed
  show "block_ok e a" if "a \<in> set (xs @ b\<lparr>b_size := unat s\<rparr> # zs)"
  proof (cases "a \<in> set (xs @ zs)")
    case True
    then have "block_ok d a" "b_id a \<noteq> b_id b" using bo dist in_all_ids [of a xs] in_all_ids [of a zs] by auto
    then show ?thesis by (elim block_ok_frame) (simp_all add: ne)
  qed (use that own in auto)
qed

lemma split_rep0:
  assumes r: "rep0 d (xs @ b # ys)" and c: "createMemNode (n_size (node d (b_id b)) - s) d = (n, e1)"
    and s: "s < n_size (node d (b_id b))"
    and e: "e = upd_node (b_id b) (\<lambda>x. x\<lparr>n_size := s\<rparr>)
      (insertFree n (insert_after n (Some (b_id b)) (upd_node n (\<lambda>x. x\<lparr>usage := False\<rparr>) e1)))"
  shows "rep0 e (xs @ b\<lparr>b_size := unat s\<rparr> # fresh_block n (b_size b - unat s) False # ys)"
    "set (mFreeList e) = insert n (set (mFreeList d))"
    "distinct (mFreeList d) \<Longrightarrow> n \<notin> set (mFreeList d) \<Longrightarrow> distinct (mFreeList e)" "same_ctl d e"
proof -
  let ?bs = "xs @ b # ys" and ?rest = "n_size (node d (b_id b)) - s"
  define e2 where "e2 = upd_node n (\<lambda>x. x\<lparr>usage := False\<rparr>) e1"
  define e3 where "e3 = insert_after n (Some (b_id b)) e2"
  note q = createMemNode_eqs [OF c] and cc = create_chain [OF r c]
  have ne: "n \<notin> set (map b_id ?bs)" using cc(5) by auto
  have n2: "node e2 i = (if i = n then (MemNode_new ?rest)\<lparr>usage := False\<rparr> else node e1 i)" for i
    using q(2,3) by (cases "i = n") (simp_all add: e2_def)
  have "links e2 None (map b_id ?bs) None = links e1 None (map b_id ?bs) None"
    by (rule links_frame) (use ne n2 in auto)
  then have ch2: "chain_ok e2 (map b_id ?bs)" using cc(1) by (simp add: chain_ok_def e2_def)
  have i: "chain_ok e3 (map b_id xs @ b_id b # n # map b_id ys)" "same_data e2 e3"
    using insert_pos_chain [of e2 "map b_id xs" "b_id b" "map b_id ys" n] ch2 ne q(2) by (simp_all add: e3_def e2_def)
  have k2: "node e2 j = node e1 j" if "j \<in> set (all_ids ?bs)" for j using n2 cc(3) that by metis
  have bs2: "block_ok e2 a" if "a \<in> set ?bs" for a
    by (rule block_ok_away [OF cc(2) [OF that]]) (use k2 in_all_ids [OF that] in blast)
  have bsz: "unat (n_size (node d (b_id b))) = b_size b" using rep0D(2) [OF r, of b] by (simp add: block_ok_def)
  then have us: "unat s < b_size b" "unat ?rest = b_size b - unat s"
    using s by (simp_all add: word_less_nat_alt unat_sub word_le_nat_alt)
  let ?f = "fresh_block n (b_size b - unat s) False"
  have "block_ok e2 ?f"
    using us n2 [of n] by (auto simp: block_ok_def kids_ok_def MemNode_new_def intro!: exI [of _ "[]"])
  then have b3: "block_ok e3 a" if "a \<in> set (xs @ b # ?f # ys)" for a
    using that bs2 block_ok_same [OF i(2)] by auto
  have e4: "e = upd_node (b_id b) (\<lambda>x. x\<lparr>n_size := s\<rparr>) (insertFree n e3)" by (simp add: e e3_def e2_def)
  have bl: "b_id b < length (mChunks e3)" using rep0D(6) [OF r, of b] q(1,2) i(2) by (simp add: same_data_def e2_def)
  have dist: "distinct (all_ids (xs @ b # ?f # ys))" using rep0D(3) [OF r] cc(3) by auto
  have ch3: "chain_ok e3 (map b_id (xs @ b # ?f # ys))" using i(1) by simp
  note sh = shrunk_blocks [OF ch3 b3 dist bl e4]
  have "distinct (all_ids (xs @ b\<lparr>b_size := unat s\<rparr> # ?f # ys))" using dist by simp
  moreover have "set (all_ids (xs @ b\<lparr>b_size := unat s\<rparr> # ?f # ys)) = {..<length (mChunks e)}"
  proof -
    have "length (mChunks e) = Suc n" using q(2) i(2) by (simp add: e4 same_data_def e2_def)
    moreover have "set (all_ids (xs @ b\<lparr>b_size := unat s\<rparr> # ?f # ys)) = insert n (set (all_ids ?bs))" by auto
    ultimately show ?thesis unfolding cc(4) by (simp add: lessThan_Suc)
  qed
  moreover have "extent (xs @ b\<lparr>b_size := unat s\<rparr> # ?f # ys) < 2 ^ 64" using rep0D(5) [OF r] us by simp
  ultimately show "rep0 e (xs @ b\<lparr>b_size := unat s\<rparr> # ?f # ys)" using sh unfolding rep0_def by blast
  have fl: "mFreeList e3 = mFreeList d" using i(2) q(7) by (simp add: same_data_def e2_def)
  show "set (mFreeList e) = insert n (set (mFreeList d))" using fl by (simp add: e4 set_insertFree)
  show "distinct (mFreeList e)" if "distinct (mFreeList d)" "n \<notin> set (mFreeList d)"
    using that fl distinct_insertFree [of e3 n] by (simp add: e4)
  show "same_ctl d e" using i(2) q(8) by (simp add: e4 same_data_def same_ctl_def e2_def)
qed

end
