(* ===== verification/MNN_Defer_Layout.thy ===== *)
theory MNN_Defer_Layout
  imports MNN_Defer_Refine
begin

text \<open>
  The two ends of the deferred allocator's work: \<open>alloc\<close> as a move of the plan, and the layout
  loop of \<open>compute\<close>, which reads the positions of all nodes off the plan.
\<close>

subsection \<open>Alloc\<close>

lemma free_block:
  assumes "rep d bs" and "n \<in> set (mFreeList d)"
  obtains xs b ys where "bs = xs @ b # ys" "b_id b = n" "\<not> b_used b"
    "rep0 (d\<lparr>mFreeList := fl\<rparr>) (xs @ b # ys)" "set (remove1 n (mFreeList d)) = free_ids xs \<union> free_ids ys"
    "distinct (remove1 n (mFreeList d))" "coalesced xs" "coalesced ys" "ys = [] \<or> b_used (hd ys)"
    "n \<notin> fst ` used_of bs"
proof -
  have r: "rep0 d bs" "distinct (mFreeList d)" "set (mFreeList d) = free_ids bs" "coalesced bs"
    using assms(1) by (auto simp: rep_def)
  obtain b where b: "b \<in> set bs" "b_id b = n" "\<not> b_used b" using assms(2) r(3) by (auto simp: free_ids_def)
  then obtain xs ys where bs: "bs = xs @ b # ys" by (meson split_list)
  have out: "n \<notin> set (all_ids xs)" "n \<notin> set (all_ids ys)" using rep0D(3) [OF r(1)] b(2) by (auto simp: bs)
  then have "n \<notin> free_ids xs \<union> free_ids ys" using free_ids_sub(1) by blast
  then have "set (remove1 n (mFreeList d)) = free_ids xs \<union> free_ids ys"
    using r(2,3) b by (auto simp: bs set_remove1_eq)
  moreover have "n \<notin> fst ` used_of bs" using out free_ids_sub(2) b(3) by (auto simp: bs)
  moreover have "rep0 (d\<lparr>mFreeList := fl\<rparr>) (xs @ b # ys)" using r(1) rep0_cong [of "d\<lparr>mFreeList := fl\<rparr>" d] by (simp add: bs)
  ultimately show thesis using that [OF bs b(2,3)] coalesced_parts [of xs b ys] r(2,4) b(3) by (simp add: bs)
qed

definition alloc_post :: "Defer \<Rightarrow> ablock list \<Rightarrow> nat \<Rightarrow> nat \<Rightarrow> Defer \<Rightarrow> ablock list \<Rightarrow> bool" where
  "alloc_post d bs s n d' bs' \<longleftrightarrow> rep d' bs' \<and> evolves bs bs' \<and> used_of bs' = insert (n, s) (used_of bs) \<and>
     n \<notin> fst ` used_of bs \<and> same_ctl d d' \<and> extent bs' \<le> extent bs + s"

lemma alloc_new_post:
  assumes r: "rep d bs" and c: "createMemNode sz d = (n, d1)" and e: "extent bs + unat sz < 2 ^ 64"
  shows "alloc_post d bs (unat sz) n (insert_after n None d1) (bs @ [fresh_block n (unat sz) True])"
proof -
  have r': "rep0 d bs" "distinct (mFreeList d)" "set (mFreeList d) = free_ids bs" "coalesced bs"
    using r by (auto simp: rep_def)
  note a = append_rep0 [OF r'(1) c e]
  have "coalesced (bs @ [fresh_block n (unat sz) True])" using r'(4) coalesced_used [of bs "[]"] by (simp add: coalesced_def)
  moreover have "n \<notin> fst ` used_of bs" using create_chain(3) [OF r'(1) c] free_ids_sub(2) by force
  ultimately show ?thesis using a r' evolves_new by (simp add: alloc_post_def rep_def)
qed

lemma alloc_reuse_post:
  assumes r: "rep d bs" and n: "n \<in> set (mFreeList d)" and e: "extent bs + unat sz < 2 ^ 64"
    and d2: "d2 = upd_node n (\<lambda>x. x\<lparr>usage := True\<rparr>) (d\<lparr>mFreeList := remove1 n (mFreeList d)\<rparr>)"
    and d3: "d3 = (if n_size (node d2 n) > sz then
        (case createMemNode (n_size (node d2 n) - sz) d2 of
           (rest, e1) \<Rightarrow> insertFree rest (insert_after rest (Some n) (upd_node rest (\<lambda>x. x\<lparr>usage := False\<rparr>) e1)))
        else d2)"
  shows "\<exists>bs'. alloc_post d bs (unat sz) n (upd_node n (\<lambda>x. x\<lparr>n_size := sz\<rparr>) d3) bs'"
proof -
  obtain xs b ys where b: "bs = xs @ b # ys" "b_id b = n" "\<not> b_used b"
    "rep0 (d\<lparr>mFreeList := remove1 n (mFreeList d)\<rparr>) (xs @ b # ys)" "set (remove1 n (mFreeList d)) = free_ids xs \<union> free_ids ys"
    "distinct (remove1 n (mFreeList d))" "coalesced xs" "coalesced ys" "ys = [] \<or> b_used (hd ys)" "n \<notin> fst ` used_of bs"
    by (rule free_block [OF r n]) (rule that)
  let ?b = "b\<lparr>b_used := True\<rparr>"
  have r2: "rep0 d2 (xs @ ?b # ys)" using rep0_set_used [OF b(4), of True] b(2) d2 by simp
  have fl: "mFreeList d2 = remove1 n (mFreeList d)" "same_ctl d d2" by (simp_all add: d2 same_ctl_def)
  have sz: "unat (n_size (node d2 n)) = b_size b" using rep0D(2) [OF r2, of ?b] b(2) by (simp add: block_ok_def)
  have ev2: "evolves bs (xs @ ?b # ys)" unfolding b(1) by (rule evolves_used)
  show ?thesis
  proof (cases "sz < n_size (node d2 n)")
    case True
    obtain rest e1 where c: "createMemNode (n_size (node d2 n) - sz) d2 = (rest, e1)" by fastforce
    define e4 where "e4 = upd_node n (\<lambda>x. x\<lparr>n_size := sz\<rparr>) d3"
    have e4': "e4 = upd_node (b_id ?b) (\<lambda>x. x\<lparr>n_size := sz\<rparr>)
      (insertFree rest (insert_after rest (Some (b_id ?b)) (upd_node rest (\<lambda>x. x\<lparr>usage := False\<rparr>) e1)))"
      using c b(2) True by (simp add: e4_def d3)
    have c': "createMemNode (n_size (node d2 (b_id ?b)) - sz) d2 = (rest, e1)"
      and t': "sz < n_size (node d2 (b_id ?b))" using c True b(2) by simp_all
    let ?bs = "xs @ ?b\<lparr>b_size := unat sz\<rparr> # fresh_block rest (b_size ?b - unat sz) False # ys"
    note s = split_rep0 [OF r2 c' t' e4']
    have nr: "rest \<notin> set (all_ids (xs @ ?b # ys))" by (rule create_chain(3) [OF r2 c'])
    then have "rest \<notin> set (mFreeList d2)"
      using fl b(5) free_ids_sub(1) [of xs] free_ids_sub(1) [of ys] by auto
    then have "distinct (mFreeList e4)" "set (mFreeList e4) = free_ids ?bs" using s(2,3) fl b(5,6) by auto
    moreover have "coalesced ?bs"
      using b(7-9) by (auto simp: coalesced_def successively_append_iff successively_Cons)
    ultimately have "rep e4 ?bs" using s(1) by (simp add: rep_def)
    moreover have "unat sz < b_size b" using True sz by (simp add: word_less_nat_alt)
    moreover have "evolves bs ?bs"
      using evolves_trans [OF ev2 evolves_split [of "unat sz" ?b "fresh_block rest (b_size ?b - unat sz) False" xs ys]]
        nr \<open>unat sz < b_size b\<close> by simp
    moreover have "same_ctl d e4" using s(4) fl(2) by (simp add: same_ctl_def)
    ultimately show ?thesis
      using b by (intro exI [of _ ?bs]) (auto simp: alloc_post_def e4_def)
  next
    case False
    let ?bs = "xs @ ?b\<lparr>b_size := unat sz\<rparr> # ys"
    have le: "b_size b \<le> unat sz" using False sz by (simp add: word_less_nat_alt)
    have d3': "d3 = d2" using False d3 by simp
    have "extent ?bs < 2 ^ 64" using e b(1) by simp
    then have "rep0 (upd_node n (\<lambda>x. x\<lparr>n_size := sz\<rparr>) d3) ?bs" using rep0_set_size [OF r2, of sz] b(2) d3' by simp
    moreover have "coalesced ?bs" using coalesced_used [OF b(7,8)] by simp
    ultimately have "rep (upd_node n (\<lambda>x. x\<lparr>n_size := sz\<rparr>) d3) ?bs" using b(5,6) fl d3' by (simp add: rep_def)
    moreover have "evolves bs ?bs" using evolves_trans [OF ev2 evolves_grow [of ?b "unat sz" xs ys]] le by simp
    ultimately show ?thesis using b fl(2) d3' le by (intro exI [of _ ?bs]) (auto simp: alloc_post_def same_ctl_def)
  qed
qed

lemma alloc_rep:
  assumes r: "rep d bs" and al: "al = (if align0 = 0 then mAlign d else align0)" "al \<noteq> 0"
    and sz: "sz = UP_DIV sz0 al * al" and e: "extent bs + unat sz < 2 ^ 64"
  shows "\<exists>n d' bs'. Defer_alloc sz0 separate align0 d = Inr (MemChunk_node n, d') \<and> alloc_post d bs (unat sz) n d' bs'"
proof (cases "mFreeList d = [] \<or> separate")
  case True
  obtain n d1 where c: "createMemNode sz d = (n, d1)" by fastforce
  have "Defer_alloc sz0 separate align0 d = Inr (MemChunk_node n, insert_after n None d1)"
    using True al sz c by (simp add: Defer_alloc_def Let_def)
  then show ?thesis using alloc_new_post [OF r c e] by blast
next
  case False
  define n where "n = (case find (\<lambda>i. sz \<le> n_size (node d i)) (mFreeList d) of Some i \<Rightarrow> i | None \<Rightarrow> last (mFreeList d))"
  define d2 where "d2 = upd_node n (\<lambda>x. x\<lparr>usage := True\<rparr>) (d\<lparr>mFreeList := remove1 n (mFreeList d)\<rparr>)"
  define d3 where "d3 = (if n_size (node d2 n) > sz then
        (case createMemNode (n_size (node d2 n) - sz) d2 of
           (rest, e1) \<Rightarrow> insertFree rest (insert_after rest (Some n) (upd_node rest (\<lambda>x. x\<lparr>usage := False\<rparr>) e1)))
        else d2)"
  have n: "n \<in> set (mFreeList d)"
    using False by (auto simp: n_def find_Some_iff split: option.split)
  have "Defer_alloc sz0 separate align0 d = Inr (MemChunk_node n, upd_node n (\<lambda>x. x\<lparr>n_size := sz\<rparr>) d3)"
    unfolding Defer_alloc_def Let_def al(1) [symmetric] sz [symmetric] n_def [symmetric] d2_def [symmetric] d3_def [symmetric]
    using False al(2) by simp
  then show ?thesis using alloc_reuse_post [OF r n e d2_def d3_def] by blast
qed

text \<open>The size of a request, rounded up; with words that do not overflow it is the same.\<close>

definition rounded :: "nat \<Rightarrow> nat \<Rightarrow> nat" where
  "rounded al s = (s + al - 1) div al * al"

lemma round_up:
  assumes "al \<noteq> 0" and "unat sz0 + unat al \<le> 2 ^ 64"
  shows "unat (UP_DIV sz0 al * al) = rounded (unat al) (unat sz0)" "unat sz0 \<le> rounded (unat al) (unat sz0)"
    "rounded (unat al) (unat sz0) < unat sz0 + unat al"
proof -
  let ?n = "unat sz0 + unat al - 1"
  have a: "0 < unat al" using assms(1) by (simp add: unat_gt_0)
  have u: "unat (sz0 + al - 1) = ?n"
  proof -
    have "unat (al - 1) = unat al - 1" using a by (simp add: unat_minus_one assms(1))
    then show ?thesis using unat_add_no_wrap [of sz0 "al - 1"] assms(2) a by (simp add: add_diff_eq)
  qed
  have q: "unat (UP_DIV sz0 al) = ?n div unat al" by (simp add: UP_DIV_def unat_div u)
  have m: "?n div unat al * unat al \<le> ?n" by (rule div_times_less_eq_dividend)
  then have "?n div unat al * unat al < 2 ^ 64" using assms(2) a by linarith
  then show "unat (UP_DIV sz0 al * al) = rounded (unat al) (unat sz0)"
    unfolding rounded_def using unat_mult_no_wrap [of "UP_DIV sz0 al" al] by (simp only: q)
  have "?n mod unat al < unat al" "?n div unat al * unat al + ?n mod unat al = ?n" using a by simp_all
  then show "unat sz0 \<le> rounded (unat al) (unat sz0)" "rounded (unat al) (unat sz0) < unat sz0 + unat al"
    using a unfolding rounded_def by linarith+
qed

subsection \<open>Layout\<close>

text \<open>\<open>d'\<close> differs from \<open>d\<close> in the offsets of the nodes \<open>K\<close> at most.\<close>

definition only_offsets :: "nat set \<Rightarrow> Defer \<Rightarrow> Defer \<Rightarrow> bool" where
  "only_offsets K d d' \<longleftrightarrow> length (mChunks d') = length (mChunks d) \<and> mHead d' = mHead d \<and> mTail d' = mTail d \<and>
     mFreeList d' = mFreeList d \<and> mTotalSize d' = mTotalSize d \<and> mAlign d' = mAlign d \<and> mPtr d' = mPtr d \<and>
     mApplyFunction d' = mApplyFunction d \<and>
     (\<forall>i. (i \<notin> K \<longrightarrow> node d' i = node d i) \<and> (\<exists>z. node d' i = (node d i)\<lparr>n_offset := z\<rparr>))"

lemma only_offsets_node: "only_offsets K d d' \<Longrightarrow> i \<notin> K \<Longrightarrow> node d' i = node d i"
  by (simp add: only_offsets_def)

lemma only_offsets_fields:
  assumes "only_offsets K d d'"
  shows "children (node d' i) = children (node d i)" "n_size (node d' i) = n_size (node d i)"
    "n_right (node d' i) = n_right (node d i)" "length (mChunks d') = length (mChunks d)"
    "tensors (node d' i) = tensors (node d i)"
proof -
  obtain z where "node d' i = (node d i)\<lparr>n_offset := z\<rparr>" using assms unfolding only_offsets_def by blast
  then show "children (node d' i) = children (node d i)" "n_size (node d' i) = n_size (node d i)"
    "n_right (node d' i) = n_right (node d i)" "tensors (node d' i) = tensors (node d i)" by simp_all
  show "length (mChunks d') = length (mChunks d)" using assms by (simp add: only_offsets_def)
qed

lemma only_offsets_refl: "only_offsets K d d"
proof -
  have "\<exists>z. node d i = (node d i)\<lparr>n_offset := z\<rparr>" for i by (rule exI [of _ "n_offset (node d i)"]) simp
  then show ?thesis by (simp add: only_offsets_def)
qed

lemma only_offsets_trans:
  assumes "only_offsets K d d1" and "only_offsets K' d1 d2"
  shows "only_offsets (K \<union> K') d d2"
proof -
  have "\<exists>z. node d2 i = (node d i)\<lparr>n_offset := z\<rparr>" for i
  proof -
    obtain y z where "node d1 i = (node d i)\<lparr>n_offset := y\<rparr>" "node d2 i = (node d1 i)\<lparr>n_offset := z\<rparr>"
      using assms unfolding only_offsets_def by meson
    then show ?thesis by (intro exI [of _ z]) simp
  qed
  moreover have "node d2 i = node d i" if "i \<notin> K \<union> K'" for i using assms that by (simp add: only_offsets_def)
  ultimately show ?thesis using assms unfolding only_offsets_def by simp
qed

lemma only_offsets_upd: "only_offsets {i} d (upd_node i (\<lambda>x. x\<lparr>n_offset := f x\<rparr>) d)"
proof -
  have "\<exists>z. node (upd_node i (\<lambda>x. x\<lparr>n_offset := f x\<rparr>) d) j = (node d j)\<lparr>n_offset := z\<rparr>" for j
  proof (cases "i = j \<and> i < length (mChunks d)")
    case True
    then show ?thesis by (auto intro: exI [of _ "f (node d i)"])
  next
    case False
    then have "node (upd_node i (\<lambda>x. x\<lparr>n_offset := f x\<rparr>) d) j = node d j"
      by (cases "i = j") (simp_all add: node_def upd_node_def list_update_beyond)
    then show ?thesis by (intro exI [of _ "n_offset (node d j)"]) simp
  qed
  then show ?thesis by (simp add: only_offsets_def)
qed

lemma trees_keep:
  assumes "only_offsets K d d'" and "K \<inter> fst ` set (flats 0 ts) = {}" and "t \<in> set ts" and "tree_in d t"
  shows "tree_in d' t"
proof (rule tree_in_frame [OF assms(4), of 0])
  fix j assume "j \<in> fst ` set (flat 0 t)"
  then have "j \<in> fst ` set (flats 0 ts)" using assms(3) by (auto simp: flats_def)
  then have "node d' j = node d j" using assms(2) only_offsets_node [OF assms(1), of j] by blast
  then show "n_offset (node d' j) = n_offset (node d j) \<and> children (node d' j) = children (node d j)" by simp
qed

lemma placed_below:
  assumes o2: "only_offsets (fst ` set (flats 0 us)) d1 d2" and o3: "only_offsets (fst ` set (flats 0 rest)) d2 d3"
    and io: "n_offset (node d1 i) = off + of_nat r"
    and i: "i \<notin> fst ` set (flats 0 us)" "i \<notin> fst ` set (flats 0 rest)" "fst ` set (flats 0 us) \<inter> fst ` set (flats 0 rest) = {}"
    and p2: "\<And>k q. (k, q) \<in> set (flats 0 us) \<Longrightarrow> n_offset (node d2 k) = n_offset (node d1 i) + of_nat q"
    and p3: "\<And>k q. (k, q) \<in> set (flats 0 rest) \<Longrightarrow> n_offset (node d3 k) = off + of_nat q"
    and kq: "(k, q) \<in> set (flats 0 (Kid i r us # rest))"
  shows "n_offset (node d3 k) = off + of_nat q"
proof -
  have keep: "node d3 k = node d2 k" if "k \<in> insert i (fst ` set (flats 0 us))" for k
    by (rule only_offsets_node [OF o3]) (use that i in blast)
  have fr: "flats r us = shift r (flats 0 us)" using flats_shift [of r 0 us] by simp
  consider "k = i" "q = r" | y where "(k, y) \<in> set (flats 0 us)" "q = r + y" | "(k, q) \<in> set (flats 0 rest)"
    using kq fr by (auto simp: shift_def)
  then show ?thesis
  proof cases
    case 1
    have "node d2 i = node d1 i" by (rule only_offsets_node [OF o2 i(1)])
    then show ?thesis using 1 io keep [of i] by simp
  next
    case (2 y)
    then show ?thesis using p2 [OF 2(1)] io keep [of k] by force
  next
    case 3
    then show ?thesis using p3 by simp
  qed
qed

lemma visit_each_places:
  assumes "\<And>t. t \<in> set ts \<Longrightarrow> tree_in d t" and "distinct (map fst (flats 0 ts))" and "c \<notin> fst ` set (flats 0 ts)"
    and "fst ` set (flats 0 ts) \<subseteq> {..<length (mChunks d)}" and "length (flats 0 ts) \<le> fuel"
  shows "\<exists>d'. visit_each fuel (map kid ts) c d = Some d' \<and> only_offsets (fst ` set (flats 0 ts)) d d' \<and>
    (\<forall>(k, r) \<in> set (flats 0 ts). n_offset (node d' k) = n_offset (node d c) + of_nat r)"
  using assms
proof (induction "length (flats 0 ts)" arbitrary: ts d c fuel rule: less_induct)
  case less
  show ?case
  proof (cases ts)
    case Nil
    then show ?thesis by (auto simp: only_offsets_refl)
  next
    case (Cons t rest)
    obtain i r us where t: "t = Kid i r us" by (cases t)
    have fr: "flats r us = shift r (flats 0 us)" using flats_shift [of r 0 us] by simp
    then have ids: "map fst (flats r us) = map fst (flats 0 us)" by simp
    then have ids': "fst ` set (flats r us) = fst ` set (flats 0 us)" by (metis set_map)
    note F = less.prems [unfolded Cons t, simplified flats_simps]
    obtain fuel' where fuel: "fuel = Suc fuel'" using F(5) by (cases fuel) auto
    define d1 where "d1 = upd_node i (\<lambda>x. x\<lparr>n_offset := n_offset x + n_offset (node d c)\<rparr>) d"
    have ti: "tree_in d (Kid i r us)" by (rule less.prems(1)) (simp add: Cons t)
    have il: "i < length (mChunks d)" using F(4) by simp
    have io: "n_offset (node d1 i) = n_offset (node d c) + of_nat r"
      using ti il by (auto simp: d1_def add.commute)
    have o1: "only_offsets {i} d d1" unfolding d1_def by (rule only_offsets_upd)
    have D: "distinct (map fst (flats 0 us))" "i \<notin> fst ` set (flats 0 us)" "i \<notin> fst ` set (flats 0 rest)"
      "fst ` set (flats 0 us) \<inter> fst ` set (flats 0 rest) = {}" "distinct (map fst (flats 0 rest))"
      using F(2) ids ids' by auto
    have len: "length (flats 0 us) = length (flats r us)" using ids by (metis length_map)
    have "\<exists>d2. visit_each fuel' (map kid us) i d1 = Some d2 \<and> only_offsets (fst ` set (flats 0 us)) d1 d2 \<and>
      (\<forall>(k, q) \<in> set (flats 0 us). n_offset (node d2 k) = n_offset (node d1 i) + of_nat q)"
    proof (rule less.hyps)
      show "length (flats 0 us) < length (flats 0 ts)" using len by (simp add: Cons t)
      show "tree_in d1 u" if "u \<in> set us" for u
        by (rule trees_keep [OF o1 _ that]) (use ti that D(2) in auto)
      show "fst ` set (flats 0 us) \<subseteq> {..<length (mChunks d1)}" using F(4) ids' by (auto simp: d1_def)
      show "length (flats 0 us) \<le> fuel'" using F(5) fuel len by simp
    qed (use D in auto)
    then obtain d2 where d2: "visit_each fuel' (map kid us) i d1 = Some d2" and o2: "only_offsets (fst ` set (flats 0 us)) d1 d2"
      and p2: "\<And>k q. (k, q) \<in> set (flats 0 us) \<Longrightarrow> n_offset (node d2 k) = n_offset (node d1 i) + of_nat q" by blast
    have o12: "only_offsets (insert i (fst ` set (flats 0 us))) d d2" using only_offsets_trans [OF o1 o2] by simp
    have c2: "node d2 c = node d c" by (rule only_offsets_node [OF o12]) (use F(3) ids' in auto)
    have "\<exists>d3. visit_each fuel (map kid rest) c d2 = Some d3 \<and> only_offsets (fst ` set (flats 0 rest)) d2 d3 \<and>
      (\<forall>(k, q) \<in> set (flats 0 rest). n_offset (node d3 k) = n_offset (node d2 c) + of_nat q)"
    proof (rule less.hyps)
      show "length (flats 0 rest) < length (flats 0 ts)" by (simp add: Cons t)
      show "tree_in d2 u" if "u \<in> set rest" for u
        by (rule trees_keep [OF o12 _ that less.prems(1)]) (use that D(3,4) Cons in auto)
      show "fst ` set (flats 0 rest) \<subseteq> {..<length (mChunks d2)}" using F(4) only_offsets_fields(4) [OF o12] by auto
      show "length (flats 0 rest) \<le> fuel" using F(5) by simp
    qed (use D F(3) in auto)
    then obtain d3 where d3: "visit_each fuel (map kid rest) c d2 = Some d3" and o3: "only_offsets (fst ` set (flats 0 rest)) d2 d3"
      and p3: "\<And>k q. (k, q) \<in> set (flats 0 rest) \<Longrightarrow> n_offset (node d3 k) = n_offset (node d2 c) + of_nat q" by blast
    have "children (node d1 i) = map kid us" using ti only_offsets_fields(1) [OF o1, of i] by simp
    then have run: "visit_each fuel (map kid ts) c d = Some d3"
      using d2 d3 by (simp add: Cons t fuel d1_def [symmetric])
    have K: "fst ` set (flats 0 ts) = insert i (fst ` set (flats 0 us)) \<union> fst ` set (flats 0 rest)"
      using ids' by (auto simp: Cons t)
    have "n_offset (node d3 k) = n_offset (node d c) + of_nat q" if "(k, q) \<in> set (flats 0 ts)" for k q
      using placed_below [OF o2 o3 io D(2-4) p2] p3 c2 that unfolding Cons t by simp
    then show ?thesis using run only_offsets_trans [OF o12 o3] unfolding K by blast
  qed
qed

text \<open>The layout of a list that is one block.\<close>

lemma layout_single:
  assumes r: "rep0 d [b]" and t: "mTotalSize d = 0"
  shows "\<exists>d'. layout_loop (Suc (length (mChunks d))) (mHead d) d = Some d' \<and> unat (mTotalSize d') = b_size b \<and>
    mFreeList d' = mFreeList d \<and> length (mChunks d') = length (mChunks d) \<and> mPtr d' = mPtr d \<and> mAlign d' = mAlign d \<and>
    mApplyFunction d' = mApplyFunction d \<and> (\<forall>i. tensors (node d' i) = tensors (node d i)) \<and>
    (\<forall>i k p. locate [b] i = Some (k, p) \<longrightarrow> n_offset (node d' i) = of_nat p)"
proof -
  let ?c = "b_id b"
  have ch: "mHead d = Some ?c" "n_right (node d ?c) = None" "?c < length (mChunks d)"
    using rep0D(1) [OF r] by (auto simp: chain_ok_def)
  obtain ts where ts: "children (node d ?c) = map kid ts" "\<forall>t \<in> set ts. tree_in d t" "b_kids b = flats 0 ts"
    using rep0D(2) [OF r, of b] by (auto simp: block_ok_def kids_ok_def)
  have di: "distinct (?c # map fst (flats 0 ts))" using rep0D(3) [OF r] ts(3) by simp
  have cn: "?c \<notin> fst ` set (flats 0 ts)" using di by simp
  have ids: "insert ?c (fst ` set (flats 0 ts)) = {..<length (mChunks d)}" using rep0D(4) [OF r] ts(3) by simp
  have "card (set (?c # map fst (flats 0 ts))) = length (?c # map fst (flats 0 ts))" using di by (rule distinct_card)
  then have len: "length (flats 0 ts) \<le> length (mChunks d)" using ids by simp
  define d1 where "d1 = upd_node ?c (\<lambda>x. x\<lparr>n_offset := mTotalSize d\<rparr>) d"
  have o1: "only_offsets {?c} d d1" unfolding d1_def by (rule only_offsets_upd)
  have z: "n_offset (node d1 ?c) = 0" using ch t by (simp add: d1_def)
  have "tree_in d1 u" if "u \<in> set ts" for u
    by (rule trees_keep [OF o1 _ that]) (use that ts(2) cn in auto)
  moreover have "fst ` set (flats 0 ts) \<subseteq> {..<length (mChunks d1)}" using ids only_offsets_fields(4) [OF o1] by auto
  moreover have "distinct (map fst (flats 0 ts))" using di by simp
  ultimately obtain d2 where d2: "visit_each (length (mChunks d)) (map kid ts) ?c d1 = Some d2"
    and o2: "only_offsets (fst ` set (flats 0 ts)) d1 d2"
    and p2: "\<forall>(k, q) \<in> set (flats 0 ts). n_offset (node d2 k) = n_offset (node d1 ?c) + of_nat q"
    using visit_each_places [of ts d1 ?c, OF _ _ cn _ len] by blast
  have o12: "only_offsets (insert ?c (fst ` set (flats 0 ts))) d d2" using only_offsets_trans [OF o1 o2] by simp
  note f = only_offsets_fields [OF o12]
  let ?d = "d2\<lparr>mTotalSize := mTotalSize d2 + n_size (node d2 ?c)\<rparr>"
  have v: "visiChildren (Suc (length (mChunks d))) ?c d1 = Some d2"
    using d2 ts(1) only_offsets_fields(1) [OF o1] by simp
  have run: "layout_loop (Suc (length (mChunks d))) (mHead d) d = Some ?d"
    using ch(2) f(3) [of ?c] unfolding ch(1) layout_loop.simps d1_def [symmetric] v by (simp add: Let_def)
  have tot: "mTotalSize d2 = 0" using o12 t by (simp add: only_offsets_def)
  have sz: "unat (mTotalSize ?d) = b_size b"
    using f(2) rep0D(2) [OF r, of b] tot by (simp add: block_ok_def)
  have off: "n_offset (node ?d i) = of_nat p" if l: "locate [b] i = Some (k, p)" for i k p
  proof -
    have "map_of (members b) i = Some p" using l by (auto split: option.splits)
    then have "(i = ?c \<and> p = 0) \<or> (i, p) \<in> set (flats 0 ts)"
      by (auto simp: members_def ts(3) split: if_splits dest: map_of_SomeD)
    moreover have "node d2 ?c = node d1 ?c" by (rule only_offsets_node [OF o2 cn])
    ultimately show ?thesis using z p2 by auto
  qed
  show ?thesis using run sz off o12 f(5) by (intro exI [of _ ?d]) (auto simp: only_offsets_def)
qed

end
