(* ===== verification/MNN_Defer_Run.thy ===== *)
theory MNN_Defer_Run
  imports MNN_Defer_Layout
begin

text \<open>
  Clients of the deferred allocator: a transition system that allocates, frees, attaches
  tensors and uses barriers, with the record of what was alive when. The theorems say that
  no operation of such a client fails, that \<open>compute\<close> places all chunks once all are freed, and
  that chunks that were alive together never overlap, on to addresses in the C heap.
\<close>

subsection \<open>Clients\<close>

text \<open>
  \<open>live\<close> are the chunks in the client's hands with their sizes, \<open>pending\<close> those it freed behind
  a barrier, \<open>history\<close> all it ever had and \<open>together\<close> the pairs that were alive at the same
  time. \<open>budget\<close> is the sum of all sizes, kept below \<open>2 ^ 64\<close>.
\<close>

record client =
  live :: "(nat \<times> nat) set"
  pending :: "(nat \<times> nat) list"
  history :: "(nat \<times> nat) set"
  together :: "((nat \<times> nat) \<times> (nat \<times> nat)) set"
  budget :: nat

definition client_new :: client where
  "client_new = \<lparr>live = {}, pending = [], history = {}, together = {}, budget = 0\<rparr>"

definition client_alloc :: "nat \<Rightarrow> nat \<Rightarrow> client \<Rightarrow> client" where
  "client_alloc n s c = c\<lparr>live := insert (n, s) (live c), history := insert (n, s) (history c),
     together := together c \<union> {(n, s)} \<times> (live c \<union> set (pending c)), budget := budget c + s\<rparr>"

definition align_of :: "size_t \<Rightarrow> Defer \<Rightarrow> size_t" where
  "align_of align d = (if align = 0 then mAlign d else align)"

inductive serves :: "Defer \<Rightarrow> client \<Rightarrow> bool" where
  start: "serves (Defer_ctor align func) client_new"
| alloc: "serves d c \<Longrightarrow> unat sz + unat (align_of align d) \<le> 2 ^ 64 \<Longrightarrow> align_of align d \<noteq> 0 \<Longrightarrow>
    s = rounded (unat (align_of align d)) (unat sz) \<Longrightarrow> budget c + s < 2 ^ 64 \<Longrightarrow>
    Defer_alloc sz separate align d = Inr (MemChunk_node n, d') \<Longrightarrow> serves d' (client_alloc n s c)"
| attach: "serves d c \<Longrightarrow> (n, s) \<in> live c \<Longrightarrow> chunk_mNode k = Some n \<Longrightarrow> serves (MemChunk_attach t k d) c"
| free: "serves d c \<Longrightarrow> \<not> mBarrier d \<Longrightarrow> (n, s) \<in> live c \<Longrightarrow> chunk_mNode k = Some n \<Longrightarrow>
    Defer_free k d = Inr (b, d') \<Longrightarrow> serves d' (c\<lparr>live := live c - {(n, s)}\<rparr>)"
| free_later: "serves d c \<Longrightarrow> mBarrier d \<Longrightarrow> (n, s) \<in> live c \<Longrightarrow> chunk_mNode k = Some n \<Longrightarrow>
    Defer_free k d = Inr (b, d') \<Longrightarrow> serves d' (c\<lparr>live := live c - {(n, s)}, pending := pending c @ [(n, s)]\<rparr>)"
| barrier_begin: "serves d c \<Longrightarrow> \<not> mBarrier d \<Longrightarrow> serves (Defer_barrierBegin d) c"
| barrier_end: "serves d c \<Longrightarrow> mBarrier d \<Longrightarrow> Defer_barrierEnd d = Inr d' \<Longrightarrow> serves d' (c\<lparr>pending := []\<rparr>)"

subsection \<open>The invariant\<close>

text \<open>Two chunks apart, and a chunk inside, at the positions of the plan.\<close>

definition apart :: "ablock list \<Rightarrow> (nat \<times> nat) \<times> (nat \<times> nat) \<Rightarrow> bool" where
  "apart bs x \<longleftrightarrow> (\<exists>k p l q. locate bs (fst (fst x)) = Some (k, p) \<and> locate bs (fst (snd x)) = Some (l, q) \<and>
     (k \<le> l \<and> p + snd (fst x) \<le> q \<or> l \<le> k \<and> q + snd (snd x) \<le> p))"

definition inside :: "ablock list \<Rightarrow> nat \<times> nat \<Rightarrow> bool" where
  "inside bs x \<longleftrightarrow> (\<exists>k p. locate bs (fst x) = Some (k, p) \<and> p + snd x \<le> extent bs)"

lemma inside_evolves:
  assumes "evolves bs bs'" and "inside bs x"
  shows "inside bs' x"
proof -
  obtain k p where x: "locate bs (fst x) = Some (k, p)" "p + snd x \<le> extent bs" using assms(2) by (auto simp: inside_def)
  obtain f :: "nat \<Rightarrow> nat" and \<delta> where "locate bs' (fst x) = Some (f k, p + \<delta> k)" "extent bs + \<delta> k \<le> extent bs'"
    using assms(1) x(1) unfolding evolves_def by blast
  moreover from this have "p + \<delta> k + snd x \<le> extent bs'" using x(2) by linarith
  ultimately show ?thesis unfolding inside_def by blast
qed

lemma apart_evolves:
  assumes "evolves bs bs'" and "apart bs x"
  shows "apart bs' x"
proof -
  obtain f \<delta> where f: "mono f" "mono \<delta>"
    "\<And>i k p. locate bs i = Some (k, p) \<Longrightarrow> locate bs' i = Some (f k :: nat, p + \<delta> k :: nat)"
    using assms(1) unfolding evolves_def by blast
  obtain k p l q where x: "locate bs (fst (fst x)) = Some (k, p)" "locate bs (fst (snd x)) = Some (l, q)"
    "k \<le> l \<and> p + snd (fst x) \<le> q \<or> l \<le> k \<and> q + snd (snd x) \<le> p" using assms(2) by (auto simp: apart_def)
  have m: "f a \<le> f b \<and> \<delta> a \<le> \<delta> b" if "a \<le> b" for a b using f(1,2) that by (simp add: mono_def)
  have "f k \<le> f l \<and> p + \<delta> k + snd (fst x) \<le> q + \<delta> l \<or> f l \<le> f k \<and> q + \<delta> l + snd (snd x) \<le> p + \<delta> k"
    using x(3) m [of k l] m [of l k] by linarith
  then show ?thesis using f(3) [OF x(1)] f(3) [OF x(2)] unfolding apart_def by blast
qed

lemma apart_swap: "apart bs (y, x) \<longleftrightarrow> apart bs (x, y)"
  unfolding apart_def by auto

lemma used_ordered:
  assumes "distinct (all_ids (xs @ b # ys @ c # zs))"
  shows "apart (xs @ b # ys @ c # zs) ((b_id b, b_size b), (b_id c, b_size c))"
  using locate_head [OF assms] locate_head [of "xs @ b # ys" c zs] assms by (simp add: apart_def)

lemma used_apart:
  assumes "distinct (all_ids bs)" and "(n, s) \<in> used_of bs" and "(m, t) \<in> used_of bs" and "n \<noteq> m"
  shows "apart bs ((n, s), (m, t))"
proof -
  obtain b c where b: "b \<in> set bs" "n = b_id b" "s = b_size b" and c: "c \<in> set bs" "m = b_id c" "t = b_size c"
    using assms(2,3) by (auto simp: used_of_def)
  obtain xs ys where bs: "bs = xs @ b # ys" using b(1) by (meson split_list)
  have "c \<in> set xs \<or> c \<in> set ys" using c(1,2) b(2) assms(4) by (auto simp: bs)
  then show ?thesis
  proof
    assume "c \<in> set xs"
    then obtain us vs where "xs = us @ c # vs" by (meson split_list)
    then show ?thesis using used_ordered [of us c vs b ys] assms(1) bs b c by (simp add: apart_swap)
  next
    assume "c \<in> set ys"
    then obtain us vs where "ys = us @ c # vs" by (meson split_list)
    then show ?thesis using used_ordered [of xs b us c vs] assms(1) bs b c by simp
  qed
qed

lemma used_inside:
  assumes "distinct (all_ids bs)" and "(n, s) \<in> used_of bs"
  shows "inside bs (n, s)"
proof -
  obtain b where b: "b \<in> set bs" "n = b_id b" "s = b_size b" using assms(2) by (auto simp: used_of_def)
  obtain xs ys where bs: "bs = xs @ b # ys" using b(1) by (meson split_list)
  then show ?thesis using locate_head [of xs b ys] assms(1) b by (simp add: inside_def)
qed

definition defer_inv :: "Defer \<Rightarrow> client \<Rightarrow> ablock list \<Rightarrow> bool" where
  "defer_inv d c bs \<longleftrightarrow> rep d bs \<and> used_of bs = live c \<union> set (pending c) \<and> live c \<inter> set (pending c) = {} \<and>
     distinct (pending c) \<and> map chunk_mNode (mBarrierFreeChunks d) = map (Some \<circ> fst) (pending c) \<and>
     (\<not> mBarrier d \<longrightarrow> pending c = []) \<and> extent bs \<le> budget c \<and> budget c < 2 ^ 64 \<and> mTotalSize d = 0 \<and>
     mPtr d = MemChunk_null \<and>
     (\<forall>x \<in> history c. inside bs x) \<and> (\<forall>x \<in> together c. apart bs x) \<and> (history c = {} \<longrightarrow> bs = []) \<and>
     used_of bs \<subseteq> history c \<and> together c \<subseteq> history c \<times> history c"

text \<open>The facts about history survive any move of the plan.\<close>

lemma history_evolves:
  assumes "defer_inv d c bs" and "evolves bs bs'"
  shows "\<forall>x \<in> history c. inside bs' x" "\<forall>x \<in> together c. apart bs' x"
  using assms(1) inside_evolves [OF assms(2)] apart_evolves [OF assms(2)] unfolding defer_inv_def by blast+

lemma inv_start: "defer_inv (Defer_ctor align func) client_new []"
  by (simp add: defer_inv_def client_new_def Defer_ctor_def rep_def rep0_def chain_ok_def coalesced_def MemChunk_null_def)

lemma inv_alloc:
  assumes i: "defer_inv d c bs" and s: "unat sz + unat (align_of align d) \<le> 2 ^ 64" "align_of align d \<noteq> 0"
    "s = rounded (unat (align_of align d)) (unat sz)" "budget c + s < 2 ^ 64"
  shows "\<exists>n d' bs'. Defer_alloc sz separate align d = Inr (MemChunk_node n, d') \<and> defer_inv d' (client_alloc n s c) bs' \<and>
    n \<notin> fst ` live c"
proof -
  have r: "rep d bs" and e: "extent bs \<le> budget c" using i by (auto simp: defer_inv_def)
  have w: "unat (UP_DIV sz (align_of align d) * align_of align d) = s" using round_up(1) [OF s(2,1)] s(3) by simp
  obtain n d' bs' where a: "Defer_alloc sz separate align d = Inr (MemChunk_node n, d')" and p: "alloc_post d bs s n d' bs'"
    using alloc_rep [OF r align_of_def s(2) refl, of sz separate] w e s(4) by fastforce
  have p': "rep d' bs'" "evolves bs bs'" "used_of bs' = insert (n, s) (used_of bs)" "n \<notin> fst ` used_of bs" "same_ctl d d'"
    "extent bs' \<le> extent bs + s" using p by (auto simp: alloc_post_def)
  have di: "distinct (all_ids bs')" using p'(1) by (simp add: rep_def rep0_def)
  have new: "apart bs' ((n, s), x)" if "x \<in> live c \<union> set (pending c)" for x
  proof -
    have x: "x \<in> used_of bs" using that i by (simp add: defer_inv_def)
    moreover have "fst x \<noteq> n" using x p'(4) by force
    ultimately show ?thesis using used_apart [OF di, of n s "fst x" "snd x"] p'(3) by simp
  qed
  have I: "used_of bs = live c \<union> set (pending c)" "used_of bs \<subseteq> history c" "together c \<subseteq> history c \<times> history c"
    "live c \<inter> set (pending c) = {}" using i by (auto simp: defer_inv_def)
  note h = history_evolves [OF i p'(2)]
  have "(n, s) \<notin> set (pending c)" using p'(4) I(1) by force
  then have "insert (n, s) (live c) \<inter> set (pending c) = {}" using I(4) by blast
  moreover have "used_of bs' = insert (n, s) (live c) \<union> set (pending c)" "used_of bs' \<subseteq> insert (n, s) (history c)"
    using p'(3) I(1,2) by auto
  moreover have "\<forall>x \<in> insert (n, s) (history c). inside bs' x" using used_inside [OF di, of n s] p'(3) h(1) by simp
  moreover have "\<forall>x \<in> together c \<union> {(n, s)} \<times> (live c \<union> set (pending c)). apart bs' x" using new h(2) by blast
  moreover have "together c \<union> {(n, s)} \<times> (live c \<union> set (pending c)) \<subseteq> insert (n, s) (history c) \<times> insert (n, s) (history c)"
    using I by blast
  ultimately have "defer_inv d' (client_alloc n s c) bs'"
    using i p' s(4) unfolding defer_inv_def client_alloc_def same_ctl_def by simp
  moreover have "n \<notin> fst ` live c" using p'(4) I(1) by blast
  ultimately show ?thesis using a by blast
qed

lemma used_split:
  assumes "(n, s) \<in> used_of bs"
  obtains xs b ys where "bs = xs @ b # ys" "b_used b" "b_id b = n" "b_size b = s"
proof -
  obtain b where b: "b \<in> set bs" "b_used b" "b_id b = n" "b_size b = s" using assms by (auto simp: used_of_def)
  then obtain xs ys where "bs = xs @ b # ys" by (meson split_list)
  then show thesis using that b by blast
qed

lemma free_used:
  assumes "rep d bs" and "(n, s) \<in> used_of bs" and "\<not> mBarrier d" and "chunk_mNode k = Some n"
  shows "\<exists>d' bs'. Defer_free k d = Inr (True, d') \<and> rep d' bs' \<and> evolves bs bs' \<and>
    used_of bs' = used_of bs - {(n, s)} \<and> same_ctl d d' \<and> extent bs' = extent bs"
proof -
  obtain xs b ys where b: "bs = xs @ b # ys" "b_used b" "b_id b = n" "b_size b = s" by (rule used_split [OF assms(2)])
  then show ?thesis using free_rep [of d xs b ys k] assms by simp
qed

lemma free_each_used:
  assumes "rep d bs" and "set ps \<subseteq> used_of bs" and "distinct ps" and "\<not> mBarrier d"
    and "map chunk_mNode ks = map (Some \<circ> fst) ps"
  shows "\<exists>d' bs'. free_each ks d = Inr d' \<and> rep d' bs' \<and> evolves bs bs' \<and> used_of bs' = used_of bs - set ps \<and>
    same_ctl d d' \<and> extent bs' = extent bs"
  using assms
proof (induction ks arbitrary: ps d bs)
  case Nil
  then show ?case by (auto simp: same_ctl_def intro!: exI [of _ bs])
next
  case (Cons k ks)
  then obtain n s qs where ps: "ps = (n, s) # qs" and k: "chunk_mNode k = Some n"
    and ks: "map chunk_mNode ks = map (Some \<circ> fst) qs" by (cases ps) auto
  obtain d1 bs1 where d1: "Defer_free k d = Inr (True, d1)" "rep d1 bs1" "evolves bs bs1"
    "used_of bs1 = used_of bs - {(n, s)}" "same_ctl d d1" "extent bs1 = extent bs"
    using free_used [OF Cons.prems(1) _ Cons.prems(4) k, of s] Cons.prems(2) ps by auto
  have "set qs \<subseteq> used_of bs1" "distinct qs" "\<not> mBarrier d1"
    using Cons.prems(2-4) d1(4,5) ps by (auto simp: same_ctl_def)
  then obtain d2 bs2 where d2: "free_each ks d1 = Inr d2" "rep d2 bs2" "evolves bs1 bs2"
    "used_of bs2 = used_of bs1 - set qs" "same_ctl d1 d2" "extent bs2 = extent bs1"
    using Cons.IH [OF d1(2) _ _ _ ks] by blast
  have "used_of bs2 = used_of bs - set ps" using d2(4) d1(4) ps by auto
  moreover have "same_ctl d d2" using d1(5) d2(5) by (simp add: same_ctl_def)
  ultimately show ?case using d1 d2 evolves_trans [OF d1(3) d2(3)] by (intro exI [of _ d2] exI [of _ bs2]) simp
qed

lemma inv_free:
  assumes i: "defer_inv d c bs" and "\<not> mBarrier d" and l: "(n, s) \<in> live c" and "chunk_mNode k = Some n"
  shows "\<exists>d' bs'. Defer_free k d = Inr (True, d') \<and> defer_inv d' (c\<lparr>live := live c - {(n, s)}\<rparr>) bs'"
proof -
  have r: "rep d bs" "(n, s) \<in> used_of bs" using i l by (auto simp: defer_inv_def)
  obtain d' bs' where p: "Defer_free k d = Inr (True, d')" "rep d' bs'" "evolves bs bs'"
    "used_of bs' = used_of bs - {(n, s)}" "same_ctl d d'" "extent bs' = extent bs"
    using free_used [OF r assms(2,4)] by blast
  have "history c \<noteq> {}" using i r(2) by (auto simp: defer_inv_def)
  then have "defer_inv d' (c\<lparr>live := live c - {(n, s)}\<rparr>) bs'"
    using i p history_evolves [OF i p(3)] assms(2) by (auto simp: defer_inv_def same_ctl_def)
  then show ?thesis using p(1) by blast
qed

lemma rep_cong:
  assumes "mChunks d' = mChunks d" "mHead d' = mHead d" "mTail d' = mTail d" "mFreeList d' = mFreeList d"
  shows "rep d' bs = rep d bs"
  using rep0_cong [OF assms(1-3)] assms(4) by (simp add: rep_def)

lemma inv_free_later:
  assumes i: "defer_inv d c bs" and b: "mBarrier d" and l: "(n, s) \<in> live c" and k: "chunk_mNode k = Some n"
  shows "\<exists>d'. Defer_free k d = Inr (True, d') \<and>
    defer_inv d' (c\<lparr>live := live c - {(n, s)}, pending := pending c @ [(n, s)]\<rparr>) bs"
proof -
  let ?d = "d\<lparr>mBarrierFreeChunks := mBarrierFreeChunks d @ [k]\<rparr>"
  have "Defer_free k d = Inr (True, ?d)" using b by (simp add: Defer_free_def)
  moreover have "defer_inv ?d (c\<lparr>live := live c - {(n, s)}, pending := pending c @ [(n, s)]\<rparr>) bs"
    using i b l k rep_cong [of ?d d bs] by (auto simp: defer_inv_def)
  ultimately show ?thesis by blast
qed

lemma inv_begin: "defer_inv d c bs \<Longrightarrow> defer_inv (Defer_barrierBegin d) c bs"
  using rep_cong [of "Defer_barrierBegin d" d bs] by (auto simp: defer_inv_def Defer_barrierBegin_def)

lemma inv_end:
  assumes i: "defer_inv d c bs"
  shows "\<exists>d' bs'. Defer_barrierEnd d = Inr d' \<and> defer_inv d' (c\<lparr>pending := []\<rparr>) bs' \<and> \<not> mBarrier d'"
proof -
  let ?d = "d\<lparr>mBarrier := False\<rparr>"
  have i': "rep ?d bs" "set (pending c) \<subseteq> used_of bs" "distinct (pending c)" "\<not> mBarrier ?d"
    "map chunk_mNode (mBarrierFreeChunks d) = map (Some \<circ> fst) (pending c)"
    using i rep_cong [of ?d d bs] by (auto simp: defer_inv_def)
  obtain d1 bs1 where p: "free_each (mBarrierFreeChunks d) ?d = Inr d1" "rep d1 bs1" "evolves bs bs1"
    "used_of bs1 = used_of bs - set (pending c)" "same_ctl ?d d1" "extent bs1 = extent bs"
    using free_each_used [OF i'] by blast
  let ?e = "d1\<lparr>mBarrierFreeChunks := []\<rparr>"
  have "bs1 = []" if "bs = []"
  proof -
    have "mBarrierFreeChunks d = []" using i'(2,5) that by simp
    then show ?thesis using p(1,2) i'(1) that by (cases bs1) (auto simp: rep_def rep0_def)
  qed
  then have "defer_inv ?e (c\<lparr>pending := []\<rparr>) bs1"
    using i p history_evolves [OF i p(3)] rep_cong [of ?e d1 bs1] by (auto simp: defer_inv_def same_ctl_def)
  moreover have "Defer_barrierEnd d = Inr ?e" "\<not> mBarrier ?e" using p(1,5) by (simp_all add: Defer_barrierEnd_def same_ctl_def)
  ultimately show ?thesis by blast
qed

lemma inv_attach:
  assumes i: "defer_inv d c bs" and l: "(n, s) \<in> live c" and k: "chunk_mNode k = Some n"
  shows "defer_inv (MemChunk_attach t k d) c bs"
proof -
  let ?d = "upd_node n (\<lambda>x. x\<lparr>tensors := tensors x @ [t]\<rparr>) d"
  have r: "rep d bs" "(n, s) \<in> used_of bs" using i l by (auto simp: defer_inv_def)
  obtain xs b ys where b: "bs = xs @ b # ys" "b_used b" "b_id b = n" "b_size b = s" by (rule used_split [OF r(2)])
  have r0: "rep0 d (xs @ b # ys)" using r(1) b(1) by (simp add: rep_def)
  note o = rep0_others [OF r0, of "\<lambda>x. x\<lparr>tensors := tensors x @ [t]\<rparr>", unfolded b(3)]
  have "block_ok ?d b" using rep0D(2) [OF r0, of b] o(3,4) b(3) by (simp add: block_ok_def)
  then have "rep0 ?d (xs @ b # ys)" using r0 o by (simp add: rep0_def ball_Un)
  then have "rep ?d bs" using r(1) b(1) by (simp add: rep_def)
  then show ?thesis using i k by (auto simp: defer_inv_def MemChunk_attach_def)
qed

lemma serves_inv: "serves d c \<Longrightarrow> \<exists>bs. defer_inv d c bs"
proof (induction rule: serves.induct)
  case (start align func)
  then show ?case using inv_start by blast
next
  case (alloc d c sz align s separate n d')
  then show ?case using inv_alloc [of d c _ sz align s separate] by (metis Inr_inject Pair_inject MemChunk.ext_inject MemChunk_node_def option.inject)
next
  case (attach d c n s k t)
  then show ?case using inv_attach by blast
next
  case (free d c n s k b d')
  then show ?case using inv_free by (metis Inr_inject Pair_inject)
next
  case (free_later d c n s k b d')
  then show ?case using inv_free_later by (metis Inr_inject Pair_inject)
next
  case (barrier_begin d c)
  then show ?case using inv_begin by blast
next
  case (barrier_end d c d')
  then show ?case using inv_end by (metis Inr_inject)
qed

subsection \<open>Compute\<close>

lemma all_freed:
  assumes "defer_inv d c bs" and "live c = {}" and "pending c = []"
  shows "bs = [] \<or> (\<exists>b. bs = [b] \<and> \<not> b_used b)"
proof -
  have u: "used_of bs = {}" and co: "coalesced bs" using assms by (auto simp: defer_inv_def rep_def)
  then have "\<not> b_used b" if "b \<in> set bs" for b using that by (auto simp: used_of_def)
  then show ?thesis using co by (cases bs; cases "tl bs") (auto simp: coalesced_def)
qed

lemma realloc_codes: "fst (SingleBuffer_realloc root n al b s) \<in> {NO_ERROR, OUT_OF_MEMORY}"
  by (auto simp: SingleBuffer_realloc_def Let_def split: prod.splits)

lemma apply_keeps:
  assumes "Defer_apply root d parent s host = (code, d', p', s', h')"
  shows "mTotalSize d' = mTotalSize d" "code \<in> {NO_ERROR, OUT_OF_MEMORY}"
    "i < length (mChunks d) \<Longrightarrow> n_offset (node d' i) = n_offset (node d i)"
proof -
  have "mTotalSize d' = mTotalSize d \<and> code \<in> {NO_ERROR, OUT_OF_MEMORY} \<and>
      (i < length (mChunks d) \<longrightarrow> n_offset (node d' i) = n_offset (node d i))"
    using assms realloc_codes [of root "mTotalSize d" "mAlign d" parent s]
    by (auto simp: Defer_apply_def Let_def node_def split: if_splits prod.splits)
  then show "mTotalSize d' = mTotalSize d" "code \<in> {NO_ERROR, OUT_OF_MEMORY}"
    "i < length (mChunks d) \<Longrightarrow> n_offset (node d' i) = n_offset (node d i)" by blast+
qed

text \<open>\<open>compute\<close> on one free block: the offsets are the positions of the plan.\<close>

lemma compute_single:
  assumes i: "defer_inv d c [b]" and f: "\<not> b_used b"
  obtains d1 where "Defer_compute root d parent s host = Some (Defer_apply root d1 parent s host)"
    "unat (mTotalSize d1) = b_size b" "mFreeList d1 \<noteq> []" "mPtr d1 = MemChunk_null" "length (mChunks d1) = length (mChunks d)"
    "\<And>i k p. locate [b] i = Some (k, p) \<Longrightarrow> n_offset (node d1 i) = of_nat p \<and> i < length (mChunks d)"
proof -
  have r: "rep d [b]" and t: "mTotalSize d = 0" "mPtr d = MemChunk_null" using i by (auto simp: defer_inv_def)
  have r0: "rep0 d [b]" and fl: "distinct (mFreeList d)" "set (mFreeList d) = {b_id b}" using r f by (auto simp: rep_def)
  have "card (set (mFreeList d)) = length (mFreeList d)" using fl(1) by (rule distinct_card)
  then have one: "length (mFreeList d) = 1" using fl(2) by simp
  have ends: "mHead d = mTail d" using rep0D(1) [OF r0] by (simp add: chain_ok_def)
  have d0: "d\<lparr>mTotalSize := 0\<rparr> = d" using t by simp
  have ids: "i < length (mChunks d)" if "locate [b] i = Some v" for i v
    using locate_Some_ids [of "[b]" i] that rep0D(4) [OF r0] by blast
  obtain d1 where d1: "layout_loop (Suc (length (mChunks d))) (mHead d) d = Some d1" "unat (mTotalSize d1) = b_size b"
    "mFreeList d1 = mFreeList d" "length (mChunks d1) = length (mChunks d)" "mPtr d1 = mPtr d"
    "\<And>i k p. locate [b] i = Some (k, p) \<Longrightarrow> n_offset (node d1 i) = of_nat p"
    using layout_single [OF r0 t(1)] by blast
  have ne: "mFreeList d \<noteq> []" using one by auto
  have "Defer_compute root d parent s host = Some (Defer_apply root d1 parent s host)"
    unfolding Defer_compute_def Let_def d0 using d1(1) one ends t(1) ne by simp
  then show thesis using that [of d1] d1 ids ne t(2) by simp
qed

lemma position_bound:
  assumes "inside bs (n, sz)" and "extent bs < 2 ^ 64" and "locate bs n = Some (k, p)"
  shows "unat (of_nat p :: size_t) = p" "p + sz \<le> extent bs"
  using assms by (auto simp: inside_def unat_of_nat)

lemma compute_places:
  assumes i: "defer_inv d c bs" and l: "live c = {}" "pending c = []" and h: "history c \<noteq> {}"
  obtains d1 where "Defer_compute root d parent s host = Some (Defer_apply root d1 parent s host)"
    "mFreeList d1 \<noteq> []" "mPtr d1 = MemChunk_null" "unat (mTotalSize d1) \<le> budget c"
    "\<And>n sz. (n, sz) \<in> history c \<Longrightarrow> n < length (mChunks d1) \<and> unat (n_offset (node d1 n)) + sz \<le> unat (mTotalSize d1)"
    "\<And>m t n sz. ((m, t), (n, sz)) \<in> together c \<Longrightarrow>
       unat (n_offset (node d1 m)) + t \<le> unat (n_offset (node d1 n)) \<or> unat (n_offset (node d1 n)) + sz \<le> unat (n_offset (node d1 m))"
proof -
  obtain x where x: "x \<in> history c" "inside bs x" using h i by (auto simp: defer_inv_def)
  then have "bs \<noteq> []" by (auto simp: inside_def)
  then obtain b where b: "bs = [b]" "\<not> b_used b" using all_freed [OF i l] by blast
  note i' = i [unfolded b(1)]
  obtain d1 where d1: "Defer_compute root d parent s host = Some (Defer_apply root d1 parent s host)"
    "unat (mTotalSize d1) = b_size b" "mFreeList d1 \<noteq> []" "mPtr d1 = MemChunk_null" "length (mChunks d1) = length (mChunks d)"
    "\<And>i k p. locate [b] i = Some (k, p) \<Longrightarrow> n_offset (node d1 i) = of_nat p \<and> i < length (mChunks d)"
    by (rule compute_single [OF i' b(2)]) (rule that)
  have e: "extent [b] < 2 ^ 64" "b_size b \<le> budget c" using i' by (auto simp: defer_inv_def)
  have pos: "n < length (mChunks d1) \<and> unat (n_offset (node d1 n)) = p \<and> p + sz \<le> b_size b"
    if "inside [b] (n, sz)" "locate [b] n = Some (k, p)" for n sz k p
    using position_bound [OF that(1) e(1) that(2)] d1(6) [OF that(2)] d1(5) by simp
  show thesis
  proof (rule that [OF d1(1,3,4)])
    show "unat (mTotalSize d1) \<le> budget c" using d1(2) e(2) by simp
  next
    fix n sz assume "(n, sz) \<in> history c"
    then have "inside [b] (n, sz)" using i' by (auto simp: defer_inv_def)
    then show "n < length (mChunks d1) \<and> unat (n_offset (node d1 n)) + sz \<le> unat (mTotalSize d1)"
      using pos d1(2) unfolding inside_def by (metis fst_conv)
  next
    fix m t n sz assume "((m, t), (n, sz)) \<in> together c"
    then have "apart [b] ((m, t), (n, sz))" "inside [b] (m, t)" "inside [b] (n, sz)"
      using i' unfolding defer_inv_def by blast+
    moreover from this obtain k p l q where w: "locate [b] m = Some (k, p)" "locate [b] n = Some (l, q)" "p + t \<le> q \<or> q + sz \<le> p"
      by (auto simp: apart_def)
    ultimately have "unat (n_offset (node d1 m)) = p" "unat (n_offset (node d1 n)) = q" using pos by blast+
    then show "unat (n_offset (node d1 m)) + t \<le> unat (n_offset (node d1 n)) \<or> unat (n_offset (node d1 n)) + sz \<le> unat (n_offset (node d1 m))"
      using w(3) by simp
  qed
qed

subsection \<open>Theorems\<close>

text \<open>
  C32: no operation of a client fails. In every state a client can reach, an allocation whose
  size can be represented succeeds with a node that is not in use, freeing a chunk that the
  client holds succeeds, and so does the end of a barrier with all frees it postponed.
\<close>

theorem defer_operations_succeed:
  assumes "serves d c"
  shows "(\<forall>sz separate align. align_of align d \<noteq> 0 \<longrightarrow> unat sz + unat (align_of align d) \<le> 2 ^ 64 \<longrightarrow>
      budget c + rounded (unat (align_of align d)) (unat sz) < 2 ^ 64 \<longrightarrow>
      (\<exists>n d'. Defer_alloc sz separate align d = Inr (MemChunk_node n, d') \<and> n \<notin> fst ` live c)) \<and>
    (\<forall>n s. (n, s) \<in> live c \<longrightarrow> (\<exists>d'. Defer_free (MemChunk_node n) d = Inr (True, d'))) \<and>
    (\<exists>d'. Defer_barrierEnd d = Inr d')"
proof (intro conjI allI impI)
  obtain bs where i: "defer_inv d c bs" using serves_inv [OF assms] by blast
  show "\<exists>d'. Defer_barrierEnd d = Inr d'" using inv_end [OF i] by blast
  fix n s assume "(n, s) \<in> live c"
  then show "\<exists>d'. Defer_free (MemChunk_node n) d = Inr (True, d')"
    using inv_free [OF i, of n s "MemChunk_node n"] inv_free_later [OF i, of n s "MemChunk_node n"]
    by (cases "mBarrier d") (auto simp: MemChunk_node_def)
next
  fix sz align :: size_t and separate
  assume a: "align_of align d \<noteq> 0" "unat sz + unat (align_of align d) \<le> 2 ^ 64"
    "budget c + rounded (unat (align_of align d)) (unat sz) < 2 ^ 64"
  obtain bs where i: "defer_inv d c bs" using serves_inv [OF assms] by blast
  show "\<exists>n d'. Defer_alloc sz separate align d = Inr (MemChunk_node n, d') \<and> n \<notin> fst ` live c"
    using inv_alloc [OF i a(2,1) refl a(3), of separate] by blast
qed

text \<open>
  C3: memory reuse is safe. Once a client has freed everything, \<open>compute\<close> ends with success or
  \<open>OUT_OF_MEMORY\<close>, gives every chunk the client ever had a place inside \<open>mTotalSize\<close> (which is at
  most the sum of all sizes), and two chunks that were alive at the same time do not overlap.
\<close>

theorem defer_compute_disjoint:
  assumes "serves d c" and "live c = {}" and "pending c = []" and "history c \<noteq> {}"
  shows "\<exists>code d' p' s' h'. Defer_compute root d parent s host = Some (code, d', p', s', h') \<and>
    code \<in> {NO_ERROR, OUT_OF_MEMORY} \<and> unat (mTotalSize d') \<le> budget c \<and>
    (\<forall>n sz. (n, sz) \<in> history c \<longrightarrow> unat (MemChunk_offset d' (MemChunk_node n)) + sz \<le> unat (mTotalSize d')) \<and>
    (\<forall>m t n sz. ((m, t), (n, sz)) \<in> together c \<longrightarrow>
       unat (MemChunk_offset d' (MemChunk_node m)) + t \<le> unat (MemChunk_offset d' (MemChunk_node n)) \<or>
       unat (MemChunk_offset d' (MemChunk_node n)) + sz \<le> unat (MemChunk_offset d' (MemChunk_node m)))"
proof -
  obtain bs where i: "defer_inv d c bs" using serves_inv [OF assms(1)] by blast
  obtain d1 where d1: "Defer_compute root d parent s host = Some (Defer_apply root d1 parent s host)"
    "mFreeList d1 \<noteq> []" "mPtr d1 = MemChunk_null" "unat (mTotalSize d1) \<le> budget c"
    "\<And>n sz. (n, sz) \<in> history c \<Longrightarrow> n < length (mChunks d1) \<and> unat (n_offset (node d1 n)) + sz \<le> unat (mTotalSize d1)"
    "\<And>m t n sz. ((m, t), (n, sz)) \<in> together c \<Longrightarrow>
       unat (n_offset (node d1 m)) + t \<le> unat (n_offset (node d1 n)) \<or> unat (n_offset (node d1 n)) + sz \<le> unat (n_offset (node d1 m))"
    by (rule compute_places [OF i assms(2-4)]) (rule that)
  obtain code d' p' s' h' where r: "Defer_apply root d1 parent s host = (code, d', p', s', h')" by (cases "Defer_apply root d1 parent s host")
  note k = apply_keeps [OF r]
  have o: "MemChunk_offset d' (MemChunk_node n) = n_offset (node d1 n)" if "(n, sz) \<in> history c" for n sz
    using k(3) [of n] d1(5) [OF that] by (simp add: MemChunk_offset_def MemChunk_node_def)
  have tg: "(m, t) \<in> history c \<and> (n, sz) \<in> history c" if "((m, t), (n, sz)) \<in> together c" for m t n sz
    using i that unfolding defer_inv_def by blast
  show ?thesis
  proof (intro exI conjI allI impI)
    show "Defer_compute root d parent s host = Some (code, d', p', s', h')" using d1(1) r by simp
    show "code \<in> {NO_ERROR, OUT_OF_MEMORY}" by (rule k(2))
    show "unat (mTotalSize d') \<le> budget c" using d1(4) k(1) by simp
    show "unat (MemChunk_offset d' (MemChunk_node n)) + sz \<le> unat (mTotalSize d')" if "(n, sz) \<in> history c" for n sz
      using d1(5) [OF that] o [OF that] k(1) by simp
    show "unat (MemChunk_offset d' (MemChunk_node m)) + t \<le> unat (MemChunk_offset d' (MemChunk_node n)) \<or>
       unat (MemChunk_offset d' (MemChunk_node n)) + sz \<le> unat (MemChunk_offset d' (MemChunk_node m))"
      if "((m, t), (n, sz)) \<in> together c" for m t n sz
      using d1(6) [OF that] o [OF tg [OF that, THEN conjunct1]] o [OF tg [OF that, THEN conjunct2]] by simp
  qed
qed

text \<open>
  Chunks that are still in use. When a client has not freed everything, \<open>compute\<close> places
  nothing: it reports \<open>INVALID_VALUE\<close> when some memory is free, but success when none is, and
  in both cases the allocator is as it was.
\<close>

theorem defer_compute_unfreed:
  assumes "serves d c" and "live c \<union> set (pending c) \<noteq> {}"
  shows "Defer_compute root d parent s host = Some (if mFreeList d = [] then NO_ERROR else INVALID_VALUE, d, parent, s, host)"
proof -
  obtain bs where i: "defer_inv d c bs" using serves_inv [OF assms(1)] by blast
  then have r: "rep d bs" and t: "mTotalSize d = 0" and u: "used_of bs \<noteq> {}" using assms(2) by (auto simp: defer_inv_def)
  have d0: "d\<lparr>mTotalSize := 0\<rparr> = d" using t by simp
  have "mHead d \<noteq> mTail d" if "mFreeList d \<noteq> []"
  proof -
    have "free_ids bs \<noteq> {}" using r that by (auto simp: rep_def)
    then obtain a b where ab: "a \<in> set bs" "b \<in> set bs" "b_used a" "\<not> b_used b"
      using u by (auto simp: free_ids_def used_of_def)
    then obtain x ys where bs: "bs = x # ys" by (cases bs) auto
    then have "ys \<noteq> []" using ab by auto
    then have "hd (map b_id bs) \<noteq> last (map b_id bs)" if "distinct (map b_id bs)"
      using that bs by (auto simp: last_map)
    moreover have "chain_ok d (map b_id bs)" using r by (simp add: rep_def rep0_def)
    ultimately show ?thesis using bs by (simp add: chain_ok_def first_of_def last_of_def)
  qed
  then show ?thesis unfolding Defer_compute_def Let_def d0 using t by auto
qed

subsection \<open>Addresses\<close>

lemma buffer_reach_offset: "buffer_reach m b \<Longrightarrow> chunk_second (current b) = 0 \<and> chunk_mNode (current b) = None"
  by (induction rule: buffer_reach.induct)
    (auto simp: SingleBuffer_empty_def MemChunk_null_def SingleBuffer_realloc_def SingleBuffer_release_def DefaultAllocator_def
      Default_onAlloc_def MemChunk_ptr_def Let_def split: if_splits prod.splits)

text \<open>Applying a placed plan with a buffer from the default allocator.\<close>

lemma apply_default:
  assumes b: "buffer_reach m parent" and f: "default_fits (mTotalSize d)" "0 < mTotalSize d"
    and d: "mFreeList d \<noteq> []" "mPtr d = MemChunk_null"
    and a: "Defer_apply DefaultAllocator d parent m host = (NO_ERROR, d', p', m', h')"
  shows "\<exists>base. chunk_first (current p') = Some base \<and> aligned_block m' 6 base (unat (currentSize p')) \<and>
    mTotalSize d \<le> currentSize p' \<and>
    (\<forall>n < length (mChunks d). MemChunk_address d' (MemChunk_node n) = Some (base + unat (n_offset (node d n))))"
proof -
  obtain code p1 s1 where r: "SingleBuffer_realloc DefaultAllocator (mTotalSize d) (mAlign d) parent m = (code, p1, s1)"
    by (cases "SingleBuffer_realloc DefaultAllocator (mTotalSize d) (mAlign d) parent m")
  note inv = buffer_reach_holds [OF b] and off = buffer_reach_offset [OF b]
  have pre: "code = NO_ERROR \<and> p' = p1 \<and> m' = s1"
    "d' = (let d1 = d\<lparr>mPtr := current p'\<rparr> in d1\<lparr>mChunks := map (\<lambda>n. n\<lparr>n_base := MemChunk_address d1 (mPtr d1)\<rparr>) (mChunks d1)\<rparr>)"
  proof -
    have "chunk_first (current parent) \<noteq> None" if "\<not> currentSize parent < mTotalSize d"
      using that inv f(2) by (auto simp: ds.sound_def)
    moreover have "SingleBuffer_realloc DefaultAllocator (mTotalSize d) (mAlign d) parent m = (NO_ERROR, parent, m)"
      if "\<not> currentSize parent < mTotalSize d" using that by (simp add: SingleBuffer_realloc_def)
    ultimately show "code = NO_ERROR \<and> p' = p1 \<and> m' = s1"
      "d' = (let d1 = d\<lparr>mPtr := current p'\<rparr> in d1\<lparr>mChunks := map (\<lambda>n. n\<lparr>n_base := MemChunk_address d1 (mPtr d1)\<rparr>) (mChunks d1)\<rparr>)"
      using a r d by (auto simp: Defer_apply_def Let_def MemChunk_null_def split: if_splits)
  qed
  have g: "SingleBuffer_realloc DefaultAllocator (mTotalSize d) (mAlign d) parent m = (NO_ERROR, p', m')" using r pre(1) by simp
  have lv: "default_live m' (current p') (unat (currentSize p'))" "mTotalSize d \<le> currentSize p'"
    using ds.realloc_live [of m parent "mTotalSize d" "mAlign d" p' m'] inv f g by (auto simp: DefaultAllocator_def)
  then obtain base where base: "chunk_first (current p') = Some base" "aligned_block m' 6 base (unat (currentSize p'))"
    by (auto simp: default_live_def)
  have "chunk_second (current p') = 0" "chunk_mNode (current p') = None"
    using buffer_reach_offset [OF buffer_reach.realloc [OF b f(1) g]] by auto
  then have "MemChunk_address d' (MemChunk_node n) = Some (base + unat (n_offset (node d n)))" if "n < length (mChunks d)" for n
    using that base(1) pre(2) by (simp add: MemChunk_address_def MemChunk_node_def node_def plus_ptr_def Let_def)
  then show ?thesis using base lv(2) by blast
qed


subsection \<open>Concrete runs\<close>

text \<open>A client with two chunks, alive together, and later one that reuses their memory.\<close>

definition run_alloc :: "size_t \<Rightarrow> Defer \<Rightarrow> Defer" where
  "run_alloc sz d = (case Defer_alloc sz False 0 d of Inr (_, d') \<Rightarrow> d' | Inl _ \<Rightarrow> d)"

definition run_free :: "nat \<Rightarrow> Defer \<Rightarrow> Defer" where
  "run_free n d = (case Defer_free (MemChunk_node n) d of Inr (_, d') \<Rightarrow> d' | Inl _ \<Rightarrow> d)"

definition demo_two :: Defer where
  "demo_two = run_alloc 50 (run_alloc 100 (Defer_ctor 64 None))"

definition demo_freed :: Defer where
  "demo_freed = run_free 0 (run_free 1 demo_two)"

lemmas demo_defs = demo_two_def demo_freed_def run_alloc_def run_free_def Defer_alloc_def Defer_free_def Defer_ctor_def
  UP_DIV_def createMemNode_def insert_after_def MemNode_new_def MemChunk_node_def upd_node_def node_def
  insertFree_def eraseFree_def fuse_to_left_def erase_node_def Let_def

definition demo_client :: client where
  "demo_client = client_alloc 1 64 (client_alloc 0 128 client_new)"

lemma demo_serves: "serves demo_two demo_client"
proof -
  let ?d0 = "Defer_ctor 64 None"
  have a: "Defer_alloc 100 False 0 ?d0 = Inr (MemChunk_node 0, run_alloc 100 ?d0)"
    "Defer_alloc 50 False 0 (run_alloc 100 ?d0) = Inr (MemChunk_node 1, run_alloc 50 (run_alloc 100 ?d0))"
    by (simp_all add: demo_defs)
  have al: "align_of 0 ?d0 = 64" "align_of 0 (run_alloc 100 ?d0) = 64" by (simp_all add: align_of_def demo_defs)
  have "serves (run_alloc 100 ?d0) (client_alloc 0 128 client_new)"
    by (rule serves.alloc [OF serves.start _ _ _ _ a(1)]) (simp_all add: al rounded_def client_new_def)
  then show ?thesis unfolding demo_two_def demo_client_def
    by (rule serves.alloc [OF _ _ _ _ _ a(2)]) (simp_all add: al rounded_def client_new_def client_alloc_def)
qed

lemma demo_freed_serves: "serves demo_freed (demo_client\<lparr>live := {}\<rparr>)"
proof -
  have f: "Defer_free (MemChunk_node 1) demo_two = Inr (True, run_free 1 demo_two)"
    "Defer_free (MemChunk_node 0) (run_free 1 demo_two) = Inr (True, demo_freed)" by (simp_all add: demo_defs)
  have b: "\<not> mBarrier demo_two" "\<not> mBarrier (run_free 1 demo_two)" by (simp_all add: demo_defs)
  have "serves (run_free 1 demo_two) (demo_client\<lparr>live := live demo_client - {(1, 64)}\<rparr>)"
    by (rule serves.free [OF demo_serves b(1) _ _ f(1)]) (simp_all add: demo_client_def client_alloc_def MemChunk_node_def)
  from serves.free [OF this b(2) _ _ f(2), of 0 128] show ?thesis
    by (simp add: demo_client_def client_alloc_def client_new_def MemChunk_node_def)
qed

theorem defer_operations_succeed_witness:
  "\<exists>n d'. Defer_alloc 200 False 0 demo_two = Inr (MemChunk_node n, d') \<and> n \<notin> {0, 1}"
  using defer_operations_succeed [OF demo_serves, THEN conjunct1, rule_format, of 0 200 False]
  by (auto simp: align_of_def demo_defs rounded_def demo_client_def client_alloc_def client_new_def)

theorem defer_compute_disjoint_witness:
  "\<exists>code d' p' m' h'. Defer_compute DefaultAllocator demo_freed SingleBuffer_empty demo_memory (\<lambda>_. None) = Some (code, d', p', m', h') \<and>
     unat (MemChunk_offset d' (MemChunk_node 1)) + 64 \<le> unat (mTotalSize d') \<and>
     (unat (MemChunk_offset d' (MemChunk_node 1)) + 64 \<le> unat (MemChunk_offset d' (MemChunk_node 0)) \<or>
      unat (MemChunk_offset d' (MemChunk_node 0)) + 128 \<le> unat (MemChunk_offset d' (MemChunk_node 1)))"
proof -
  have c: "live (demo_client\<lparr>live := {}\<rparr>) = {}" "pending (demo_client\<lparr>live := {}\<rparr>) = []" "history (demo_client\<lparr>live := {}\<rparr>) = {(0, 128), (1, 64)}"
    "((1, 64), (0, 128)) \<in> together (demo_client\<lparr>live := {}\<rparr>)"
    by (auto simp: demo_client_def client_alloc_def client_new_def)
  show ?thesis
    using defer_compute_disjoint [OF demo_freed_serves c(1,2), of DefaultAllocator SingleBuffer_empty demo_memory "\<lambda>_. None"] c(3,4) by fastforce
qed

theorem defer_compute_unfreed_witness:
  "Defer_compute DefaultAllocator demo_two SingleBuffer_empty demo_memory (\<lambda>_. None) =
     Some (NO_ERROR, demo_two, SingleBuffer_empty, demo_memory, \<lambda>_. None)"
  using defer_compute_unfreed [OF demo_serves, of DefaultAllocator SingleBuffer_empty demo_memory "\<lambda>_. None"]
  by (simp add: demo_client_def client_alloc_def demo_defs)

lemma demo_computes:
  "map_option fst (Defer_compute DefaultAllocator demo_freed SingleBuffer_empty demo_memory (\<lambda>_. None)) = Some NO_ERROR"
  by code_simp


end
