(* ===== verification/MNN_Eager.thy ===== *)
theory MNN_Eager
  imports MNN_Defer_Layout
begin

text \<open>
  \<open>EagerBufferAllocator\<close> (\<open>MNN/source/core/BufferAllocator.hpp\<close>, \<open>BufferAllocator.cpp\<close>): chunks are cut out of blocks of an
  underlying allocator; a block that is cut becomes the parent of its two parts, and parts that are free
  again are joined. Nodes live in a store and are named by their number; they are reference counted in
  the code, which is seen from outside only when a block without parent is destroyed and given
  back: \<open>eg_roots\<close> are these blocks, and \<open>collect\<close> gives back those nothing refers to any more. A free
  list is a list sorted by size (\<open>std::multimap\<close>), the list of used chunks an association list. \<open>Inl\<close> is undefined
  behaviour.
\<close>

record EagerNode =
  en_base :: addr
  en_offset :: size_t
  en_parent :: "nat option"
  en_size :: size_t
  en_useCount :: size_t

type_synonym freelist = "(size_t \<times> nat) list"

record Eager =
  eg_total :: size_t
  eg_used :: "((addr \<times> size_t) \<times> nat) list"
  eg_free :: freelist
  eg_current :: "nat option"
  eg_groups :: "freelist list"
  eg_align :: size_t
  eg_min :: size_t
  eg_nodes :: "EagerNode list"
  eg_roots :: "nat list"

definition Eager_ctor :: "size_t \<Rightarrow> size_t \<Rightarrow> Eager" where
  "Eager_ctor align minAllocSize =
     \<lparr>eg_total = 0, eg_used = [], eg_free = [], eg_current = None, eg_groups = [], eg_align = align, eg_min = minAllocSize,
      eg_nodes = [], eg_roots = []\<rparr>"

subsection \<open>Lists\<close>

text \<open>\<open>std::multimap::insert\<close> puts an entry behind those of the same size, \<open>std::map::insert\<close> keeps an entry that is there.\<close>

definition fl_insert :: "size_t \<Rightarrow> nat \<Rightarrow> freelist \<Rightarrow> freelist" where
  "fl_insert s n l = takeWhile (\<lambda>e. fst e \<le> s) l @ (s, n) # dropWhile (\<lambda>e. fst e \<le> s) l"

definition lower_bound :: "size_t \<Rightarrow> freelist \<Rightarrow> (size_t \<times> nat) option" where
  "lower_bound s l = find (\<lambda>e. s \<le> fst e) l"

definition used_insert :: "addr \<times> size_t \<Rightarrow> nat \<Rightarrow> ((addr \<times> size_t) \<times> nat) list \<Rightarrow> ((addr \<times> size_t) \<times> nat) list" where
  "used_insert k n u = (if map_of u k = None then u @ [(k, n)] else u)"

definition used_erase :: "addr \<times> size_t \<Rightarrow> ((addr \<times> size_t) \<times> nat) list \<Rightarrow> ((addr \<times> size_t) \<times> nat) list" where
  "used_erase k u = filter (\<lambda>e. fst e \<noteq> k) u"

definition add_use :: "size_t \<Rightarrow> nat \<Rightarrow> EagerNode list \<Rightarrow> EagerNode list" where
  "add_use k n N = N[n := (N ! n)\<lparr>en_useCount := en_useCount (N ! n) + k\<rparr>]"

subsection \<open>References\<close>

fun root_of :: "nat \<Rightarrow> EagerNode list \<Rightarrow> nat \<Rightarrow> nat" where
  "root_of 0 N n = n"
| "root_of (Suc fuel) N n = (case en_parent (N ! n) of None \<Rightarrow> n | Some p \<Rightarrow> root_of fuel N p)"

definition referenced :: "Eager \<Rightarrow> nat list" where
  "referenced d = map snd (eg_used d) @ map snd (eg_free d) @ map snd (concat (eg_groups d))"

definition collect :: "'st Allocator \<Rightarrow> Eager \<Rightarrow> 'st \<Rightarrow> Eager \<times> 'st" where
  "collect root d s =
     (let kept = set (map (root_of (length (eg_nodes d)) (eg_nodes d)) (referenced d));
          dead = filter (\<lambda>r. r \<notin> kept) (eg_roots d)
      in (d\<lparr>eg_roots := filter (\<lambda>r. r \<in> kept) (eg_roots d)\<rparr>,
          fold (\<lambda>r. onRelease root (MemChunk_ptr (Some (en_base (eg_nodes d ! r))) (en_offset (eg_nodes d ! r)))) dead s))"

subsection \<open>Taking from a free list\<close>

definition child_of :: "EagerNode list \<Rightarrow> nat \<Rightarrow> size_t \<Rightarrow> size_t \<Rightarrow> EagerNode" where
  "child_of N x offset sz = \<lparr>en_base = en_base (N ! x), en_offset = offset, en_parent = Some x, en_size = sz, en_useCount = 0\<rparr>"

definition getFromFreeList ::
    "freelist \<Rightarrow> size_t \<Rightarrow> bool \<Rightarrow> size_t \<Rightarrow> Eager \<Rightarrow> ub + ((addr \<times> size_t) option \<times> freelist \<times> Eager)" where
  "getFromFreeList l sz permiteSplit align d =
     (if align = 0 then Inl DivByZero
      else let needExtraSize = (eg_align d mod align \<noteq> 0);
               realSize = (if needExtraSize then sz + align - 1 else sz)
           in case lower_bound realSize l of None \<Rightarrow> Inr (None, l, d)
              | Some (s, x) \<Rightarrow>
                  let N = eg_nodes d;
                      originOffset = en_offset (N ! x);
                      offset = (if needExtraSize then UP_DIV originOffset align * align else originOffset);
                      realSize = (if needExtraSize then sz + offset - originOffset else realSize);
                      pointer = (en_base (N ! x), offset);
                      N1 = (case en_parent (N ! x) of Some p \<Rightarrow> if permiteSplit then add_use 1 p N else N | None \<Rightarrow> N)
                  in if eg_align d = 0 then Inl DivByZero
                     else let sizeAlign = UP_DIV realSize (eg_align d) * eg_align d
                          in if sizeAlign \<ge> s \<or> \<not> permiteSplit
                             then Inr (Some pointer, remove1 (s, x) l,
                                       d\<lparr>eg_nodes := N1, eg_used := used_insert pointer x (eg_used d)\<rparr>)
                             else let first = length N; second = first + 1; rest = en_size (N ! x) - sizeAlign;
                                      N2 = add_use 1 x N1 @ [child_of N x originOffset sizeAlign, child_of N x (originOffset + sizeAlign) rest]
                                  in Inr (Some pointer, fl_insert rest second (remove1 (s, x) l),
                                          d\<lparr>eg_nodes := N2, eg_used := used_insert pointer first (eg_used d)\<rparr>))"

subsection \<open>Allocation\<close>

text \<open>The current free list is that of the group that was begun last.\<close>

definition group_list :: "Eager \<Rightarrow> nat \<Rightarrow> freelist" where
  "group_list d g = eg_groups d ! g"

definition put_group :: "nat \<Rightarrow> freelist \<Rightarrow> Eager \<Rightarrow> Eager" where
  "put_group g l d = d\<lparr>eg_groups := (eg_groups d)[g := l]\<rparr>"

text \<open>Reuse: the current group first, without splitting, then the common free list.\<close>

definition reuse :: "size_t \<Rightarrow> size_t \<Rightarrow> Eager \<Rightarrow> ub + ((addr \<times> size_t) option \<times> Eager)" where
  "reuse sz align d =
     (let common = (\<lambda>d. case getFromFreeList (eg_free d) sz True align d of
                          Inl e \<Rightarrow> Inl e | Inr (p, l, d1) \<Rightarrow> Inr (p, d1\<lparr>eg_free := l\<rparr>))
      in case eg_current d of None \<Rightarrow> common d
         | Some g \<Rightarrow>
             (if g \<ge> length (eg_groups d) then Inl OutOfBounds
              else case getFromFreeList (group_list d g) sz False align d of
                Inl e \<Rightarrow> Inl e
              | Inr (None, l, d1) \<Rightarrow> common d
              | Inr (Some p, l, d1) \<Rightarrow> Inr (Some p, put_group g l d1)))"

definition new_block :: "'st Allocator \<Rightarrow> size_t \<Rightarrow> size_t \<Rightarrow> Eager \<Rightarrow> 'st \<Rightarrow> ub + (MemChunk \<times> Eager \<times> 'st)" where
  "new_block root sz align d s =
     (let allocSize = (if eg_min d \<noteq> 0 then max (eg_min d) sz else sz)
      in case onAlloc root allocSize align s of
           (chunk, s1) \<Rightarrow>
             (case chunk_first chunk of
                None \<Rightarrow> Inr (chunk, d, s1)
              | Some base \<Rightarrow>
                  let pointer = (base, chunk_second chunk); n = length (eg_nodes d);
                      node = \<lparr>en_base = base, en_offset = chunk_second chunk, en_parent = None, en_size = allocSize, en_useCount = 0\<rparr>;
                      d1 = d\<lparr>eg_total := eg_total d + allocSize, eg_roots := eg_roots d @ [n]\<rparr>
                  in if allocSize > sz
                     then if eg_align d = 0 then Inl DivByZero
                          else let size1 = UP_DIV sz (eg_align d) * eg_align d;
                                   N = eg_nodes d @ [node\<lparr>en_useCount := 1\<rparr>];
                                   rest = allocSize - size1;
                                   N1 = N @ [child_of N n (chunk_second chunk) size1, child_of N n (chunk_second chunk + size1) rest];
                                   d2 = d1\<lparr>eg_nodes := N1, eg_used := used_insert pointer (n + 1) (eg_used d)\<rparr>
                               in (case eg_current d of
                                     None \<Rightarrow> Inr (MemChunk_ptr (Some base) (chunk_second chunk), d2\<lparr>eg_free := fl_insert rest (n + 2) (eg_free d)\<rparr>, s1)
                                   | Some g \<Rightarrow>
                                       if g \<ge> length (eg_groups d) then Inl OutOfBounds
                                       else Inr (MemChunk_ptr (Some base) (chunk_second chunk), put_group g (fl_insert rest (n + 2) (group_list d g)) d2, s1))
                     else Inr (MemChunk_ptr (Some base) (chunk_second chunk),
                               d1\<lparr>eg_nodes := eg_nodes d @ [node], eg_used := used_erase pointer (eg_used d) @ [(pointer, n)]\<rparr>, s1)))"

definition Eager_alloc :: "'st Allocator \<Rightarrow> size_t \<Rightarrow> bool \<Rightarrow> size_t \<Rightarrow> Eager \<Rightarrow> 'st \<Rightarrow> ub + (MemChunk \<times> Eager \<times> 'st)" where
  "Eager_alloc root sz separate align0 d s =
     (let align = (if align0 = 0 then eg_align d else align0);
          fresh = (\<lambda>d. case new_block root sz align d s of
                     Inl e \<Rightarrow> Inl e | Inr (c, d1, s1) \<Rightarrow> (case collect root d1 s1 of (d2, s2) \<Rightarrow> Inr (c, d2, s2)))
      in if separate then fresh d
         else case reuse sz align d of
                Inl e \<Rightarrow> Inl e
              | Inr (None, d1) \<Rightarrow> fresh d1
              | Inr (Some (b, off), d1) \<Rightarrow> (case collect root d1 s of (d2, s2) \<Rightarrow> Inr (MemChunk_ptr (Some b) off, d2, s2)))"

subsection \<open>Giving back\<close>

text \<open>
  After \<open>n\<close> was put into the list: when its parent has no part in use any more, its parts leave the list
  and it takes their place, and so on upwards. \<open>None\<close> if the fuel runs out.
\<close>

fun ascend :: "nat \<Rightarrow> nat \<Rightarrow> freelist \<Rightarrow> EagerNode list \<Rightarrow> (freelist \<times> EagerNode list) option" where
  "ascend 0 n l N = None"
| "ascend (Suc fuel) n l N =
     (case en_parent (N ! n) of None \<Rightarrow> Some (l, N)
      | Some p \<Rightarrow>
          (let N1 = add_use (- 1) p N
           in if en_useCount (N1 ! p) = 0
              then ascend fuel p (fl_insert (en_size (N ! p)) p (filter (\<lambda>e. en_parent (N ! snd e) \<noteq> Some p) l)) N1
              else Some (l, N1)))"

definition returnMemory :: "freelist \<Rightarrow> nat \<Rightarrow> bool \<Rightarrow> EagerNode list \<Rightarrow> (freelist \<times> EagerNode list) option" where
  "returnMemory l n permitMerge N =
     (let l1 = fl_insert (en_size (N ! n)) n l in if permitMerge then ascend (length N) n l1 N else Some (l1, N))"

definition Eager_free :: "'st Allocator \<Rightarrow> MemChunk \<Rightarrow> Eager \<Rightarrow> 'st \<Rightarrow> (ub + (bool \<times> Eager \<times> 'st)) option" where
  "Eager_free root chunk d s =
     (case Option.bind (chunk_first chunk) (\<lambda>b. map_of (eg_used d) (b, chunk_second chunk)) of
        None \<Rightarrow> Some (Inr (False, d, s))
      | Some n \<Rightarrow>
          let d1 = d\<lparr>eg_used := used_erase (the (chunk_first chunk), chunk_second chunk) (eg_used d)\<rparr>;
              finish = (\<lambda>d2. case collect root d2 s of (d3, s1) \<Rightarrow> Inr (True, d3, s1))
          in case eg_current d of
               Some g \<Rightarrow>
                 (if g \<ge> length (eg_groups d) then Some (Inl OutOfBounds)
                  else map_option (\<lambda>(l, N). finish (put_group g l (d1\<lparr>eg_nodes := N\<rparr>))) (returnMemory (group_list d g) n False (eg_nodes d)))
             | None \<Rightarrow> map_option (\<lambda>(l, N). finish (d1\<lparr>eg_free := l, eg_nodes := N\<rparr>)) (returnMemory (eg_free d) n True (eg_nodes d)))"

subsection \<open>Release, barriers and groups\<close>

definition Eager_release :: "'st Allocator \<Rightarrow> bool \<Rightarrow> Eager \<Rightarrow> 'st \<Rightarrow> Eager \<times> 'st" where
  "Eager_release root allRelease d s =
     (if allRelease then collect root (d\<lparr>eg_used := [], eg_free := [], eg_total := 0\<rparr>) s
      else let whole = (\<lambda>e. en_parent (eg_nodes d ! snd e) = None)
           in collect root (d\<lparr>eg_total := foldl (\<lambda>t e. t - fst e) (eg_total d) (filter whole (eg_free d)),
                             eg_free := filter (\<lambda>e. \<not> whole e) (eg_free d)\<rparr>) s)"

text \<open>The destructor releases everything; with the groups' lists the last references go.\<close>

definition Eager_dtor :: "'st Allocator \<Rightarrow> Eager \<Rightarrow> 'st \<Rightarrow> Eager \<times> 'st" where
  "Eager_dtor root d s = (case Eager_release root True d s of (d1, s1) \<Rightarrow> collect root (d1\<lparr>eg_groups := []\<rparr>) s1)"

definition Eager_barrierBegin :: "Eager \<Rightarrow> Eager" where
  "Eager_barrierBegin d = d"

fun return_each :: "nat list \<Rightarrow> freelist \<Rightarrow> EagerNode list \<Rightarrow> (freelist \<times> EagerNode list) option" where
  "return_each [] l N = Some (l, N)"
| "return_each (n # ns) l N = Option.bind (returnMemory l n True N) (\<lambda>(l1, N1). return_each ns l1 N1)"

definition Eager_barrierEnd :: "'st Allocator \<Rightarrow> Eager \<Rightarrow> 'st \<Rightarrow> (Eager \<times> 'st) option" where
  "Eager_barrierEnd root d s =
     map_option (\<lambda>(l, N). collect root (d\<lparr>eg_free := l, eg_nodes := N, eg_groups := []\<rparr>) s)
       (return_each (map snd (concat (eg_groups d))) (eg_free d) (eg_nodes d))"

definition Eager_beginGroup :: "Eager \<Rightarrow> Eager" where
  "Eager_beginGroup d = d\<lparr>eg_groups := eg_groups d @ [[]], eg_current := Some (length (eg_groups d))\<rparr>"

definition Eager_endGroup :: "Eager \<Rightarrow> Eager" where
  "Eager_endGroup d = d\<lparr>eg_current := None\<rparr>"

end
