(* ===== verification/MNN_Eager_Forest.thy ===== *)
theory MNN_Eager_Forest
  imports MNN_Eager
begin

text \<open>
  The invariant of the eager allocator's nodes. The nodes in use form a forest: \<open>A\<close> are its nodes, \<open>F\<close> the leaves in
  the common free list, \<open>B\<close> the other leaves, which are busy. A node that is not a leaf has been cut into its two children,
  and its \<open>useCount\<close> counts the children that are not free.
\<close>

definition lo :: "EagerNode list \<Rightarrow> nat \<Rightarrow> nat" where
  "lo N x = unat (en_offset (N ! x))"

definition hi :: "EagerNode list \<Rightarrow> nat \<Rightarrow> nat" where
  "hi N x = unat (en_offset (N ! x)) + unat (en_size (N ! x))"

definition node_apart :: "EagerNode list \<Rightarrow> nat \<Rightarrow> nat \<Rightarrow> bool" where
  "node_apart N x y \<longleftrightarrow> en_base (N ! x) \<noteq> en_base (N ! y) \<or> hi N x \<le> lo N y \<or> hi N y \<le> lo N x"

definition cut_at :: "EagerNode list \<Rightarrow> nat \<Rightarrow> nat \<Rightarrow> nat \<Rightarrow> bool" where
  "cut_at N p y z \<longleftrightarrow> y \<noteq> z \<and> lo N y = lo N p \<and> lo N z = hi N y \<and> hi N z = hi N p"

definition kids :: "nat set \<Rightarrow> EagerNode list \<Rightarrow> nat \<Rightarrow> nat set" where
  "kids A N p = {x \<in> A. en_parent (N ! x) = Some p}"

definition busy_kids :: "nat set \<Rightarrow> nat set \<Rightarrow> EagerNode list \<Rightarrow> nat \<Rightarrow> nat set" where
  "busy_kids A F N p = {x \<in> A. en_parent (N ! x) = Some p \<and> x \<notin> F}"

text \<open>Places: every node lies inside its parent's memory, at a multiple of the alignment.\<close>

definition placed :: "nat \<Rightarrow> nat set \<Rightarrow> EagerNode list \<Rightarrow> bool" where
  "placed al A N \<longleftrightarrow> (\<forall>x\<in>A. x < length N \<and> lo N x < hi N x \<and> hi N x < 2 ^ 64 \<and> al dvd lo N x \<and>
     (\<forall>p. en_parent (N ! x) = Some p \<longrightarrow> p \<in> A \<and> p < x \<and> en_base (N ! p) = en_base (N ! x) \<and> lo N p \<le> lo N x \<and> hi N x \<le> hi N p))"

text \<open>Leaves: they share no memory, and every other node is cut in two.\<close>

definition leafed :: "nat set \<Rightarrow> nat set \<Rightarrow> EagerNode list \<Rightarrow> bool" where
  "leafed A L N \<longleftrightarrow> L \<subseteq> A \<and> (\<forall>p\<in>L. kids A N p = {}) \<and> (\<forall>p\<in>A - L. \<exists>y z. kids A N p = {y, z} \<and> cut_at N p y z) \<and>
     (\<forall>x\<in>L. \<forall>y\<in>L. x \<noteq> y \<longrightarrow> node_apart N x y)"

lemma leafedI:
  assumes "L \<subseteq> A" and "\<And>p. p \<in> L \<Longrightarrow> kids A N p = {}" and "\<And>p. p \<in> A \<Longrightarrow> p \<notin> L \<Longrightarrow> \<exists>y z. kids A N p = {y, z} \<and> cut_at N p y z"
    and "\<And>x y. x \<in> L \<Longrightarrow> y \<in> L \<Longrightarrow> x \<noteq> y \<Longrightarrow> node_apart N x y"
  shows "leafed A L N"
  using assms by (simp add: leafed_def)

lemma leafedD:
  assumes "leafed A L N"
  shows "L \<subseteq> A" "p \<in> L \<Longrightarrow> kids A N p = {}" "p \<in> A \<Longrightarrow> p \<notin> L \<Longrightarrow> \<exists>y z. kids A N p = {y, z} \<and> cut_at N p y z"
    "x \<in> L \<Longrightarrow> y \<in> L \<Longrightarrow> x \<noteq> y \<Longrightarrow> node_apart N x y"
  using assms by (simp_all add: leafed_def)

text \<open>Counts: \<open>h\<close> is a node that has become free without its parent having been told.\<close>

definition counted :: "nat set \<Rightarrow> nat set \<Rightarrow> nat set \<Rightarrow> nat option \<Rightarrow> EagerNode list \<Rightarrow> bool" where
  "counted A F L h N \<longleftrightarrow>
     (\<forall>p\<in>A. unat (en_useCount (N ! p)) =
        card (busy_kids A F N p) + (if \<exists>n. h = Some n \<and> en_parent (N ! n) = Some p then 1 else 0)) \<and>
     (\<forall>p\<in>A - L. en_useCount (N ! p) \<noteq> 0)"

definition forest :: "nat \<Rightarrow> nat set \<Rightarrow> nat set \<Rightarrow> nat set \<Rightarrow> nat option \<Rightarrow> EagerNode list \<Rightarrow> bool" where
  "forest al A F B h N \<longleftrightarrow> placed al A N \<and> leafed A (F \<union> B) N \<and> F \<inter> B = {} \<and> counted A F (F \<union> B) h N"

subsection \<open>Nodes that differ in their counts only\<close>

definition same_shape :: "EagerNode list \<Rightarrow> EagerNode list \<Rightarrow> bool" where
  "same_shape N N' \<longleftrightarrow> length N' = length N \<and> (\<forall>x. en_base (N' ! x) = en_base (N ! x) \<and> en_offset (N' ! x) = en_offset (N ! x) \<and>
     en_parent (N' ! x) = en_parent (N ! x) \<and> en_size (N' ! x) = en_size (N ! x))"

lemma same_shape_refl [simp]: "same_shape N N"
  by (simp add: same_shape_def)

lemma same_shape_trans: "same_shape N N' \<Longrightarrow> same_shape N' N'' \<Longrightarrow> same_shape N N''"
  by (simp add: same_shape_def)

lemma same_shape_add_use [simp]: "same_shape N (add_use k p N)"
  by (cases "p < length N") (auto simp: same_shape_def add_use_def nth_list_update list_update_beyond)

lemma same_shapeD:
  assumes "same_shape N N'"
  shows "length N' = length N" "lo N' = lo N" "hi N' = hi N" "en_parent (N' ! x) = en_parent (N ! x)" "en_size (N' ! x) = en_size (N ! x)"
    "en_base (N' ! x) = en_base (N ! x)" "kids A N' = kids A N" "busy_kids A F N' = busy_kids A F N" "node_apart N' = node_apart N" "cut_at N' = cut_at N"
    "placed al A N' = placed al A N" "leafed A L N' = leafed A L N"
proof -
  show l: "length N' = length N" "lo N' = lo N" "hi N' = hi N" "kids A N' = kids A N" "node_apart N' = node_apart N" "cut_at N' = cut_at N"
    "busy_kids A F N' = busy_kids A F N"
    using assms by (auto simp: same_shape_def lo_def hi_def kids_def busy_kids_def node_apart_def cut_at_def fun_eq_iff)
  show "en_parent (N' ! x) = en_parent (N ! x)" "en_size (N' ! x) = en_size (N ! x)" "en_base (N' ! x) = en_base (N ! x)"
    using assms by (simp_all add: same_shape_def)
  show "placed al A N' = placed al A N" "leafed A L N' = leafed A L N"
    using assms l by (simp_all add: placed_def leafed_def same_shape_def)
qed

lemma use_add_use: "p < length N \<Longrightarrow> en_useCount (add_use k p N ! q) = (if q = p then en_useCount (N ! p) + k else en_useCount (N ! q))"
  by (simp add: add_use_def nth_list_update)

lemma unat_minus_one_word: "unat (w :: size_t) = Suc n \<Longrightarrow> unat (w + - 1) = n"
  by (metis add_uminus_conv_diff diff_Suc_1 unat_0 unat_minus_one nat.distinct(1))

lemma unat_plus_one_word: "unat (w :: size_t) + 1 < 2 ^ 64 \<Longrightarrow> unat (w + 1) = unat w + 1"
  using unat_add_no_wrap [of w 1] by simp

subsection \<open>Becoming free and busy\<close>

lemma kids_two:
  assumes "leafed A L N" and "p \<in> A"
  shows "finite (kids A N p) \<and> card (kids A N p) \<le> 2"
proof (cases "p \<in> L")
  case True
  then show ?thesis using assms(1) by (simp add: leafed_def)
next
  case False
  then obtain y z where "kids A N p = {y, z}" using assms unfolding leafed_def by blast
  then show ?thesis using card_length [of "[y, z]"] by simp
qed

lemma busy_kids_le:
  assumes "leafed A L N" and "p \<in> A"
  shows "finite (busy_kids A F N p)" "card (busy_kids A F N p) \<le> 2"
proof -
  have s: "busy_kids A F N p \<subseteq> kids A N p" by (auto simp: busy_kids_def kids_def)
  note k = kids_two [OF assms]
  show "finite (busy_kids A F N p)" using k s finite_subset by blast
  show "card (busy_kids A F N p) \<le> 2" using k card_mono [OF _ s] by linarith
qed

text \<open>A busy leaf becomes free: its parent is still to be told.\<close>

lemma forest_free:
  assumes f: "forest al A F B None N" and n: "n \<in> B"
  shows "forest al A (insert n F) (B - {n}) (Some n) N"
proof -
  have nA: "n \<in> A" "n \<notin> F" using f n by (auto simp: forest_def leafed_def)
  have u: "insert n F \<union> (B - {n}) = F \<union> B" using n by auto
  have c: "card (busy_kids A F N p) = card (busy_kids A (insert n F) N p) + (if en_parent (N ! n) = Some p then 1 else 0)" if p: "p \<in> A" for p
  proof (cases "en_parent (N ! n) = Some p")
    case True
    have "busy_kids A F N p = insert n (busy_kids A (insert n F) N p)" "n \<notin> busy_kids A (insert n F) N p"
      using True nA by (auto simp: busy_kids_def)
    then show ?thesis using True busy_kids_le(1) [of A "F \<union> B" N p "insert n F"] f p by (simp add: forest_def)
  next
    case False
    then have "busy_kids A F N p = busy_kids A (insert n F) N p" by (auto simp: busy_kids_def)
    then show ?thesis using False by simp
  qed
  show ?thesis using f c u unfolding forest_def counted_def by (auto simp: u)
qed

text \<open>A free leaf becomes busy, and its parent counts it.\<close>

definition count_up :: "nat \<Rightarrow> EagerNode list \<Rightarrow> EagerNode list" where
  "count_up x N = (case en_parent (N ! x) of Some p \<Rightarrow> add_use 1 p N | None \<Rightarrow> N)"

lemma count_up_shape [simp]: "same_shape N (count_up x N)"
  by (simp add: count_up_def split: option.splits)

lemma forest_take:
  assumes f: "forest al A F B None N" and x: "x \<in> F"
  shows "forest al A (F - {x}) (insert x B) None (count_up x N)"
proof -
  note s = same_shapeD [OF count_up_shape [of N x]]
  have xA: "x \<in> A" "x \<notin> B" using f x by (auto simp: forest_def leafed_def)
  have u: "insert x (F - {x} \<union> B) = F \<union> B" using x by auto
  have c: "card (busy_kids A (F - {x}) N p) = card (busy_kids A F N p) + (if en_parent (N ! x) = Some p then 1 else 0)" if p: "p \<in> A" for p
  proof (cases "en_parent (N ! x) = Some p")
    case True
    have "busy_kids A (F - {x}) N p = insert x (busy_kids A F N p)" "x \<notin> busy_kids A F N p"
      using True xA x by (auto simp: busy_kids_def)
    then show ?thesis using True busy_kids_le(1) [of A "F \<union> B" N p F] f p by (simp add: forest_def)
  next
    case False
    then have "busy_kids A (F - {x}) N p = busy_kids A F N p" by (auto simp: busy_kids_def)
    then show ?thesis using False by simp
  qed
  have use: "unat (en_useCount (count_up x N ! p)) = unat (en_useCount (N ! p)) + (if en_parent (N ! x) = Some p then 1 else 0)" if p: "p \<in> A" for p
  proof -
    have "card (busy_kids A F N p) \<le> 2" using busy_kids_le(2) [of A "F \<union> B" N p F] f p by (simp add: forest_def)
    then have "unat (en_useCount (N ! p)) + 1 < 2 ^ 64" using f p by (simp add: forest_def counted_def)
    moreover have "p < length N" using f p by (simp add: forest_def placed_def)
    ultimately show ?thesis
      using unat_plus_one_word [of "en_useCount (N ! p)"] by (cases "en_parent (N ! x)") (auto simp: count_up_def use_add_use add_use_def nth_list_update)
  qed
  have nz: "en_useCount (count_up x N ! p) \<noteq> 0" if "p \<in> A - (F \<union> B)" for p
  proof -
    have "en_useCount (N ! p) \<noteq> 0" using f that by (simp add: forest_def counted_def)
    then have "unat (en_useCount (N ! p)) \<noteq> 0" by (simp only: unat_eq_zero not_False_eq_True)
    then show ?thesis using use [of p] that by (metis DiffD1 add_is_0 unat_0)
  qed
  show ?thesis using f c use nz x unfolding forest_def counted_def by (auto simp: u s)
qed

subsection \<open>Joining\<close>

lemma kids_placed:
  assumes "placed al A N" and "y \<in> kids A N p"
  shows "y \<in> A" "p \<in> A" "p < y" "en_base (N ! y) = en_base (N ! p)" "en_parent (N ! y) = Some p"
  using assms by (auto simp: placed_def kids_def)

lemma apart_join:
  assumes "node_apart N w y" "node_apart N w z" "cut_at N p y z" "lo N w < hi N w"
    and "en_base (N ! y) = en_base (N ! p)" "en_base (N ! z) = en_base (N ! p)"
  shows "node_apart N w p" "node_apart N p w"
  using assms unfolding node_apart_def cut_at_def by (metis le_antisym nat_le_linear not_less le_trans)+

lemma placed_merge:
  assumes p: "placed al A N" and k: "\<forall>q\<in>K. kids A N q = {}"
  shows "placed al (A - K) N"
  using assms unfolding placed_def kids_def by blast

lemma kids_merge:
  "kids (A - kids A N p) N q = (if q = p then {} else kids A N q)"
  by (auto simp: kids_def)

lemma leafed_merge:
  assumes p: "placed al A N" and l: "leafed A L N" and i: "p \<in> A - L" and k: "kids A N p \<subseteq> L"
  shows "leafed (A - kids A N p) (insert p (L - kids A N p)) N"
proof -
  obtain y z where yz: "kids A N p = {y, z}" "cut_at N p y z" using l i unfolding leafed_def by blast
  have ap: "node_apart N w p" "node_apart N p w" if w: "w \<in> L - kids A N p" for w
  proof -
    have "lo N w < hi N w" "node_apart N w y" "node_apart N w z" using w p l k yz(1) by (auto simp: placed_def leafed_def)
    then show "node_apart N w p" "node_apart N p w"
      using apart_join [OF _ _ yz(2)] kids_placed(4) [OF p, of _ p] yz(1) by simp_all
  qed
  have "p \<notin> kids A N p" using kids_placed(3) [OF p, of p p] by blast
  moreover have "\<exists>y z. kids (A - kids A N p) N q = {y, z} \<and> cut_at N q y z" if "q \<in> A - L" "q \<noteq> p" for q
    using l that unfolding leafed_def by (simp add: kids_merge)
  moreover have "\<forall>q\<in>insert p (L - kids A N p). kids (A - kids A N p) N q = {}" using l by (simp add: kids_merge leafed_def)
  moreover have "\<forall>x\<in>insert p (L - kids A N p). \<forall>y\<in>insert p (L - kids A N p). x \<noteq> y \<longrightarrow> node_apart N x y"
    using ap l by (auto simp: leafed_def)
  ultimately show ?thesis using i l k unfolding leafed_def by blast
qed

lemma busy_kids_merge:
  assumes p: "placed al A N" and l: "leafed A (F \<union> B) N" and i: "p \<in> A - (F \<union> B)" and k: "kids A N p \<subseteq> F" and q: "q \<in> A"
  shows "card (busy_kids A F N q) =
    card (busy_kids (A - kids A N p) (insert p (F - kids A N p)) N q) + (if en_parent (N ! p) = Some q then 1 else 0)"
proof -
  let ?S = "busy_kids (A - kids A N p) (insert p (F - kids A N p)) N q"
  have "busy_kids A F N q = (if en_parent (N ! p) = Some q then insert p ?S else ?S)"
    using i k kids_placed(3) [OF p, of p p] by (auto simp: busy_kids_def kids_def)
  moreover have "p \<notin> ?S" by (simp add: busy_kids_def)
  moreover have "finite ?S"
    using finite_subset [of ?S "busy_kids A F N q"] busy_kids_le(1) [OF l q] k by (auto simp: busy_kids_def kids_def)
  ultimately show ?thesis by simp
qed

lemma forest_told:
  assumes f: "forest al A F B (Some n) N" and n: "n \<in> F" and pn: "en_parent (N ! n) = Some p"
  shows "p \<in> A - (F \<union> B)" "p < n"
    "q \<in> A \<Longrightarrow> unat (en_useCount (add_use (- 1) p N ! q)) = card (busy_kids A F N q)"
proof -
  have k: "n \<in> kids A N p" using f n pn by (auto simp: forest_def leafed_def kids_def)
  note pl = kids_placed [OF _ k]
  show "p < n" "p \<in> A - (F \<union> B)" using f pl(2,3) k by (auto simp: forest_def leafed_def)
  have "p < length N" using f pl(2) by (auto simp: forest_def placed_def)
  then show "unat (en_useCount (add_use (- 1) p N ! q)) = card (busy_kids A F N q)" if "q \<in> A"
    using f pn that unat_minus_one_word by (auto simp: forest_def counted_def use_add_use)
qed

lemma forest_ascend_stop:
  assumes f: "forest al A F B (Some n) N" and n: "n \<in> F" and pn: "en_parent (N ! n) = Some p"
    and u: "en_useCount (add_use (- 1) p N ! p) \<noteq> 0"
  shows "forest al A F B None (add_use (- 1) p N)"
proof -
  note t = forest_told [OF f n pn]
  note s = same_shapeD [OF same_shape_add_use [of N "- 1" p]]
  have "p < length N" using f t(1) by (auto simp: forest_def placed_def)
  then have "en_useCount (add_use (- 1) p N ! q) \<noteq> 0" if "q \<in> A - (F \<union> B)" for q
    using f u that by (cases "q = p") (auto simp: forest_def counted_def use_add_use)
  then show ?thesis using f t(3) unfolding forest_def counted_def by (simp add: s)
qed

lemma forest_ascend_merge:
  assumes f: "forest al A F B (Some n) N" and n: "n \<in> F" and pn: "en_parent (N ! n) = Some p"
    and u: "en_useCount (add_use (- 1) p N ! p) = 0"
  shows "kids A N p \<subseteq> F" "forest al (A - kids A N p) (insert p (F - kids A N p)) B (Some p) (add_use (- 1) p N)"
proof -
  let ?N = "add_use (- 1) p N" and ?A = "A - kids A N p" and ?F = "insert p (F - kids A N p)"
  note t = forest_told [OF f n pn]
  note s = same_shapeD [OF same_shape_add_use [of N "- 1" p]]
  have pl: "placed al A N" and lf: "leafed A (F \<union> B) N" and fb: "F \<inter> B = {}" using f by (auto simp: forest_def)
  have "card (busy_kids A F N p) = 0" using t(3) [of p] t(1) u by simp
  then have "busy_kids A F N p = {}" using busy_kids_le(1) [OF lf] t(1) by simp
  then show k: "kids A N p \<subseteq> F" by (auto simp: busy_kids_def kids_def)
  have L: "?F \<union> B = insert p (F \<union> B - kids A N p)" using k fb by auto
  have "\<forall>q\<in>kids A N p. kids A N q = {}" using lf k by (auto simp: leafed_def)
  then have "placed al ?A N" by (rule placed_merge [OF pl])
  moreover have "leafed ?A (?F \<union> B) N" unfolding L using leafed_merge [OF pl lf t(1)] k by blast
  moreover have "?F \<inter> B = {}" using fb t(1) by auto
  moreover have "counted ?A ?F (?F \<union> B) (Some p) ?N"
  proof -
    have "p < length N" using pl t(1) by (auto simp: placed_def)
    then have "en_useCount (?N ! q) \<noteq> 0" if "q \<in> ?A - (?F \<union> B)" for q
      using f that by (auto simp: forest_def counted_def use_add_use)
    then show ?thesis using busy_kids_merge [OF pl lf t(1) k] t(3) unfolding counted_def by (auto simp: s)
  qed
  ultimately show "forest al ?A ?F B (Some p) ?N" unfolding forest_def by (simp add: s)
qed

subsection \<open>Free lists\<close>

definition listed :: "EagerNode list \<Rightarrow> freelist \<Rightarrow> nat set \<Rightarrow> bool" where
  "listed N l S \<longleftrightarrow> distinct (map snd l) \<and> snd ` set l = S \<and> (\<forall>e\<in>set l. fst e = en_size (N ! snd e))"

lemma fl_insert_parts: "\<exists>l1 l2. l = l1 @ l2 \<and> fl_insert s n l = l1 @ (s, n) # l2"
  unfolding fl_insert_def by (metis takeWhile_dropWhile_id)

lemma set_fl_insert [simp]: "set (fl_insert s n l) = insert (s, n) (set l)"
  using fl_insert_parts [of l s n] by auto

lemma listed_insert:
  assumes "listed N l S" and "n \<notin> S"
  shows "listed N (fl_insert (en_size (N ! n)) n l) (insert n S)"
proof -
  obtain l1 l2 where "l = l1 @ l2" "fl_insert (en_size (N ! n)) n l = l1 @ (en_size (N ! n), n) # l2" using fl_insert_parts by blast
  then show ?thesis using assms by (auto simp: listed_def)
qed

lemma listed_filter: "listed N l S \<Longrightarrow> listed N (filter (\<lambda>e. P (snd e)) l) {x \<in> S. P x}"
  by (auto simp: listed_def distinct_map_filter)

lemma listed_remove:
  assumes "listed N l S" and "(s, x) \<in> set l"
  shows "listed N (remove1 (s, x) l) (S - {x})" "s = en_size (N ! x)" "x \<in> S"
proof -
  have d: "distinct l" "inj_on snd (set l)" using assms(1) by (auto simp: listed_def distinct_map)
  have "snd ` (set l - {(s, x)}) = snd ` set l - {x}"
    using inj_on_image_set_diff [OF d(2), of "set l" "{(s, x)}"] assms(2) by simp
  then show "listed N (remove1 (s, x) l) (S - {x})"
    using assms d by (auto simp: listed_def distinct_map inj_on_diff)
  show "s = en_size (N ! x)" "x \<in> S" using assms by (force simp: listed_def)+
qed

lemma listed_cong: "(\<And>x. x \<in> S \<Longrightarrow> en_size (N' ! x) = en_size (N ! x)) \<Longrightarrow> listed N l S \<Longrightarrow> listed N' l S"
  unfolding listed_def by force

lemma listed_shape: "same_shape N N' \<Longrightarrow> listed N l S \<Longrightarrow> listed N' l S"
  using listed_cong same_shapeD(5) by blast

text \<open>The loop of \<open>returnMemory\<close> ends and restores the counts.\<close>

lemma ascend_forest:
  assumes "forest al A F B (Some n) N" "n \<in> F" "listed N l F" "n < fuel"
  shows "\<exists>A' F' l' N'. ascend fuel n l N = Some (l', N') \<and> forest al A' F' B None N' \<and> listed N' l' F' \<and> same_shape N N' \<and>
    A' \<subseteq> A \<and> {x \<in> A. en_parent (N ! x) = None} \<subseteq> A'"
  using assms
proof (induction fuel n l N arbitrary: A F rule: ascend.induct)
  case (2 fuel n l N)
  show ?case
  proof (cases "en_parent (N ! n)")
    case None
    then have "forest al A F B None N" using 2(2) by (simp add: forest_def counted_def)
    then show ?thesis using None 2(4) by (intro exI [of _ A] exI [of _ F]) simp
  next
    case (Some p)
    let ?N = "add_use (- 1) p N" and ?K = "kids A N p"
    note t = forest_told [OF 2(2,3) Some]
    have FA: "F \<subseteq> A" using 2(2) by (auto simp: forest_def leafed_def)
    show ?thesis
    proof (cases "en_useCount (?N ! p) = 0")
      case True
      let ?l = "fl_insert (en_size (N ! p)) p (filter (\<lambda>e. en_parent (N ! snd e) \<noteq> Some p) l)"
      have "{x \<in> F. en_parent (N ! x) \<noteq> Some p} = F - ?K" using FA by (auto simp: kids_def)
      then have "listed N ?l (insert p (F - ?K))"
        using listed_insert [OF listed_filter [OF 2(4)], of p "\<lambda>x. en_parent (N ! x) \<noteq> Some p"] t(1) by simp
      then have L: "listed ?N ?l (insert p (F - ?K))" by (rule listed_shape [rotated]) simp
      have r: "{x \<in> A. en_parent (N ! x) = None} \<subseteq> {x \<in> A - ?K. en_parent (?N ! x) = None}"
        by (auto simp: kids_def same_shapeD(4) [OF same_shape_add_use])
      from 2(1) [OF Some refl True forest_ascend_merge(2) [OF 2(2,3) Some True] _ L] t(2) 2(5)
      obtain A' F' l' N' where i: "ascend fuel p ?l ?N = Some (l', N')" "forest al A' F' B None N'" "listed N' l' F'" "same_shape ?N N'"
        "A' \<subseteq> A - ?K" "{x \<in> A - ?K. en_parent (?N ! x) = None} \<subseteq> A'" by auto
      have "ascend (Suc fuel) n l N = Some (l', N')" using Some True i(1) by (simp add: Let_def)
      moreover have "same_shape N N'" by (rule same_shape_trans [OF same_shape_add_use i(4)])
      ultimately show ?thesis using i r by blast
    next
      case False
      then have "ascend (Suc fuel) n l N = Some (l, ?N)" using Some by (simp add: Let_def)
      then show ?thesis using forest_ascend_stop [OF 2(2,3) Some False] listed_shape [OF same_shape_add_use 2(4)] same_shape_add_use by blast
    qed
  qed
qed simp

subsection \<open>Whole trees\<close>

lemma forest_restrict:
  assumes f: "forest al A F B None N" and c: "\<And>x p. x \<in> A \<Longrightarrow> en_parent (N ! x) = Some p \<Longrightarrow> x \<in> C \<longleftrightarrow> p \<in> C"
  shows "forest al (A \<inter> C) (F \<inter> C) (B \<inter> C) None N"
proof -
  have k: "kids (A \<inter> C) N p = kids A N p" "busy_kids (A \<inter> C) (F \<inter> C) N p = busy_kids A F N p" if "p \<in> C" for p
    using c that by (auto simp: kids_def busy_kids_def)
  have "placed al (A \<inter> C) N" using f c by (auto simp: forest_def placed_def)
  moreover have "leafed (A \<inter> C) (F \<inter> C \<union> B \<inter> C) N"
    using f k unfolding forest_def leafed_def by (auto simp del: Diff_iff) (metis DiffI Un_iff)
  moreover have "counted (A \<inter> C) (F \<inter> C) (F \<inter> C \<union> B \<inter> C) None N"
    using f k unfolding forest_def counted_def by auto
  ultimately show ?thesis using f by (auto simp: forest_def)
qed

lemma forest_drop:
  assumes f: "forest al A F B None N" and k: "K \<subseteq> F" "\<And>x. x \<in> K \<Longrightarrow> en_parent (N ! x) = None"
  shows "forest al (A - K) (F - K) B None N"
proof -
  have "x \<in> - K \<longleftrightarrow> p \<in> - K" if "x \<in> A" "en_parent (N ! x) = Some p" for x p
    using f k that by (fastforce simp: forest_def leafed_def kids_def)
  moreover have "B \<inter> - K = B" using f k(1) by (auto simp: forest_def)
  ultimately show ?thesis using forest_restrict [OF f, of "- K"] by (simp add: Diff_eq)
qed

subsection \<open>New nodes\<close>

definition agree :: "nat set \<Rightarrow> EagerNode list \<Rightarrow> EagerNode list \<Rightarrow> bool" where
  "agree A N N' \<longleftrightarrow> (\<forall>x\<in>A. en_base (N' ! x) = en_base (N ! x) \<and> en_offset (N' ! x) = en_offset (N ! x) \<and>
     en_parent (N' ! x) = en_parent (N ! x) \<and> en_size (N' ! x) = en_size (N ! x))"

lemma agreeD:
  assumes "agree A N N'"
  shows "x \<in> A \<Longrightarrow> lo N' x = lo N x" "x \<in> A \<Longrightarrow> hi N' x = hi N x" "x \<in> A \<Longrightarrow> en_base (N' ! x) = en_base (N ! x)"
    "x \<in> A \<Longrightarrow> en_parent (N' ! x) = en_parent (N ! x)" "x \<in> A \<Longrightarrow> en_size (N' ! x) = en_size (N ! x)"
    "x \<in> A \<Longrightarrow> y \<in> A \<Longrightarrow> node_apart N' x y = node_apart N x y" "kids A N' p = kids A N p" "busy_kids A F N' p = busy_kids A F N p"
  using assms by (auto simp: agree_def lo_def hi_def node_apart_def kids_def busy_kids_def)

lemma agree_placed:
  assumes a: "agree A N N'" and len: "length N \<le> length N'" and p: "placed al A N"
  shows "placed al A N'"
  unfolding placed_def
proof
  fix x assume x: "x \<in> A"
  note e = agreeD(1-4) [OF a x]
  have "en_parent (N ! x) = Some q \<longrightarrow> q \<in> A \<and> q < x \<and> en_base (N' ! q) = en_base (N ! x) \<and> lo N' q \<le> lo N x \<and> hi N x \<le> hi N' q" for q
    using p x agreeD(1-3) [OF a, of q] unfolding placed_def by (metis (no_types))
  moreover have "x < length N'" using p x len unfolding placed_def by (meson order_less_le_trans)
  ultimately show "x < length N' \<and> lo N' x < hi N' x \<and> hi N' x < 2 ^ 64 \<and> al dvd lo N' x \<and>
      (\<forall>q. en_parent (N' ! x) = Some q \<longrightarrow> q \<in> A \<and> q < x \<and> en_base (N' ! q) = en_base (N' ! x) \<and> lo N' q \<le> lo N' x \<and> hi N' x \<le> hi N' q)"
    using p x len e unfolding placed_def by simp
qed

lemma agree_leafed:
  assumes a: "agree A N N'" and l: "leafed A L N"
  shows "leafed A L N'"
proof (rule leafedI)
  note d = leafedD [OF l]
  show "L \<subseteq> A" by (rule d(1))
  show "kids A N' p = {}" if "p \<in> L" for p using d(2) [OF that] agreeD(7) [OF a] by simp
  show "node_apart N' x y" if "x \<in> L" "y \<in> L" "x \<noteq> y" for x y
    using d(1) d(4) [OF that] agreeD(6) [OF a, of x y] that by blast
  show "\<exists>y z. kids A N' p = {y, z} \<and> cut_at N' p y z" if p: "p \<in> A" "p \<notin> L" for p
  proof -
    obtain y z where yz: "kids A N p = {y, z}" "cut_at N p y z" using d(3) [OF p] by blast
    then have "y \<in> A" "z \<in> A" by (auto simp: kids_def)
    then have "cut_at N' p y z" using yz(2) p agreeD(1,2) [OF a] by (simp add: cut_at_def)
    then show ?thesis using yz(1) agreeD(7) [OF a] by auto
  qed
qed

text \<open>A new block.\<close>

lemma forest_root:
  assumes f: "forest al A F B None N" and n: "n = length N"
    and c: "en_parent v = None" "en_useCount v = 0" "en_offset v = 0" "0 < en_size v"
    and b: "\<And>x. x \<in> A \<Longrightarrow> en_base (N ! x) \<noteq> en_base v"
  shows "forest al (insert n A) F (insert n B) None (N @ [v])"
proof -
  let ?N = "N @ [v]"
  have lt: "x < n" if "x \<in> A" for x using f n that by (auto simp: forest_def placed_def)
  have a: "agree A N ?N" using lt n by (auto simp: agree_def nth_append)
  have nd: "?N ! n = v" "n \<notin> A" using n lt by auto
  have k: "kids (insert n A) ?N p = kids A N p" "busy_kids (insert n A) F ?N p = busy_kids A F N p" for p
    using agreeD(7,8) [OF a] nd c(1) by (auto simp: kids_def busy_kids_def)
  have kn: "kids A N n = {}" "busy_kids A F N n = {}" using f lt by (fastforce simp: kids_def busy_kids_def forest_def placed_def)+
  have "placed al A ?N" using agree_placed [OF a] f by (simp add: forest_def)
  then have "placed al (insert n A) ?N"
    using nd n c unsigned_less [of "en_size v"] by (auto simp: placed_def lo_def hi_def unat_gt_0)
  moreover have "leafed (insert n A) (F \<union> insert n B) ?N"
  proof -
    have "leafed A (F \<union> B) ?N" using agree_leafed [OF a] f by (simp add: forest_def)
    moreover have "node_apart ?N x n" "node_apart ?N n x" if "x \<in> A" for x using b [OF that] agreeD(3) [OF a that] nd by (auto simp: node_apart_def)
    ultimately show ?thesis using k kn nd(2) agreeD(7) [OF a] by (auto simp: leafed_def)
  qed
  moreover have "counted (insert n A) F (F \<union> insert n B) None ?N"
    using f k kn nd c(2) lt n by (auto simp: forest_def counted_def nth_append)
  ultimately show ?thesis using f nd(2) by (auto simp: forest_def leafed_def)
qed

text \<open>A busy leaf \<open>x\<close> is cut: its first part \<open>y\<close> is busy, the second, \<open>z\<close>, free.\<close>

definition divided :: "nat \<Rightarrow> size_t \<Rightarrow> EagerNode list \<Rightarrow> EagerNode list" where
  "divided x k N = add_use 1 x N @ [child_of N x (en_offset (N ! x)) k, child_of N x (en_offset (N ! x) + k) (en_size (N ! x) - k)]"

lemma divided_nodes:
  assumes "x < length N" "0 < k" "k < en_size (N ! x)" "hi N x < 2 ^ 64" and y: "y = length N"
  shows "agree {..<y} N (divided x k N)" "cut_at (divided x k N) x y (Suc y)" "length (divided x k N) = Suc (Suc y)"
    "hi (divided x k N) y = lo N x + unat k" "lo (divided x k N) (Suc y) < hi (divided x k N) (Suc y)"
    "\<And>v. v \<in> {y, Suc y} \<Longrightarrow> en_parent (divided x k N ! v) = Some x \<and> en_base (divided x k N ! v) = en_base (N ! x) \<and> en_useCount (divided x k N ! v) = 0"
    "\<And>v. v < y \<Longrightarrow> en_useCount (divided x k N ! v) = (if v = x then en_useCount (N ! x) + 1 else en_useCount (N ! v))"
proof -
  have l: "length (add_use 1 x N) = y" using same_shapeD(1) [OF same_shape_add_use] y by simp
  have o: "divided x k N ! v = add_use 1 x N ! v" if "v < y" for v using that l by (simp add: divided_def nth_append)
  show ag: "agree {..<y} N (divided x k N)" using o same_shape_add_use [of N 1 x] by (simp add: agree_def same_shape_def)
  show "length (divided x k N) = Suc (Suc y)" using l by (simp add: divided_def)
  show "en_useCount (divided x k N ! v) = (if v = x then en_useCount (N ! x) + 1 else en_useCount (N ! v))" if "v < y" for v
    using o [OF that] use_add_use [OF assms(1)] by simp
  have n: "divided x k N ! y = child_of N x (en_offset (N ! x)) k"
    "divided x k N ! Suc y = child_of N x (en_offset (N ! x) + k) (en_size (N ! x) - k)"
    using l by (simp_all add: divided_def nth_append)
  show "en_parent (divided x k N ! v) = Some x \<and> en_base (divided x k N ! v) = en_base (N ! x) \<and> en_useCount (divided x k N ! v) = 0"
    if "v \<in> {y, Suc y}" for v using that n by (auto simp: child_of_def)
  have k: "unat k < unat (en_size (N ! x))" using assms(3) by (simp add: word_less_nat_alt)
  have "unat (en_offset (N ! x) + k) = unat (en_offset (N ! x)) + unat k"
    using unat_add_no_wrap [of "en_offset (N ! x)" k] k assms(4) by (simp add: hi_def)
  moreover have "unat (en_size (N ! x) - k) = unat (en_size (N ! x)) - unat k" using assms(3) by (simp add: unat_sub less_imp_le)
  ultimately show c: "cut_at (divided x k N) x y (Suc y)" "hi (divided x k N) y = lo N x + unat k"
      "lo (divided x k N) (Suc y) < hi (divided x k N) (Suc y)"
    using k agreeD(1,2) [OF ag, of x] assms(1) n unfolding y by (simp_all add: cut_at_def lo_def hi_def child_of_def)
qed

lemma kids_new:
  assumes a: "agree A N N'" and n: "\<And>v. v \<in> {y, z} \<Longrightarrow> en_parent (N' ! v) = Some x" and s: "y \<notin> A" "z \<notin> A"
  shows "kids (A \<union> {y, z}) N' q = (if q = x then kids A N q \<union> {y, z} else kids A N q)"
    "y \<notin> F \<Longrightarrow> y \<noteq> z \<Longrightarrow> busy_kids (A \<union> {y, z}) (insert z F) N' q = (if q = x then insert y (busy_kids A F N q) else busy_kids A F N q)"
  using agreeD(4) [OF a] n s by (auto simp: kids_def busy_kids_def)

lemma leafed_divide:
  assumes a: "agree A N N'" and l: "leafed A L N" and x: "x \<in> L" and s: "y \<notin> A" "z \<notin> A"
    and n: "\<And>v. v \<in> {y, z} \<Longrightarrow> en_parent (N' ! v) = Some x \<and> en_base (N' ! v) = en_base (N' ! x) \<and> kids A N v = {} \<and> v \<noteq> x \<and> lo N' v < hi N' v"
    and c: "cut_at N' x y z"
  shows "leafed (A \<union> {y, z}) (L - {x} \<union> {y, z}) N'"
proof (rule leafedI)
  note d = leafedD [OF agree_leafed [OF a l]] leafedD [OF l]
  note k = kids_new(1) [OF a _ s, of x]
  show "L - {x} \<union> {y, z} \<subseteq> A \<union> {y, z}" using d(1) by blast
  show "kids (A \<union> {y, z}) N' p = {}" if "p \<in> L - {x} \<union> {y, z}" for p using that n d(6) [of p] k by auto
  show "\<exists>y' z'. kids (A \<union> {y, z}) N' p = {y', z'} \<and> cut_at N' p y' z'" if p: "p \<in> A \<union> {y, z}" "p \<notin> L - {x} \<union> {y, z}" for p
  proof (cases "p = x")
    case True
    then show ?thesis using k n d(6) [OF x] c by (intro exI [of _ y] exI [of _ z]) simp
  next
    case False
    then show ?thesis using k n d(3) [of p] p agreeD(7) [OF a, of p] by auto
  qed
  have sub: "node_apart N' w y \<and> node_apart N' w z \<and> node_apart N' y w \<and> node_apart N' z w" if "w \<in> L - {x}" for w
    using d(4) [of w x] that x n [of y] n [of z] c unfolding node_apart_def cut_at_def by auto
  have yz: "node_apart N' y z" "node_apart N' z y" using c by (auto simp: node_apart_def cut_at_def)
  show "node_apart N' v w" if vw: "v \<in> L - {x} \<union> {y, z}" "w \<in> L - {x} \<union> {y, z}" "v \<noteq> w" for v w
    using vw sub yz d(4) [of v w] by blast
qed

lemma forest_divide:
  assumes f: "forest al A F B None N" and x: "x \<in> B" and k: "0 < k" "k < en_size (N ! x)" "al dvd unat k" and y: "y = length N"
  shows "forest al (A \<union> {y, Suc y}) (insert (Suc y) F) (insert y (B - {x})) None (divided x k N)"
proof -
  let ?N = "divided x k N" and ?A = "A \<union> {y, Suc y}" and ?F = "insert (Suc y) F" and ?B = "insert y (B - {x})"
  have pl: "placed al A N" and lf: "leafed A (F \<union> B) N" and fb: "F \<inter> B = {}" using f by (auto simp: forest_def)
  have lt: "v < y" if "v \<in> A" for v using pl y that by (auto simp: placed_def)
  have xA: "x \<in> A" "x < length N" "hi N x < 2 ^ 64" "al dvd lo N x" using leafedD(1) [OF lf] x pl by (auto simp: placed_def)
  note d = divided_nodes [OF xA(2) k(1,2) xA(3) y]
  have a: "agree A N ?N" using d(1) lt by (auto simp: agree_def)
  have new: "y \<notin> A" "Suc y \<notin> A" "y \<notin> F" using lt leafedD(1) [OF lf] by fastforce+
  have kn: "kids A N v = {}" "busy_kids A F N v = {}" if "v \<notin> A" for v
    using pl that by (auto simp: kids_def busy_kids_def placed_def)
  have K: "busy_kids ?A ?F ?N q = (if q = x then insert y (busy_kids A F N q) else busy_kids A F N q)" for q
    by (rule kids_new(2) [OF a _ new(1,2,3)]) (use d(6) in auto)
  have xx: "lo ?N x = lo N x" "hi ?N x = hi N x" "en_base (?N ! x) = en_base (N ! x)" using agreeD(1-3) [OF a xA(1)] by simp_all
  have gt: "0 < unat k" using k(1) by (simp add: unat_gt_0)
  have pos: "lo ?N v < hi ?N v \<and> hi ?N v \<le> hi N x \<and> lo N x \<le> lo ?N v \<and> al dvd lo ?N v" if "v \<in> {y, Suc y}" for v
    using that d(2,4,5) xx gt xA(4) k(3) by (auto simp: cut_at_def)
  have "placed al A ?N" using agree_placed [OF a _ pl] d(3) y by simp
  then have "placed al ?A ?N"
    using pos d(6) xA lt [OF xA(1)] xx d(3) unfolding placed_def by (auto intro: less_SucI le_less_trans)
  moreover have "leafed ?A (?F \<union> ?B) ?N"
  proof -
    have "F \<union> B - {x} \<union> {y, Suc y} = ?F \<union> ?B" using x fb by auto
    moreover have "leafed ?A (F \<union> B - {x} \<union> {y, Suc y}) ?N"
      using d(6) kn(1) new lt [OF xA(1)] pos xx(3) x by (intro leafed_divide [OF a lf _ new(1,2) _ d(2)]) auto
    ultimately show ?thesis by simp
  qed
  moreover have "counted ?A ?F (?F \<union> ?B) None ?N"
  proof -
    have "busy_kids A F N x = {}" using leafedD(2) [OF lf, of x] x by (auto simp: kids_def busy_kids_def)
    moreover from this have "unat (en_useCount (N ! x)) = 0" using f xA(1) by (simp add: forest_def counted_def)
    ultimately have ux: "unat (en_useCount (?N ! x)) = 1" "card (busy_kids ?A ?F ?N x) = 1"
      using K d(7) [OF lt [OF xA(1)]] d(6) by (auto simp: unat_eq_zero)
    have uv: "unat (en_useCount (?N ! v)) = card (busy_kids ?A ?F ?N v)" if "v \<in> ?A" "v \<noteq> x" for v
      using that f K d(6) [of v] d(7) [of v] kn(2) [OF new(1)] kn(2) [OF new(2)] lt [of v] by (auto simp: forest_def counted_def)
    have "en_useCount (?N ! v) \<noteq> 0" if "v \<in> ?A - (?F \<union> ?B)" for v
      using that f ux(1) d(7) [of v] lt [of v] by (cases "v = x") (auto simp: forest_def counted_def)
    moreover have "unat (en_useCount (?N ! v)) = card (busy_kids ?A ?F ?N v)" if "v \<in> ?A" for v using uv [OF that] ux by (cases "v = x") simp_all
    ultimately show ?thesis unfolding counted_def option.distinct(1) by simp
  qed
  moreover have "?F \<inter> ?B = {}" using fb new leafedD(1) [OF lf] by auto
  ultimately show ?thesis by (simp add: forest_def)
qed

end
