(* ===== verification/MNN_Eager_Facts.thy ===== *)
theory MNN_Eager_Facts
  imports MNN_Eager_Forest
begin

text \<open>
  The invariant of the eager allocator (\<open>eager_ok\<close>) over the forest of its nodes, and that taking a chunk from a free
  list, whole or cut, keeps it and hands out a place of the asked size and alignment.
\<close>

definition eager_request_ok :: "size_t \<Rightarrow> size_t \<Rightarrow> size_t \<Rightarrow> bool" where
  "eager_request_ok al sz align \<longleftrightarrow> 0 < sz \<and> al \<noteq> 0 \<and> align \<noteq> 0 \<and> unat sz + unat align + unat al \<le> 2 ^ 64"

text \<open>Where a chunk of \<open>sz\<close> bytes is put into a node: at an aligned offset inside it.\<close>

definition fitted :: "EagerNode list \<Rightarrow> nat \<Rightarrow> size_t \<Rightarrow> size_t \<Rightarrow> nat \<Rightarrow> addr \<times> size_t \<Rightarrow> bool" where
  "fitted N x sz align lim ptr \<longleftrightarrow> fst ptr = en_base (N ! x) \<and> lo N x \<le> unat (snd ptr) \<and> unat align dvd unat (snd ptr) \<and>
     unat (snd ptr) + unat sz \<le> lim"

lemma rounded_dvd: "al dvd rounded al s"
  by (simp add: rounded_def)

lemma lower_bound_Some: "lower_bound s l = Some (t, x) \<Longrightarrow> (t, x) \<in> set l \<and> s \<le> t"
  unfolding lower_bound_def find_Some_iff by (metis fst_conv nth_mem)

text \<open>The offset of the chunk inside the chosen node, and the bytes it needs from the node's start.\<close>

lemma offset_in_node:
  assumes r: "eager_request_ok al sz align" and h: "unat off + unat s < 2 ^ 64" and d: "unat al dvd unat off"
    and s: "(if al mod align \<noteq> 0 then sz + align - 1 else sz) \<le> s"
    and o: "off' = (if al mod align \<noteq> 0 then UP_DIV off align * align else off)"
    and n: "need = (if al mod align \<noteq> 0 then sz + off' - off else sz)"
  shows "unat align dvd unat off'" "off \<le> off'" "unat need = unat off' - unat off + unat sz" "unat need \<le> unat s"
    "unat need + unat al \<le> 2 ^ 64"
proof -
  have rq: "0 < unat sz" "align \<noteq> 0" "unat sz + unat align + unat al \<le> 2 ^ 64" "0 < unat al" "0 < unat align"
    using r by (auto simp: eager_request_ok_def unat_gt_0 word_neq_0_conv)
  have "unat align dvd unat off' \<and> off \<le> off' \<and> unat need = unat off' - unat off + unat sz \<and> unat need \<le> unat s \<and> unat need + unat al \<le> 2 ^ 64"
  proof (cases "al mod align = 0")
    case True
    then have "unat align dvd unat al" by (metis mod_0_imp_dvd unat_mod unat_0)
    then show ?thesis using True d s o n rq by (auto simp: word_le_nat_alt intro: dvd_trans)
  next
    case False
    have e: "unat (sz + align - 1) = unat sz + unat align - 1"
    proof -
      have "unat (align - 1) = unat align - 1" using rq(2) by (simp add: unat_minus_one)
      then show ?thesis using unat_add_no_wrap [of sz "align - 1"] rq by (simp add: add_diff_eq)
    qed
    then have s': "unat sz + unat align - 1 \<le> unat s" using s False by (simp add: word_le_nat_alt)
    then have "unat off + unat align \<le> 2 ^ 64" using h rq(1) by linarith
    note u = round_up [OF rq(2) this]
    have o': "unat off' = rounded (unat align) (unat off)" using False o u(1) by simp
    have le: "unat off \<le> unat off'" "unat off' < unat off + unat align" using u o' by simp_all
    have "unat off' + unat sz < 2 ^ 64" using le s' h rq by linarith
    then have "unat (sz + off') = unat sz + unat off'" using unat_add_no_wrap [of sz off'] by simp
    then have "unat need = unat sz + unat off' - unat off"
      using n False unat_sub [of off "sz + off'"] le by (simp add: word_le_nat_alt)
    then show ?thesis using le s' rq o' rounded_dvd by (auto simp: word_le_nat_alt)
  qed
  then show "unat align dvd unat off'" "off \<le> off'" "unat need = unat off' - unat off + unat sz" "unat need \<le> unat s"
    "unat need + unat al \<le> 2 ^ 64" by auto
qed

lemma count_up_node:
  "en_base (count_up x N ! y) = en_base (N ! y)" "en_offset (count_up x N ! y) = en_offset (N ! y)" "en_size (count_up x N ! y) = en_size (N ! y)"
  "length (count_up x N) = length N"
  using count_up_shape [of N x] by (simp_all add: same_shape_def)

lemma getFromFreeList_found:
  assumes z: "align \<noteq> 0" "eg_align d \<noteq> 0" and f: "lower_bound (if eg_align d mod align \<noteq> 0 then sz + align - 1 else sz) l = Some (s, x)"
    and off: "off = (if eg_align d mod align \<noteq> 0 then UP_DIV (en_offset (eg_nodes d ! x)) align * align else en_offset (eg_nodes d ! x))"
    and need: "need = (if eg_align d mod align \<noteq> 0 then sz + off - en_offset (eg_nodes d ! x) else sz)"
    and k: "k = UP_DIV need (eg_align d) * eg_align d" and ptr: "ptr = (en_base (eg_nodes d ! x), off)"
  shows "getFromFreeList l sz sp align d =
    (if k \<ge> s \<or> \<not> sp
     then Inr (Some ptr, remove1 (s, x) l,
       d\<lparr>eg_nodes := if sp then count_up x (eg_nodes d) else eg_nodes d, eg_used := used_insert ptr x (eg_used d)\<rparr>)
     else Inr (Some ptr, fl_insert (en_size (eg_nodes d ! x) - k) (Suc (length (eg_nodes d))) (remove1 (s, x) l),
       d\<lparr>eg_nodes := divided x k (count_up x (eg_nodes d)), eg_used := used_insert ptr (length (eg_nodes d)) (eg_used d)\<rparr>))"
proof -
  have N1: "(case en_parent (eg_nodes d ! x) of Some p \<Rightarrow> if sp then add_use 1 p (eg_nodes d) else eg_nodes d | None \<Rightarrow> eg_nodes d) =
      (if sp then count_up x (eg_nodes d) else eg_nodes d)"
    by (simp add: count_up_def split: option.splits)
  show ?thesis using f z N1
    by (simp add: getFromFreeList_def Let_def off need k ptr divided_def child_of_def count_up_node cong: if_cong)
qed

lemma getFromFreeList_cases:
  assumes r: "eager_request_ok (eg_align d) sz align" and l: "listed (eg_nodes d) l S"
    and p: "placed (unat (eg_align d)) A (eg_nodes d)" "S \<subseteq> A"
  obtains (none) "getFromFreeList l sz sp align d = Inr (None, l, d)"
  | (whole) s x ptr where "(s, x) \<in> set l" "fitted (eg_nodes d) x sz align (hi (eg_nodes d) x) ptr"
      "getFromFreeList l sz sp align d = Inr (Some ptr, remove1 (s, x) l,
         d\<lparr>eg_nodes := if sp then count_up x (eg_nodes d) else eg_nodes d, eg_used := used_insert ptr x (eg_used d)\<rparr>)"
  | (split) s x ptr k where "sp" "(s, x) \<in> set l" "0 < k" "k < en_size (eg_nodes d ! x)" "unat (eg_align d) dvd unat k"
      "fitted (eg_nodes d) x sz align (lo (eg_nodes d) x + unat k) ptr"
      "getFromFreeList l sz sp align d = Inr (Some ptr,
         fl_insert (en_size (eg_nodes d ! x) - k) (Suc (length (eg_nodes d))) (remove1 (s, x) l),
         d\<lparr>eg_nodes := divided x k (count_up x (eg_nodes d)), eg_used := used_insert ptr (length (eg_nodes d)) (eg_used d)\<rparr>)"
proof -
  let ?N = "eg_nodes d" and ?al = "eg_align d"
  let ?ex = "?al mod align \<noteq> 0"
  have z: "align \<noteq> 0" "?al \<noteq> 0" using r by (auto simp: eager_request_ok_def)
  show thesis
  proof (cases "lower_bound (if ?ex then sz + align - 1 else sz) l")
    case None
    then show thesis using none z by (simp add: getFromFreeList_def)
  next
    case (Some e)
    obtain s x where e: "e = (s, x)" by (cases e)
    have m: "(s, x) \<in> set l" "(if ?ex then sz + align - 1 else sz) \<le> s" using lower_bound_Some [of _ l s x] Some e by blast+
    note lr = listed_remove [OF l m(1)]
    have xA: "x < length ?N" "unat (en_offset (?N ! x)) + unat s < 2 ^ 64" "unat ?al dvd unat (en_offset (?N ! x))"
      using p lr(2,3) by (auto simp: placed_def lo_def hi_def)
    define off where "off = (if ?ex then UP_DIV (en_offset (?N ! x)) align * align else en_offset (?N ! x))"
    define need where "need = (if ?ex then sz + off - en_offset (?N ! x) else sz)"
    note ofs = offset_in_node [OF r xA(2,3) m(2) off_def need_def]
    define k where "k = UP_DIV need ?al * ?al"
    have ru: "unat k = rounded (unat ?al) (unat need)" "unat need \<le> unat k" using round_up [OF z(2) ofs(5)] k_def by simp_all
    let ?ptr = "(en_base (?N ! x), off)"
    note g = getFromFreeList_found [OF z _ off_def need_def k_def refl, of l s sp, OF Some [unfolded e]]
    have fit: "fitted ?N x sz align (lo ?N x + unat need) ?ptr"
      using ofs(1-3) by (simp add: fitted_def lo_def word_le_nat_alt)
    show thesis
    proof (cases "k \<ge> s \<or> \<not> sp")
      case True
      have "fitted ?N x sz align (hi ?N x) ?ptr" using fit ofs(4) lr(2) by (simp add: fitted_def lo_def hi_def)
      then show thesis using whole m(1) g True by simp
    next
      case False
      have "0 < unat sz" using r by (simp add: eager_request_ok_def unat_gt_0 word_neq_0_conv)
      then have "0 < unat k" using ru(2) ofs(3) by linarith
      then have "0 < k" by (simp add: word_less_nat_alt)
      moreover have "fitted ?N x sz align (lo ?N x + unat k) ?ptr" using fit ru(2) by (simp add: fitted_def)
      moreover have "k < en_size (?N ! x)" using False lr(2) by (simp add: not_le)
      ultimately show thesis using split [of s x k ?ptr] m(1) g False lr(2) ru(1) rounded_dvd by simp
    qed
  qed
qed

subsection \<open>The allocator's invariant\<close>

text \<open>\<open>F\<close>, \<open>U\<close> and \<open>G\<close> are the nodes of the common free list, of the used list and of the groups' lists.\<close>

definition held :: "EagerNode list \<Rightarrow> ((addr \<times> size_t) \<times> nat) list \<Rightarrow> nat set \<Rightarrow> bool" where
  "held N u U \<longleftrightarrow> distinct (map snd u) \<and> snd ` set u = U \<and>
     (\<forall>e\<in>set u. fst (fst e) = en_base (N ! snd e) \<and> lo N (snd e) \<le> unat (snd (fst e)) \<and> unat (snd (fst e)) < hi N (snd e))"

definition eager_ok :: "nat set \<Rightarrow> nat set \<Rightarrow> nat set \<Rightarrow> nat set \<Rightarrow> Eager \<Rightarrow> bool" where
  "eager_ok A F U G d \<longleftrightarrow> forest (unat (eg_align d)) A F (U \<union> G) None (eg_nodes d) \<and> U \<inter> G = {} \<and>
     listed (eg_nodes d) (eg_free d) F \<and> held (eg_nodes d) (eg_used d) U \<and> listed (eg_nodes d) (concat (eg_groups d)) G"

lemma eager_okD:
  assumes "eager_ok A F U G d"
  shows "placed (unat (eg_align d)) A (eg_nodes d)" "leafed A (F \<union> (U \<union> G)) (eg_nodes d)" "F \<inter> (U \<union> G) = {}" "F \<subseteq> A" "U \<subseteq> A" "G \<subseteq> A"
    "forest (unat (eg_align d)) A F (U \<union> G) None (eg_nodes d)" "U \<inter> G = {}" "listed (eg_nodes d) (eg_free d) F" "held (eg_nodes d) (eg_used d) U"
    "listed (eg_nodes d) (concat (eg_groups d)) G"
  using assms by (auto simp: eager_ok_def forest_def leafed_def)

text \<open>What changes keep of the nodes: their places, and no new blocks appear.\<close>

definition grew :: "nat set \<Rightarrow> Eager \<Rightarrow> nat set \<Rightarrow> Eager \<Rightarrow> bool" where
  "grew A d A' d' \<longleftrightarrow> agree {..<length (eg_nodes d)} (eg_nodes d) (eg_nodes d') \<and> length (eg_nodes d) \<le> length (eg_nodes d') \<and> (\<forall>x\<in>A'. en_parent (eg_nodes d' ! x) = None \<longrightarrow> x \<in> A) \<and>
     eg_align d' = eg_align d \<and> eg_min d' = eg_min d \<and> eg_roots d' = eg_roots d \<and> eg_current d' = eg_current d \<and> eg_total d' = eg_total d \<and>
     length (eg_groups d') = length (eg_groups d)"

lemma agree_shape: "same_shape N N' \<Longrightarrow> agree A N N'"
  by (simp add: agree_def same_shape_def)

lemma agree_trans: "agree A N N' \<Longrightarrow> agree B N' N'' \<Longrightarrow> A \<subseteq> B \<Longrightarrow> agree A N N''"
  unfolding agree_def by (metis (no_types, lifting) subsetD)

lemma agree_mono: "agree B N N' \<Longrightarrow> A \<subseteq> B \<Longrightarrow> agree A N N'"
  by (auto simp: agree_def)

lemma held_agree:
  assumes a: "agree A N N'" and u: "U \<subseteq> A" and h: "held N u U"
  shows "held N' u U"
proof -
  have "snd e \<in> A" if "e \<in> set u" for e using that u h by (auto simp: held_def)
  then show ?thesis using h agreeD(1-3) [OF a] by (simp add: held_def)
qed

lemma listed_agree: "agree A N N' \<Longrightarrow> S \<subseteq> A \<Longrightarrow> listed N l S \<Longrightarrow> listed N' l S"
  using agreeD(5) by (metis listed_cong subsetD)

text \<open>A chunk put into a leaf of its own has a key of its own.\<close>

lemma held_insert:
  assumes l: "leafed A L N" and y: "y \<in> L" "y \<notin> U" "U \<subseteq> L" and h: "held N u U" and f: "fitted N y sz align (hi N y) ptr" "0 < sz"
  shows "used_insert ptr y u = u @ [(ptr, y)]" "held N (u @ [(ptr, y)]) (insert y U)"
proof -
  have z: "unat (snd ptr) < hi N y" "lo N y \<le> unat (snd ptr)" "fst ptr = en_base (N ! y)"
    using f by (auto simp: fitted_def word_less_nat_alt)
  have "ptr \<noteq> fst e" if e: "e \<in> set u" for e
  proof -
    have "snd e \<in> U" using e h by (auto simp: held_def)
    then have "node_apart N (snd e) y" using leafedD(4) [OF l] y by blast
    then show ?thesis using e h z by (auto simp: held_def node_apart_def)
  qed
  then have "map_of u ptr = None" by (auto simp: map_of_eq_None_iff)
  then show "used_insert ptr y u = u @ [(ptr, y)]" by (simp add: used_insert_def)
  show "held N (u @ [(ptr, y)]) (insert y U)" using h y z by (auto simp: held_def)
qed

definition granted :: "nat set \<Rightarrow> Eager \<Rightarrow> size_t \<Rightarrow> size_t \<Rightarrow> addr \<times> size_t \<Rightarrow> Eager \<Rightarrow> nat set \<Rightarrow> nat \<Rightarrow> bool" where
  "granted A d sz align ptr d' A' y \<longleftrightarrow> A \<subseteq> A' \<and> grew A d A' d' \<and> (\<exists>F U G. eager_ok A' F U G d') \<and>
     eg_used d' = eg_used d @ [(ptr, y)] \<and> fitted (eg_nodes d') y sz align (hi (eg_nodes d') y) ptr"

lemma fitted_agree: "agree A N N' \<Longrightarrow> x \<in> A \<Longrightarrow> fitted N' x sz align lim ptr = fitted N x sz align lim ptr"
  using agreeD(1,3) by (auto simp: fitted_def)

text \<open>From the common free list, the whole node or its first part.\<close>

lemma common_whole:
  assumes ok: "eager_ok A F U G d" and e: "(s, x) \<in> set (eg_free d)" and f: "fitted (eg_nodes d) x sz align (hi (eg_nodes d) x) ptr" "0 < sz"
  shows "granted A d sz align ptr
    (d\<lparr>eg_nodes := count_up x (eg_nodes d), eg_used := used_insert ptr x (eg_used d), eg_free := remove1 (s, x) (eg_free d)\<rparr>) A x"
proof -
  let ?N = "eg_nodes d" and ?N' = "count_up x (eg_nodes d)"
  note o = eager_okD [OF ok] and lr = listed_remove [OF eager_okD(9) [OF ok] e]
  have a: "agree S ?N ?N'" for S by (rule agree_shape) simp
  have fo: "forest (unat (eg_align d)) A (F - {x}) (insert x U \<union> G) None ?N'" using forest_take [OF o(7) lr(3)] by simp
  have xs: "x \<notin> U" "x \<notin> G" "x \<in> A" using o(3,4) lr(3) by auto
  have hl: "held ?N' (eg_used d) U" by (rule held_agree [OF a subset_refl o(10)])
  have f': "fitted ?N' x sz align (hi ?N' x) ptr" using f(1) fitted_agree [OF a xs(3)] agreeD(2) [OF a, of x A] xs(3) by simp
  have lf: "leafed A ((F - {x}) \<union> (insert x U \<union> G)) ?N'" using fo by (simp add: forest_def)
  have hi: "used_insert ptr x (eg_used d) = eg_used d @ [(ptr, x)]" "held ?N' (eg_used d @ [(ptr, x)]) (insert x U)"
    by (rule held_insert [OF lf _ xs(1) _ hl f' f(2)]; auto)+
  have "eager_ok A (F - {x}) (insert x U) G (d\<lparr>eg_nodes := ?N', eg_used := used_insert ptr x (eg_used d), eg_free := remove1 (s, x) (eg_free d)\<rparr>)"
    using fo hi o(8) xs listed_agree [OF a subset_refl lr(1)] listed_agree [OF a subset_refl o(11)] by (auto simp: eager_ok_def)
  then show ?thesis using hi a f' unfolding granted_def grew_def by (auto simp: count_up_node)
qed

lemma common_split:
  assumes ok: "eager_ok A F U G d" and e: "(s, x) \<in> set (eg_free d)" and k: "0 < k" "k < en_size (eg_nodes d ! x)" "unat (eg_align d) dvd unat k"
    and f: "fitted (eg_nodes d) x sz align (lo (eg_nodes d) x + unat k) ptr" "0 < sz" and y: "y = length (eg_nodes d)"
  shows "granted A d sz align ptr
    (d\<lparr>eg_nodes := divided x k (count_up x (eg_nodes d)), eg_used := used_insert ptr y (eg_used d),
       eg_free := fl_insert (en_size (eg_nodes d ! x) - k) (Suc y) (remove1 (s, x) (eg_free d))\<rparr>) (A \<union> {y, Suc y}) y"
proof -
  let ?N = "eg_nodes d" and ?M = "count_up x (eg_nodes d)" let ?N' = "divided x k ?M" and ?A = "A \<union> {y, Suc y}"
  note o = eager_okD [OF ok] and lr = listed_remove [OF eager_okD(9) [OF ok] e]
  have am: "agree S ?N ?M" for S by (rule agree_shape) simp
  have xs: "x \<notin> U" "x \<notin> G" "x \<in> A" "y \<notin> A" "Suc y \<notin> A" using o(1,3,4) lr(3) y by (auto simp: placed_def)
  have xl: "x < length ?M" "hi ?M x < 2 ^ 64" "k < en_size (?M ! x)" "y = length ?M"
    using o(1) xs(3) k(2) y agreeD(2) [OF am, of x A] by (auto simp: placed_def count_up_node)
  note d = divided_nodes [OF xl(1) k(1) xl(3,2,4)]
  have ay: "agree {..<y} ?N ?N'" using d(1) am [of "{..<y}"] by (auto simp: agree_def)
  have a: "agree A ?N ?N'" using ay o(1) y by (auto simp: agree_def placed_def)
  have "insert x (U \<union> G) - {x} = U \<union> G" using xs by auto
  then have fo: "forest (unat (eg_align d)) ?A (insert (Suc y) (F - {x})) (insert y U \<union> G) None ?N'"
    using forest_divide [OF forest_take [OF o(7) lr(3)] _ k(1) xl(3) k(3) xl(4)] by simp
  have hl: "held ?N' (eg_used d) U" by (rule held_agree [OF a o(5,10)])
  have "en_base (?N' ! y) = en_base (?N ! x)" "lo ?N' y = lo ?N x" "hi ?N' y = lo ?N x + unat k"
    using d(2,4,6) agreeD(1) [OF a xs(3)] agreeD(1,3) [OF am, of x A] xs(3) by (simp_all add: cut_at_def)
  then have f': "fitted ?N' y sz align (hi ?N' y) ptr" using f(1) by (simp add: fitted_def)
  have lf: "leafed ?A (insert (Suc y) (F - {x}) \<union> (insert y U \<union> G)) ?N'" using fo by (simp add: forest_def)
  have yU: "y \<notin> U" "y \<notin> G" using o(5,6) xs by auto
  have hi: "used_insert ptr y (eg_used d) = eg_used d @ [(ptr, y)]" "held ?N' (eg_used d @ [(ptr, y)]) (insert y U)"
    by (rule held_insert [OF lf _ yU(1) _ hl f' f(2)]; auto)+
  have z: "en_size (?N' ! Suc y) = en_size (?N ! x) - k"
    using xl(4) same_shapeD(1) [OF same_shape_add_use] by (simp add: divided_def nth_append child_of_def count_up_node)
  have "listed ?N' (remove1 (s, x) (eg_free d)) (F - {x})" using listed_agree [OF a _ lr(1)] o(4) by blast
  then have "listed ?N' (fl_insert (en_size (?N ! x) - k) (Suc y) (remove1 (s, x) (eg_free d))) (insert (Suc y) (F - {x}))"
    using listed_insert [of ?N' _ "F - {x}" "Suc y"] z xs(5) o(4) by auto
  then have "eager_ok ?A (insert (Suc y) (F - {x})) (insert y U) G (d\<lparr>eg_nodes := ?N', eg_used := used_insert ptr y (eg_used d),
       eg_free := fl_insert (en_size (eg_nodes d ! x) - k) (Suc y) (remove1 (s, x) (eg_free d))\<rparr>)"
    using fo hi o(8) yU listed_agree [OF a o(6,11)] by (auto simp: eager_ok_def)
  then show ?thesis using hi ay f' d(3,6) y unfolding granted_def grew_def by auto
qed

subsection \<open>Groups\<close>

lemma listed_append:
  "listed N (l1 @ l2) S \<longleftrightarrow> (\<exists>S1 S2. listed N l1 S1 \<and> listed N l2 S2 \<and> S1 \<inter> S2 = {} \<and> S = S1 \<union> S2)"
  by (auto simp: listed_def)

lemma listed_group:
  assumes "listed N (concat gs) G" and g: "g < length gs"
  obtains S R where "listed N (gs ! g) S" "S \<inter> R = {}" "G = S \<union> R"
    "\<And>l S'. listed N l S' \<Longrightarrow> S' \<inter> R = {} \<Longrightarrow> listed N (concat (gs[g := l])) (S' \<union> R)"
proof -
  have "listed N (concat (take g gs) @ gs ! g @ concat (drop (Suc g) gs)) G"
    using assms by (metis concat.simps(2) concat_append id_take_nth_drop)
  then obtain S1 S S2 where s: "listed N (concat (take g gs)) S1" "listed N (gs ! g) S" "listed N (concat (drop (Suc g) gs)) S2"
    "S1 \<inter> (S \<union> S2) = {}" "S \<inter> S2 = {}" "G = S1 \<union> (S \<union> S2)" by (auto simp: listed_append)
  have "listed N (concat (gs[g := l])) (S' \<union> (S1 \<union> S2))" if l: "listed N l S'" "S' \<inter> (S1 \<union> S2) = {}" for l S'
  proof -
    have "listed N (concat (take g gs) @ l @ concat (drop (Suc g) gs)) (S1 \<union> (S' \<union> S2))"
      unfolding listed_append using s l by blast
    then show ?thesis using g by (simp add: upd_conv_take_nth_drop Un_left_commute)
  qed
  then show thesis using that [of S "S1 \<union> S2"] s by blast
qed

lemma group_whole:
  assumes ok: "eager_ok A F U G d" and g: "g < length (eg_groups d)" and e: "(s, x) \<in> set (group_list d g)"
    and f: "fitted (eg_nodes d) x sz align (hi (eg_nodes d) x) ptr" "0 < sz"
  shows "granted A d sz align ptr (put_group g (remove1 (s, x) (group_list d g)) (d\<lparr>eg_used := used_insert ptr x (eg_used d)\<rparr>)) A x"
proof -
  note o = eager_okD [OF ok]
  obtain S R where sr: "listed (eg_nodes d) (eg_groups d ! g) S" "S \<inter> R = {}" "G = S \<union> R"
    "\<And>l S'. listed (eg_nodes d) l S' \<Longrightarrow> S' \<inter> R = {} \<Longrightarrow> listed (eg_nodes d) (concat ((eg_groups d)[g := l])) (S' \<union> R)"
    by (rule listed_group [OF o(11) g]) blast
  note lr = listed_remove [OF sr(1) e [unfolded group_list_def]]
  have xs: "x \<in> G" "x \<notin> U" using lr(3) sr(3) o(8) by auto
  have hi: "used_insert ptr x (eg_used d) = eg_used d @ [(ptr, x)]" "held (eg_nodes d) (eg_used d @ [(ptr, x)]) (insert x U)"
    by (rule held_insert [OF o(2) _ xs(2) _ o(10) f]; use xs in auto)+
  have "(S - {x}) \<union> R = G - {x}" using sr(2,3) lr(3) by auto
  then have "listed (eg_nodes d) (concat ((eg_groups d)[g := remove1 (s, x) (group_list d g)])) (G - {x})"
    using sr(4) [OF lr(1)] sr(2) by (auto simp: group_list_def)
  moreover have "insert x U \<union> (G - {x}) = U \<union> G" using xs by auto
  ultimately have "eager_ok A F (insert x U) (G - {x}) (put_group g (remove1 (s, x) (group_list d g)) (d\<lparr>eg_used := used_insert ptr x (eg_used d)\<rparr>))"
    using hi o(7,8,9) by (auto simp: eager_ok_def put_group_def)
  then show ?thesis using hi(1) f(1) unfolding granted_def grew_def by (auto simp: put_group_def agree_def)
qed

lemma get_granted:
  assumes ok: "eager_ok A F U G d" and r: "eager_request_ok (eg_align d) sz align"
  shows "getFromFreeList (eg_free d) sz True align d = Inr (None, eg_free d, d) \<or>
    (\<exists>ptr l d' A' y. getFromFreeList (eg_free d) sz True align d = Inr (Some ptr, l, d') \<and> granted A d sz align ptr (d'\<lparr>eg_free := l\<rparr>) A' y)"
proof -
  note o = eager_okD [OF ok]
  have sz: "0 < sz" using r by (simp add: eager_request_ok_def)
  show ?thesis
  proof (rule getFromFreeList_cases [OF r o(9,1,4), of True], goal_cases)
    case (2 s x ptr)
    then show ?case using common_whole [OF ok 2(1,2) sz] by auto
  next
    case (3 s x ptr k)
    then show ?case using common_split [OF ok 3(2-6) sz refl] by auto
  qed simp
qed

lemma reuse_granted:
  assumes ok: "eager_ok A F U G d" and r: "eager_request_ok (eg_align d) sz align" and g: "\<And>g. eg_current d = Some g \<Longrightarrow> g < length (eg_groups d)"
  shows "reuse sz align d = Inr (None, d) \<or> (\<exists>ptr d' A' y. reuse sz align d = Inr (Some ptr, d') \<and> granted A d sz align ptr d' A' y)"
proof (cases "eg_current d")
  case None
  then show ?thesis using get_granted [OF ok r] by (auto simp: reuse_def)
next
  case (Some g)
  note o = eager_okD [OF ok]
  obtain S R where sr: "listed (eg_nodes d) (eg_groups d ! g) S" "G = S \<union> R" by (rule listed_group [OF o(11) assms(3) [OF Some]]) blast
  have SA: "S \<subseteq> A" using sr(2) o(6) by blast
  have sz: "0 < sz" using r by (simp add: eager_request_ok_def)
  show ?thesis
  proof (rule getFromFreeList_cases [OF r sr(1) o(1) SA, of False], goal_cases)
    case 1
    then show ?case using Some assms(3) [OF Some] get_granted [OF ok r] by (auto simp: reuse_def group_list_def)
  next
    case (2 s x ptr)
    then have "reuse sz align d = Inr (Some ptr, put_group g (remove1 (s, x) (group_list d g)) (d\<lparr>eg_used := used_insert ptr x (eg_used d)\<rparr>))"
      using Some assms(3) [OF Some] by (simp add: reuse_def group_list_def)
    then show ?case using group_whole [OF ok assms(3) [OF Some] _ 2(2) sz] 2(1) by (auto simp: group_list_def)
  qed simp
qed

end
