(* ===== verification/MNN_Eager_Run.thy ===== *)
theory MNN_Eager_Run
  imports MNN_Eager_Facts
begin

text \<open>
  The operations of the eager allocator on blocks of an underlying allocator (locale \<open>block_source\<close>, which extends
  \<open>chunk_source\<close>): every operation ends, keeps the invariant and the bytes of the chunks in use. The locale is
  interpreted on the default allocator, and the properties are stated over the states a client can reach there.
\<close>

lemma heldD:
  assumes "held N u U" and "e \<in> set u"
  shows "snd e \<in> U \<and> fst (fst e) = en_base (N ! snd e) \<and> lo N (snd e) \<le> unat (snd (fst e)) \<and> unat (snd (fst e)) < hi N (snd e)"
  using assms unfolding held_def by blast

lemma held_keys:
  assumes l: "leafed A L N" and u: "U \<subseteq> L" and h: "held N u U" and e: "e \<in> set u" "e' \<in> set u"
  shows "fst e = fst e' \<longleftrightarrow> e = e'" "snd e = snd e' \<longleftrightarrow> e = e'"
proof -
  note at = heldD [OF h]
  have "inj_on snd (set u)" using h by (simp add: held_def distinct_map)
  then show s: "snd e = snd e' \<longleftrightarrow> e = e'" using e by (auto simp: inj_on_def)
  show "fst e = fst e' \<longleftrightarrow> e = e'"
  proof
    assume "fst e = fst e'"
    then have "\<not> node_apart N (snd e) (snd e')" using at [OF e(1)] at [OF e(2)] by (simp add: node_apart_def)
    then have "snd e = snd e'" using leafedD(4) [OF l, of "snd e" "snd e'"] u at [OF e(1)] at [OF e(2)] by blast
    then show "e = e'" using s by simp
  qed simp
qed

lemma held_erase:
  assumes l: "leafed A L N" and u: "U \<subseteq> L" and h: "held N u U" and k: "map_of u k = Some n"
  shows "held N (used_erase k u) (U - {n})" "n \<in> U" "\<And>k'. k' \<noteq> k \<Longrightarrow> map_of (used_erase k u) k' = map_of u k'" "map_of (used_erase k u) k = None"
proof -
  have m: "(k, n) \<in> set u" using k by (rule map_of_SomeD)
  then show nU: "n \<in> U" using h by (force simp: held_def)
  have "fst e = k \<longleftrightarrow> snd e = n" if "e \<in> set u" for e
    using held_keys [OF l u h that m] by simp
  then have "used_erase k u = filter (\<lambda>e. snd e \<noteq> n) u" unfolding used_erase_def by (intro filter_cong) simp_all
  then show "held N (used_erase k u) (U - {n})" using h by (auto simp: held_def distinct_map_filter)
  show "map_of (used_erase k u) k' = map_of u k'" if "k' \<noteq> k" for k' using that by (induction u) (auto simp: used_erase_def)
  show "map_of (used_erase k u) k = None" by (auto simp: used_erase_def map_of_eq_None_iff)
qed

text \<open>\<open>returnMemory\<close> with joining.\<close>

lemma returnMemory_forest:
  assumes f: "forest al A F B None N" and n: "n \<in> B" and l: "listed N l F"
  shows "\<exists>A' F' l' N'. returnMemory l n True N = Some (l', N') \<and> forest al A' F' (B - {n}) None N' \<and> listed N' l' F' \<and> same_shape N N' \<and>
    A' \<subseteq> A \<and> {x \<in> A. en_parent (N ! x) = None} \<subseteq> A'"
proof -
  have "n \<notin> F" "n < length N" using f n by (auto simp: forest_def leafed_def placed_def)
  then show ?thesis using ascend_forest [OF forest_free [OF f n] _ listed_insert [OF l]] by (simp add: returnMemory_def)
qed

lemma return_each_forest:
  assumes "forest al A F B None N" and "set ns \<subseteq> B" and "distinct ns" and "listed N l F"
  shows "\<exists>A' F' l' N'. return_each ns l N = Some (l', N') \<and> forest al A' F' (B - set ns) None N' \<and> listed N' l' F' \<and> same_shape N N' \<and>
    A' \<subseteq> A \<and> {x \<in> A. en_parent (N ! x) = None} \<subseteq> A'"
  using assms
proof (induction ns arbitrary: A F B l N)
  case Nil
  then show ?case by auto
next
  case (Cons n ns)
  from returnMemory_forest [OF Cons.prems(1) _ Cons.prems(4), of n] Cons.prems(2)
  obtain A1 F1 l1 N1 where one: "returnMemory l n True N = Some (l1, N1)" "forest al A1 F1 (B - {n}) None N1" "listed N1 l1 F1" "same_shape N N1"
    "A1 \<subseteq> A" "{x \<in> A. en_parent (N ! x) = None} \<subseteq> A1" by auto
  have "set ns \<subseteq> B - {n}" "distinct ns" using Cons.prems(2,3) by auto
  from Cons.IH [OF one(2) this one(3)]
  obtain A2 F2 l2 N2 where two: "return_each ns l1 N1 = Some (l2, N2)" "forest al A2 F2 (B - {n} - set ns) None N2" "listed N2 l2 F2" "same_shape N1 N2"
    "A2 \<subseteq> A1" "{x \<in> A1. en_parent (N1 ! x) = None} \<subseteq> A2" by auto
  have "B - {n} - set ns = B - set (n # ns)" by auto
  moreover have "{x \<in> A. en_parent (N ! x) = None} \<subseteq> A2" using one(6) two(6) same_shapeD(4) [OF one(4)] by auto
  moreover have "A2 \<subseteq> A" using one(5) two(5) by blast
  ultimately show ?case using one(1) two(1-3) same_shape_trans [OF one(4) two(4)] by auto
qed

text \<open>What giving back keeps: the places of the nodes and the blocks.\<close>

definition shrank :: "nat set \<Rightarrow> Eager \<Rightarrow> nat set \<Rightarrow> Eager \<Rightarrow> bool" where
  "shrank A d A' d' \<longleftrightarrow> A' \<subseteq> A \<and> {x \<in> A. en_parent (eg_nodes d ! x) = None} \<subseteq> A' \<and> same_shape (eg_nodes d) (eg_nodes d') \<and>
     eg_align d' = eg_align d \<and> eg_min d' = eg_min d \<and> eg_roots d' = eg_roots d \<and> eg_current d' = eg_current d \<and> eg_total d' = eg_total d"

lemma free_common:
  assumes ok: "eager_ok A F U G d" and k: "map_of (eg_used d) k = Some n"
  shows "\<exists>l N A' F'. returnMemory (eg_free d) n True (eg_nodes d) = Some (l, N) \<and>
    eager_ok A' F' (U - {n}) G (d\<lparr>eg_used := used_erase k (eg_used d), eg_free := l, eg_nodes := N\<rparr>) \<and>
    shrank A d A' (d\<lparr>eg_used := used_erase k (eg_used d), eg_free := l, eg_nodes := N\<rparr>)"
proof -
  note o = eager_okD [OF ok]
  have "U \<subseteq> F \<union> (U \<union> G)" by blast
  note he = held_erase [OF o(2) this o(10) k]
  have "U \<union> G - {n} = (U - {n}) \<union> G" using he(2) o(8) by auto
  then obtain A' F' l N where r: "returnMemory (eg_free d) n True (eg_nodes d) = Some (l, N)" "forest (unat (eg_align d)) A' F' ((U - {n}) \<union> G) None N"
    "listed N l F'" "same_shape (eg_nodes d) N" "A' \<subseteq> A" "{x \<in> A. en_parent (eg_nodes d ! x) = None} \<subseteq> A'"
    using returnMemory_forest [OF o(7) _ o(9), of n] he(2) by auto
  have "held N (used_erase k (eg_used d)) (U - {n})" by (rule held_agree [OF agree_shape [OF r(4)] subset_refl he(1)])
  moreover have "(U - {n}) \<inter> G = {}" using o(8) by blast
  ultimately show ?thesis using r listed_shape [OF r(4) o(11)]
    by (intro exI [of _ l] exI [of _ N] exI [of _ A'] exI [of _ F']) (simp add: eager_ok_def shrank_def)
qed

lemma free_group:
  assumes ok: "eager_ok A F U G d" and k: "map_of (eg_used d) k = Some n" and g: "g < length (eg_groups d)"
  shows "\<exists>l. returnMemory (group_list d g) n False (eg_nodes d) = Some (l, eg_nodes d) \<and>
    eager_ok A F (U - {n}) (insert n G) (put_group g l (d\<lparr>eg_used := used_erase k (eg_used d)\<rparr>)) \<and>
    shrank A d A (put_group g l (d\<lparr>eg_used := used_erase k (eg_used d)\<rparr>))"
proof -
  note o = eager_okD [OF ok]
  have "U \<subseteq> F \<union> (U \<union> G)" by blast
  note he = held_erase [OF o(2) this o(10) k]
  obtain S R where sr: "listed (eg_nodes d) (eg_groups d ! g) S" "S \<inter> R = {}" "G = S \<union> R"
    "\<And>l S'. listed (eg_nodes d) l S' \<Longrightarrow> S' \<inter> R = {} \<Longrightarrow> listed (eg_nodes d) (concat ((eg_groups d)[g := l])) (S' \<union> R)"
    by (rule listed_group [OF o(11) g]) blast
  let ?l = "fl_insert (en_size (eg_nodes d ! n)) n (group_list d g)"
  have nG: "n \<notin> S" "n \<notin> R" using he(2) o(8) sr(3) by auto
  have "listed (eg_nodes d) (concat ((eg_groups d)[g := ?l])) (insert n S \<union> R)"
    using sr(4) [OF listed_insert [OF sr(1) nG(1)]] sr(2) nG(2) by (auto simp: group_list_def)
  moreover have "(U - {n}) \<union> (insert n S \<union> R) = U \<union> G" using he(2) sr(3) by auto
  ultimately show ?thesis using o(7,8,9) he(1) sr(3)
    by (intro exI [of _ ?l]) (auto simp: returnMemory_def eager_ok_def shrank_def put_group_def)
qed

lemma barrier_ok:
  assumes ok: "eager_ok A F U G d"
  shows "\<exists>l N A' F'. return_each (map snd (concat (eg_groups d))) (eg_free d) (eg_nodes d) = Some (l, N) \<and>
    eager_ok A' F' U {} (d\<lparr>eg_free := l, eg_nodes := N, eg_groups := []\<rparr>) \<and> shrank A d A' (d\<lparr>eg_free := l, eg_nodes := N, eg_groups := []\<rparr>)"
proof -
  note o = eager_okD [OF ok]
  have g: "set (map snd (concat (eg_groups d))) = G" "distinct (map snd (concat (eg_groups d)))" using o(11) by (auto simp: listed_def)
  have "U \<union> G - G = U" using o(8) by auto
  then obtain A' F' l N where r: "return_each (map snd (concat (eg_groups d))) (eg_free d) (eg_nodes d) = Some (l, N)"
    "forest (unat (eg_align d)) A' F' U None N" "listed N l F'" "same_shape (eg_nodes d) N" "A' \<subseteq> A" "{x \<in> A. en_parent (eg_nodes d ! x) = None} \<subseteq> A'"
    using return_each_forest [OF o(7) _ g(2) o(9)] g(1) by auto
  have "held N (eg_used d) U" by (rule held_agree [OF agree_shape [OF r(4)] subset_refl o(10)])
  moreover have "listed N [] {}" by (simp add: listed_def)
  ultimately show ?thesis using r by (auto simp: eager_ok_def shrank_def)
qed

subsection \<open>Blocks\<close>

lemma root_of_fuel:
  assumes p: "placed al A N"
  shows "x \<in> A \<Longrightarrow> x < fuel \<Longrightarrow> x < fuel' \<Longrightarrow> root_of fuel N x = root_of fuel' N x"
proof (induction x arbitrary: fuel fuel' rule: less_induct)
  case (less x)
  then obtain f f' where f: "fuel = Suc f" "fuel' = Suc f'" by (metis less_imp_Suc_add)
  show ?case
  proof (cases "en_parent (N ! x)")
    case (Some q)
    then have "q \<in> A" "q < x" using p less.prems(1) by (auto simp: placed_def)
    then show ?thesis using less.IH [of q f f'] less.prems f Some by simp
  qed (simp add: f)
qed

lemma root_of_parent:
  assumes p: "placed al A N" and x: "x \<in> A" and q: "en_parent (N ! x) = Some q"
  shows "root_of (length N) N x = root_of (length N) N q"
proof -
  have b: "q \<in> A" "q < x" "x < length N" using p x q by (auto simp: placed_def)
  have "root_of (Suc (length N)) N x = root_of (length N) N q" using q by simp
  then show ?thesis using root_of_fuel [OF p x, of "length N" "Suc (length N)"] b by simp
qed

lemma root_of_root: "en_parent (N ! x) = None \<Longrightarrow> root_of fuel N x = x"
  by (cases fuel) simp_all

lemma root_base:
  assumes p: "placed al A N"
  shows "x \<in> A \<Longrightarrow> \<exists>r\<in>A. en_parent (N ! r) = None \<and> en_base (N ! r) = en_base (N ! x) \<and> hi N x \<le> hi N r"
proof (induction x rule: less_induct)
  case (less x)
  show ?case
  proof (cases "en_parent (N ! x)")
    case (Some q)
    then have q: "q \<in> A" "q < x" "en_base (N ! q) = en_base (N ! x)" "hi N x \<le> hi N q" using p less.prems by (auto simp: placed_def)
    then show ?thesis using less.IH [of q] by (metis le_trans)
  qed (use less.prems in auto)
qed

text \<open>The bytes of its block that a chunk owns.\<close>

definition room :: "Eager \<Rightarrow> addr \<times> size_t \<Rightarrow> nat set" where
  "room d k = (case map_of (eg_used d) k of None \<Rightarrow> {} | Some x \<Rightarrow> {unat (snd k)..<hi (eg_nodes d) x})"

lemma room_roots [simp]: "room (d\<lparr>eg_roots := R\<rparr>) k = room d k"
  by (cases "map_of (eg_used d) k") (simp_all add: room_def)

lemma room_agree:
  assumes "agree A (eg_nodes d) (eg_nodes d')" and "held (eg_nodes d) (eg_used d) U" and "U \<subseteq> A" and "map_of (eg_used d') k = map_of (eg_used d) k"
  shows "room d' k = room d k"
proof (cases "map_of (eg_used d) k")
  case (Some x)
  then have "x \<in> A" using assms(2,3) map_of_SomeD [OF Some] by (force simp: held_def)
  then show ?thesis using Some assms(4) agreeD(2) [OF assms(1)] by (simp add: room_def)
qed (simp add: room_def assms(4))

lemma rooms_apart:
  assumes ok: "eager_ok A F U G d" and k: "k \<noteq> k'" "fst k = fst k'"
  shows "room d k \<inter> room d k' = {}"
proof (cases "map_of (eg_used d) k = None \<or> map_of (eg_used d) k' = None")
  case False
  then obtain x y where m: "map_of (eg_used d) k = Some x" "map_of (eg_used d) k' = Some y" by auto
  note o = eager_okD [OF ok]
  have i: "(k, x) \<in> set (eg_used d)" "(k', y) \<in> set (eg_used d)" using m map_of_SomeD by fast+
  have "U \<subseteq> F \<union> (U \<union> G)" by blast
  from held_keys(2) [OF o(2) this o(10) i] have "x \<noteq> y" using k(1) by simp
  note at = heldD [OF o(10)]
  from \<open>x \<noteq> y\<close> have "node_apart (eg_nodes d) x y" using leafedD(4) [OF o(2), of x y] at [OF i(1)] at [OF i(2)] by simp
  then have "hi (eg_nodes d) x \<le> unat (snd k') \<or> hi (eg_nodes d) y \<le> unat (snd k)"
    using at [OF i(1)] at [OF i(2)] k(2) by (auto simp: node_apart_def)
  then show ?thesis using m by (auto simp: room_def)
qed (auto simp: room_def)

text \<open>What a request for \<open>sz\<close> bytes at \<open>align\<close> gives: a new chunk with enough room, or nothing; the other chunks keep theirs.\<close>

definition serves_request :: "size_t \<Rightarrow> size_t \<Rightarrow> Eager \<Rightarrow> MemChunk \<Rightarrow> Eager \<Rightarrow> bool" where
  "serves_request sz align d c d' \<longleftrightarrow>
     (case chunk_first c of
        None \<Rightarrow> (\<forall>k. room d' k = room d k)
      | Some b \<Rightarrow> let k = (b, chunk_second c)
          in room d k = {} \<and> unat align dvd unat (chunk_second c) \<and> {unat (chunk_second c)..<unat (chunk_second c) + unat sz} \<subseteq> room d' k \<and>
             (\<forall>k'. k' \<noteq> k \<longrightarrow> room d' k' = room d k'))"

lemma serves_roots: "serves_request sz align d c (d'\<lparr>eg_roots := R\<rparr>) = serves_request sz align d c d'"
  unfolding serves_request_def room_roots ..

lemma serves_new:
  assumes h: "held (eg_nodes d) (eg_used d) U" "U \<subseteq> A" and a: "agree A (eg_nodes d) (eg_nodes d')" and ok: "eager_ok A' F' U' G' d'"
    and u: "eg_used d' = eg_used d @ [((b, off), y)]" and f: "fitted (eg_nodes d') y sz align (hi (eg_nodes d') y) (b, off)"
  shows "serves_request sz align d (MemChunk_ptr (Some b) off) d'"
proof -
  note o = eager_okD [OF ok]
  have s: "U' \<subseteq> F' \<union> (U' \<union> G')" by blast
  have "fst e \<noteq> (b, off)" if e: "e \<in> set (eg_used d)" for e
  proof
    assume "fst e = (b, off)"
    then have "e = ((b, off), y)" using held_keys(1) [OF o(2) s o(10), of e "((b, off), y)"] u e by simp
    moreover have "distinct (map snd (eg_used d'))" using o(10) by (simp add: held_def)
    ultimately show False using u e by force
  qed
  then have n: "map_of (eg_used d) (b, off) = None" unfolding map_of_eq_None_iff by (metis imageE)
  have "room d' k = room d k" if "k \<noteq> (b, off)" for k
    using room_agree [OF a h] u that by (simp add: map_add_def split: option.splits)
  moreover have "{unat off..<unat off + unat sz} \<subseteq> room d' (b, off)" using n f u by (auto simp: room_def map_add_def fitted_def)
  moreover have "room d (b, off) = {}" using n by (simp add: room_def)
  ultimately show ?thesis using f by (simp add: serves_request_def MemChunk_ptr_def fitted_def Let_def)
qed

text \<open>The node of a new block of \<open>n\<close> bytes.\<close>

definition block_node :: "addr \<Rightarrow> size_t \<Rightarrow> EagerNode" where
  "block_node base n = \<lparr>en_base = base, en_offset = 0, en_parent = None, en_size = n, en_useCount = 0\<rparr>"

lemma new_block_min:
  assumes a: "onAlloc root (eg_min d) align s = (MemChunk_ptr (Some base) 0, s')" and m: "sz < eg_min d" and c: "eg_current d = None" and z: "eg_align d \<noteq> 0"
    and k: "k = UP_DIV sz (eg_align d) * eg_align d"
  shows "new_block root sz align d s = Inr (MemChunk_ptr (Some base) 0,
    d\<lparr>eg_total := eg_total d + eg_min d, eg_roots := eg_roots d @ [length (eg_nodes d)],
      eg_nodes := divided (length (eg_nodes d)) k (eg_nodes d @ [block_node base (eg_min d)]),
      eg_used := used_insert (base, 0) (Suc (length (eg_nodes d))) (eg_used d),
      eg_free := fl_insert (eg_min d - k) (Suc (Suc (length (eg_nodes d)))) (eg_free d)\<rparr>, s')"
proof -
  have e: "(if eg_min d \<noteq> 0 then max (eg_min d) sz else sz) = eg_min d" using m by (auto simp: max_absorb1)
  show ?thesis using a m c z unfolding new_block_def e
    by (simp add: MemChunk_ptr_def block_node_def divided_def child_of_def add_use_def Let_def k [symmetric])
qed

text \<open>A minimal block size is used outside of groups only, and by requests that leave something of the block.\<close>

definition min_ok :: "Eager \<Rightarrow> size_t \<Rightarrow> bool" where
  "min_ok d sz \<longleftrightarrow> eg_min d \<le> sz \<or> (eg_current d = None \<and> rounded (unat (eg_align d)) (unat sz) < unat (eg_min d))"

locale block_source = chunk_source +
  assumes alloc_pointer: "alloc n al s = (c, s') \<Longrightarrow> c = MemChunk_ptr (chunk_first c) 0"
begin

text \<open>The blocks the allocator holds are live, and every tree has its block.\<close>

definition chunk_of :: "EagerNode list \<Rightarrow> nat \<Rightarrow> MemChunk" where
  "chunk_of N r = MemChunk_ptr (Some (en_base (N ! r))) (en_offset (N ! r))"

definition blocks_ok :: "'a \<Rightarrow> nat set \<Rightarrow> Eager \<Rightarrow> bool" where
  "blocks_ok s A d \<longleftrightarrow> wf s \<and> distinct (eg_roots d) \<and> inj_on (\<lambda>r. en_base (eg_nodes d ! r)) (set (eg_roots d)) \<and>
     (\<forall>r\<in>set (eg_roots d). r < length (eg_nodes d) \<and> en_offset (eg_nodes d ! r) = 0 \<and> live s (chunk_of (eg_nodes d) r) (unat (en_size (eg_nodes d ! r)))) \<and>
     (\<forall>x\<in>A. en_parent (eg_nodes d ! x) = None \<longrightarrow> x \<in> set (eg_roots d))"

lemma release_each:
  assumes "wf s" and "\<forall>r\<in>set rs \<union> K. live s (chunk_of N r) (n r)" and "distinct rs" and "set rs \<inter> K = {}"
    and "inj_on (\<lambda>r. en_base (N ! r)) (set rs \<union> K)"
  shows "wf (fold (\<lambda>r. rel (chunk_of N r)) rs s) \<and> (\<forall>r\<in>K. live (fold (\<lambda>r. rel (chunk_of N r)) rs s) (chunk_of N r) (n r))"
  using assms
proof (induction rs arbitrary: s)
  case (Cons r rs)
  have "live (rel (chunk_of N r) s) (chunk_of N q) (n q)" if "q \<in> set rs \<union> K" for q
  proof -
    have "en_base (N ! q) \<noteq> en_base (N ! r)" using Cons.prems(3,4,5) that unfolding inj_on_def by auto
    then show ?thesis using rel_keeps [of s "chunk_of N r" "n r" "chunk_of N q" "n q"] Cons.prems(1,2) that by (auto simp: chunk_of_def MemChunk_ptr_def)
  qed
  moreover have "wf (rel (chunk_of N r) s)" using rel_wf Cons.prems(1,2) by auto
  moreover have "inj_on (\<lambda>r. en_base (N ! r)) (set rs \<union> K)" by (rule inj_on_subset [OF Cons.prems(5)]) auto
  ultimately show ?case using Cons.IH [of "rel (chunk_of N r) s"] Cons.prems(3,4) by simp
qed simp

lemma collect_ok:
  assumes ok: "eager_ok A F U G d" and b: "blocks_ok s A d" and c: "collect \<lparr>onAlloc = alloc, onRelease = rel\<rparr> d s = (d', s')"
  shows "\<exists>A' R. eager_ok A' F U G d' \<and> blocks_ok s' A' d' \<and> d' = d\<lparr>eg_roots := R\<rparr>"
proof -
  let ?N = "eg_nodes d" let ?R = "root_of (length ?N) ?N" let ?kept = "?R ` set (referenced d)"
  let ?C = "{x. ?R x \<in> ?kept}"
  let ?dead = "filter (\<lambda>r. r \<notin> ?kept) (eg_roots d)" and ?held = "filter (\<lambda>r. r \<in> ?kept) (eg_roots d)"
  note o = eager_okD [OF ok]
  have d': "d' = d\<lparr>eg_roots := ?held\<rparr>" and s': "s' = fold (\<lambda>r. rel (chunk_of ?N r)) ?dead s"
    using c by (auto simp: collect_def Let_def chunk_of_def)
  have ref: "set (referenced d) = U \<union> F \<union> G" using o(9,10,11) by (auto simp: referenced_def listed_def held_def image_Un)
  have cap: "F \<inter> ?C = F" "(U \<union> G) \<inter> ?C = U \<union> G" using ref by auto
  have "forest (unat (eg_align d)) (A \<inter> ?C) (F \<inter> ?C) ((U \<union> G) \<inter> ?C) None ?N"
    by (rule forest_restrict [OF o(7)]) (simp add: root_of_parent [OF o(1)])
  then have "eager_ok (A \<inter> ?C) F U G d'" using ok by (simp add: eager_ok_def d' cap)
  moreover have "blocks_ok s' (A \<inter> ?C) d'"
  proof -
    have sp: "set ?dead \<union> set ?held = set (eg_roots d)" "set ?dead \<inter> set ?held = {}" by auto
    have "wf s' \<and> (\<forall>r\<in>set ?held. live s' (chunk_of ?N r) (unat (en_size (?N ! r))))"
      unfolding s' using b sp by (intro release_each) (auto simp: blocks_ok_def)
    moreover have "x \<in> set ?held" if "x \<in> A \<inter> ?C" "en_parent (?N ! x) = None" for x
      using b that root_of_root [of ?N x "length ?N"] by (auto simp: blocks_ok_def)
    moreover have "inj_on (\<lambda>r. en_base (?N ! r)) (set ?held)" using b by (auto simp: blocks_ok_def intro: inj_on_subset)
    ultimately show ?thesis using b by (auto simp: blocks_ok_def d')
  qed
  ultimately show ?thesis using d' by blast
qed

definition eager_inv :: "'a \<Rightarrow> Eager \<Rightarrow> bool" where
  "eager_inv s d \<longleftrightarrow> (\<exists>A F U G. eager_ok A F U G d \<and> blocks_ok s A d) \<and> eg_align d \<noteq> 0 \<and>
     (\<forall>g. eg_current d = Some g \<longrightarrow> g < length (eg_groups d))"

abbreviation src :: "'a Allocator" where
  "src \<equiv> \<lparr>onAlloc = alloc, onRelease = rel\<rparr>"

lemma collect_inv:
  assumes ok: "eager_ok A F U G d" and b: "blocks_ok s A d" and m: "eg_align d \<noteq> 0" "\<forall>g. eg_current d = Some g \<longrightarrow> g < length (eg_groups d)"
  obtains R s' where "collect src d s = (d\<lparr>eg_roots := R\<rparr>, s')" "eager_inv s' (d\<lparr>eg_roots := R\<rparr>)"
proof -
  obtain d' s' where c: "collect src d s = (d', s')" by (cases "collect src d s")
  obtain A' R where "eager_ok A' F U G d'" "blocks_ok s' A' d'" "d' = d\<lparr>eg_roots := R\<rparr>" using collect_ok [OF ok b c] by blast
  then show thesis using that [of R s'] c m unfolding eager_inv_def by auto
qed

lemma blocks_grew:
  assumes b: "blocks_ok s A d" and g: "grew A d A' d'" and A: "placed al A (eg_nodes d)"
  shows "blocks_ok s A' d'"
proof -
  have a: "en_base (eg_nodes d' ! x) = en_base (eg_nodes d ! x) \<and> en_offset (eg_nodes d' ! x) = en_offset (eg_nodes d ! x) \<and>
      en_parent (eg_nodes d' ! x) = en_parent (eg_nodes d ! x) \<and> en_size (eg_nodes d' ! x) = en_size (eg_nodes d ! x)" if "x < length (eg_nodes d)" for x
    using g that by (auto simp: grew_def agree_def)
  have r: "eg_roots d' = eg_roots d" "length (eg_nodes d) \<le> length (eg_nodes d')" using g by (auto simp: grew_def)
  have lt: "q < length (eg_nodes d)" if "q \<in> set (eg_roots d)" for q using b that by (simp add: blocks_ok_def)
  have "inj_on (\<lambda>q. en_base (eg_nodes d' ! q)) (set (eg_roots d))"
    using b a lt by (auto simp: blocks_ok_def inj_on_def)
  moreover have "x \<in> set (eg_roots d)" if "x \<in> A'" "en_parent (eg_nodes d' ! x) = None" for x
  proof -
    have "x \<in> A" "x < length (eg_nodes d)" using g A that by (auto simp: grew_def placed_def)
    then show ?thesis using a that(2) b by (auto simp: blocks_ok_def)
  qed
  moreover have "q < length (eg_nodes d')" if "q \<in> set (eg_roots d)" for q using lt [OF that] r(2) by simp
  ultimately show ?thesis using b a lt r unfolding blocks_ok_def chunk_of_def by auto
qed

lemma blocks_new:
  assumes b: "blocks_ok s A d" and sz: "fits sz" and a: "alloc sz align s = (c, s')" and c: "chunk_first c = Some (en_base v)" and n: "n = length (eg_nodes d)"
    and d': "eg_nodes d' = eg_nodes d @ [v]" "eg_roots d' = eg_roots d @ [n]" and v: "en_offset v = 0" "en_size v = sz"
    and lt: "\<And>x. x \<in> A \<Longrightarrow> x < n"
  shows "blocks_ok s' (insert n A) d'"
proof -
  have w: "wf s" and lv: "\<And>r. r \<in> set (eg_roots d) \<Longrightarrow> r < n \<and> live s (chunk_of (eg_nodes d) r) (unat (en_size (eg_nodes d ! r)))"
    using b n by (auto simp: blocks_ok_def)
  have old: "eg_nodes d' ! x = eg_nodes d ! x" if "x < n" for x using that n d' by (simp add: nth_append)
  have nn: "eg_nodes d' ! n = v" using n d' by simp
  have cp: "c = chunk_of (eg_nodes d') n" using alloc_pointer [OF a] c nn v by (simp add: chunk_of_def)
  have new: "en_base (eg_nodes d ! r) \<noteq> en_base v" if "r \<in> set (eg_roots d)" for r
    using alloc_new [OF w a sz, of "chunk_of (eg_nodes d) r"] lv [OF that] c by (auto simp: chunk_of_def MemChunk_ptr_def)
  have "live s' (chunk_of (eg_nodes d') r) (unat (en_size (eg_nodes d' ! r)))" if "r \<in> set (eg_roots d)" for r
    using alloc_keeps [OF w a sz] lv [OF that] old by (simp add: chunk_of_def)
  moreover have "live s' (chunk_of (eg_nodes d') n) (unat (en_size (eg_nodes d' ! n)))"
    using alloc_live [OF w a sz] c cp nn v by simp
  moreover have "inj_on (\<lambda>r. en_base (eg_nodes d' ! r)) (set (eg_roots d'))"
    using b new lv old nn d'(2) unfolding blocks_ok_def inj_on_def by auto metis
  moreover have "x \<in> set (eg_roots d')" if "x \<in> insert n A" "en_parent (eg_nodes d' ! x) = None" for x
    using that lt old b d'(2) unfolding blocks_ok_def by auto
  moreover have "distinct (eg_roots d')" using b lv d'(2) by (auto simp: blocks_ok_def)
  moreover have "r < length (eg_nodes d') \<and> en_offset (eg_nodes d' ! r) = 0" if "r \<in> set (eg_roots d')" for r
    using that b old lv nn v n d' by (auto simp: blocks_ok_def)
  moreover have "wf s'" by (rule alloc_wf [OF w a sz])
  ultimately show ?thesis using d'(2) by (simp add: blocks_ok_def)
qed

lemma fresh_root:
  assumes ok: "eager_ok A F U G d" and b: "blocks_ok s A d" and n: "0 < n" "fits n" and a: "alloc n align s = (c, s')" and c: "chunk_first c = Some base"
  shows "agree {..<length (eg_nodes d)} (eg_nodes d) (eg_nodes d @ [block_node base n])" "c = MemChunk_ptr (Some base) 0"
    "forest (unat (eg_align d)) (insert (length (eg_nodes d)) A) F (insert (length (eg_nodes d)) (U \<union> G)) None (eg_nodes d @ [block_node base n])"
    "eg_nodes d' = eg_nodes d @ [block_node base n] \<Longrightarrow> eg_roots d' = eg_roots d @ [length (eg_nodes d)] \<Longrightarrow> blocks_ok s' (insert (length (eg_nodes d)) A) d'"
    "x \<in> A \<Longrightarrow> x < length (eg_nodes d)"
proof -
  note o = eager_okD [OF ok]
  show cp: "c = MemChunk_ptr (Some base) 0" using alloc_pointer [OF a] c by simp
  show lt: "x < length (eg_nodes d)" if "x \<in> A" for x using o(1) that by (simp add: placed_def)
  show "agree {..<length (eg_nodes d)} (eg_nodes d) (eg_nodes d @ [block_node base n])" by (auto simp: agree_def nth_append)
  show "blocks_ok s' (insert (length (eg_nodes d)) A) d'"
    if "eg_nodes d' = eg_nodes d @ [block_node base n]" "eg_roots d' = eg_roots d @ [length (eg_nodes d)]"
    by (rule blocks_new [OF b n(2) a _ refl that]) (use c lt in \<open>simp_all add: block_node_def\<close>)
  have w: "wf s" and lv: "\<And>r. r \<in> set (eg_roots d) \<Longrightarrow> live s (chunk_of (eg_nodes d) r) (unat (en_size (eg_nodes d ! r)))"
    using b by (auto simp: blocks_ok_def)
  have new: "en_base (eg_nodes d ! r) \<noteq> base" if "r \<in> set (eg_roots d)" for r
    using alloc_new [OF w a n(2) _ lv [OF that]] c by (simp add: chunk_of_def MemChunk_ptr_def)
  have newA: "en_base (eg_nodes d ! x) \<noteq> en_base (block_node base n)" if "x \<in> A" for x
    using root_base [OF o(1) that] b new by (auto simp: blocks_ok_def block_node_def)
  show "forest (unat (eg_align d)) (insert (length (eg_nodes d)) A) F (insert (length (eg_nodes d)) (U \<union> G)) None (eg_nodes d @ [block_node base n])"
    by (rule forest_root [OF o(7) refl _ _ _ _ newA]) (use n in \<open>simp_all add: block_node_def\<close>)
qed

definition fresh_served :: "nat set \<Rightarrow> Eager \<Rightarrow> size_t \<Rightarrow> size_t \<Rightarrow> addr \<Rightarrow> nat \<Rightarrow> Eager \<Rightarrow> bool" where
  "fresh_served A d sz align base y d' \<longleftrightarrow> eg_used d' = eg_used d @ [((base, 0), y)] \<and> agree A (eg_nodes d) (eg_nodes d') \<and>
     fitted (eg_nodes d') y sz align (hi (eg_nodes d') y) (base, 0) \<and>
     eg_align d' = eg_align d \<and> eg_min d' = eg_min d \<and> eg_current d' = eg_current d \<and> eg_groups d' = eg_groups d"

text \<open>A block of the size asked for.\<close>

lemma fresh_whole:
  assumes ok: "eager_ok A F U G d" and b: "blocks_ok s A d" and m: "eg_min d \<le> sz" and sz: "0 < sz" "fits sz"
    and a: "alloc sz align s = (c, s')" and c: "chunk_first c = Some base"
  shows "\<exists>d' A' y. new_block src sz align d s = Inr (MemChunk_ptr (Some base) 0, d', s') \<and> (\<exists>F U G. eager_ok A' F U G d') \<and> blocks_ok s' A' d' \<and>
    fresh_served A d sz align base y d'"
proof -
  let ?n = "length (eg_nodes d)" let ?N = "eg_nodes d @ [block_node base sz]"
  let ?d = "d\<lparr>eg_total := eg_total d + sz, eg_roots := eg_roots d @ [?n], eg_nodes := ?N, eg_used := eg_used d @ [((base, 0), ?n)]\<rparr>"
  note o = eager_okD [OF ok] and r = fresh_root [OF ok b sz a c]
  have ag: "agree A (eg_nodes d) ?N" using r(1,5) by (auto simp: agree_def)
  have fo: "forest (unat (eg_align d)) (insert ?n A) F (insert ?n U \<union> G) None ?N" using r(3) by simp
  have nn: "?n \<notin> U" "?n \<notin> G" using r(5) o(5,6) by auto
  have ft: "fitted ?N ?n sz align (hi ?N ?n) (base, 0)" by (simp add: fitted_def block_node_def hi_def lo_def)
  have lf: "leafed (insert ?n A) (F \<union> (insert ?n U \<union> G)) ?N" using fo by (simp add: forest_def)
  have hi: "used_insert (base, 0) ?n (eg_used d) = eg_used d @ [((base, 0), ?n)]" "held ?N (eg_used d @ [((base, 0), ?n)]) (insert ?n U)"
    by (rule held_insert [OF lf _ nn(1) _ held_agree [OF ag o(5,10)] ft sz(1)]; auto)+
  have "map_of (eg_used d) (base, 0) = None" using hi(1) by (simp add: used_insert_def split: if_splits)
  then have "used_erase (base, 0) (eg_used d) = eg_used d" by (force simp: used_erase_def map_of_eq_None_iff filter_id_conv)
  moreover have "(if eg_min d \<noteq> 0 then max (eg_min d) sz else sz) = sz" using m by (simp add: max_absorb2)
  ultimately have "new_block src sz align d s = Inr (MemChunk_ptr (Some base) 0, ?d, s')"
    using a r(2) by (simp add: new_block_def MemChunk_ptr_def block_node_def Let_def)
  moreover have "eager_ok (insert ?n A) F (insert ?n U) G ?d"
    using fo hi(2) o(8) nn listed_agree [OF ag o(4,9)] listed_agree [OF ag o(6,11)] by (auto simp: eager_ok_def)
  moreover have "blocks_ok s' (insert ?n A) ?d" by (rule r(4)) simp_all
  moreover have "fresh_served A d sz align base ?n ?d" using ag ft by (simp add: fresh_served_def)
  ultimately show ?thesis by blast
qed

text \<open>A block of the minimal size, of which the first part is handed out.\<close>

lemma fresh_divided:
  assumes ok: "eager_ok A F U G d" and b: "blocks_ok s A d" and al: "eager_request_ok (eg_align d) sz align"
    and m: "rounded (unat (eg_align d)) (unat sz) < unat (eg_min d)" "eg_current d = None" and sz: "fits (eg_min d)"
    and a: "alloc (eg_min d) align s = (c, s')" and c: "chunk_first c = Some base"
  shows "\<exists>d' A' y. new_block src sz align d s = Inr (MemChunk_ptr (Some base) 0, d', s') \<and> (\<exists>F U G. eager_ok A' F U G d') \<and> blocks_ok s' A' d' \<and>
    fresh_served A d sz align base y d'"
proof -
  define k where "k = UP_DIV sz (eg_align d) * eg_align d"
  have rq: "0 < sz" "eg_align d \<noteq> 0" "unat sz + unat (eg_align d) \<le> 2 ^ 64" using al by (auto simp: eager_request_ok_def)
  have ku: "unat k = rounded (unat (eg_align d)) (unat sz)" "unat sz \<le> unat k" using round_up [OF rq(2,3)] k_def by simp_all
  have k: "0 < k" "k < eg_min d" "unat (eg_align d) dvd unat k" "sz < eg_min d" "0 < eg_min d"
    using ku m(1) rq(1) rounded_dvd by (auto simp: word_less_nat_alt)
  let ?n = "length (eg_nodes d)" let ?M = "eg_nodes d @ [block_node base (eg_min d)]" let ?N = "divided ?n k ?M"
  let ?A = "insert ?n A \<union> {Suc ?n, Suc (Suc ?n)}"
  define l where "l = fl_insert (eg_min d - k) (Suc (Suc ?n)) (eg_free d)"
  let ?d = "d\<lparr>eg_total := eg_total d + eg_min d, eg_roots := eg_roots d @ [?n], eg_nodes := ?N, eg_used := eg_used d @ [((base, 0), Suc ?n)], eg_free := l\<rparr>"
  note o = eager_okD [OF ok] and r = fresh_root [OF ok b k(5) sz a c]
  have nn: "?M ! ?n = block_node base (eg_min d)" "?n < length ?M" "hi ?M ?n < 2 ^ 64" "Suc ?n = length ?M" "k < en_size (?M ! ?n)"
    using k(2) unsigned_less [of "eg_min d"] by (simp_all add: hi_def block_node_def)
  note dn = divided_nodes [OF nn(2) k(1) nn(5,3,4)]
  have sub: "A \<subseteq> {..<?n}" "A \<subseteq> {..<Suc ?n}" using r(5) by fastforce+
  have ag: "agree A (eg_nodes d) ?N" by (rule agree_trans [OF agree_mono [OF r(1) sub(1)] dn(1) sub(2)])
  have nU: "Suc ?n \<notin> U" "Suc ?n \<notin> G" "Suc (Suc ?n) \<notin> F" "?n \<notin> U \<union> G" using r(5) o(4,5,6) by fastforce+
  have fo: "forest (unat (eg_align d)) ?A (insert (Suc (Suc ?n)) F) (insert (Suc ?n) U \<union> G) None ?N"
    using forest_divide [OF r(3) insertI1 k(1) nn(5) k(3) nn(4)] nU(4) by simp
  have y: "en_base (?N ! Suc ?n) = base" "lo ?N (Suc ?n) = 0" "hi ?N (Suc ?n) = unat k"
    using dn(2,4,6) agreeD(1) [OF dn(1), of ?n] nn(1) by (simp_all add: cut_at_def lo_def block_node_def)
  have ft: "fitted ?N (Suc ?n) sz align (hi ?N (Suc ?n)) (base, 0)" using y ku(2) by (simp add: fitted_def)
  have lf: "leafed ?A (insert (Suc (Suc ?n)) F \<union> (insert (Suc ?n) U \<union> G)) ?N" using fo by (simp add: forest_def)
  have hi: "used_insert (base, 0) (Suc ?n) (eg_used d) = eg_used d @ [((base, 0), Suc ?n)]" "held ?N (eg_used d @ [((base, 0), Suc ?n)]) (insert (Suc ?n) U)"
    by (rule held_insert [OF lf _ nU(1) _ held_agree [OF ag o(5,10)] ft rq(1)]; auto)+
  have z: "en_size (?N ! Suc (Suc ?n)) = eg_min d - k"
    using same_shapeD(1) [OF same_shape_add_use] by (simp add: divided_def nth_append child_of_def block_node_def)
  have "listed ?N l (insert (Suc (Suc ?n)) F)" unfolding l_def using listed_insert [OF listed_agree [OF ag o(4,9)] nU(3)] z by simp
  then have "eager_ok ?A (insert (Suc (Suc ?n)) F) (insert (Suc ?n) U) G ?d"
    using fo hi(2) o(8) nU listed_agree [OF ag o(6,11)] by (auto simp: eager_ok_def)
  moreover have "blocks_ok s' ?A ?d"
  proof (rule blocks_grew [OF r(4) [of "?d\<lparr>eg_nodes := ?M\<rparr>"]])
    show "grew (insert ?n A) (?d\<lparr>eg_nodes := ?M\<rparr>) ?A ?d" using dn(1,3,6) by (simp add: grew_def)
    show "placed (unat (eg_align d)) (insert ?n A) (eg_nodes (?d\<lparr>eg_nodes := ?M\<rparr>))" using r(3) by (simp add: forest_def)
  qed simp_all
  moreover have "new_block src sz align d s = Inr (MemChunk_ptr (Some base) 0, ?d, s')"
    using new_block_min [OF _ k(4) m(2) rq(2) k_def, of src align s base s'] a r(2) hi(1) by (simp add: l_def)
  moreover have "fresh_served A d sz align base (Suc ?n) ?d" using ag ft by (simp add: fresh_served_def)
  ultimately show ?thesis by blast
qed

lemma fresh_step:
  assumes ok: "eager_ok A F U G d" "blocks_ok s A d" and m: "eg_align d \<noteq> 0" "\<forall>g. eg_current d = Some g \<longrightarrow> g < length (eg_groups d)"
    and rq: "eager_request_ok (eg_align d) sz align" "fits (max (eg_min d) sz)" "min_ok d sz"
  shows "\<exists>c d' s' d1 s1. new_block src sz align d s = Inr (c, d1, s1) \<and> collect src d1 s1 = (d', s') \<and> eager_inv s' d' \<and> serves_request sz align d c d'"
proof -
  note o = eager_okD [OF ok(1)]
  have sz: "0 < sz" using rq(1) by (simp add: eager_request_ok_def)
  obtain c s1 where a: "alloc (max (eg_min d) sz) align s = (c, s1)" by (cases "alloc (max (eg_min d) sz) align s")
  show ?thesis
  proof (cases "chunk_first c")
    case None
    have "(if eg_min d \<noteq> 0 then max (eg_min d) sz else sz) = max (eg_min d) sz" by (simp add: max_absorb2)
    then have "new_block src sz align d s = Inr (c, d, s1)" using a None by (simp add: new_block_def)
    moreover have "blocks_ok s1 A d" using ok(2) alloc_wf [OF _ a rq(2)] alloc_keeps [OF _ a rq(2)] by (auto simp: blocks_ok_def)
    then obtain R s' where "collect src d s1 = (d\<lparr>eg_roots := R\<rparr>, s')" "eager_inv s' (d\<lparr>eg_roots := R\<rparr>)"
      by (rule collect_inv [OF ok(1) _ m])
    moreover have "serves_request sz align d c (d\<lparr>eg_roots := R\<rparr>)" using None by (simp add: serves_request_def)
    ultimately show ?thesis by blast
  next
    case (Some b)
    have "\<exists>d' A' y. new_block src sz align d s = Inr (MemChunk_ptr (Some b) 0, d', s1) \<and> (\<exists>F U G. eager_ok A' F U G d') \<and> blocks_ok s1 A' d' \<and>
      fresh_served A d sz align b y d'"
    proof (cases "eg_min d \<le> sz")
      case True
      then show ?thesis using fresh_whole [OF ok True sz _ _ Some] a rq(2) by (simp add: max_absorb2)
    next
      case False
      then have "max (eg_min d) sz = eg_min d" by (simp add: max_absorb1)
      then show ?thesis using fresh_divided [OF ok rq(1) _ _ _ _ Some] a rq(2,3) False by (simp add: min_ok_def)
    qed
    then obtain d1 A1 F1 U1 G1 y where d1: "new_block src sz align d s = Inr (MemChunk_ptr (Some b) 0, d1, s1)" "eager_ok A1 F1 U1 G1 d1" "blocks_ok s1 A1 d1"
      "fresh_served A d sz align b y d1" by blast
    note f = d1(4) [unfolded fresh_served_def]
    obtain R s' where c: "collect src d1 s1 = (d1\<lparr>eg_roots := R\<rparr>, s')" "eager_inv s' (d1\<lparr>eg_roots := R\<rparr>)"
      by (rule collect_inv [OF d1(2,3)]) (use f m in auto)
    have "serves_request sz align d (MemChunk_ptr (Some b) 0) d1" by (rule serves_new [OF o(10,5) _ d1(2)]) (use f in auto)
    then have "serves_request sz align d (MemChunk_ptr (Some b) 0) (d1\<lparr>eg_roots := R\<rparr>)" by (simp add: serves_roots)
    then show ?thesis using d1(1) c by blast
  qed
qed

lemma alloc_step:
  assumes inv: "eager_inv s d" and al: "align = (if align0 = 0 then eg_align d else align0)" and rq: "eager_request_ok (eg_align d) sz align" "fits (max (eg_min d) sz)" "min_ok d sz"
  shows "\<exists>c d' s'. Eager_alloc src sz separate align0 d s = Inr (c, d', s') \<and> eager_inv s' d' \<and> serves_request sz align d c d'"
proof -
  obtain A F U G where ok: "eager_ok A F U G d" "blocks_ok s A d" and m: "eg_align d \<noteq> 0"
    "\<forall>g. eg_current d = Some g \<longrightarrow> g < length (eg_groups d)" using inv by (auto simp: eager_inv_def)
  note o = eager_okD [OF ok(1)]
  note fresh = fresh_step [OF ok m rq]
  show ?thesis
  proof (cases "separate \<or> reuse sz align d = Inr (None, d)")
    case True
    obtain c d' s' d1 s1 where "new_block src sz align d s = Inr (c, d1, s1)" "collect src d1 s1 = (d', s')" "eager_inv s' d'" "serves_request sz align d c d'"
      using fresh by blast
    moreover from this have "Eager_alloc src sz separate align0 d s = Inr (c, d', s')" using True al by (auto simp: Eager_alloc_def Let_def)
    ultimately show ?thesis by blast
  next
    case False
    then obtain ptr d1 A1 y where r0: "reuse sz align d = Inr (Some ptr, d1)" "granted A d sz align ptr d1 A1 y"
      using reuse_granted [OF ok(1) rq(1)] m(2) by blast
    obtain b off where p: "ptr = (b, off)" by (cases ptr)
    have r: "reuse sz align d = Inr (Some (b, off), d1)" and g: "granted A d sz align (b, off) d1 A1 y" using r0 p by simp_all
    obtain F1 U1 G1 where k: "eager_ok A1 F1 U1 G1 d1" using g unfolding granted_def by blast
    have gr: "grew A d A1 d1" "eg_used d1 = eg_used d @ [((b, off), y)]" "fitted (eg_nodes d1) y sz align (hi (eg_nodes d1) y) (b, off)"
      using g by (auto simp: granted_def)
    have bl: "blocks_ok s A1 d1" by (rule blocks_grew [OF ok(2) gr(1) o(1)])
    obtain R s' where c: "collect src d1 s = (d1\<lparr>eg_roots := R\<rparr>, s')" "eager_inv s' (d1\<lparr>eg_roots := R\<rparr>)"
      by (rule collect_inv [OF k bl]) (use gr(1) m in \<open>auto simp: grew_def\<close>)
    have "agree A (eg_nodes d) (eg_nodes d1)" using gr(1) o(1) by (auto simp: grew_def agree_def placed_def)
    then have "serves_request sz align d (MemChunk_ptr (Some b) off) d1" by (rule serves_new [OF o(10,5) _ k gr(2,3)])
    then have "serves_request sz align d (MemChunk_ptr (Some b) off) (d1\<lparr>eg_roots := R\<rparr>)" by (simp add: serves_roots)
    moreover have "Eager_alloc src sz separate align0 d s = Inr (MemChunk_ptr (Some b) off, d1\<lparr>eg_roots := R\<rparr>, s')"
      using False r c(1) al by (simp add: Eager_alloc_def Let_def)
    ultimately show ?thesis using c(2) by blast
  qed
qed

lemma blocks_shrank:
  assumes b: "blocks_ok s A d" and h: "shrank A d A' d'"
  shows "blocks_ok s A' d'"
proof -
  have s: "same_shape (eg_nodes d) (eg_nodes d')" "eg_roots d' = eg_roots d" "A' \<subseteq> A" using h by (auto simp: shrank_def)
  then show ?thesis using b unfolding blocks_ok_def chunk_of_def same_shape_def by auto
qed

lemma shrank_room:
  assumes "eager_ok A F U G d" and "shrank A d A' d'" and "map_of (eg_used d') k = map_of (eg_used d) k"
  shows "room d' k = room d k"
  using room_agree [OF agree_shape eager_okD(10) [OF assms(1)] subset_refl assms(3)] assms(2) by (simp add: shrank_def)

lemma shrank_collect:
  assumes inv: "eager_inv s d" and ok: "eager_ok A F U G d" "blocks_ok s A d" and h: "shrank A d A' d1" "eager_ok A' F' U' G' d1"
    and g: "length (eg_groups d1) = length (eg_groups d) \<or> eg_current d = None"
  obtains R s' where "collect src d1 s = (d1\<lparr>eg_roots := R\<rparr>, s')" "eager_inv s' (d1\<lparr>eg_roots := R\<rparr>)"
  by (rule collect_inv [OF h(2) blocks_shrank [OF ok(2) h(1)]]) (use inv h(1) g in \<open>auto simp: eager_inv_def shrank_def\<close>)

lemma free_step:
  assumes inv: "eager_inv s d" and k: "map_of (eg_used d) (b, off) = Some n"
  shows "\<exists>d' s'. Eager_free src (MemChunk_ptr (Some b) off) d s = Some (Inr (True, d', s')) \<and> eager_inv s' d' \<and>
    room d' (b, off) = {} \<and> (\<forall>k. k \<noteq> (b, off) \<longrightarrow> room d' k = room d k)"
proof -
  obtain A F U G where ok: "eager_ok A F U G d" "blocks_ok s A d" and m: "\<forall>g. eg_current d = Some g \<longrightarrow> g < length (eg_groups d)"
    using inv by (auto simp: eager_inv_def)
  note o = eager_okD [OF ok(1)]
  have "U \<subseteq> F \<union> (U \<union> G)" by blast
  note he = held_erase(3,4) [OF o(2) this o(10) k]
  obtain d1 A' F' U' G' where d1: "shrank A d A' d1" "eager_ok A' F' U' G' d1" "length (eg_groups d1) = length (eg_groups d)"
    "eg_used d1 = used_erase (b, off) (eg_used d)"
    "Eager_free src (MemChunk_ptr (Some b) off) d s = Some (case collect src d1 s of (d3, s1) \<Rightarrow> Inr (True, d3, s1))"
  proof (cases "eg_current d")
    case None
    obtain l N A' F' where r: "returnMemory (eg_free d) n True (eg_nodes d) = Some (l, N)"
      "eager_ok A' F' (U - {n}) G (d\<lparr>eg_used := used_erase (b, off) (eg_used d), eg_free := l, eg_nodes := N\<rparr>)"
      "shrank A d A' (d\<lparr>eg_used := used_erase (b, off) (eg_used d), eg_free := l, eg_nodes := N\<rparr>)" using free_common [OF ok(1) k] by blast
    show thesis by (rule that [OF r(3,2)]) (use None k r(1) in \<open>simp_all add: Eager_free_def MemChunk_ptr_def\<close>)
  next
    case (Some g)
    then have g: "g < length (eg_groups d)" using m by blast
    obtain l where r: "returnMemory (group_list d g) n False (eg_nodes d) = Some (l, eg_nodes d)"
      "eager_ok A F (U - {n}) (insert n G) (put_group g l (d\<lparr>eg_used := used_erase (b, off) (eg_used d)\<rparr>))"
      "shrank A d A (put_group g l (d\<lparr>eg_used := used_erase (b, off) (eg_used d)\<rparr>))" using free_group [OF ok(1) k g] by blast
    show thesis by (rule that [OF r(3,2)]) (use Some g k r(1) in \<open>simp_all add: Eager_free_def MemChunk_ptr_def put_group_def\<close>)
  qed
  obtain R s' where c: "collect src d1 s = (d1\<lparr>eg_roots := R\<rparr>, s')" "eager_inv s' (d1\<lparr>eg_roots := R\<rparr>)"
    by (rule shrank_collect [OF inv ok d1(1,2)]) (use d1(3) in simp)
  have "room d1 k = room d k" if "k \<noteq> (b, off)" for k using shrank_room [OF ok(1) d1(1)] d1(4) he(1) [OF that] by simp
  moreover have "room d1 (b, off) = {}" using d1(4) he(2) by (simp add: room_def)
  ultimately show ?thesis using d1(5) c by auto
qed

lemma barrier_step:
  assumes inv: "eager_inv s d" and n: "eg_current d = None"
  shows "\<exists>d' s'. Eager_barrierEnd src d s = Some (d', s') \<and> eager_inv s' d' \<and> eg_groups d' = [] \<and> eg_current d' = None \<and> (\<forall>k. room d' k = room d k)"
proof -
  obtain A F U G where ok: "eager_ok A F U G d" "blocks_ok s A d" using inv by (auto simp: eager_inv_def)
  obtain l N A' F' where r: "return_each (map snd (concat (eg_groups d))) (eg_free d) (eg_nodes d) = Some (l, N)"
    "eager_ok A' F' U {} (d\<lparr>eg_free := l, eg_nodes := N, eg_groups := []\<rparr>)" "shrank A d A' (d\<lparr>eg_free := l, eg_nodes := N, eg_groups := []\<rparr>)"
    using barrier_ok [OF ok(1)] by blast
  let ?d = "d\<lparr>eg_free := l, eg_nodes := N, eg_groups := []\<rparr>"
  obtain R s' where c: "collect src ?d s = (?d\<lparr>eg_roots := R\<rparr>, s')" "eager_inv s' (?d\<lparr>eg_roots := R\<rparr>)"
    by (rule shrank_collect [OF inv ok r(3,2)]) (use n in simp)
  have "room ?d k = room d k" for k using shrank_room [OF ok(1) r(3)] by simp
  then show ?thesis using r(1) c n by (simp add: Eager_barrierEnd_def)
qed

lemma release_all_step:
  assumes inv: "eager_inv s d" and g: "eg_groups d = []"
  shows "\<exists>d' s'. Eager_release src True d s = (d', s') \<and> eager_inv s' d' \<and> (\<forall>k. room d' k = {})"
proof -
  let ?d = "d\<lparr>eg_used := [], eg_free := [], eg_total := 0\<rparr>"
  obtain A F U G where ok: "eager_ok A F U G d" "blocks_ok s A d" and m: "eg_align d \<noteq> 0" "eg_current d = None"
    using inv g by (auto simp: eager_inv_def)
  have e: "eager_ok {} {} {} {} ?d" using g by (simp add: eager_ok_def forest_def placed_def leafed_def counted_def listed_def held_def)
  have b: "blocks_ok s {} ?d" using ok(2) by (simp add: blocks_ok_def)
  obtain R s' where c: "collect src ?d s = (?d\<lparr>eg_roots := R\<rparr>, s')" "eager_inv s' (?d\<lparr>eg_roots := R\<rparr>)"
    by (rule collect_inv [OF e b]) (use m in simp_all)
  have "room (?d\<lparr>eg_roots := R\<rparr>) k = {}" for k unfolding room_roots by (simp add: room_def)
  then show ?thesis using c by (simp add: Eager_release_def)
qed

lemma release_free_step:
  assumes inv: "eager_inv s d"
  shows "\<exists>d' s'. Eager_release src False d s = (d', s') \<and> eager_inv s' d' \<and> (\<forall>k. room d' k = room d k)"
proof -
  let ?w = "\<lambda>x. en_parent (eg_nodes d ! x) = None"
  let ?d = "d\<lparr>eg_total := foldl (\<lambda>t e. t - fst e) (eg_total d) (filter (\<lambda>e. ?w (snd e)) (eg_free d)), eg_free := filter (\<lambda>e. \<not> ?w (snd e)) (eg_free d)\<rparr>"
  obtain A F U G where ok: "eager_ok A F U G d" "blocks_ok s A d" and m: "eg_align d \<noteq> 0" "\<forall>g. eg_current d = Some g \<longrightarrow> g < length (eg_groups d)"
    using inv by (auto simp: eager_inv_def)
  note o = eager_okD [OF ok(1)]
  let ?K = "{x \<in> F. ?w x}"
  have "{x \<in> F. \<not> ?w x} = F - ?K" by auto
  then have l: "listed (eg_nodes d) (filter (\<lambda>e. \<not> ?w (snd e)) (eg_free d)) (F - ?K)" using listed_filter [OF o(9), of "\<lambda>x. \<not> ?w x"] by simp
  have "forest (unat (eg_align d)) (A - ?K) (F - ?K) (U \<union> G) None (eg_nodes d)" by (rule forest_drop [OF o(7)]) auto
  then have e: "eager_ok (A - ?K) (F - ?K) U G ?d" using l o(8,10,11) by (simp add: eager_ok_def)
  have b: "blocks_ok s (A - ?K) ?d" using ok(2) by (simp add: blocks_ok_def)
  obtain R s' where c: "collect src ?d s = (?d\<lparr>eg_roots := R\<rparr>, s')" "eager_inv s' (?d\<lparr>eg_roots := R\<rparr>)"
    by (rule collect_inv [OF e b]) (use m in simp_all)
  have "room ?d k = room d k" for k by (rule room_agree [OF _ o(10) subset_refl]) (simp_all add: agree_def)
  then show ?thesis using c by (simp add: Eager_release_def Let_def)
qed

lemma group_step:
  assumes inv: "eager_inv s d"
  shows "eager_inv s (Eager_beginGroup d)" "eager_inv s (Eager_endGroup d)"
  using inv by (auto simp: eager_inv_def eager_ok_def blocks_ok_def Eager_beginGroup_def Eager_endGroup_def)

lemma ctor_inv:
  assumes "wf s" and "al \<noteq> 0"
  shows "eager_inv s (Eager_ctor al minAllocSize)"
proof -
  have "eager_ok {} {} {} {} (Eager_ctor al minAllocSize)" by (simp add: eager_ok_def Eager_ctor_def forest_def placed_def leafed_def counted_def listed_def held_def)
  moreover have "blocks_ok s {} (Eager_ctor al minAllocSize)" using assms(1) by (simp add: blocks_ok_def Eager_ctor_def)
  ultimately show ?thesis using assms(2) unfolding eager_inv_def by (auto simp: Eager_ctor_def)
qed

lemma room_live:
  assumes inv: "eager_inv s d" and e: "map_of (eg_used d) k = Some x"
  shows "\<exists>n. live s (MemChunk_ptr (Some (fst k)) 0) n \<and> room d k \<subseteq> {..<n}"
proof -
  obtain A F U G where ok: "eager_ok A F U G d" "blocks_ok s A d" using inv by (auto simp: eager_inv_def)
  note o = eager_okD [OF ok(1)]
  have h: "x \<in> U" "fst k = en_base (eg_nodes d ! x)" using heldD [OF o(10) map_of_SomeD [OF e]] unfolding fst_conv snd_conv by blast+
  then have x: "x \<in> A" using o(5) by blast
  obtain r where r: "r \<in> A" "en_parent (eg_nodes d ! r) = None" "en_base (eg_nodes d ! r) = fst k" "hi (eg_nodes d) x \<le> hi (eg_nodes d) r"
    unfolding h(2) using root_base [OF o(1) x] by blast
  have "r \<in> set (eg_roots d)" using ok(2) r(1,2) unfolding blocks_ok_def by blast
  then have "live s (chunk_of (eg_nodes d) r) (unat (en_size (eg_nodes d ! r)))" "en_offset (eg_nodes d ! r) = 0"
    using ok(2) unfolding blocks_ok_def by blast+
  then have l: "live s (MemChunk_ptr (Some (fst k)) 0) (unat (en_size (eg_nodes d ! r)))" "hi (eg_nodes d) r = unat (en_size (eg_nodes d ! r))"
    using r(3) by (simp_all add: chunk_of_def hi_def)
  have "room d k \<subseteq> {..<unat (en_size (eg_nodes d ! r))}" using e r(4) l(2) by (auto simp: room_def)
  then show ?thesis using l(1) by blast
qed

end

text \<open>The destructor leaves no block behind, in whatever state.\<close>

lemma dtor_holds_nothing: "eg_roots (fst (Eager_dtor root d s)) = []"
  by (simp add: Eager_dtor_def Eager_release_def collect_def referenced_def Let_def split: prod.splits)

section \<open>On the default allocator\<close>

interpretation eb: block_source Default_onAlloc Default_onRelease "\<lambda>m. heap_wf (c_heap m)" default_live default_fits
  by unfold_locales (auto simp: Default_onAlloc_def MemChunk_ptr_def split: prod.splits)

abbreviation used_align :: "Eager \<Rightarrow> size_t \<Rightarrow> size_t" where
  "used_align d align \<equiv> (if align = 0 then eg_align d else align)"

text \<open>
  The states a client can reach that keeps to the following: requests are not empty and do not overflow when rounded; when the request is smaller than a
  minimal block size (without one, the default, this never happens) it is made outside of groups and leaves some of the minimal block (\<open>min_ok\<close>), since inside a
  group the code overlaps chunks; a group is ended before the barrier, and everything is released outside of barriers only.
\<close>

inductive eager_reach :: "c_memory \<Rightarrow> Eager \<Rightarrow> bool" where
  eager_start: "heap_wf (c_heap m) \<Longrightarrow> al \<noteq> 0 \<Longrightarrow> eager_reach m (Eager_ctor al minAllocSize)"
| eager_alloc: "eager_reach m d \<Longrightarrow> eager_request_ok (eg_align d) sz (used_align d align) \<Longrightarrow> default_fits (max (eg_min d) sz) \<Longrightarrow> min_ok d sz \<Longrightarrow>
    Eager_alloc DefaultAllocator sz separate align d m = Inr (c, d', m') \<Longrightarrow> eager_reach m' d'"
| eager_free: "eager_reach m d \<Longrightarrow> Eager_free DefaultAllocator c d m = Some (Inr (freed, d', m')) \<Longrightarrow> eager_reach m' d'"
| eager_begin: "eager_reach m d \<Longrightarrow> eager_reach m (Eager_beginGroup d)"
| eager_end: "eager_reach m d \<Longrightarrow> eager_reach m (Eager_endGroup d)"
| eager_barrier: "eager_reach m d \<Longrightarrow> eager_reach m (Eager_barrierBegin d)"
| eager_barrierEnd: "eager_reach m d \<Longrightarrow> eg_current d = None \<Longrightarrow> Eager_barrierEnd DefaultAllocator d m = Some (d', m') \<Longrightarrow> eager_reach m' d'"
| eager_release: "eager_reach m d \<Longrightarrow> (all_release \<Longrightarrow> eg_groups d = []) \<Longrightarrow> Eager_release DefaultAllocator all_release d m = (d', m') \<Longrightarrow> eager_reach m' d'"

lemma free_unknown:
  assumes "Eager_free root c d s = Some (Inr (freed, d', s'))"
  shows "(d' = d \<and> s' = s) \<or> (\<exists>b n. chunk_first c = Some b \<and> map_of (eg_used d) (b, chunk_second c) = Some n)"
  using assms by (cases "chunk_first c"; cases "map_of (eg_used d) (the (chunk_first c), chunk_second c)") (auto simp: Eager_free_def)

lemma free_chunk: "chunk_first c = Some b \<Longrightarrow> Eager_free root c d s = Eager_free root (MemChunk_ptr (Some b) (chunk_second c)) d s"
  by (simp add: Eager_free_def MemChunk_ptr_def Let_def cong: option.case_cong)

lemma eager_reach_inv: "eager_reach m d \<Longrightarrow> eb.eager_inv m d"
proof (induction rule: eager_reach.induct)
  case (eager_start m al minAllocSize)
  then show ?case using eb.ctor_inv by simp
next
  case (eager_alloc m d sz align separate c d' m')
  then show ?case using eb.alloc_step [OF eager_alloc.IH refl eager_alloc.hyps(2,3,4), of separate] by (auto simp: DefaultAllocator_def)
next
  case (eager_free m d c freed d' m')
  show ?case
  proof (cases "d' = d \<and> m' = m")
    case False
    then obtain b n where b: "chunk_first c = Some b" "map_of (eg_used d) (b, chunk_second c) = Some n" using free_unknown [OF eager_free.hyps(2)] by blast
    have "Eager_free DefaultAllocator (MemChunk_ptr (Some b) (chunk_second c)) d m = Some (Inr (freed, d', m'))"
      unfolding free_chunk [OF b(1), symmetric] by (rule eager_free.hyps(2))
    then show ?thesis using eb.free_step [OF eager_free.IH b(2)] by (auto simp: DefaultAllocator_def)
  qed (use eager_free.IH in simp)
next
  case (eager_barrierEnd m d d' m')
  then show ?case using eb.barrier_step [OF eager_barrierEnd.IH] by (auto simp: DefaultAllocator_def)
next
  case (eager_release m d all_release d' m')
  then show ?case using eb.release_all_step [OF eager_release.IH] eb.release_free_step [OF eager_release.IH]
    by (cases all_release) (auto simp: DefaultAllocator_def)
qed (simp_all add: eb.group_step Eager_barrierBegin_def)

text \<open>
  C6: allocation. In every state such a client can reach, for a request that is not empty and does not overflow when rounded, and, when there is a minimal
  block size larger than the request, outside of groups and leaving some of the minimal block (\<open>min_ok\<close>; without a minimal block size, the
  default, every request is allowed): \<open>alloc\<close> returns, and either no chunk and nothing a client
  holds changes, or a chunk that was not in use, at a multiple of the alignment, with at least the bytes asked for, and
  the chunks held before keep their bytes.
\<close>

theorem eager_alloc_serves:
  assumes "eager_reach m d" and "eager_request_ok (eg_align d) sz (used_align d align)" and "default_fits (max (eg_min d) sz)" and "min_ok d sz"
  shows "\<exists>c d' m'. Eager_alloc DefaultAllocator sz separate align d m = Inr (c, d', m') \<and> eager_reach m' d' \<and>
    serves_request sz (used_align d align) d c d'"
  using eb.alloc_step [OF eager_reach_inv [OF assms(1)] refl assms(2-4), of separate] eager_reach.eager_alloc [OF assms]
  unfolding DefaultAllocator_def by blast

text \<open>
  C5: chunks are separate. In every state reached by a client whose requests are not empty and do not overflow, who ends a group before the barrier and releases
  everything outside of barriers only, and who, where there is a minimal block size (there is none by default), makes smaller requests outside of groups only
  and such that some of the minimal block is left (inside a group the code does overlap chunks, \<open>eager_min_in_group_overlaps\<close>): the bytes of two chunks in use of the same block do not overlap,
  and the bytes of every chunk lie inside a live block of the default allocator.
\<close>

theorem eager_chunks_disjoint:
  assumes "eager_reach m d"
  shows "(\<forall>k k'. k \<noteq> k' \<and> fst k = fst k' \<longrightarrow> room d k \<inter> room d k' = {}) \<and>
    (\<forall>k \<in> fst ` set (eg_used d). \<exists>n. default_live m (MemChunk_ptr (Some (fst k)) 0) n \<and> room d k \<noteq> {} \<and> room d k \<subseteq> {..<n})"
proof (intro conjI allI impI ballI)
  have inv: "eb.eager_inv m d" by (rule eager_reach_inv [OF assms])
  then obtain A F U G where ok: "eager_ok A F U G d" unfolding eb.eager_inv_def by blast
  show "room d k \<inter> room d k' = {}" if "k \<noteq> k' \<and> fst k = fst k'" for k k' using rooms_apart [OF ok] that by blast
  fix k assume "k \<in> fst ` set (eg_used d)"
  then obtain x where x: "map_of (eg_used d) k = Some x" using map_of_eq_None_iff [of "eg_used d" k] by fastforce
  have "unat (snd k) < hi (eg_nodes d) x" using heldD [OF eager_okD(10) [OF ok] map_of_SomeD [OF x]] unfolding fst_conv snd_conv by blast
  then have "room d k \<noteq> {}" using x by (simp add: room_def)
  then show "\<exists>n. default_live m (MemChunk_ptr (Some (fst k)) 0) n \<and> room d k \<noteq> {} \<and> room d k \<subseteq> {..<n}"
    using eb.room_live [OF inv x] by blast
qed

text \<open>
  C7: giving back. In every state such a client can reach \<open>free\<close> of a chunk in use ends with \<open>true\<close>, takes exactly this chunk's bytes away and
  leaves a state that can be reached; \<open>barrierEnd\<close> outside of a group ends, empties the groups and leaves every chunk its bytes.
\<close>

theorem eager_gives_back:
  assumes "eager_reach m d"
  shows "((b, off) \<in> fst ` set (eg_used d) \<longrightarrow> (\<exists>d' m'. Eager_free DefaultAllocator (MemChunk_ptr (Some b) off) d m = Some (Inr (True, d', m')) \<and>
      eager_reach m' d' \<and> room d' (b, off) = {} \<and> (\<forall>k. k \<noteq> (b, off) \<longrightarrow> room d' k = room d k))) \<and>
    (eg_current d = None \<longrightarrow> (\<exists>d' m'. Eager_barrierEnd DefaultAllocator d m = Some (d', m') \<and> eager_reach m' d' \<and> eg_groups d' = [] \<and>
      (\<forall>k. room d' k = room d k)))"
proof (intro conjI impI)
  note inv = eager_reach_inv [OF assms]
  assume "(b, off) \<in> fst ` set (eg_used d)"
  then obtain n where "map_of (eg_used d) (b, off) = Some n" using map_of_eq_None_iff [of "eg_used d" "(b, off)"] by fastforce
  then obtain d' m' where f: "Eager_free DefaultAllocator (MemChunk_ptr (Some b) off) d m = Some (Inr (True, d', m'))"
    "room d' (b, off) = {}" "\<forall>k. k \<noteq> (b, off) \<longrightarrow> room d' k = room d k" using eb.free_step [OF inv] unfolding DefaultAllocator_def by blast
  then show "\<exists>d' m'. Eager_free DefaultAllocator (MemChunk_ptr (Some b) off) d m = Some (Inr (True, d', m')) \<and>
      eager_reach m' d' \<and> room d' (b, off) = {} \<and> (\<forall>k. k \<noteq> (b, off) \<longrightarrow> room d' k = room d k)"
    using eager_reach.eager_free [OF assms f(1)] by blast
next
  assume n: "eg_current d = None"
  then obtain d' m' where f: "Eager_barrierEnd DefaultAllocator d m = Some (d', m')" "eg_groups d' = []" "\<forall>k. room d' k = room d k"
    using eb.barrier_step [OF eager_reach_inv [OF assms]] unfolding DefaultAllocator_def by blast
  then show "\<exists>d' m'. Eager_barrierEnd DefaultAllocator d m = Some (d', m') \<and> eager_reach m' d' \<and> eg_groups d' = [] \<and>
      (\<forall>k. room d' k = room d k)" using eager_reach.eager_barrierEnd [OF assms n f(1)] by blast
qed

section \<open>A run\<close>

lemmas eager_defs = Eager_alloc_def Eager_ctor_def Eager_free_def Eager_barrierEnd_def Eager_beginGroup_def Eager_endGroup_def reuse_def new_block_def getFromFreeList_def collect_def
  referenced_def returnMemory_def lower_bound_def fl_insert_def used_insert_def used_erase_def add_use_def child_of_def group_list_def put_group_def UP_DIV_def
  DefaultAllocator_def MemChunk_ptr_def Let_def

definition demo_block :: c_memory where
  "demo_block = snd (Default_onAlloc 192 64 demo_memory)"

definition eager_whole :: Eager where
  "eager_whole = \<lparr>eg_total = 192, eg_used = [((64, 0), 0)], eg_free = [], eg_current = None, eg_groups = [], eg_align = 64, eg_min = 0,
     eg_nodes = [\<lparr>en_base = 64, en_offset = 0, en_parent = None, en_size = 192, en_useCount = 0\<rparr>], eg_roots = [0]\<rparr>"

definition eager_cut :: Eager where
  "eager_cut = \<lparr>eg_total = 192, eg_used = [((64, 0), 1)], eg_free = [(128, 2)], eg_current = None, eg_groups = [], eg_align = 64, eg_min = 0,
     eg_nodes = [\<lparr>en_base = 64, en_offset = 0, en_parent = None, en_size = 192, en_useCount = 1\<rparr>,
       \<lparr>en_base = 64, en_offset = 0, en_parent = Some 0, en_size = 64, en_useCount = 0\<rparr>,
       \<lparr>en_base = 64, en_offset = 64, en_parent = Some 0, en_size = 128, en_useCount = 0\<rparr>], eg_roots = [0]\<rparr>"

lemma demo_block_alloc: "Default_onAlloc 192 64 demo_memory = (MemChunk_ptr (Some 64) 0, demo_block)"
  by (simp add: demo_block_def Default_onAlloc_def MNNMemoryAllocAlign_def demo_memory_def tn_defs demo_heap_def alignPointer_def MNN_MEMORY_ALIGN_DEFAULT_def Let_def)

lemma demo_whole: "Eager_alloc DefaultAllocator 192 False 0 (Eager_ctor 64 0) demo_memory = Inr (MemChunk_ptr (Some 64) 0, eager_whole, demo_block)"
  using demo_block_alloc by (simp add: eager_defs eager_whole_def)

lemma demo_whole_freed: "Eager_free DefaultAllocator (MemChunk_ptr (Some 64) 0) eager_whole demo_block =
    Some (Inr (True, eager_whole\<lparr>eg_used := [], eg_free := [(192, 0)]\<rparr>, demo_block))"
  by (simp add: eager_defs eager_whole_def)

lemma demo_cut: "Eager_alloc DefaultAllocator 50 False 0 (eager_whole\<lparr>eg_used := [], eg_free := [(192, 0)]\<rparr>) demo_block =
    Inr (MemChunk_ptr (Some 64) 0, eager_cut, demo_block)"
  by (simp add: eager_defs eager_whole_def eager_cut_def)

lemma eager_cut_reach: "eager_reach demo_block eager_cut"
proof -
  have "eager_reach demo_memory (Eager_ctor 64 0)" by (rule eager_start) (simp_all add: demo_memory_def)
  then have "eager_reach demo_block eager_whole"
    by (rule eager_reach.eager_alloc [OF _ _ _ _ demo_whole]) (simp_all add: eager_request_ok_def Eager_ctor_def default_fits_def min_ok_def)
  then have "eager_reach demo_block (eager_whole\<lparr>eg_used := [], eg_free := [(192, 0)]\<rparr>)" by (rule eager_reach.eager_free [OF _ demo_whole_freed])
  then show ?thesis
    by (rule eager_reach.eager_alloc [OF _ _ _ _ demo_cut]) (simp_all add: eager_request_ok_def eager_whole_def default_fits_def min_ok_def)
qed

text \<open>The second part of the cut block is handed out next.\<close>

theorem eager_alloc_serves_witness:
  "\<exists>d' m'. Eager_alloc DefaultAllocator 100 False 32 eager_cut demo_block = Inr (MemChunk_ptr (Some 64) 64, d', m') \<and>
     {64..<164} \<subseteq> room d' (64, 64) \<and> room d' (64, 0) = room eager_cut (64, 0)"
proof -
  obtain d' m' where a: "Eager_alloc DefaultAllocator 100 False 32 eager_cut demo_block = Inr (MemChunk_ptr (Some 64) 64, d', m')"
    by (simp add: eager_defs eager_cut_def)
  have "serves_request 100 32 eager_cut (MemChunk_ptr (Some 64) 64) d'"
    using eager_alloc_serves [OF eager_cut_reach, of 100 32 False] a by (simp add: eager_request_ok_def eager_cut_def default_fits_def min_ok_def)
  then show ?thesis using a by (simp add: serves_request_def MemChunk_ptr_def Let_def)
qed

theorem eager_chunks_disjoint_witness:
  "\<exists>n. default_live demo_block (MemChunk_ptr (Some 64) 0) n \<and> room eager_cut (64, 0) = {0..<64} \<and> room eager_cut (64, 0) \<subseteq> {..<n}"
  using eager_chunks_disjoint [OF eager_cut_reach] by (simp add: eager_cut_def room_def hi_def)

theorem eager_gives_back_witness:
  "\<exists>d' m'. Eager_free DefaultAllocator (MemChunk_ptr (Some 64) 0) eager_cut demo_block = Some (Inr (True, d', m')) \<and> room d' (64, 0) = {} \<and>
     Eager_barrierEnd DefaultAllocator eager_cut demo_block \<noteq> None"
  using eager_gives_back [OF eager_cut_reach, of 64 0] by (auto simp: eager_cut_def)

text \<open>
  With a minimal size the rest of a new block goes to the current group without being counted: the barrier then joins the block although
  its first part is in use, and the next request is given the same bytes a second time.
\<close>

theorem eager_min_in_group_overlaps:
  "\<exists>d1 d2 d3 m1 m2 m3. Eager_alloc DefaultAllocator 50 False 0 (Eager_beginGroup (Eager_ctor 64 192)) demo_memory = Inr (MemChunk_ptr (Some 64) 0, d1, m1) \<and>
     Eager_barrierEnd DefaultAllocator (Eager_endGroup d1) m1 = Some (d2, m2) \<and> eg_used d2 = [((64, 0), 1)] \<and>
     Eager_alloc DefaultAllocator 192 False 0 d2 m2 = Inr (MemChunk_ptr (Some 64) 0, d3, m3)"
  using demo_block_alloc by (simp add: eager_defs)

end
