(* ===== verification/MNN_Shape_Stride.thy ===== *)
theory MNN_Shape_Stride
  imports MNN_Shape_Facts
begin

unbundle bit_operations_syntax

text \<open>
  Shape inference for strided slices (\<open>MNN/source/shape/ShapeStridedSlice.cpp\<close>). The local arrays
  of nine cells are lists; an index outside is \<open>Undefined\<close>. The arrays \<open>beginShape\<close>, \<open>endShape\<close> and
  \<open>stridedShape\<close> are only read in the iteration that writes them and become local variables;
  \<open>outputShape\<close> is written and never read, and left out; \<open>inputDimOffset\<close> and \<open>strideDealDims\<close> always
  agree and are one counter.
\<close>

record StridedSliceParam =
  beginMask :: int
  endMask :: int
  ellipsisMask :: int
  newAxisMask :: int
  shrinkAxisMask :: int
  fromType :: int

record slice_arrays =
  begins :: "int list"
  ends :: "int list"
  strides :: "int list"
  beginMasks :: "int list"
  endMasks :: "int list"
  shrinkAxisMasks :: "int list"
  newAxisMasks :: "int list"
  strideSize :: int

definition zeros :: "int list" where
  "zeros = replicate MNN_MAX_TENSOR_DIM 0"

definition mask_bits :: "int \<Rightarrow> int \<Rightarrow> int list res" where
  "mask_bits bits n = for_each (in_range 0 n) (\<lambda>i xs. put xs i (bits AND push_bit (nat i) 1)) zeros"

definition slice_arrays_of :: "StridedSliceParam \<Rightarrow> int list \<Rightarrow> int \<Rightarrow> int \<Rightarrow> slice_arrays res" where
  "slice_arrays_of parameter inputShape inputDim len =
     andThen (mask_bits (beginMask parameter) len) (\<lambda>bms.
     andThen (mask_bits (endMask parameter) len) (\<lambda>ems.
     andThen (mask_bits (shrinkAxisMask parameter) len) (\<lambda>sms.
     andThen (mask_bits (newAxisMask parameter) len) (\<lambda>nms.
     andThen (for_each (in_range 0 inputDim) (\<lambda>i xs. andThen (at inputShape i) (\<lambda>l. put xs i l)) zeros) (\<lambda>es.
     andThen (for_each (in_range 0 inputDim) (\<lambda>i xs. put xs i 1) zeros) (\<lambda>ss.
     Ret \<lparr>begins = zeros, ends = es, strides = ss, beginMasks = bms, endMasks = ems, shrinkAxisMasks = sms, newAxisMasks = nms,
          strideSize = len\<rparr>))))))"

subsection \<open>Begins, ends and strides\<close>

text \<open>ONNX: the arrays are given for some axes.\<close>

definition onnx_axis :: "int list \<Rightarrow> int \<Rightarrow> Tensor \<Rightarrow> Tensor \<Rightarrow> Tensor option \<Rightarrow> Tensor option \<Rightarrow> int \<Rightarrow> slice_arrays \<Rightarrow> slice_arrays res" where
  "onnx_axis inputShape inputDim begin_t end_t axis step i a =
     andThen (case axis of None \<Rightarrow> Ret i
       | Some t \<Rightarrow> andThen (at (host t) i) (\<lambda>x. if x < 0 then i32 (x + inputDim) else Ret x)) (\<lambda>temp_axis.
     andThen (case step of None \<Rightarrow> Ret a
       | Some t \<Rightarrow> andThen (at (host t) i) (\<lambda>s. andThen (put (strides a) temp_axis s) (\<lambda>ss.
           if s = 0 then ReturnFalse else Ret (a\<lparr>strides := ss\<rparr>)))) (\<lambda>a.
     andThen (at inputShape temp_axis) (\<lambda>sh.
     andThen (at (host begin_t) i) (\<lambda>b.
     andThen (if b < 0 then i32 (b + sh) else Ret b) (\<lambda>b.
     andThen (put (begins a) temp_axis b) (\<lambda>bs.
     andThen (at (host end_t) i) (\<lambda>e.
     andThen (if e < 0 then i32 (e + sh) else Ret e) (\<lambda>e.
     andThen (put (ends a) temp_axis e) (\<lambda>es.
     Ret (a\<lparr>begins := bs, ends := es\<rparr>))))))))))"

definition onnx_slice :: "int list \<Rightarrow> int \<Rightarrow> Tensor list \<Rightarrow> Tensor \<Rightarrow> Tensor \<Rightarrow> slice_arrays \<Rightarrow> slice_arrays res" where
  "onnx_slice inputShape inputDim inputs begin_t end_t a =
     (let axis = (if length inputs \<ge> 4 then Some (inputs ! 3) else None);
          step = (if length inputs = 5 then Some (inputs ! 4) else None)
      in andThen (for_each (in_range 0 (strideSize a)) (onnx_axis inputShape inputDim begin_t end_t axis step) a) (\<lambda>a.
         Ret (a\<lparr>strideSize := inputDim\<rparr>)))"

text \<open>TensorFlow with an ellipsis: the arrays are spread over the axes; \<open>k\<close> is \<open>strideIdx\<close>, \<open>tmp\<close> the new masks.\<close>

definition ellipsis_pos :: "int \<Rightarrow> int \<Rightarrow> int" where
  "ellipsis_pos ellipsis len =
     (case filter (\<lambda>i. ellipsis AND push_bit (nat i) 1 \<noteq> 0) (in_range 0 len) of [] \<Rightarrow> - 1 | i # _ \<Rightarrow> i)"

definition ellipsis_axis ::
    "int list \<Rightarrow> int \<Rightarrow> int \<Rightarrow> Tensor \<Rightarrow> Tensor \<Rightarrow> Tensor option \<Rightarrow> slice_arrays \<Rightarrow> int \<Rightarrow> int \<times> slice_arrays \<Rightarrow> (int \<times> slice_arrays) res" where
  "ellipsis_axis inputShape pos len begin_t end_t strided a i st =
     (case st of (k0, tmp) \<Rightarrow>
      let k = (if i = pos then k0 + 1 else k0)
      in if pos \<le> i \<and> i \<le> pos + len then
           andThen (put (begins tmp) i 0) (\<lambda>bs.
           andThen (at inputShape i) (\<lambda>l. andThen (put (ends tmp) i l) (\<lambda>es.
           andThen (put (strides tmp) i 1) (\<lambda>ss.
           andThen (put (beginMasks tmp) i 0) (\<lambda>bms.
           andThen (put (endMasks tmp) i 0) (\<lambda>ems.
           andThen (put (shrinkAxisMasks tmp) i 0) (\<lambda>sms.
           Ret (k, tmp\<lparr>begins := bs, ends := es, strides := ss, beginMasks := bms, endMasks := ems, shrinkAxisMasks := sms\<rparr>))))))))
         else
           andThen (at (host begin_t) k) (\<lambda>b. andThen (put (begins tmp) i b) (\<lambda>bs.
           andThen (at (host end_t) k) (\<lambda>e. andThen (put (ends tmp) i e) (\<lambda>es.
           andThen (case strided of None \<Rightarrow> Ret (strides tmp) | Some t \<Rightarrow> andThen (at (host t) k) (\<lambda>s. put (strides tmp) i s)) (\<lambda>ss.
           andThen (at (beginMasks a) k) (\<lambda>m. andThen (put (beginMasks tmp) i m) (\<lambda>bms.
           andThen (at (endMasks a) k) (\<lambda>m. andThen (put (endMasks tmp) i m) (\<lambda>ems.
           andThen (at (shrinkAxisMasks a) k) (\<lambda>m. andThen (put (shrinkAxisMasks tmp) i m) (\<lambda>sms.
           andThen (at (newAxisMasks a) k) (\<lambda>m. andThen (put (newAxisMasks tmp) i m) (\<lambda>nms.
           Ret (k + 1, tmp\<lparr>begins := bs, ends := es, strides := ss, beginMasks := bms, endMasks := ems, shrinkAxisMasks := sms,
             newAxisMasks := nms\<rparr>)))))))))))))))"

definition first_cells :: "int \<Rightarrow> int list \<Rightarrow> int list \<Rightarrow> int list" where
  "first_cells n xs ys = take (nat n) xs @ drop (nat n) ys"

definition ellipsis_slice :: "int \<Rightarrow> int list \<Rightarrow> int \<Rightarrow> Tensor \<Rightarrow> Tensor \<Rightarrow> Tensor option \<Rightarrow> slice_arrays \<Rightarrow> slice_arrays res" where
  "ellipsis_slice ellipsis inputShape inputDim begin_t end_t strided a =
     (let pos = ellipsis_pos ellipsis (strideSize a);
          tmp = a\<lparr>beginMasks := zeros, endMasks := zeros, shrinkAxisMasks := zeros, newAxisMasks := zeros\<rparr>
      in andThen (i32 (inputDim - strideSize a)) (\<lambda>ellpsisSize.
         andThen (for_each (in_range 0 inputDim) (ellipsis_axis inputShape pos ellpsisSize begin_t end_t strided a) (0, tmp)) (\<lambda>(k, t).
         Ret (a\<lparr>begins := begins t, ends := ends t, strides := strides t,
           beginMasks := first_cells inputDim (beginMasks t) (beginMasks a), endMasks := first_cells inputDim (endMasks t) (endMasks a),
           shrinkAxisMasks := first_cells inputDim (shrinkAxisMasks t) (shrinkAxisMasks a),
           newAxisMasks := first_cells inputDim (newAxisMasks t) (newAxisMasks a), strideSize := inputDim\<rparr>))))"

definition tf_axis :: "Tensor \<Rightarrow> Tensor \<Rightarrow> Tensor option \<Rightarrow> int \<Rightarrow> slice_arrays \<Rightarrow> slice_arrays res" where
  "tf_axis begin_t end_t strided i a =
     andThen (at (host begin_t) i) (\<lambda>b. andThen (put (begins a) i b) (\<lambda>bs.
     andThen (at (host end_t) i) (\<lambda>e. andThen (put (ends a) i e) (\<lambda>es.
     (case strided of None \<Rightarrow> Undefined
      | Some t \<Rightarrow> andThen (at (host t) i) (\<lambda>s. andThen (put (strides a) i s) (\<lambda>ss.
          if s = 0 then ReturnFalse else Ret (a\<lparr>begins := bs, ends := es, strides := ss\<rparr>))))))))"

definition tf_slice :: "int \<Rightarrow> int list \<Rightarrow> int \<Rightarrow> Tensor list \<Rightarrow> Tensor \<Rightarrow> Tensor \<Rightarrow> slice_arrays \<Rightarrow> slice_arrays res" where
  "tf_slice ellipsis inputShape inputDim inputs begin_t end_t a =
     (let strided = (if length inputs \<ge> 4 then Some (inputs ! 3) else None)
      in if ellipsis > 0 then ellipsis_slice ellipsis inputShape inputDim begin_t end_t strided a
         else for_each (in_range 0 (strideSize a)) (tf_axis begin_t end_t strided) a)"

subsection \<open>The extents\<close>

definition beginAndEndShapeLimit :: "int \<Rightarrow> int \<Rightarrow> bool \<Rightarrow> int res" where
  "beginAndEndShapeLimit sh dimSize exclusive =
     andThen (i32 (dimSize - 1)) (\<lambda>mx. andThen (i32 (- dimSize)) (\<lambda>mn.
     andThen (if exclusive then andThen (i32 (mx + 1)) (\<lambda>mx. andThen (i32 (mn - 1)) (\<lambda>mn. Ret (mx, mn))) else Ret (mx, mn)) (\<lambda>(mx, mn).
     let s = (if sh > mx then mx else sh); s = (if s < mn then mn else s)
     in if s < 0 then i32 (s + dimSize) else Ret s)))"

definition slice_begin :: "int \<Rightarrow> bool \<Rightarrow> int \<Rightarrow> int \<Rightarrow> int res" where
  "slice_begin d masked stride b =
     andThen (if masked then if stride < 0 then i32 (d - 1) else Ret 0
       else if stride < 0 then beginAndEndShapeLimit b d False else Ret (min d b)) (\<lambda>b.
     if b < 0 then
       andThen (i32 (- b)) (\<lambda>temp. andThen (i32 (temp + d)) (\<lambda>u. andThen (i32 (u - 1)) (\<lambda>v. andThen (div32 v d) (\<lambda>q.
       andThen (i32 (q * d)) (\<lambda>r. i32 (r + b))))))
     else Ret b)"

definition slice_end :: "int \<Rightarrow> bool \<Rightarrow> int \<Rightarrow> int \<Rightarrow> int res" where
  "slice_end d masked stride e =
     (if masked then Ret (if stride < 0 then - 1 else d)
      else if stride < 0 then Ret (max (- 1) (min d e)) else beginAndEndShapeLimit e d True)"

definition slice_order :: "int \<Rightarrow> int \<Rightarrow> int \<Rightarrow> (int \<times> int \<times> int) res" where
  "slice_order b e stride =
     (if e < b then
        if stride = 0 then ReturnFalse
        else if stride < 0 then andThen (i32 (- stride)) (\<lambda>s. Ret (e, b, s))
        else Ret (b, b, stride)
      else Ret (b, e, stride))"

definition slice_size :: "int \<Rightarrow> int \<Rightarrow> int \<Rightarrow> int res" where
  "slice_size b e stride =
     andThen (i32 (e - b)) (\<lambda>x. andThen (i32 (x - 1)) (\<lambda>y. andThen (div32 y stride) (\<lambda>q. i32 (q + 1))))"

text \<open>One entry of \<open>outputShapeShrinked\<close>, which has nine cells.\<close>

definition push_extent :: "int \<Rightarrow> int list \<Rightarrow> int list res" where
  "push_extent l xs = (if length xs < MNN_MAX_TENSOR_DIM then Ret (xs @ [l]) else Undefined)"

definition slice_axis :: "int list \<Rightarrow> slice_arrays \<Rightarrow> int \<Rightarrow> int \<times> int list \<Rightarrow> (int \<times> int list) res" where
  "slice_axis inputShape a i st =
     (case st of (dealt, shrinked) \<Rightarrow>
      andThen (at (newAxisMasks a) i) (\<lambda>nm.
      if nm > 0 then andThen (push_extent 1 shrinked) (\<lambda>s. Ret (dealt, s))
      else
        andThen (at inputShape dealt) (\<lambda>d.
        andThen (at (shrinkAxisMasks a) i) (\<lambda>sm.
        andThen (if sm > 0 then Ret 1 else at (strides a) i) (\<lambda>stride.
        andThen (at (beginMasks a) i) (\<lambda>bm. andThen (at (begins a) i) (\<lambda>b0.
        andThen (slice_begin d (bm > 0) stride b0) (\<lambda>b.
        andThen (at (endMasks a) i) (\<lambda>em. andThen (at (ends a) i) (\<lambda>e0.
        andThen (slice_end d (em > 0) stride e0) (\<lambda>e.
        andThen (slice_order b e stride) (\<lambda>(b, e, stride).
        if sm = 0 then
          andThen (slice_size b e stride) (\<lambda>len. andThen (push_extent len shrinked) (\<lambda>s. Ret (dealt + 1, s)))
        else Ret (dealt + 1, shrinked)))))))))))))"

definition StridedSliceComputer :: "StridedSliceParam \<Rightarrow> Tensor list \<Rightarrow> Tensor list \<Rightarrow> Tensor list res" where
  "StridedSliceComputer parameter inputs outputs =
     andThen (at inputs 0) (\<lambda>input.
     andThen (at outputs 0) (\<lambda>out0.
     let inputDim = dimensions input
     in andThen (require (\<not> (inputDim \<le> 0 \<or> inputDim > int MNN_MAX_TENSOR_DIM))) (\<lambda>_.
        if fromType parameter = 0 \<and> length inputs = 5 then
          andThen (copyShape input out0 True) (\<lambda>out.
          Ret (out\<lparr>ttype := ttype input, dimensionFormat := dimensionFormat input\<rparr> # tl outputs))
        else
          andThen (if ellipsisMask parameter = 0 then Ret False
            else andThen (i32 (ellipsisMask parameter - 1)) (\<lambda>m. Ret (ellipsisMask parameter AND m \<noteq> 0))) (\<lambda>many.
          andThen (require (\<not> many)) (\<lambda>_.
          andThen (at inputs 1) (\<lambda>begin_t. andThen (at inputs 2) (\<lambda>end_t.
          andThen (length_at begin_t 0) (\<lambda>len.
          andThen (for_each (in_range 0 inputDim) (\<lambda>i xs. andThen (length_at input i) (\<lambda>l. put xs i l)) zeros) (\<lambda>inputShape.
          andThen (slice_arrays_of parameter inputShape inputDim len) (\<lambda>a.
          andThen (if fromType parameter = 1 then onnx_slice inputShape inputDim inputs begin_t end_t a
            else if fromType parameter = 0 then tf_slice (ellipsisMask parameter) inputShape inputDim inputs begin_t end_t a
            else Ret a) (\<lambda>a.
          andThen (for_each (in_range 0 (strideSize a)) (slice_axis inputShape a) (0, [])) (\<lambda>(dealt, shrinked).
          andThen (for_each (in_range 0 (inputDim - dealt)) (\<lambda>i s. andThen (length_at input (dealt + i)) (\<lambda>l. push_extent l s)) shrinked) (\<lambda>shrinked.
          andThen (for_each (in_range 0 (int (length shrinked))) (\<lambda>i out. andThen (at shrinked i) (\<lambda>l. setLength out i l))
              (out0\<lparr>dimensions := int (length shrinked), ttype := ttype input\<rparr>)) (\<lambda>out.
          Ret (out\<lparr>dimensionFormat := dimensionFormat input\<rparr> # tl outputs)))))))))))))))"

end
