(* ===== verification/MNN_Shape_Window.thy ===== *)
theory MNN_Shape_Window
  imports "HOL-Library.Log_Nat" MNN_Shape_Facts
begin

text \<open>
  Shape inference for operators that slide a window over an image: convolution
  (\<open>MNN/source/shape/ShapeConvolution.cpp\<close>), pooling (\<open>ShapePool.cpp\<close>) and deconvolution
  (\<open>ShapeDeconvolution.cpp\<close>). Some extents are computed in single precision floating point,
  which is modelled by rounding rational numbers to 24 significant bits, ties to even; exponents
  stay in range because all operands are 32-bit integers and quotients of such.
\<close>

subsection \<open>Single precision\<close>

definition round_even :: "rat \<Rightarrow> int" where
  "round_even z =
     (let f = \<lfloor>z\<rfloor>; r = z - of_int f
      in if r < 1 / 2 then f else if r > 1 / 2 then f + 1 else if even f then f else f + 1)"

definition binary_exponent :: "rat \<Rightarrow> int" where
  "binary_exponent q =
     (case quotient_of q of (n, d) \<Rightarrow>
        let k = bitlen n - bitlen d in if 2 powi k \<le> q then k else k - 1)"

definition f32 :: "rat \<Rightarrow> rat" where
  "f32 q = (if q = 0 then 0 else let u = 2 powi (binary_exponent \<bar>q\<bar> - 23) in of_int (round_even (q / u)) * u)"

text \<open>\<open>ceil((float)x / (float)y)\<close>, stored in an \<open>int\<close>.\<close>

definition ceil_div_float :: "int \<Rightarrow> int \<Rightarrow> int res" where
  "ceil_div_float x y = (if y = 0 then Undefined else i32 \<lceil>f32 (f32 (of_int x) / f32 (of_int y))\<rceil>)"

subsection \<open>Convolution\<close>

datatype PadMode = PadMode_CAFFE | PadMode_VALID | PadMode_SAME

record Convolution2DCommon =
  padX :: int
  padY :: int
  kernelX :: int
  kernelY :: int
  strideX :: int
  strideY :: int
  dilateX :: int
  dilateY :: int
  padMode :: PadMode
  group :: int
  outputCount :: int
  inputCount :: int
  pads :: "int list option"
  hasOutputShape :: bool
  outPads :: "int list option"

datatype DataType =
    DT_FLOAT | DT_DOUBLE | DT_INT32 | DT_UINT8 | DT_INT16 | DT_INT8 | DT_INT64 | DT_BOOL | DT_QINT8 | DT_QUINT8 | DT_QINT32
  | DT_BFLOAT16 | DT_QINT16 | DT_QUINT16 | DT_UINT16 | DT_OTHER

definition setType :: "DataType \<Rightarrow> Tensor \<Rightarrow> Tensor" where
  "setType ty t =
     (case ty of
        DT_DOUBLE \<Rightarrow> t\<lparr>ttype := halide_float\<rparr> | DT_FLOAT \<Rightarrow> t\<lparr>ttype := halide_float\<rparr>
      | DT_BFLOAT16 \<Rightarrow> t\<lparr>ttype := \<lparr>type_code = Type_bfloat, type_bits = 16\<rparr>\<rparr>
      | DT_QINT32 \<Rightarrow> t\<lparr>ttype := halide_int32\<rparr> | DT_INT32 \<Rightarrow> t\<lparr>ttype := halide_int32\<rparr>
      | DT_BOOL \<Rightarrow> t\<lparr>ttype := halide_int32\<rparr> | DT_INT64 \<Rightarrow> t\<lparr>ttype := halide_int32\<rparr>
      | DT_QINT8 \<Rightarrow> t\<lparr>ttype := \<lparr>type_code = Type_int, type_bits = 8\<rparr>\<rparr> | DT_INT8 \<Rightarrow> t\<lparr>ttype := \<lparr>type_code = Type_int, type_bits = 8\<rparr>\<rparr>
      | DT_QUINT8 \<Rightarrow> t\<lparr>ttype := \<lparr>type_code = Type_uint, type_bits = 8\<rparr>\<rparr> | DT_UINT8 \<Rightarrow> t\<lparr>ttype := \<lparr>type_code = Type_uint, type_bits = 8\<rparr>\<rparr>
      | DT_QUINT16 \<Rightarrow> t\<lparr>ttype := \<lparr>type_code = Type_uint, type_bits = 16\<rparr>\<rparr> | DT_UINT16 \<Rightarrow> t\<lparr>ttype := \<lparr>type_code = Type_uint, type_bits = 16\<rparr>\<rparr>
      | DT_QINT16 \<Rightarrow> t\<lparr>ttype := \<lparr>type_code = Type_int, type_bits = 16\<rparr>\<rparr> | DT_INT16 \<Rightarrow> t\<lparr>ttype := \<lparr>type_code = Type_int, type_bits = 16\<rparr>\<rparr>
      | DT_OTHER \<Rightarrow> t)"

definition kernel_extent :: "int \<Rightarrow> int \<Rightarrow> int res" where
  "kernel_extent dilate k = andThen (i32 (k - 1)) (\<lambda>a. andThen (i32 (dilate * a)) (\<lambda>b. i32 (b + 1)))"

text \<open>The extent of the output along one axis; \<open>lo\<close> and \<open>hi\<close> are the positions of the two pads.\<close>

definition conv_extent :: "PadMode \<Rightarrow> int list option \<Rightarrow> int \<Rightarrow> int \<Rightarrow> int \<Rightarrow> int \<Rightarrow> int \<Rightarrow> int \<Rightarrow> int res" where
  "conv_extent mode pad_list lo hi pad len krn stride =
     (case mode of
        PadMode_SAME \<Rightarrow> ceil_div_float len stride
      | PadMode_VALID \<Rightarrow>
          andThen (i32 (len - krn)) (\<lambda>a. andThen (i32 (a + 1)) (\<lambda>b. ceil_div_float b stride))
      | PadMode_CAFFE \<Rightarrow>
          (case pad_list of
             Some ps \<Rightarrow>
               andThen (MNN_Tensor.at ps lo) (\<lambda>p. andThen (MNN_Tensor.at ps hi) (\<lambda>q.
               andThen (i32 (len + p)) (\<lambda>a. andThen (i32 (a + q)) (\<lambda>padded.
               if padded < krn then Ret 0
               else andThen (i32 (padded - krn)) (\<lambda>b. andThen (div32 b stride) (\<lambda>d. i32 (d + 1)))))))
           | None \<Rightarrow>
               andThen (i32 (pad * 2)) (\<lambda>p2. andThen (i32 (len + p2)) (\<lambda>padded.
               andThen (i32 (padded - krn)) (\<lambda>b. andThen (div32 b stride) (\<lambda>d. i32 (d + 1)))))))"

text \<open>The four extents of an image in the order of its format.\<close>

definition put_image :: "MNN_DATA_FORMAT \<Rightarrow> int \<Rightarrow> int \<Rightarrow> int \<Rightarrow> int \<Rightarrow> Tensor \<Rightarrow> Tensor res" where
  "put_image fmt n c h w out =
     andThen (setLength out 0 n) (\<lambda>out.
     if fmt = NHWC then andThen (setLength out 3 c) (\<lambda>out. andThen (setLength out 1 h) (\<lambda>out. setLength out 2 w))
     else andThen (setLength out 1 c) (\<lambda>out. andThen (setLength out 2 h) (\<lambda>out. setLength out 3 w)))"

definition ConvolutionSizeComputer ::
    "Convolution2DCommon \<Rightarrow> bool \<Rightarrow> DataType option \<Rightarrow> Tensor list \<Rightarrow> Tensor list \<Rightarrow> Tensor list res" where
  "ConvolutionSizeComputer layer isConvolution quanType inputs outputs =
     andThen (MNN_Tensor.at inputs 0) (\<lambda>input.
     andThen (MNN_Tensor.at outputs 0) (\<lambda>out0.
     andThen (if length inputs > 1 \<and> outputCount layer = 0 then
         andThen (length_at (inputs ! 1) 0) (\<lambda>oc. andThen (length_at (inputs ! 1) 3) (\<lambda>kX.
         andThen (length_at (inputs ! 1) 2) (\<lambda>kY. Ret (oc, kX, kY))))
       else Ret (outputCount layer, kernelX layer, kernelY layer)) (\<lambda>(oc, kX, kY).
     andThen (kernel_extent (dilateX layer) kX) (\<lambda>kernel_width.
     andThen (kernel_extent (dilateY layer) kY) (\<lambda>kernel_height.
     andThen (require (\<not> dimensions input \<le> 1)) (\<lambda>_.
     andThen (channel input) (\<lambda>ch.
     andThen (if inputCount layer = ch then Ret True else andThen (i32 (inputCount layer * group layer)) (\<lambda>p. Ret (p = ch))) (\<lambda>common.
     let depthwise = (inputCount layer = outputCount layer \<and> inputCount layer = group layer \<and> inputCount layer = ch);
         valid = (inputCount layer = 0 \<or> depthwise \<or> common)
     in andThen (require (\<not> (length inputs = 1 \<and> \<not> valid \<and> isConvolution))) (\<lambda>_.
        andThen (width input) (\<lambda>w.
        andThen (height input) (\<lambda>h.
        andThen (conv_extent (padMode layer) (pads layer) 1 3 (padX layer) w kernel_width (strideX layer)) (\<lambda>ow.
        andThen (conv_extent (padMode layer) (pads layer) 0 2 (padY layer) h kernel_height (strideY layer)) (\<lambda>oh.
        andThen (batch input) (\<lambda>n.
        let out = out0\<lparr>dimensions := dimensions input, ttype := ttype input\<rparr>;
            out = (case quanType of Some ty \<Rightarrow> if ty \<noteq> DT_INT8 then setType ty out else out | None \<Rightarrow> out)
        in andThen (put_image (dimensionFormat input) n oc oh ow out) (\<lambda>out.
           Ret (out\<lparr>dimensionFormat := dimensionFormat input\<rparr> # tl outputs))))))))))))))))"

subsection \<open>Pooling\<close>

datatype PoolPadType = PoolPadType_CAFFE | PoolPadType_VALID | PoolPadType_SAME

record Pool =
  pool_padX :: int
  pool_padY :: int
  isGlobal :: bool
  pool_kernelX :: int
  pool_kernelY :: int
  pool_strideX :: int
  pool_strideY :: int
  padType :: PoolPadType
  ceilModel :: bool
  pool_pads :: "int list option"

definition pool_extent :: "Pool \<Rightarrow> int \<Rightarrow> int \<Rightarrow> int \<Rightarrow> int res" where
  "pool_extent layer len kernel0 stride =
     (let krn = min kernel0 len
      in case padType layer of
           PoolPadType_SAME \<Rightarrow> ceil_div_float len stride
         | PoolPadType_VALID \<Rightarrow>
             andThen (i32 (len - krn)) (\<lambda>a. andThen (i32 (a + 1)) (\<lambda>b. ceil_div_float b stride))
         | PoolPadType_CAFFE \<Rightarrow>
             andThen (i32 (len - krn)) (\<lambda>a.
             if ceilModel layer then
               andThen (i32 (a + stride)) (\<lambda>b. andThen (i32 (b - 1)) (\<lambda>c. andThen (div32 c stride) (\<lambda>d. i32 (d + 1))))
             else andThen (div32 a stride) (\<lambda>d. i32 (d + 1))))"

definition pool_padded :: "Pool \<Rightarrow> int \<Rightarrow> int \<Rightarrow> (int \<times> int) res" where
  "pool_padded layer w h =
     (case pool_pads layer of
        Some ps \<Rightarrow>
          if length ps = 2 then andThen (i32 (ps ! 0 + ps ! 1)) (\<lambda>p. andThen (i32 (h + p)) (\<lambda>h. Ret (w, h)))
          else if length ps = 4 then
            andThen (i32 (ps ! 1 + ps ! 3)) (\<lambda>p. andThen (i32 (w + p)) (\<lambda>w.
            andThen (i32 (ps ! 0 + ps ! 2)) (\<lambda>q. andThen (i32 (h + q)) (\<lambda>h. Ret (w, h)))))
          else Ret (w, h)
      | None \<Rightarrow>
          andThen (i32 (pool_padX layer * 2)) (\<lambda>p. andThen (i32 (w + p)) (\<lambda>w.
          andThen (i32 (pool_padY layer * 2)) (\<lambda>q. andThen (i32 (h + q)) (\<lambda>h. Ret (w, h))))))"

text \<open>One output: the input's extents with the two new ones.\<close>

definition pool_output :: "Tensor \<Rightarrow> int \<Rightarrow> int \<Rightarrow> halide_type \<Rightarrow> Tensor \<Rightarrow> Tensor res" where
  "pool_output input outw outh ty out =
     andThen (copy_dims input (dimensions input) out) (\<lambda>out.
     let out = out\<lparr>dimensions := dimensions input\<rparr>; fmt = dimensionFormat input
     in andThen (setLength out (if fmt = NHWC then 2 else 3) outw) (\<lambda>out.
        andThen (setLength out (if fmt = NHWC then 1 else 2) outh) (\<lambda>out.
        Ret (out\<lparr>dimensionFormat := fmt, ttype := ty\<rparr>))))"

definition PoolSizeComputer :: "Pool \<Rightarrow> Tensor list \<Rightarrow> Tensor list \<Rightarrow> Tensor list res" where
  "PoolSizeComputer layer inputs outputs =
     andThen (MNN_Tensor.at inputs 0) (\<lambda>input.
     andThen (MNN_Tensor.at outputs 0) (\<lambda>out0.
     andThen (if isGlobal layer then Ret (1, 1)
       else if (padType layer = PoolPadType_VALID \<or> padType layer = PoolPadType_SAME) \<and> (pool_padX layer \<noteq> 0 \<or> pool_padY layer \<noteq> 0)
       then ReturnFalse
       else
         andThen (width input) (\<lambda>w0. andThen (height input) (\<lambda>h0.
         andThen (pool_padded layer w0 h0) (\<lambda>(w, h).
         andThen (pool_extent layer w (pool_kernelX layer) (pool_strideX layer)) (\<lambda>outw.
         andThen (pool_extent layer h (pool_kernelY layer) (pool_strideY layer)) (\<lambda>outh. Ret (outw, outh))))))) (\<lambda>(outw, outh).
     andThen (require (\<not> (outw \<le> 0 \<or> outh \<le> 0))) (\<lambda>_.
     andThen (pool_output input outw outh (ttype input) out0) (\<lambda>out.
     if length outputs = 2 then
       andThen (pool_output input outw outh halide_int32 (outputs ! 1)) (\<lambda>indice. Ret [out, indice])
     else Ret (out # tl outputs))))))"

subsection \<open>Deconvolution\<close>

definition deconv_extent :: "int list option \<Rightarrow> int \<Rightarrow> int \<Rightarrow> int \<Rightarrow> int list option \<Rightarrow> int \<Rightarrow> int \<Rightarrow> int \<Rightarrow> int \<Rightarrow> int \<Rightarrow> int res" where
  "deconv_extent pad_list lo hi pad out_pads out_pos len stride dilate krn =
     andThen (i32 (len - 1)) (\<lambda>a. andThen (i32 (a * stride)) (\<lambda>b.
     andThen (i32 (krn - 1)) (\<lambda>c. andThen (i32 (dilate * c)) (\<lambda>e.
     andThen (i32 (b + e)) (\<lambda>f. andThen (i32 (f + 1)) (\<lambda>g.
     andThen
       (case pad_list of
          Some ps \<Rightarrow> andThen (MNN_Tensor.at ps lo) (\<lambda>p. andThen (MNN_Tensor.at ps hi) (\<lambda>q. andThen (i32 (g - p)) (\<lambda>r. i32 (r - q))))
        | None \<Rightarrow> andThen (i32 (pad * 2)) (\<lambda>p2. i32 (g - p2))) (\<lambda>r.
     (case out_pads of Some os \<Rightarrow> andThen (MNN_Tensor.at os out_pos) (\<lambda>p. i32 (r + p)) | None \<Rightarrow> Ret r))))))))"

definition DeconvolutionSizeComputer :: "Convolution2DCommon \<Rightarrow> Tensor list \<Rightarrow> Tensor list \<Rightarrow> Tensor list res" where
  "DeconvolutionSizeComputer layer inputs outputs =
     andThen (MNN_Tensor.at inputs 0) (\<lambda>input.
     andThen (MNN_Tensor.at outputs 0) (\<lambda>out0.
     andThen (if hasOutputShape layer then
         andThen (MNN_Tensor.at (host (last inputs)) 1) (\<lambda>oh. andThen (MNN_Tensor.at (host (last inputs)) 2) (\<lambda>ow. Ret (oh, ow)))
       else Ret (0, 0)) (\<lambda>(outputHeight, outputWidth).
     andThen (width input) (\<lambda>w.
     andThen (height input) (\<lambda>h.
     andThen (if outputHeight > 0 \<and> outputWidth > 0 then Ret (outputHeight, outputWidth)
       else if padMode layer = PadMode_SAME then
         andThen (i32 (w * strideX layer)) (\<lambda>ow. andThen (i32 (h * strideY layer)) (\<lambda>oh. Ret (oh, ow)))
       else
         andThen (deconv_extent (pads layer) 1 3 (padX layer) (outPads layer) 1 w (strideX layer) (dilateX layer) (kernelX layer)) (\<lambda>ow.
         andThen (deconv_extent (pads layer) 0 2 (padY layer) (outPads layer) 0 h (strideY layer) (dilateY layer) (kernelY layer)) (\<lambda>oh.
         Ret (oh, ow)))) (\<lambda>(oh, ow).
     andThen (batch input) (\<lambda>n.
     andThen (put_image (dimensionFormat input) n (outputCount layer) oh ow (out0\<lparr>ttype := ttype input, dimensions := dimensions input\<rparr>)) (\<lambda>out.
     Ret (out\<lparr>dimensionFormat := dimensionFormat input\<rparr> # tl outputs)))))))))"

end
