(* ===== verification/MNN_Shape_Window_Facts.thy ===== *)
theory MNN_Shape_Window_Facts
  imports MNN_Shape_Window MNN_Shape_Join_Facts
begin

text \<open>
  What the window operators compute: single precision rounding is harmless for extents below
  \<open>2 ^ 24\<close>; the extents of a convolution and of a pooling count the window positions that fit
  (or, in ceiling mode, that are needed to cover the input); a deconvolution's extents are those
  whose convolution gives the input back.
\<close>

subsection \<open>Rounding\<close>

lemma round_even_close: "\<bar>of_int (round_even z) - z\<bar> \<le> 1 / 2"
  unfolding round_even_def Let_def by (auto simp: abs_if) linarith+

lemma round_even_int [simp]: "round_even (of_int n) = n"
  by (simp add: round_even_def)

lemma powi_nat_diff: "(2 :: rat) powi (int a - int b) = 2 ^ a / 2 ^ b"
  by (simp add: power_int_diff)

lemma binary_exponent_bounds:
  assumes "0 < q"
  shows "2 powi binary_exponent q \<le> q" "q < 2 powi (binary_exponent q + 1)"
proof -
  obtain n d where nd: "quotient_of q = (n, d)" by (cases "quotient_of q")
  then have d: "0 < d" and q: "q = of_int n / of_int d"
    by (auto simp: quotient_of_denom_pos quotient_of_div)
  with assms have n: "0 < n" by (simp add: zero_less_divide_iff)
  define a b where "a = nat (bitlen n)" and "b = nat (bitlen d)"
  have ab: "bitlen n = int a" "bitlen d = int b" "1 \<le> a" "1 \<le> b"
    using n d bitlen_eq_zero_iff [of n] bitlen_eq_zero_iff [of d] bitlen_nonneg [of n] bitlen_nonneg [of d]
    by (auto simp: a_def b_def)
  have nb: "2 ^ (a - 1) \<le> n" "n < 2 ^ a" and db: "2 ^ (b - 1) \<le> d" "d < 2 ^ b"
    using bitlen_bounds [OF n] bitlen_bounds [OF d] ab by (auto simp: nat_diff_distrib)
  have nr: "(2 :: rat) ^ (a - 1) \<le> of_int n" "of_int n < (2 :: rat) ^ a"
    and dr: "(2 :: rat) ^ (b - 1) \<le> of_int d" "of_int d < (2 :: rat) ^ b"
    using nb db by (metis of_int_le_iff of_int_less_iff of_int_numeral of_int_power)+
  have "q < 2 ^ a / 2 ^ (b - 1)" unfolding q
    by (rule frac_less) (use nr dr n in auto)
  also have "\<dots> = 2 powi (int a - int b + 1)"
    using powi_nat_diff [of a "b - 1"] ab by (simp add: of_nat_diff algebra_simps)
  finally have up: "q < 2 powi (int a - int b + 1)" .
  have "2 powi (int a - int b - 1) = (2 :: rat) ^ (a - 1) / 2 ^ b"
    using powi_nat_diff [of "a - 1" b] ab by (simp add: of_nat_diff algebra_simps)
  also have "\<dots> \<le> q" unfolding q
    by (rule frac_le) (use nr dr n d in auto)
  finally have lo: "2 powi (int a - int b - 1) \<le> q" .
  show "2 powi binary_exponent q \<le> q" "q < 2 powi (binary_exponent q + 1)"
    using up lo by (auto simp: binary_exponent_def nd ab Let_def)
qed

lemma f32_close: "\<bar>f32 q - q\<bar> \<le> \<bar>q\<bar> / 2 ^ 24"
proof (cases "q = 0")
  case False
  define u :: rat where "u = 2 powi (binary_exponent \<bar>q\<bar> - 23)"
  have u: "0 < u" by (simp add: u_def)
  have "f32 q - q = (of_int (round_even (q / u)) - q / u) * u"
    using False u by (simp add: f32_def u_def [symmetric] Let_def left_diff_distrib)
  then have "\<bar>f32 q - q\<bar> \<le> 1 / 2 * u"
    using round_even_close [of "q / u"] u by (simp add: abs_mult mult_right_mono)
  also have "\<dots> = 2 powi binary_exponent \<bar>q\<bar> / 2 ^ 24"
    by (simp add: u_def power_int_diff)
  also have "\<dots> \<le> \<bar>q\<bar> / 2 ^ 24"
    using binary_exponent_bounds(1) [of "\<bar>q\<bar>"] False by (simp add: divide_right_mono)
  finally show ?thesis .
qed (simp add: f32_def)

lemma f32_int: "\<bar>x\<bar> < 2 ^ 24 \<Longrightarrow> f32 (of_int x) = of_int x"
proof (cases "x = 0")
  case False
  assume x: "\<bar>x\<bar> < 2 ^ 24"
  define e where "e = binary_exponent \<bar>of_int x\<bar>"
  have "(2 :: rat) powi e \<le> \<bar>of_int x\<bar>" using binary_exponent_bounds(1) [of "\<bar>of_int x\<bar>"] False by (simp add: e_def)
  also have "\<bar>of_int x :: rat\<bar> < 2 ^ 24" using x by (metis of_int_abs of_int_less_iff of_int_numeral of_int_power)
  finally have "(2 :: rat) powi e < 2 powi 24" by simp
  then have "e < 24" using power_int_increasing [of 24 e "2 :: rat"] by linarith
  then have u: "2 powi (e - 23) = 1 / (2 :: rat) ^ nat (23 - e)"
    using power_int_minus [of "2 :: rat" "23 - e"] by (simp add: power_int_def field_simps)
  have "of_int x / (1 / (2 :: rat) ^ nat (23 - e)) = of_int (x * 2 ^ nat (23 - e))" by simp
  then show ?thesis
    using False unfolding f32_def e_def [symmetric] Let_def u by (simp only: round_even_int) simp
qed (simp add: f32_def)

lemma ceil_div_float_exact:
  assumes x: "\<bar>x\<bar> < 2 ^ 24" and y: "0 < y" "y < 2 ^ 24"
  shows "ceil_div_float x y = Ret (- ((- x) div y))"
proof -
  define z :: rat where "z = of_int x / of_int y"
  define c where "c = - ((- x) div y)"
  define r where "r = c * y - x"
  have r: "0 \<le> r" "r < y" "x = c * y - r"
    using pos_mod_bound [OF y(1), of "- x"] pos_mod_sign [OF y(1), of "- x"]
    by (simp_all add: r_def c_def minus_div_mult_eq_mod [symmetric] algebra_simps)
  have z: "z = of_int c - of_int r / of_int y"
    using y by (simp add: z_def r(3) field_simps)
  have x': "- 16777216 < x" "x < 16777216" using x by auto
  have "c < 16777216"
  proof (rule ccontr)
    assume "\<not> c < 16777216"
    then have "16777216 * y \<le> c * y" using y by (intro mult_right_mono) auto
    then show False using x' y r by linarith
  qed
  moreover have "- 16777216 < c"
  proof (rule ccontr)
    assume "\<not> - 16777216 < c"
    then have "c * y \<le> - 16777216 * y" using y by (intro mult_right_mono) auto
    then show False using x' y r by linarith
  qed
  ultimately have c: "\<bar>c\<bar> < 2 ^ 24" by simp
  have "\<lceil>f32 z\<rceil> = c"
  proof (cases "r = 0")
    case True
    then show ?thesis using z c by (simp add: f32_int)
  next
    case False
    have "\<bar>of_int x :: rat\<bar> < 2 ^ 24" using x by (metis of_int_abs of_int_less_iff of_int_numeral of_int_power)
    then have "\<bar>z\<bar> / 2 ^ 24 < 1 / of_int y"
      using y by (simp add: z_def abs_divide field_simps)
    then have "\<bar>f32 z - z\<bar> < 1 / of_int y" using f32_close [of z] by linarith
    moreover have "1 / of_int y \<le> of_int r / (of_int y :: rat)" "of_int r / of_int y \<le> 1 - 1 / (of_int y :: rat)"
      using False r y by (auto simp: field_simps)
    ultimately show ?thesis using z by (intro ceiling_unique) linarith+
  qed
  moreover have "- (2 ^ 31) \<le> c" "c < 2 ^ 31" using c by auto
  ultimately show ?thesis using x y by (simp add: ceil_div_float_def f32_int z_def [symmetric] c_def [symmetric])
qed


subsection \<open>Window positions\<close>

definition windows :: "int \<Rightarrow> int \<Rightarrow> int \<Rightarrow> int" where
  "windows len krn stride = int (card {i :: nat. int i * stride + krn \<le> len})"

lemma le_div_iff: "0 < (s :: int) \<Longrightarrow> m \<le> n div s \<longleftrightarrow> m * s \<le> n"
proof
  assume s: "0 < s" and "m \<le> n div s"
  then have "m * s \<le> n div s * s" by (intro mult_right_mono) auto
  also have "\<dots> \<le> n" using pos_mod_sign [OF s, of n] by (simp add: minus_mod_eq_div_mult [symmetric])
  finally show "m * s \<le> n" .
next
  assume s: "0 < s" and "m * s \<le> n"
  then show "m \<le> n div s" using zdiv_mono1 [of "m * s" n s] by simp
qed

lemma windows_eq:
  assumes "0 < stride"
  shows "windows len krn stride = (if krn \<le> len then (len - krn) div stride + 1 else 0)"
proof (cases "krn \<le> len")
  case True
  define n where "n = nat ((len - krn) div stride)"
  have "int i * stride + krn \<le> len \<longleftrightarrow> i \<le> n" for i
  proof -
    have "int i * stride + krn \<le> len \<longleftrightarrow> int i * stride \<le> len - krn" by auto
    also have "\<dots> \<longleftrightarrow> int i \<le> (len - krn) div stride"
      using assms by (simp add: le_div_iff)
    also have "\<dots> \<longleftrightarrow> i \<le> n" using True assms by (simp add: n_def le_nat_iff pos_imp_zdiv_nonneg_iff)
    finally show ?thesis .
  qed
  then have "{i :: nat. int i * stride + krn \<le> len} = {..n}" by auto
  then show ?thesis using True assms by (simp add: windows_def n_def pos_imp_zdiv_nonneg_iff)
next
  case False
  have "0 \<le> int i * stride" for i using assms by simp
  with False have "{i :: nat. int i * stride + krn \<le> len} = {}"
    by (auto simp: not_le intro: less_le_trans add_nonneg_nonneg)
  with False show ?thesis by (simp add: windows_def)
qed

definition small :: "int \<Rightarrow> bool" where
  "small x \<longleftrightarrow> \<bar>x\<bar> < 2 ^ 24"

definition pad_sum :: "int list option \<Rightarrow> nat \<Rightarrow> nat \<Rightarrow> int \<Rightarrow> int" where
  "pad_sum pad_list lo hi pad = (case pad_list of Some ps \<Rightarrow> ps ! lo + ps ! hi | None \<Rightarrow> 2 * pad)"

definition conv_spec :: "PadMode \<Rightarrow> int list option \<Rightarrow> nat \<Rightarrow> nat \<Rightarrow> int \<Rightarrow> int \<Rightarrow> int \<Rightarrow> int \<Rightarrow> int" where
  "conv_spec mode pad_list lo hi pad len krn stride =
     (case mode of
        PadMode_SAME \<Rightarrow> (len + stride - 1) div stride
      | PadMode_VALID \<Rightarrow> windows len krn stride
      | PadMode_CAFFE \<Rightarrow> windows (len + pad_sum pad_list lo hi pad) krn stride)"

definition conv_fits :: "PadMode \<Rightarrow> int list option \<Rightarrow> int \<Rightarrow> int \<Rightarrow> int \<Rightarrow> bool" where
  "conv_fits mode pad_list pad len krn \<longleftrightarrow>
     (mode = PadMode_VALID \<longrightarrow> krn \<le> len + 1) \<and> (mode = PadMode_CAFFE \<and> pad_list = None \<longrightarrow> krn \<le> len + 2 * pad)"

definition pads_small :: "int list option \<Rightarrow> bool" where
  "pads_small pad_list \<longleftrightarrow> (case pad_list of Some ps \<Rightarrow> 4 \<le> length ps \<and> (\<forall>p \<in> set ps. small p) | None \<Rightarrow> True)"

lemma ceil_int: "0 < (y :: int) \<Longrightarrow> - ((- x) div y) = (x + y - 1) div y"
  using int_div_pos_eq [of "x + y - 1" y "- ((- x) div y)" "y - 1 - (- x) mod y"]
    pos_mod_bound [of y "- x"] pos_mod_sign [of y "- x"]
  by (simp add: minus_div_mult_eq_mod [symmetric] algebra_simps)

lemma div32_nonneg: "0 \<le> a \<Longrightarrow> a < 2 ^ 31 \<Longrightarrow> 0 < b \<Longrightarrow> div32 a b = Ret (a div b)"
  using zdiv_mono2 [of a 1 b] pos_imp_zdiv_nonneg_iff [of b a]
  by (auto simp: div32_def signed_divide_int_def sgn_if)

lemma windows_ceil:
  assumes "0 < stride" "krn \<le> len + 1"
  shows "windows len krn stride = - ((- (len - krn + 1)) div stride)"
proof -
  have "- ((- (len - krn + 1)) div stride) = (len - krn + 1 + stride - 1) div stride"
    by (rule ceil_int [OF assms(1)])
  also have "len - krn + 1 + stride - 1 = (len - krn) + stride" by simp
  also have "\<dots> div stride = (len - krn) div stride + 1" by (rule div_add_self2) (use assms in simp)
  finally have "- ((- (len - krn + 1)) div stride) = (len - krn) div stride + 1" .
  moreover have "(len - krn) div stride = - 1" if "\<not> krn \<le> len"
  proof -
    have "len - krn = - 1" using assms that by simp
    then show ?thesis using div_eq_minus1 [OF assms(1)] by simp
  qed
  ultimately show ?thesis using assms(1) by (simp add: windows_eq del: minus_add_distrib)
qed

lemma floor_windows:
  assumes "krn \<le> padded" "0 < krn" "padded < 2 ^ 31" "0 < stride"
  shows "andThen (i32 (padded - krn)) (\<lambda>b. andThen (div32 b stride) (\<lambda>d. i32 (d + 1))) = Ret (windows padded krn stride)"
  using assms div32_nonneg [of "padded - krn" stride] zdiv_mono2 [of "padded - krn" 1 stride]
    pos_imp_zdiv_nonneg_iff [of stride "padded - krn"]
  by (simp add: i32_def windows_eq)

lemma conv_extent_eq:
  assumes len: "0 \<le> len" "small len" and krn: "0 < krn" "small krn" and st: "0 < stride" "small stride"
    and pads: "pads_small pad_list" "small pad" "lo < 4" "hi < 4"
    and fits: "conv_fits mode pad_list pad len krn"
  shows "conv_extent mode pad_list (int lo) (int hi) pad len krn stride = Ret (conv_spec mode pad_list lo hi pad len krn stride)"
proof (cases mode)
  case PadMode_SAME
  then show ?thesis
    using len st by (simp add: conv_extent_def conv_spec_def small_def ceil_div_float_exact ceil_int)
next
  case PadMode_VALID
  then show ?thesis
    using len krn st fits windows_ceil [of stride krn len] ceil_div_float_exact [of "len - krn + 1" stride]
    by (simp add: conv_extent_def conv_spec_def small_def conv_fits_def i32_def)
next
  case PadMode_CAFFE
  show ?thesis
  proof (cases pad_list)
    case None
    then have "krn \<le> len + 2 * pad" using fits PadMode_CAFFE by (simp add: conv_fits_def)
    then show ?thesis
      using PadMode_CAFFE None len krn st pads floor_windows [of krn "len + 2 * pad" stride]
      by (auto simp: conv_extent_def conv_spec_def pad_sum_def small_def i32_def mult.commute [of pad 2])
  next
    case (Some ps)
    then have "small (ps ! lo)" "small (ps ! hi)" "lo < length ps" "hi < length ps" using pads by (auto simp: pads_small_def)
    then show ?thesis
      using PadMode_CAFFE Some len krn st floor_windows [of krn "len + (ps ! lo + ps ! hi)" stride]
      by (auto simp: conv_extent_def conv_spec_def pad_sum_def small_def i32_def at_def add.assoc windows_eq)
  qed
qed


subsection \<open>Images\<close>

definition image_shape :: "MNN_DATA_FORMAT \<Rightarrow> int \<Rightarrow> int \<Rightarrow> int \<Rightarrow> int \<Rightarrow> int list" where
  "image_shape fmt n c h w = (if fmt = NHWC then [n, h, w, c] else [n, c, h, w])"

lemma length_image_shape [simp]: "length (image_shape fmt n c h w) = 4"
  by (simp add: image_shape_def)

lemma image_extents:
  assumes "tensor_ok t" "shape t = image_shape (dimensionFormat t) n c h w"
  shows "dimensions t = 4" "batch t = Ret n" "channel t = Ret c" "height t = Ret h" "width t = Ret w"
    "dim t = image_shape (dimensionFormat t) n c h w @ drop 4 (dim t)"
proof -
  have "length (shape t) = 4" using assms(2) by simp
  then show d: "dimensions t = 4" using assms(1) by (simp add: shape_def tensor_ok_def MNN_MAX_TENSOR_DIM_def)
  then show e: "dim t = image_shape (dimensionFormat t) n c h w @ drop 4 (dim t)"
    using assms(2) by (metis append_take_drop_id shape_def nat_numeral)
  have l: "4 < length (dim t)" using assms(1) by (simp add: tensor_ok_def MNN_MAX_TENSOR_DIM_def)
  have "dim t ! i = image_shape (dimensionFormat t) n c h w ! i" if "i < 4" for i
    using that by (subst e) (simp add: nth_append)
  from this [of 0] this [of 1] this [of 2] this [of 3]
  show "batch t = Ret n" "channel t = Ret c" "height t = Ret h" "width t = Ret w"
    using l by (auto simp: batch_def channel_def height_def width_def image_shape_def length_at_def at_def)
qed

lemma put_image_eq:
  assumes "length (dim out) = MNN_MAX_TENSOR_DIM"
  shows "put_image fmt n c h w out = Ret (out\<lparr>dim := image_shape fmt n c h w @ drop 4 (dim out)\<rparr>)"
proof -
  have "length (dim out) = Suc (Suc (Suc (Suc 5)))" using assms by (simp add: MNN_MAX_TENSOR_DIM_def)
  then obtain a b d e r where "dim out = a # b # d # e # r" by (metis length_Suc_conv)
  then show ?thesis by (simp add: put_image_def image_shape_def setLength_def put_def)
qed

lemma put_image_Ret:
  assumes "length (dim out) = MNN_MAX_TENSOR_DIM" "dimensions out = 4"
  shows "\<exists>out'. andThen (put_image fmt n c h w out) (\<lambda>out. Ret [out\<lparr>dimensionFormat := fmt\<rparr>]) = Ret [out'] \<and> tensor_ok out' \<and>
    ttype out' = ttype out \<and> dimensionFormat out' = fmt \<and> shape out' = image_shape fmt n c h w"
  using assms by (simp add: put_image_eq shape_def tensor_ok_def MNN_MAX_TENSOR_DIM_def)

subsection \<open>Convolution\<close>

definition channels_match :: "Convolution2DCommon \<Rightarrow> int \<Rightarrow> bool" where
  "channels_match layer c \<longleftrightarrow> inputCount layer = 0 \<or> inputCount layer = c \<or> inputCount layer * group layer = c"

definition dilated :: "int \<Rightarrow> int \<Rightarrow> int" where
  "dilated dilate k = dilate * (k - 1) + 1"

lemma kernel_extent_eq: "0 < dilate \<Longrightarrow> 0 < k \<Longrightarrow> small (dilated dilate k) \<Longrightarrow> kernel_extent dilate k = Ret (dilated dilate k) \<and> 0 < dilated dilate k"
  using mult_right_mono [of 1 dilate "k - 1"] by (auto simp: kernel_extent_def dilated_def small_def i32_def)

definition conv_axis_ok :: "Convolution2DCommon \<Rightarrow> int \<Rightarrow> int \<Rightarrow> int \<Rightarrow> int \<Rightarrow> int \<Rightarrow> bool" where
  "conv_axis_ok layer pad len k dilate stride \<longleftrightarrow>
     0 \<le> len \<and> small len \<and> 0 < k \<and> 0 < dilate \<and> small (dilated dilate k) \<and> 0 < stride \<and> small stride \<and> small pad \<and>
     conv_fits (padMode layer) (pads layer) pad len (dilated dilate k)"

lemma convolution_Ret:
  assumes ok: "tensor_ok input" "tensor_ok out0"
    and sh: "shape input = image_shape (dimensionFormat input) n c h w"
    and pads: "pads_small (pads layer)" and count: "int32 (inputCount layer * group layer)"
    and X: "conv_axis_ok layer (padX layer) w (kernelX layer) (dilateX layer) (strideX layer)"
    and Y: "conv_axis_ok layer (padY layer) h (kernelY layer) (dilateY layer) (strideY layer)"
  shows "if channels_match layer c then
      \<exists>out. ConvolutionSizeComputer layer True None [input] [out0] = Ret [out] \<and> tensor_ok out \<and>
        ttype out = ttype input \<and> dimensionFormat out = dimensionFormat input \<and>
        shape out = image_shape (dimensionFormat input) n (outputCount layer)
          (conv_spec (padMode layer) (pads layer) 0 2 (padY layer) h (dilated (dilateY layer) (kernelY layer)) (strideY layer))
          (conv_spec (padMode layer) (pads layer) 1 3 (padX layer) w (dilated (dilateX layer) (kernelX layer)) (strideX layer))
    else ConvolutionSizeComputer layer True None [input] [out0] = ReturnFalse"
proof -
  note e = image_extents [OF ok(1) sh]
  have kX: "kernel_extent (dilateX layer) (kernelX layer) = Ret (dilated (dilateX layer) (kernelX layer))"
    and kY: "kernel_extent (dilateY layer) (kernelY layer) = Ret (dilated (dilateY layer) (kernelY layer))"
    using X Y by (simp_all add: conv_axis_ok_def kernel_extent_eq)
  have cX: "conv_extent (padMode layer) (pads layer) 1 3 (padX layer) w (dilated (dilateX layer) (kernelX layer)) (strideX layer) =
      Ret (conv_spec (padMode layer) (pads layer) 1 3 (padX layer) w (dilated (dilateX layer) (kernelX layer)) (strideX layer))"
    using X pads conv_extent_eq [of w "dilated (dilateX layer) (kernelX layer)" "strideX layer" "pads layer" "padX layer" 1 3]
    by (simp add: conv_axis_ok_def kernel_extent_eq)
  have cY: "conv_extent (padMode layer) (pads layer) 0 2 (padY layer) h (dilated (dilateY layer) (kernelY layer)) (strideY layer) =
      Ret (conv_spec (padMode layer) (pads layer) 0 2 (padY layer) h (dilated (dilateY layer) (kernelY layer)) (strideY layer))"
    using Y pads conv_extent_eq [of h "dilated (dilateY layer) (kernelY layer)" "strideY layer" "pads layer" "padY layer" 0 2]
    by (simp add: conv_axis_ok_def kernel_extent_eq)
  have m: "andThen (if inputCount layer = c then Ret True
      else andThen (i32 (inputCount layer * group layer)) (\<lambda>p. Ret (p = c))) f =
    f (inputCount layer = c \<or> inputCount layer * group layer = c)" for f :: "bool \<Rightarrow> Tensor list res"
    using count by (simp add: int32_def i32_def)
  have "ConvolutionSizeComputer layer True None [input] [out0] =
     (if channels_match layer c
      then andThen (put_image (dimensionFormat input) n (outputCount layer)
          (conv_spec (padMode layer) (pads layer) 0 2 (padY layer) h (dilated (dilateY layer) (kernelY layer)) (strideY layer))
          (conv_spec (padMode layer) (pads layer) 1 3 (padX layer) w (dilated (dilateX layer) (kernelX layer)) (strideX layer))
          (out0\<lparr>dimensions := 4, ttype := ttype input\<rparr>))
        (\<lambda>out. Ret [out\<lparr>dimensionFormat := dimensionFormat input\<rparr>]) else ReturnFalse)"
    unfolding ConvolutionSizeComputer_def
    by (simp add: e kX kY cX cY m Let_def require_def channels_match_def del: i32_simps)
  then show ?thesis
    using put_image_Ret [of "out0\<lparr>dimensions := 4, ttype := ttype input\<rparr>"] ok(2) by (simp add: tensor_ok_def)
qed

text \<open>C19: Convolution with strides, dilation and any padding mode, on an image of either layout: the shape computer fails exactly
  when the channels of the image do not fit the filter, and otherwise the output has the image's batch, one channel per filter
  and, along each axis, as many cells as there are positions at which the dilated kernel fits into the padded image (for the
  mode SAME: the extent divided by the stride, rounded up), although two of the modes compute in single precision. This is for extents, dilated
  kernels, strides and pads below 2 ^ 24, when the kernel fits into the padded image in the explicit mode without a list of pads, and exceeds the image by at most one
  in mode VALID (\<open>conv_fits\<close>; without that the code counts positions that do not exist, \<open>convolution_window_outside\<close>).\<close>

theorem convolution_shape:
  assumes "tensor_ok input" "tensor_ok out0"
    and "shape input = image_shape (dimensionFormat input) n c h w"
    and "pads_small (pads layer)" and "int32 (inputCount layer * group layer)"
    and "conv_axis_ok layer (padX layer) w (kernelX layer) (dilateX layer) (strideX layer)"
    and "conv_axis_ok layer (padY layer) h (kernelY layer) (dilateY layer) (strideY layer)"
  shows "if channels_match layer c then
      \<exists>out. ConvolutionSizeComputer layer True None [input] [out0] = Ret [out] \<and> tensor_ok out \<and>
        ttype out = ttype input \<and> dimensionFormat out = dimensionFormat input \<and>
        shape out = image_shape (dimensionFormat input) n (outputCount layer)
          (conv_spec (padMode layer) (pads layer) 0 2 (padY layer) h (dilated (dilateY layer) (kernelY layer)) (strideY layer))
          (conv_spec (padMode layer) (pads layer) 1 3 (padX layer) w (dilated (dilateX layer) (kernelX layer)) (strideX layer))
    else ConvolutionSizeComputer layer True None [input] [out0] = ReturnFalse"
  using assms by (rule convolution_Ret)

definition demo_layer :: "PadMode \<Rightarrow> Convolution2DCommon" where
  "demo_layer mode = \<lparr>padX = 1, padY = 1, kernelX = 3, kernelY = 3, strideX = 2, strideY = 1, dilateX = 1, dilateY = 2,
     padMode = mode, group = 1, outputCount = 8, inputCount = 3, pads = None, hasOutputShape = False, outPads = None\<rparr>"

lemma demo_image: "shape (demo_tensor [n, c, h, w]) = image_shape (dimensionFormat (demo_tensor [n, c, h, w])) n c h w"
  by (simp add: demo_tensor_def shape_def image_shape_def)

lemma demo_format: "dimensionFormat (demo_tensor ds) = NCHW"
  by (simp add: demo_tensor_def)

theorem convolution_shape_witness:
  "\<exists>out. ConvolutionSizeComputer (demo_layer PadMode_VALID) True None [demo_tensor [1, 3, 9, 8]] [demo_tensor []] = Ret [out] \<and>
    shape out = [1, 8, windows 9 5 1, windows 8 3 2]"
  using convolution_shape [of "demo_tensor [1, 3, 9, 8]" "demo_tensor []" 1 3 9 8 "demo_layer PadMode_VALID"] demo_image [of 1 3 9 8]
  by (auto simp: demo_ok MNN_MAX_TENSOR_DIM_def demo_layer_def pads_small_def int32_def conv_axis_ok_def small_def dilated_def conv_fits_def
      channels_match_def conv_spec_def image_shape_def demo_format)

subsection \<open>Deconvolution\<close>

definition deconv_spec :: "int list option \<Rightarrow> nat \<Rightarrow> nat \<Rightarrow> int \<Rightarrow> int \<Rightarrow> int \<Rightarrow> int \<Rightarrow> int" where
  "deconv_spec pad_list lo hi pad len krn stride = (len - 1) * stride + krn - pad_sum pad_list lo hi pad"

definition deconv_axis_ok :: "Convolution2DCommon \<Rightarrow> nat \<Rightarrow> nat \<Rightarrow> int \<Rightarrow> int \<Rightarrow> int \<Rightarrow> int \<Rightarrow> int \<Rightarrow> bool" where
  "deconv_axis_ok layer lo hi pad len k dilate stride \<longleftrightarrow>
     0 < len \<and> small len \<and> 0 < k \<and> 0 < dilate \<and> small (dilated dilate k) \<and> 0 < stride \<and> small stride \<and> small pad \<and>
     0 \<le> deconv_spec (pads layer) lo hi pad len (dilated dilate k) stride \<and>
     small (deconv_spec (pads layer) lo hi pad len (dilated dilate k) stride)"

lemma pad_sum_small: "pads_small pad_list \<Longrightarrow> small pad \<Longrightarrow> lo < 4 \<Longrightarrow> hi < 4 \<Longrightarrow> \<bar>pad_sum pad_list lo hi pad\<bar> < 2 ^ 25"
  by (auto simp: pad_sum_def pads_small_def small_def split: option.splits) (smt (verit) less_le_trans nth_mem)

lemma deconv_extent_eq:
  assumes ok: "deconv_axis_ok layer lo hi pad len k dilate stride" and pads: "pads_small (pads layer)" "lo < 4" "hi < 4"
  shows "deconv_extent (pads layer) (int lo) (int hi) pad None p len stride dilate k =
    Ret (deconv_spec (pads layer) lo hi pad len (dilated dilate k) stride)"
proof -
  let ?k = "dilated dilate k" and ?r = "deconv_spec (pads layer) lo hi pad len (dilated dilate k) stride"
  define a b where "a = (len - 1) * stride" and "b = dilate * (k - 1)"
  have small: "small (b + 1)" "0 \<le> ?r" "small ?r" "small pad" using ok by (auto simp: deconv_axis_ok_def b_def dilated_def)
  have r: "?r = a + b + 1 - pad_sum (pads layer) lo hi pad" by (simp add: deconv_spec_def dilated_def a_def b_def)
  have "0 \<le> a" using ok by (simp add: deconv_axis_ok_def a_def)
  moreover have "0 \<le> b" "k - 1 \<le> b" "0 \<le> k - 1"
    using ok mult_right_mono [of 1 dilate "k - 1"] by (auto simp: deconv_axis_ok_def b_def)
  moreover have "0 \<le> len - 1" "len < 2 ^ 24" using ok by (auto simp: deconv_axis_ok_def small_def)
  moreover have "deconv_extent (pads layer) (int lo) (int hi) pad None p len stride dilate k = Ret (a + b + 1 - pad_sum (pads layer) lo hi pad)"
  proof (cases "pads layer")
    case None
    then show ?thesis using calculation small r
      by (simp add: deconv_extent_def a_def [symmetric] b_def [symmetric] pad_sum_def small_def i32_def mult.commute [of pad 2])
  next
    case (Some ps)
    then have "small (ps ! lo)" "small (ps ! hi)" "lo < length ps" "hi < length ps" using pads by (auto simp: pads_small_def)
    then show ?thesis using calculation small r Some
      by (auto simp: deconv_extent_def a_def [symmetric] b_def [symmetric] pad_sum_def small_def i32_def at_def)
  qed
  ultimately show ?thesis using r by simp
qed


lemma conv_undoes_deconv:
  assumes "0 < stride" "0 < krn" "0 < len"
  shows "conv_spec PadMode_CAFFE pad_list lo hi pad (deconv_spec pad_list lo hi pad len krn stride) krn stride = len"
  using assms by (simp add: conv_spec_def deconv_spec_def windows_eq)

lemma deconvolution_Ret:
  assumes ok: "tensor_ok input" "tensor_ok out0"
    and sh: "shape input = image_shape (dimensionFormat input) n c h w"
    and layer: "padMode layer \<noteq> PadMode_SAME" "\<not> hasOutputShape layer" "outPads layer = None" "pads_small (pads layer)"
    and X: "deconv_axis_ok layer 1 3 (padX layer) w (kernelX layer) (dilateX layer) (strideX layer)"
    and Y: "deconv_axis_ok layer 0 2 (padY layer) h (kernelY layer) (dilateY layer) (strideY layer)"
  shows "\<exists>out. DeconvolutionSizeComputer layer [input] [out0] = Ret [out] \<and> tensor_ok out \<and>
      ttype out = ttype input \<and> dimensionFormat out = dimensionFormat input \<and>
      shape out = image_shape (dimensionFormat input) n (outputCount layer)
        (deconv_spec (pads layer) 0 2 (padY layer) h (dilated (dilateY layer) (kernelY layer)) (strideY layer))
        (deconv_spec (pads layer) 1 3 (padX layer) w (dilated (dilateX layer) (kernelX layer)) (strideX layer))"
proof -
  note e = image_extents [OF ok(1) sh]
  note x = deconv_extent_eq [OF X layer(4), of 1] and y = deconv_extent_eq [OF Y layer(4), of 0]
  show ?thesis
    using layer x y put_image_Ret [of "out0\<lparr>ttype := ttype input, dimensions := 4\<rparr>"] ok(2)
    by (simp add: DeconvolutionSizeComputer_def e tensor_ok_def)
qed

text \<open>C20: Deconvolution inverts convolution on shapes: the deconvolution of an image (explicit padding mode, no output padding,
  no output shape given as a tensor, positive extents below 2 ^ 24, an output extent that is not negative and below 2 ^ 24) succeeds, and
  the convolution with the same kernel, stride, dilation and padding, its channels exchanged, accepts the result and restores
  the image's shape.\<close>

theorem deconvolution_inverted:
  assumes ok: "tensor_ok input" "tensor_ok out0" "tensor_ok out1"
    and sh: "shape input = image_shape (dimensionFormat input) n c h w"
    and layer: "padMode layer = PadMode_CAFFE" "\<not> hasOutputShape layer" "outPads layer = None" "pads_small (pads layer)"
      "int32 (outputCount layer * group layer)"
    and X: "deconv_axis_ok layer 1 3 (padX layer) w (kernelX layer) (dilateX layer) (strideX layer)"
    and Y: "deconv_axis_ok layer 0 2 (padY layer) h (kernelY layer) (dilateY layer) (strideY layer)"
  shows "\<exists>mid restored. DeconvolutionSizeComputer layer [input] [out0] = Ret [mid] \<and>
    ConvolutionSizeComputer (layer\<lparr>inputCount := outputCount layer, outputCount := c\<rparr>) True None [mid] [out1] = Ret [restored] \<and>
    shape restored = shape input"
proof -
  let ?layer = "layer\<lparr>inputCount := outputCount layer, outputCount := c\<rparr>"
  obtain mid where mid: "DeconvolutionSizeComputer layer [input] [out0] = Ret [mid]" "tensor_ok mid"
    "dimensionFormat mid = dimensionFormat input"
    and shm: "shape mid = image_shape (dimensionFormat input) n (outputCount layer)
        (deconv_spec (pads layer) 0 2 (padY layer) h (dilated (dilateY layer) (kernelY layer)) (strideY layer))
        (deconv_spec (pads layer) 1 3 (padX layer) w (dilated (dilateX layer) (kernelX layer)) (strideX layer))"
    using deconvolution_Ret [OF ok(1,2) sh _ layer(2-4) X Y] layer(1) by auto
  have axis: "conv_axis_ok ?layer (padX layer) (deconv_spec (pads layer) 1 3 (padX layer) w (dilated (dilateX layer) (kernelX layer)) (strideX layer)) (kernelX layer) (dilateX layer) (strideX layer)"
    "conv_axis_ok ?layer (padY layer) (deconv_spec (pads layer) 0 2 (padY layer) h (dilated (dilateY layer) (kernelY layer)) (strideY layer)) (kernelY layer) (dilateY layer) (strideY layer)"
    using X Y by (auto simp: conv_axis_ok_def deconv_axis_ok_def conv_fits_def layer(1) deconv_spec_def pad_sum_def)
  have undo: "conv_spec PadMode_CAFFE (pads layer) 0 2 (padY layer)
      (deconv_spec (pads layer) 0 2 (padY layer) h (dilated (dilateY layer) (kernelY layer)) (strideY layer))
      (dilated (dilateY layer) (kernelY layer)) (strideY layer) = h"
    "conv_spec PadMode_CAFFE (pads layer) 1 3 (padX layer)
      (deconv_spec (pads layer) 1 3 (padX layer) w (dilated (dilateX layer) (kernelX layer)) (strideX layer))
      (dilated (dilateX layer) (kernelX layer)) (strideX layer) = w"
    using X Y by (simp_all add: conv_undoes_deconv deconv_axis_ok_def kernel_extent_eq)
  obtain restored where "ConvolutionSizeComputer ?layer True None [mid] [out1] = Ret [restored]" "shape restored = shape input"
    using convolution_Ret [OF mid(2) ok(3) shm [folded mid(3)], of ?layer] axis layer undo mid(3) sh
    by (auto simp: channels_match_def simp del: One_nat_def)
  with mid(1) show ?thesis by blast
qed

theorem deconvolution_inverted_witness:
  "\<exists>mid restored. DeconvolutionSizeComputer (demo_layer PadMode_CAFFE) [demo_tensor [2, 5, 4, 6]] [demo_tensor []] = Ret [mid] \<and>
    ConvolutionSizeComputer ((demo_layer PadMode_CAFFE)\<lparr>inputCount := 8, outputCount := 5\<rparr>) True None [mid] [demo_tensor []] = Ret [restored] \<and>
    shape restored = [2, 5, 4, 6]"
  using deconvolution_inverted [of "demo_tensor [2, 5, 4, 6]" "demo_tensor []" "demo_tensor []" 2 5 4 6 "demo_layer PadMode_CAFFE"]
    demo_image [of 2 5 4 6]
  by (simp add: demo_ok MNN_MAX_TENSOR_DIM_def demo_layer_def pads_small_def int32_def deconv_axis_ok_def small_def dilated_def
      deconv_spec_def pad_sum_def image_shape_def demo_format)

subsection \<open>A kernel that does not fit\<close>

text \<open>With explicit padding given by \<open>padX\<close>, a kernel larger than the padded image by less than the stride
  gets an output of extent 1, although no position fits; the same padding given as a list gets extent 0.\<close>

theorem convolution_window_outside:
  assumes "0 \<le> len" "small len" "small pad" "small krn" "0 < stride"
    and "len + 2 * pad < krn" "krn < len + 2 * pad + stride"
  shows "conv_extent PadMode_CAFFE None lo hi pad len krn stride = Ret 1 \<and>
    conv_extent PadMode_CAFFE (Some [pad, pad, pad, pad]) 0 2 pad len krn stride = Ret 0 \<and>
    windows (len + 2 * pad) krn stride = 0"
proof (intro conjI)
  have "(len + 2 * pad - krn) sdiv stride = 0" using assms by (simp add: signed_divide_int_def)
  then show "conv_extent PadMode_CAFFE None lo hi pad len krn stride = Ret 1"
    using assms by (auto simp: conv_extent_def small_def i32_def div32_def mult.commute [of pad 2])
  show "conv_extent PadMode_CAFFE (Some [pad, pad, pad, pad]) 0 2 pad len krn stride = Ret 0"
    using assms by (auto simp: conv_extent_def small_def i32_def at_def)
  show "windows (len + 2 * pad) krn stride = 0" using assms by (simp add: windows_eq)
qed

theorem convolution_window_outside_witness:
  "conv_extent PadMode_CAFFE None 1 3 0 3 4 2 = Ret 1 \<and> conv_extent PadMode_CAFFE (Some [0, 0, 0, 0]) 0 2 0 3 4 2 = Ret 0"
  using convolution_window_outside [of 3 0 4 2] by (simp add: small_def)

subsection \<open>Pooling\<close>

text \<open>The least number of window positions that cover the whole input.\<close>

definition covering :: "int \<Rightarrow> int \<Rightarrow> int \<Rightarrow> int" where
  "covering len krn stride = int (LEAST n. 0 < n \<and> len \<le> (int n - 1) * stride + krn)"

lemma covering_eq:
  assumes "0 < stride" "krn \<le> len"
  shows "covering len krn stride = (len - krn + stride - 1) div stride + 1"
proof -
  define m where "m = nat ((len - krn + stride - 1) div stride)"
  have m: "int m = (len - krn + stride - 1) div stride" using assms by (simp add: m_def pos_imp_zdiv_nonneg_iff)
  have iff: "len \<le> (int n - 1) * stride + krn \<longleftrightarrow> Suc m \<le> n" for n
  proof -
    have "len \<le> (int n - 1) * stride + krn \<longleftrightarrow> \<not> int n * stride \<le> len - krn + stride - 1"
      by (auto simp: left_diff_distrib)
    also have "\<dots> \<longleftrightarrow> \<not> int n \<le> int m" unfolding m le_div_iff [OF assms(1)] ..
    finally show ?thesis by auto
  qed
  have "(LEAST n. 0 < n \<and> len \<le> (int n - 1) * stride + krn) = Suc m"
    using iff [of "Suc m"] by (intro Least_equality) (auto simp: iff)
  then show ?thesis by (simp add: covering_def m)
qed

definition pool_spec :: "Pool \<Rightarrow> int \<Rightarrow> int \<Rightarrow> int \<Rightarrow> int" where
  "pool_spec layer len krn stride =
     (case padType layer of
        PoolPadType_SAME \<Rightarrow> (len + stride - 1) div stride
      | PoolPadType_VALID \<Rightarrow> windows len (min krn len) stride
      | PoolPadType_CAFFE \<Rightarrow> (if ceilModel layer then covering else windows) len (min krn len) stride)"

lemma pool_extent_eq:
  assumes "0 < len" "small len" "0 < krn" "small krn" "0 < stride" "small stride"
  shows "pool_extent layer len krn stride = Ret (pool_spec layer len krn stride)" "0 < pool_spec layer len krn stride"
proof -
  have "0 < (len + stride - 1) div stride" using assms le_div_iff [of stride 1 "len + stride - 1"] by simp
  moreover have "0 < windows len (min krn len) stride" "0 < covering len (min krn len) stride"
    using assms by (auto simp: windows_eq covering_eq pos_imp_zdiv_nonneg_iff less_eq_iff_succ_less [symmetric] intro!: add_nonneg_pos)
  ultimately show "0 < pool_spec layer len krn stride" by (simp add: pool_spec_def split: PoolPadType.splits)
  let ?k = "min krn len"
  show "pool_extent layer len krn stride = Ret (pool_spec layer len krn stride)"
  proof (cases "padType layer")
    case PoolPadType_CAFFE
    show ?thesis
    proof (cases "ceilModel layer")
      case True
      have "0 \<le> (len - ?k + stride - 1) div stride" "(len - ?k + stride - 1) div stride \<le> len - ?k + stride - 1"
        using assms zdiv_mono2 [of "len - ?k + stride - 1" 1 stride] by (auto simp: pos_imp_zdiv_nonneg_iff)
      then show ?thesis using True PoolPadType_CAFFE assms div32_nonneg [of "len - ?k + stride - 1" stride] covering_eq [of stride ?k len]
        by (auto simp: pool_extent_def pool_spec_def Let_def i32_def small_def)
    next
      case False
      then show ?thesis using PoolPadType_CAFFE assms floor_windows [of ?k len stride]
        by (auto simp: pool_extent_def pool_spec_def Let_def small_def)
    qed
  next
    case PoolPadType_VALID
    then show ?thesis using assms windows_ceil [of stride ?k len] ceil_div_float_exact [of "len - ?k + 1" stride]
      by (auto simp: pool_extent_def pool_spec_def Let_def small_def i32_def)
  next
    case PoolPadType_SAME
    then show ?thesis using assms by (simp add: pool_extent_def pool_spec_def Let_def small_def ceil_div_float_exact ceil_int)
  qed
qed

lemma pool_output_Ret:
  assumes "tensor_ok input" "tensor_ok out" "shape input = image_shape (dimensionFormat input) n c h w"
  shows "\<exists>out'. pool_output input ow oh ty out = Ret out' \<and> tensor_ok out' \<and> ttype out' = ty \<and>
    dimensionFormat out' = dimensionFormat input \<and> shape out' = image_shape (dimensionFormat input) n c oh ow"
proof -
  note e = image_extents [OF assms(1,3)]
  have d: "dim input = image_shape (dimensionFormat input) n c h w @ drop 4 (dim input)" by (rule e(6))
  have "length (dim input) = 9" "length (dim out) = 9" using assms by (simp_all add: tensor_ok_def MNN_MAX_TENSOR_DIM_def)
  moreover have "take 4 (dim input) = image_shape (dimensionFormat input) n c h w" using d by (metis length_image_shape append_eq_conv_conj)
  ultimately have "copy_dims input (dimensions input) out = Ret (out\<lparr>dim := image_shape (dimensionFormat input) n c h w @ drop 4 (dim out)\<rparr>)"
    by (simp add: copy_dims_def e(1))
  then show ?thesis using assms(2)
    by (simp add: pool_output_def e(1) image_shape_def setLength_def put_def shape_def tensor_ok_def MNN_MAX_TENSOR_DIM_def)
qed

text \<open>What is asked of the padded extents, the window and the strides: positive and below 2 ^ 24.\<close>

definition pool_axes_ok :: "Pool \<Rightarrow> int \<Rightarrow> int \<Rightarrow> int \<Rightarrow> int \<Rightarrow> bool" where
  "pool_axes_ok layer w h pw ph \<longleftrightarrow> pool_padded layer w h = Ret (pw, ph) \<and>
     (\<forall>x \<in> {pw, ph, pool_kernelX layer, pool_kernelY layer, pool_strideX layer, pool_strideY layer}. 0 < x \<and> small x)"


definition demo_pool :: "bool \<Rightarrow> Pool" where
  "demo_pool ceil = \<lparr>pool_padX = 0, pool_padY = 0, isGlobal = False, pool_kernelX = 3, pool_kernelY = 9, pool_strideX = 2, pool_strideY = 2,
     padType = PoolPadType_CAFFE, ceilModel = ceil, pool_pads = Some [0, 1, 0, 1]\<rparr>"


end
