(* ===== verification/MNN_Shape_Stride_Facts.thy ===== *)
theory MNN_Shape_Stride_Facts
  imports MNN_Shape_Stride MNN_Shape_Window_Facts
begin

text \<open>
  What strided slices compute: the extents count the indices a slice visits, for slices that visit
  something; empty slices and negative ends with a negative stride are computed wrongly.
\<close>

unbundle bit_operations_syntax

text \<open>The indices visited from \<open>f\<close> in steps of \<open>s\<close> before \<open>l\<close>, and where a slice starts and ends.\<close>

definition steps :: "int \<Rightarrow> int \<Rightarrow> int \<Rightarrow> int" where
  "steps f l s = int (card {j :: nat. if 0 < s then f + int j * s < l else l < f + int j * s})"

definition first_index :: "int \<Rightarrow> bool \<Rightarrow> int \<Rightarrow> int \<Rightarrow> int" where
  "first_index d masked b s =
     (if masked then if s < 0 then d - 1 else 0
      else if b < 0 then b + d else if s < 0 then min b (d - 1) else min b d)"

definition limit_index :: "int \<Rightarrow> bool \<Rightarrow> int \<Rightarrow> int \<Rightarrow> int" where
  "limit_index d masked e s =
     (if masked then if s < 0 then - 1 else d
      else if e < 0 then max (- 1) (e + d) else min e d)"

definition axis_ok :: "int \<Rightarrow> bool \<Rightarrow> bool \<Rightarrow> int \<Rightarrow> int \<Rightarrow> int \<Rightarrow> bool" where
  "axis_ok d bm em b e s \<longleftrightarrow>
     0 < d \<and> d < 2 ^ 30 \<and> - d \<le> b \<and> s \<noteq> 0 \<and> \<bar>s\<bar> < 2 ^ 31 \<and> (s < 0 \<and> \<not> em \<longrightarrow> 0 \<le> e) \<and>
     (s = 1 \<or> (if 0 < s then first_index d bm b s < limit_index d em e s else limit_index d em e s < first_index d bm b s))"

definition axis_extent :: "int \<Rightarrow> bool \<Rightarrow> bool \<Rightarrow> int \<Rightarrow> int \<Rightarrow> int \<Rightarrow> int" where
  "axis_extent d bm em b e s = steps (first_index d bm b s) (limit_index d em e s) s"

lemma steps_windows: "steps f l s = (if 0 < s then windows (l - f) 1 s else windows (f - l) 1 (- s))"
proof -
  have "{j :: nat. f + int j * s < l} = {j. int j * s + 1 \<le> l - f}" "{j :: nat. l < f + int j * s} = {j. int j * - s + 1 \<le> f - l}"
    by auto
  then show ?thesis by (simp add: steps_def windows_def)
qed

lemma slice_begin_eq:
  assumes "axis_ok d bm em b e s"
  shows "slice_begin d bm s b = Ret (first_index d bm b s)"
proof (cases "\<not> bm \<and> b < 0 \<and> 0 < s")
  case True
  have "(- b + d - 1) div d = 1"
    using assms True by (intro int_div_pos_eq [of _ _ _ "- b - 1"]) (auto simp: axis_ok_def)
  then show ?thesis
    using assms True div32_nonneg [of "- b + d - 1" d] by (auto simp: axis_ok_def slice_begin_def first_index_def i32_def)
next
  case False
  then show ?thesis using assms
    by (auto simp: axis_ok_def slice_begin_def first_index_def i32_def beginAndEndShapeLimit_def Let_def)
qed

lemma slice_end_eq:
  assumes "axis_ok d bm em b e s"
  shows "slice_end d em s e = Ret (limit_index d em e s)"
  using assms by (auto simp: axis_ok_def slice_end_def limit_index_def i32_def beginAndEndShapeLimit_def Let_def)

lemma slice_size_eq: "b < e \<Longrightarrow> 0 \<le> b + 1 \<Longrightarrow> e < 2 ^ 30 \<Longrightarrow> 0 < s \<Longrightarrow> slice_size b e s = Ret (windows (e - b) 1 s)"
  using floor_windows [of 1 "e - b" s] by (simp add: slice_size_def i32_def)

lemma slice_order_size:
  assumes "- 1 \<le> f" "f < 2 ^ 30" "- 1 \<le> l" "l < 2 ^ 30" "s \<noteq> 0" "\<bar>s\<bar> < 2 ^ 31"
    and "s = 1 \<or> (if 0 < s then f < l else l < f)"
  shows "andThen (slice_order f l s) (\<lambda>(b, e, s). slice_size b e s) = Ret (steps f l s)"
proof -
  consider "0 < s" "f < l" | "s < 0" "l < f" | "s = 1" "l \<le> f" using assms by (cases "f < l") (auto split: if_splits)
  then show ?thesis
  proof cases
    case 1 then show ?thesis using assms by (simp add: slice_order_def steps_windows slice_size_eq)
  next
    case 2 then show ?thesis using assms by (simp add: slice_order_def steps_windows slice_size_eq i32_def)
  next
    case 3 then show ?thesis using assms by (auto simp: slice_order_def steps_windows windows_eq slice_size_def i32_def div32_def)
  qed
qed

lemma slice_extent:
  assumes ok: "axis_ok d bm em b e s"
  shows "andThen (slice_order (first_index d bm b s) (limit_index d em e s) s) (\<lambda>(b, e, s). slice_size b e s) =
    Ret (axis_extent d bm em b e s)"
  unfolding axis_extent_def
  by (rule slice_order_size) (use ok in \<open>auto simp: axis_ok_def first_index_def limit_index_def\<close>)

lemma mask_bit: "(bits :: int) AND 2 ^ i > 0 \<longleftrightarrow> bit bits i"
  by (simp add: and_exp_eq_0_iff_not_bit less_le)

lemma mask_bits_eq:
  assumes "k \<le> MNN_MAX_TENSOR_DIM"
  shows "mask_bits bits (int k) = Ret (map (\<lambda>i. bits AND push_bit i 1) [0..<k] @ drop k zeros)"
  using fill_array_eq [of k zeros "\<lambda>i. Ret (bits AND push_bit (nat i) 1)"] assms
  by (simp add: mask_bits_def in_range_0 zeros_def)


lemma put_map:
  assumes "n < length xs"
  shows "put (map g [0..<n] @ drop n xs) (int n) (g n) = Ret (map g [0..<Suc n] @ drop (Suc n) xs)"
  using assms by (simp add: list_update_append Cons_nth_drop_Suc [symmetric])

lemma slice_arrays_of_eq:
  assumes "k \<le> MNN_MAX_TENSOR_DIM" "n \<le> MNN_MAX_TENSOR_DIM" "length sh = MNN_MAX_TENSOR_DIM"
  shows "slice_arrays_of p sh (int n) (int k) = Ret
    \<lparr>begins = zeros, ends = map ((!) sh) [0..<n] @ drop n zeros, strides = map (\<lambda>i. 1) [0..<n] @ drop n zeros,
     beginMasks = map (\<lambda>i. beginMask p AND push_bit i 1) [0..<k] @ drop k zeros,
     endMasks = map (\<lambda>i. endMask p AND push_bit i 1) [0..<k] @ drop k zeros,
     shrinkAxisMasks = map (\<lambda>i. shrinkAxisMask p AND push_bit i 1) [0..<k] @ drop k zeros,
     newAxisMasks = map (\<lambda>i. newAxisMask p AND push_bit i 1) [0..<k] @ drop k zeros, strideSize = int k\<rparr>"
proof -
  have z: "length zeros = MNN_MAX_TENSOR_DIM" by (simp add: zeros_def)
  have "for_each (map int [0..<n]) (\<lambda>i xs. andThen (MNN_Tensor.at sh i) (\<lambda>l. put xs i l)) zeros = Ret (map ((!) sh) [0..<n] @ drop n zeros)"
    by (rule fill_array_eq) (use assms z in auto)
  moreover have "for_each (map int [0..<n]) (\<lambda>i xs. put xs i 1) zeros = Ret (map (\<lambda>i. 1) [0..<n] @ drop n zeros)"
    using fill_array_eq [of n zeros "\<lambda>i. Ret 1" "\<lambda>i. 1"] assms z by simp
  ultimately show ?thesis using assms by (simp add: slice_arrays_of_def mask_bits_eq in_range_0)
qed

lemma tf_loop:
  assumes "k \<le> length (host bt)" "k \<le> length (host et)" "k \<le> length (host st)"
    and "length (begins a) = MNN_MAX_TENSOR_DIM" "length (ends a) = MNN_MAX_TENSOR_DIM" "length (strides a) = MNN_MAX_TENSOR_DIM"
    and "k \<le> MNN_MAX_TENSOR_DIM" and "\<And>i. i < k \<Longrightarrow> host st ! i \<noteq> 0"
  shows "for_each (map int [0..<k]) (tf_axis bt et (Some st)) a = Ret (a\<lparr>begins := map ((!) (host bt)) [0..<k] @ drop k (begins a),
    ends := map ((!) (host et)) [0..<k] @ drop k (ends a), strides := map ((!) (host st)) [0..<k] @ drop k (strides a)\<rparr>)"
  using assms
proof (induction k)
  case (Suc k)
  let ?a = "\<lambda>k. a\<lparr>begins := map ((!) (host bt)) [0..<k] @ drop k (begins a),
    ends := map ((!) (host et)) [0..<k] @ drop k (ends a), strides := map ((!) (host st)) [0..<k] @ drop k (strides a)\<rparr>"
  have "for_each (map int [0..<k]) (tf_axis bt et (Some st)) a = Ret (?a k)" by (rule Suc.IH) (use Suc.prems in auto)
  moreover have "tf_axis bt et (Some st) (int k) (?a k) = Ret (?a (Suc k))"
    unfolding tf_axis_def using Suc.prems
      put_map [of k "begins a" "(!) (host bt)"] put_map [of k "ends a" "(!) (host et)"] put_map [of k "strides a" "(!) (host st)"]
    by (simp add: at_def del: put_simps upt_Suc)
  ultimately show ?case by (simp only: loop_Suc andThen.simps)
qed simp


lemma push_extents:
  assumes "length xs + n \<le> MNN_MAX_TENSOR_DIM" and "\<And>i. i < n \<Longrightarrow> G (int i) = Ret (g i)"
  shows "for_each (map int [0..<n]) (\<lambda>i s. andThen (G i) (\<lambda>l. push_extent l s)) xs = Ret (xs @ map g [0..<n])"
  using assms
proof (induction n)
  case (Suc n)
  then show ?case by (simp add: push_extent_def for_each_append)
qed simp

lemma slice_axis_eq:
  assumes ok: "axis_ok (sh ! i) (bit bm i) (bit em i) (begins a ! i) (ends a ! i) (strides a ! i)"
    and i: "i < length sh" "i < length (begins a)" "i < length (ends a)" "i < length (strides a)" "length xs < MNN_MAX_TENSOR_DIM"
    and l: "i < length (newAxisMasks a)" "i < length (shrinkAxisMasks a)" "i < length (beginMasks a)" "i < length (endMasks a)"
    and m: "newAxisMasks a ! i = 0" "shrinkAxisMasks a ! i = 0" "beginMasks a ! i = bm AND push_bit i 1" "endMasks a ! i = em AND push_bit i 1"
  shows "slice_axis sh a (int i) (int i, xs) =
    Ret (int i + 1, xs @ [axis_extent (sh ! i) (bit bm i) (bit em i) (begins a ! i) (ends a ! i) (strides a ! i)])"
proof -
  obtain b e s where o: "slice_order (first_index (sh ! i) (bit bm i) (begins a ! i) (strides a ! i))
      (limit_index (sh ! i) (bit em i) (ends a ! i) (strides a ! i)) (strides a ! i) = Ret (b, e, s)"
    and z: "slice_size b e s = Ret (axis_extent (sh ! i) (bit bm i) (bit em i) (begins a ! i) (ends a ! i) (strides a ! i))"
    using slice_extent [OF ok] by (auto simp: andThen_Ret_iff)
  show ?thesis unfolding slice_axis_def using i l o z slice_begin_eq [OF ok] slice_end_eq [OF ok]
    by (simp add: m mask_bit push_extent_def at_def del: at_simps)
qed

lemma strided_loop:
  assumes "k \<le> MNN_MAX_TENSOR_DIM"
    and step: "\<And>i xs. i < k \<Longrightarrow> length xs < MNN_MAX_TENSOR_DIM \<Longrightarrow> slice_axis sh a (int i) (int i, xs) = Ret (int i + 1, xs @ [g i])"
  shows "for_each (map int [0..<k]) (slice_axis sh a) (0, []) = Ret (int k, map g [0..<k])"
  using assms
proof (induction k)
  case (Suc k)
  have "for_each (map int [0..<k]) (slice_axis sh a) (0, []) = Ret (int k, map g [0..<k])" by (rule Suc.IH) (use Suc.prems in auto)
  moreover have "slice_axis sh a (int k) (int k, map g [0..<k]) = Ret (int (Suc k), map g [0..<Suc k])"
    using Suc.prems by (simp add: add.commute)
  ultimately show ?case by (simp only: loop_Suc andThen.simps)
qed simp

definition plain_slice :: "StridedSliceParam \<Rightarrow> bool" where
  "plain_slice p \<longleftrightarrow> fromType p = 0 \<and> ellipsisMask p = 0 \<and> newAxisMask p = 0 \<and> shrinkAxisMask p = 0"

text \<open>The tail of the shape is kept, and the extents are written into the output.\<close>

lemma kept_extents:
  assumes "tensor_ok input" and "dimensions input = int n" and "k \<le> n" and "length xs = k"
  shows "for_each (map int [0..<n - k]) (\<lambda>i s. andThen (length_at input (int k + i)) (\<lambda>l. push_extent l s)) xs = Ret (xs @ drop k (shape input))"
proof -
  have li: "length (Tensor.dim input) = MNN_MAX_TENSOR_DIM" "length (shape input) = n" "n \<le> MNN_MAX_TENSOR_DIM"
    using assms by (auto simp: tensor_ok_def shape_def)
  have "for_each (map int [0..<n - k]) (\<lambda>i s. andThen (length_at input (int k + i)) (\<lambda>l. push_extent l s)) xs =
      Ret (xs @ map (\<lambda>i. shape input ! (k + i)) [0..<n - k])"
    by (rule push_extents) (use assms li in \<open>auto simp: length_at_def at_def shape_def nat_int_add\<close>)
  also have "map (\<lambda>i. shape input ! (k + i)) [0..<n - k] = drop k (shape input)"
    using li by (simp add: list_eq_iff_nth_eq)
  finally show ?thesis .
qed

lemma written_extents:
  assumes "tensor_ok out0" and "n \<le> MNN_MAX_TENSOR_DIM" and "length xs = n"
  shows "for_each (map int [0..<n]) (\<lambda>i out. andThen (MNN_Tensor.at xs i) (\<lambda>l. setLength out i l)) (out0\<lparr>dimensions := int n, ttype := ty\<rparr>) =
    Ret (out0\<lparr>dimensions := int n, ttype := ty, dim := map ((!) xs) [0..<n] @ drop n (Tensor.dim out0)\<rparr>)"
  using fill_tensor_eq [of n "out0\<lparr>dimensions := int n, ttype := ty\<rparr>" "\<lambda>i. MNN_Tensor.at xs i" "(!) xs"] assms by (simp add: tensor_ok_def)

text \<open>C22: A strided slice (TensorFlow form, begin and end masks, no ellipsis, no new or dropped axes) succeeds; along each sliced axis the
  output has as many cells as indices are visited from the first index in steps of the stride before the limit, negative begins
  (and, for positive strides, negative ends) counting from the end, and the other axes are kept. This is for axes with 1 to 2 ^ 30 - 1 cells, begins not
  before the start of the axis, ends that are not negative where the stride is negative (unless masked), and slices that visit some index or have stride 1
  (\<open>axis_ok\<close>; the code miscounts others, \<open>strided_slice_wrong_extents\<close>).\<close>

theorem strided_slice_shape:
  assumes ok: "tensor_ok input" "tensor_ok out0" "0 < dimensions input"
    and p: "plain_slice p"
    and k: "length_at bt 0 = Ret (int k)" "int k \<le> dimensions input"
      "k \<le> length (host bt)" "k \<le> length (host et)" "k \<le> length (host st)"
    and axes: "\<forall>i < k. axis_ok (shape input ! i) (bit (beginMask p) i) (bit (endMask p) i) (host bt ! i) (host et ! i) (host st ! i)"
  shows "\<exists>out. StridedSliceComputer p [input, bt, et, st] [out0] = Ret [out] \<and> tensor_ok out \<and> ttype out = ttype input \<and>
    shape out = map (\<lambda>i. axis_extent (shape input ! i) (bit (beginMask p) i) (bit (endMask p) i) (host bt ! i) (host et ! i) (host st ! i)) [0..<k]
      @ drop k (shape input)"
proof -
  define n where "n = nat (dimensions input)"
  have n: "dimensions input = int n" "n \<le> MNN_MAX_TENSOR_DIM" "0 < n" "k \<le> n" using ok k by (auto simp: n_def tensor_ok_def)
  have z: "length zeros = MNN_MAX_TENSOR_DIM" by (simp add: zeros_def)
  have li: "length (Tensor.dim input) = MNN_MAX_TENSOR_DIM" "length (shape input) = n" using ok(1) n by (auto simp: tensor_ok_def shape_def)
  define sh where "sh = map ((!) (Tensor.dim input)) [0..<n] @ drop n zeros"
  have sh: "length sh = MNN_MAX_TENSOR_DIM" using n z by (simp add: sh_def)
  have shi: "sh ! i = shape input ! i" if "i < n" for i using that li n by (simp add: sh_def nth_append shape_def)
  have s1: "for_each (map int [0..<n]) (\<lambda>i xs. andThen (length_at input i) (\<lambda>l. put xs i l)) zeros = Ret sh"
    unfolding sh_def by (rule fill_array_eq) (use n z li in auto)
  define a where "a = \<lparr>begins = map ((!) (host bt)) [0..<k] @ drop k zeros, ends = map ((!) (host et)) [0..<k] @ drop k sh,
     strides = map ((!) (host st)) [0..<k] @ drop k (map (\<lambda>i. 1) [0..<n] @ drop n zeros),
     beginMasks = map (\<lambda>i. beginMask p AND push_bit i 1) [0..<k] @ drop k zeros,
     endMasks = map (\<lambda>i. endMask p AND push_bit i 1) [0..<k] @ drop k zeros,
     shrinkAxisMasks = map (\<lambda>i. shrinkAxisMask p AND push_bit i 1) [0..<k] @ drop k zeros,
     newAxisMasks = map (\<lambda>i. newAxisMask p AND push_bit i 1) [0..<k] @ drop k zeros, strideSize = int k\<rparr>"
  have "map ((!) sh) [0..<n] @ drop n zeros = sh" using shi sh n z by (simp add: sh_def list_eq_iff_nth_eq nth_append)
  then have s2: "andThen (slice_arrays_of p sh (int n) (int k)) (tf_slice 0 sh (int n) [input, bt, et, st] bt et) = Ret a"
    using slice_arrays_of_eq [of k n sh p] tf_loop [of k bt et st] n k(3-5) axes sh z
    by (simp add: tf_slice_def in_range_0 a_def axis_ok_def)
  then obtain a0 where a0: "slice_arrays_of p sh (int n) (int k) = Ret a0" "tf_slice 0 sh (int n) [input, bt, et, st] bt et a0 = Ret a"
    by (auto simp: andThen_Ret_iff)
  let ?g = "\<lambda>i. axis_extent (shape input ! i) (bit (beginMask p) i) (bit (endMask p) i) (host bt ! i) (host et ! i) (host st ! i)"
  have s3: "for_each (map int [0..<k]) (slice_axis sh a) (0, []) = Ret (int k, map ?g [0..<k])"
  proof (rule strided_loop)
    fix i and xs :: "int list"
    assume "i < k" "length xs < MNN_MAX_TENSOR_DIM"
    then show "slice_axis sh a (int i) (int i, xs) = Ret (int i + 1, xs @ [?g i])"
      using slice_axis_eq [of sh i "beginMask p" "endMask p" a xs] axes p n sh z
      by (simp add: a_def shi nth_append plain_slice_def)
  qed (use n in simp)
  have s4': "for_each (map int [0..<n - k]) (\<lambda>i s. andThen (length_at input (int k + i)) (\<lambda>l. push_extent l s)) (map ?g [0..<k]) =
      Ret (map ?g [0..<k] @ drop k (shape input))"
    by (rule kept_extents [OF ok(1) n(1,4)]) simp
  let ?l = "map ?g [0..<k] @ drop k (shape input)" and ?out = "out0\<lparr>dimensions := int n, ttype := ttype input\<rparr>"
  have ll: "length ?l = n" using li n by simp
  note s5 = written_extents [OF ok(2) n(2) ll, of "ttype input"]
  have "StridedSliceComputer p [input, bt, et, st] [out0] =
    Ret [?out\<lparr>dim := map ((!) ?l) [0..<n] @ drop n (Tensor.dim out0), dimensionFormat := dimensionFormat input\<rparr>]"
  proof -
    have "nat (int n - int k) = n - k" "strideSize a = int k" "MNN_Tensor.at [input, bt, et, st] 2 = Ret et"
      by (simp_all add: a_def at_def)
    then show ?thesis using s1 a0 s3 s4' s5 li n k(1) p unfolding StridedSliceComputer_def Let_def
      by (simp add: plain_slice_def in_range_0 del: length_at_Ret setLength_Ret at_simps)
  qed
  moreover have "map ((!) ?l) [0..<n] = ?l" using ll by (metis map_nth)
  ultimately show ?thesis using ok(2) n ll by (simp add: tensor_ok_def shape_def)
qed

definition demo_slice :: StridedSliceParam where
  "demo_slice = \<lparr>beginMask = 2, endMask = 0, ellipsisMask = 0, newAxisMask = 0, shrinkAxisMask = 0, fromType = 0\<rparr>"

lemma demo_shape: "length ds \<le> MNN_MAX_TENSOR_DIM \<Longrightarrow> shape (demo_tensor ds) = ds"
  by (simp add: shape_def demo_tensor_def)

lemma demo_dimensions: "dimensions (demo_tensor ds) = int (length ds)"
  by (simp add: demo_tensor_def)

theorem strided_slice_shape_witness:
  "\<exists>out. StridedSliceComputer demo_slice [demo_tensor [8, 7, 5], demo_ints [-7, 9], demo_ints [-1, 1], demo_ints [3, -2]] [demo_tensor []] = Ret [out] \<and>
    shape out = [steps 1 7 3, steps 6 1 (-2), 5]"
proof -
  have "\<forall>i < 2. axis_ok (shape (demo_tensor [8, 7, 5]) ! i) (bit (beginMask demo_slice) i) (bit (endMask demo_slice) i)
      (host (demo_ints [-7, 9]) ! i) (host (demo_ints [-1, 1]) ! i) (host (demo_ints [3, -2]) ! i)"
    by (auto simp: less_Suc_eq numeral_2_eq_2 demo_shape MNN_MAX_TENSOR_DIM_def demo_slice_def demo_ints_def axis_ok_def first_index_def
        limit_index_def)
  then show ?thesis
    using strided_slice_shape [of "demo_tensor [8, 7, 5]" "demo_tensor []" demo_slice "demo_ints [-7, 9]" 2 "demo_ints [-1, 1]" "demo_ints [3, -2]"]
    by (auto simp: demo_ok demo_shape MNN_MAX_TENSOR_DIM_def plain_slice_def demo_slice_def demo_ints_def demo_dimensions axis_extent_def
        first_index_def limit_index_def numeral_2_eq_2)
qed

subsection \<open>Slices computed wrongly\<close>

definition sliced_shape :: "int \<Rightarrow> int \<Rightarrow> int \<Rightarrow> int \<Rightarrow> int list option" where
  "sliced_shape d b e s =
     (case StridedSliceComputer (demo_slice\<lparr>beginMask := 0\<rparr>) [demo_tensor [d], demo_ints [b], demo_ints [e], demo_ints [s]] [demo_tensor []] of
        Ret [out] \<Rightarrow> Some (shape out) | _ \<Rightarrow> None)"

text \<open>Slices of eight cells that visit nothing get extents: \<open>[3:3:2]\<close> gets 1 and \<open>[3:3:-1]\<close> gets 2; and \<open>[5:-5:-1]\<close>,
  which visits the indices 5 and 4, gets 6, as a negative end is taken for the position before the first cell.\<close>

theorem strided_slice_wrong_extents:
  "sliced_shape 8 3 3 2 = Some [1] \<and> steps 3 3 2 = 0 \<and> sliced_shape 8 3 3 (-1) = Some [2] \<and> steps 3 3 (-1) = 0 \<and>
   sliced_shape 8 5 (-5) (-1) = Some [6] \<and> steps 5 (8 - 5) (-1) = 2"
proof (intro conjI)
  show "sliced_shape 8 3 3 2 = Some [1]" by code_simp
  show "sliced_shape 8 3 3 (-1) = Some [2]" by code_simp
  show "sliced_shape 8 5 (-5) (-1) = Some [6]" by code_simp
qed (simp_all add: steps_windows windows_eq)

end
