(* ===== verification/MNN_Shape_Block.thy ===== *)
theory MNN_Shape_Block
  imports MNN_Shape_Window
begin

text \<open>
  Shape inference for operators that move blocks between space, depth and batch (\<open>ShapeSpaceToDepth.cpp\<close>,
  \<open>ShapeDepthToSpace.cpp\<close>, \<open>ShapeSpaceToBatchND.cpp\<close>, \<open>ShapeBatchToSpaceND.cpp\<close>) and for those that pick
  elements (\<open>ShapeSliceTf.cpp\<close>, \<open>ShapeOneHot.cpp\<close>, \<open>ShapeTopKV2.cpp\<close>, \<open>ShapeGatherND.cpp\<close>, \<open>ShapeScatterNd.cpp\<close>).
\<close>

subsection \<open>Space and depth\<close>

definition SpaceToDepthSizeComputer :: "int \<Rightarrow> Tensor list \<Rightarrow> Tensor list \<Rightarrow> Tensor list res" where
  "SpaceToDepthSizeComputer blockSize inputs outputs =
     andThen (MNN_Tensor.at inputs 0) (\<lambda>ib.
     andThen (MNN_Tensor.at outputs 0) (\<lambda>ob.
     andThen (require (dimensions ib = 4)) (\<lambda>_.
     andThen (require (\<not> blockSize \<le> 0)) (\<lambda>_.
     andThen (height ib) (\<lambda>h.
     andThen (width ib) (\<lambda>w.
     andThen (require (\<not> (h smod blockSize \<noteq> 0 \<or> w smod blockSize \<noteq> 0))) (\<lambda>_.
     andThen (batch ib) (\<lambda>n.
     andThen (channel ib) (\<lambda>c.
     andThen (div32 h blockSize) (\<lambda>h'.
     andThen (div32 w blockSize) (\<lambda>w'.
     andThen (i32 (blockSize * blockSize)) (\<lambda>b.
     andThen (i32 (c * b)) (\<lambda>c'.
     andThen (put_image (dimensionFormat ib) n c' h' w' (ob\<lparr>dimensions := dimensions ib, ttype := ttype ib\<rparr>)) (\<lambda>ob.
     Ret (ob\<lparr>dimensionFormat := dimensionFormat ib\<rparr> # tl outputs)))))))))))))))"

definition DepthToSpaceSizeComputer :: "int \<Rightarrow> Tensor list \<Rightarrow> Tensor list \<Rightarrow> Tensor list res" where
  "DepthToSpaceSizeComputer blockSize inputs outputs =
     andThen (MNN_Tensor.at inputs 0) (\<lambda>ib.
     andThen (MNN_Tensor.at outputs 0) (\<lambda>ob.
     andThen (batch ib) (\<lambda>n.
     andThen (height ib) (\<lambda>h.
     andThen (width ib) (\<lambda>w.
     andThen (channel ib) (\<lambda>c.
     andThen (i32 (h * blockSize)) (\<lambda>h'.
     andThen (i32 (w * blockSize)) (\<lambda>w'.
     andThen (i32 (blockSize * blockSize)) (\<lambda>b.
     andThen (div32 c b) (\<lambda>c'.
     andThen (put_image (dimensionFormat ib) n c' h' w' (ob\<lparr>dimensions := dimensions ib, ttype := ttype ib\<rparr>)) (\<lambda>ob.
     Ret (ob\<lparr>dimensionFormat := dimensionFormat ib\<rparr> # tl outputs))))))))))))"

subsection \<open>Space and batch\<close>

text \<open>The operator's own parameters, used when there is only one input.\<close>

record SpaceBatch =
  blockShape_dims :: "int list"
  blockShape :: "int list"
  padding :: "int list"

definition space_batch_data :: "SpaceBatch \<Rightarrow> Tensor list \<Rightarrow> (int \<times> int list \<times> int list) res" where
  "space_batch_data p inputs =
     (if length inputs = 3
      then andThen (length_at (inputs ! 1) 0) (\<lambda>blockSize. Ret (blockSize, host (inputs ! 1), host (inputs ! 2)))
      else andThen (MNN_Tensor.at (blockShape_dims p) 0) (\<lambda>blockSize. Ret (blockSize, blockShape p, padding p)))"

definition SpaceToBatchNDSizeComputer :: "SpaceBatch \<Rightarrow> Tensor list \<Rightarrow> Tensor list \<Rightarrow> Tensor list res" where
  "SpaceToBatchNDSizeComputer p inputs outputs =
     andThen (MNN_Tensor.at inputs 0) (\<lambda>input.
     andThen (MNN_Tensor.at outputs 0) (\<lambda>out.
     andThen (space_batch_data p inputs) (\<lambda>(blockSize, blockData, paddingData).
     let format = dimensionFormat input; spatialStart = (if NHWC \<noteq> format then 2 else 1)
     in andThen (i32 (blockSize + spatialStart)) (\<lambda>top.
        andThen (require (\<not> top > dimensions input)) (\<lambda>_.
        andThen (for_each (in_range 0 blockSize) (\<lambda>i u. andThen (MNN_Tensor.at blockData i) (\<lambda>b. require (\<not> b \<le> 0))) ()) (\<lambda>_.
        andThen (batch input) (\<lambda>n.
        andThen (for_each (in_range 0 blockSize) (\<lambda>i n. andThen (MNN_Tensor.at blockData i) (\<lambda>b. i32 (n * b))) n) (\<lambda>n.
        andThen (setLength (out\<lparr>ttype := ttype input, dimensions := dimensions input\<rparr>) 0 n) (\<lambda>out.
        let spatial = (\<lambda>out. for_each (in_range 0 blockSize) (\<lambda>i out.
              andThen (length_at input (spatialStart + i)) (\<lambda>l.
              andThen (MNN_Tensor.at paddingData (2 * i)) (\<lambda>p0.
              andThen (MNN_Tensor.at paddingData (2 * i + 1)) (\<lambda>p1.
              andThen (i32 (l + p0)) (\<lambda>l.
              andThen (i32 (l + p1)) (\<lambda>paddedLength.
              andThen (MNN_Tensor.at blockData i) (\<lambda>b.
              andThen (div32 paddedLength b) (\<lambda>outputLength.
              setLength out (i + spatialStart) outputLength)))))))) out)
        in andThen
             (if NHWC \<noteq> format
              then andThen (length_at input 1) (\<lambda>c. andThen (setLength out 1 c) spatial)
              else andThen (spatial out) (\<lambda>out. andThen (length_at input (1 + blockSize)) (\<lambda>c. setLength out (1 + blockSize) c))) (\<lambda>out.
           Ret (out\<lparr>dimensionFormat := format\<rparr> # tl outputs)))))))))))"

definition BatchToSpaceNDSizeComputer :: "SpaceBatch \<Rightarrow> Tensor list \<Rightarrow> Tensor list \<Rightarrow> Tensor list res" where
  "BatchToSpaceNDSizeComputer p inputs outputs =
     andThen (MNN_Tensor.at inputs 0) (\<lambda>input.
     andThen (MNN_Tensor.at outputs 0) (\<lambda>out.
     andThen (space_batch_data p inputs) (\<lambda>(blockSize, blockData, paddingData).
     andThen (batch input) (\<lambda>n.
     andThen (for_each (in_range 0 blockSize) (\<lambda>i n. andThen (MNN_Tensor.at blockData i) (\<lambda>b. div32 n b)) n) (\<lambda>n.
     andThen (setLength out 0 n) (\<lambda>out.
     let format = dimensionFormat input; spatialStart = (if NHWC \<noteq> format then 2 else 1);
         spatial = (\<lambda>out. for_each (in_range 0 blockSize) (\<lambda>i out.
              andThen (length_at input (spatialStart + i)) (\<lambda>l.
              andThen (MNN_Tensor.at blockData i) (\<lambda>b.
              andThen (i32 (l * b)) (\<lambda>l.
              andThen (MNN_Tensor.at paddingData (2 * i)) (\<lambda>p0.
              andThen (i32 (l - p0)) (\<lambda>l.
              andThen (MNN_Tensor.at paddingData (2 * i + 1)) (\<lambda>p1.
              andThen (i32 (l - p1)) (\<lambda>paddedLength.
              setLength out (i + spatialStart) paddedLength)))))))) out);
         channel_at = (if NHWC \<noteq> format then 1 else 1 + blockSize)
     in andThen (length_at input channel_at) (\<lambda>c.
        andThen (setLength (out\<lparr>dimensions := dimensions input, ttype := ttype input\<rparr>) channel_at c) (\<lambda>out.
        andThen (spatial out) (\<lambda>out.
        Ret (out\<lparr>dimensionFormat := format\<rparr> # tl outputs))))))))))"

subsection \<open>Picking elements\<close>

definition SliceTfComputer :: "Tensor list \<Rightarrow> Tensor list \<Rightarrow> Tensor list res" where
  "SliceTfComputer inputs outputs =
     andThen (MNN_Tensor.at inputs 0) (\<lambda>input.
     andThen (MNN_Tensor.at inputs 1) (\<lambda>begin_tensor.
     andThen (MNN_Tensor.at inputs 2) (\<lambda>size_tensor.
     andThen (MNN_Tensor.at outputs 0) (\<lambda>out.
     andThen (for_each (in_range 0 (dimensions input)) (\<lambda>i out.
         andThen (MNN_Tensor.at (host size_tensor) i) (\<lambda>d.
         andThen (MNN_Tensor.at (host begin_tensor) i) (\<lambda>b.
         andThen (length_at input i) (\<lambda>l.
         andThen (if b < 0 then i32 (b + l) else Ret b) (\<lambda>b.
         andThen (require (\<not> (b < 0 \<or> b > l))) (\<lambda>_.
         andThen (if d = - 1 then i32 (l - b) else Ret d) (\<lambda>d.
         andThen (require (\<not> d < 0)) (\<lambda>_.
         andThen (i32 (b + d)) (\<lambda>e.
         andThen (require (\<not> e > l)) (\<lambda>_.
         setLength out i d)))))))))) (out\<lparr>dimensions := dimensions input, ttype := ttype input\<rparr>)) (\<lambda>out.
     Ret (map (\<lambda>o1. o1\<lparr>dimensionFormat := dimensionFormat input\<rparr>) (out # tl outputs)))))))"

definition ShapeOneHot :: "int \<Rightarrow> Tensor list \<Rightarrow> Tensor list \<Rightarrow> Tensor list res" where
  "ShapeOneHot axis0 inputs outputs =
     andThen (MNN_Tensor.at inputs 0) (\<lambda>indices.
     andThen (MNN_Tensor.at inputs 1) (\<lambda>depthTensor.
     andThen (MNN_Tensor.at (host depthTensor) 0) (\<lambda>depth.
     andThen (require (\<not> depth < 0)) (\<lambda>_.
     let outputDimension = dimensions indices + 1; axis = (if axis0 < 0 then outputDimension + axis0 else axis0)
     in andThen (MNN_Tensor.at outputs 0) (\<lambda>out.
        andThen (MNN_Tensor.at inputs 2) (\<lambda>on_value.
        andThen (for_each (in_range 0 outputDimension) (\<lambda>i out.
            andThen (if i < axis then length_at indices i else if i = axis then Ret depth else length_at indices (i - 1)) (\<lambda>l.
            setLength out i l)) (out\<lparr>dimensions := outputDimension, ttype := ttype on_value\<rparr>)) (\<lambda>out.
        Ret (out\<lparr>dimensionFormat := dimensionFormat indices\<rparr> # tl outputs))))))))"

definition TopKV2SizeComputer :: "Tensor list \<Rightarrow> Tensor list \<Rightarrow> Tensor list res" where
  "TopKV2SizeComputer inputs outputs =
     andThen (MNN_Tensor.at inputs 0) (\<lambda>input.
     andThen (MNN_Tensor.at inputs 1) (\<lambda>kTensor.
     andThen (MNN_Tensor.at (host kTensor) 0) (\<lambda>k.
     let inputDimension = dimensions input
     in andThen (if length inputs = 3 then MNN_Tensor.at (host (inputs ! 2)) 0 else Ret (inputDimension - 1)) (\<lambda>axis0.
        let axis = (if axis0 < 0 then axis0 + dimensions input else axis0)
        in andThen (MNN_Tensor.at outputs 0) (\<lambda>o0.
           andThen (copy_dims input inputDimension (o0\<lparr>dimensions := inputDimension\<rparr>)) (\<lambda>o0.
           andThen (setLength o0 axis k) (\<lambda>o0.
           andThen (MNN_Tensor.at outputs 1) (\<lambda>o1.
           andThen (copy_dims input inputDimension (o1\<lparr>dimensions := inputDimension\<rparr>)) (\<lambda>o1.
           andThen (setLength o1 axis k) (\<lambda>o1.
           Ret (o0\<lparr>ttype := ttype input, dimensionFormat := dimensionFormat input\<rparr> #
                (setType DT_INT32 o1)\<lparr>dimensionFormat := dimensionFormat kTensor\<rparr> # tl (tl outputs))))))))))))"

definition GatherNDComputer :: "int option \<Rightarrow> Tensor list \<Rightarrow> Tensor list \<Rightarrow> Tensor list res" where
  "GatherNDComputer axis_param inputs outputs =
     andThen (MNN_Tensor.at inputs 0) (\<lambda>params.
     andThen (MNN_Tensor.at inputs 1) (\<lambda>indices.
     andThen (require (\<not> type_code (ttype indices) \<noteq> Type_int)) (\<lambda>_.
     andThen (require (\<not> (dimensions params < 1 \<or> dimensions indices < 1))) (\<lambda>_.
     let batchDim = (case axis_param of Some a \<Rightarrow> a | None \<Rightarrow> 0)
     in andThen (elementSize indices) (\<lambda>n.
        andThen (MNN_Tensor.at outputs 0) (\<lambda>out.
        if n = 0 then
          andThen (setLength (out\<lparr>ttype := ttype params, dimensionFormat := dimensionFormat params, dimensions := 2\<rparr>) 0 0) (\<lambda>out.
          andThen (MNN_Tensor.at (shape params) (int (length (shape params)) - 1)) (\<lambda>l.
          andThen (setLength out 1 l) (\<lambda>out. Ret (out # tl outputs))))
        else
          andThen (length_at indices (dimensions indices - 1)) (\<lambda>indiceNd.
          andThen (require (\<not> indiceNd > dimensions params)) (\<lambda>_.
          andThen (i32 (dimensions params + dimensions indices - indiceNd - 1 - batchDim)) (\<lambda>dims.
          andThen (i32 (indiceNd + batchDim)) (\<lambda>first.
          andThen (for_each (in_range 0 (dimensions indices - 1)) (\<lambda>i (outputIndex, out).
              andThen (length_at indices i) (\<lambda>l. andThen (setLength out outputIndex l) (\<lambda>out. Ret (outputIndex + 1, out))))
              (0, out\<lparr>ttype := ttype params, dimensions := dims, dimensionFormat := dimensionFormat params\<rparr>)) (\<lambda>(outputIndex, out).
          andThen (for_each (in_range first (dimensions params)) (\<lambda>i (outputIndex, out).
              andThen (length_at params i) (\<lambda>l. andThen (setLength out outputIndex l) (\<lambda>out. Ret (outputIndex + 1, out))))
              (outputIndex, out)) (\<lambda>(outputIndex, out).
          Ret (out # tl outputs)))))))))))))"

definition GatherElementsComputer :: "Tensor list \<Rightarrow> Tensor list \<Rightarrow> Tensor list res" where
  "GatherElementsComputer inputs outputs =
     andThen (MNN_Tensor.at outputs 0) (\<lambda>out.
     andThen (MNN_Tensor.at inputs 0) (\<lambda>params.
     andThen (MNN_Tensor.at inputs 1) (\<lambda>indices.
     andThen (for_each (in_range 0 (dimensions indices)) (\<lambda>i out. andThen (length_at indices i) (\<lambda>l. setLength out i l))
       (out\<lparr>dimensions := dimensions indices\<rparr>)) (\<lambda>out.
     Ret (out\<lparr>dimensionFormat := dimensionFormat params, ttype := ttype params\<rparr> # tl outputs)))))"

definition ShapeScatterNd :: "Tensor list \<Rightarrow> Tensor list \<Rightarrow> Tensor list res" where
  "ShapeScatterNd inputs outputs =
     andThen (MNN_Tensor.at inputs 1) (\<lambda>updates.
     andThen (MNN_Tensor.at inputs 2) (\<lambda>target.
     andThen (MNN_Tensor.at outputs 0) (\<lambda>out.
     andThen (length_at target 0) (\<lambda>dimension.
     andThen (for_each (in_range 0 dimension) (\<lambda>i out. andThen (MNN_Tensor.at (host target) i) (\<lambda>l. setLength out i l))
       (out\<lparr>dimensions := dimension\<rparr>)) (\<lambda>out.
     Ret (out\<lparr>ttype := ttype updates, dimensionFormat := dimensionFormat updates\<rparr> # tl outputs))))))"

end
