(* ===== verification/MNN_Shape_Block_Facts.thy ===== *)
theory MNN_Shape_Block_Facts
  imports MNN_Shape_Block MNN_Shape_Window_Facts
begin

text \<open>
  Moving blocks from space to depth or to the batch is undone by moving them back; the elements a slice picks lie
  inside the input; one-hot encoding adds one axis.
\<close>

subsection \<open>Space and depth\<close>

lemma sdiv_nonneg: "0 \<le> x \<Longrightarrow> 0 < (b :: int) \<Longrightarrow> x sdiv b = x div b"
  by (cases "x = 0") (simp_all add: signed_divide_int_def)

lemma smod_nonneg: "0 \<le> x \<Longrightarrow> 0 < (b :: int) \<Longrightarrow> x smod b = x mod b"
  by (cases "x = 0") (simp_all add: signed_modulo_int_def sdiv_nonneg minus_div_mult_eq_mod)

lemma div32_block:
  assumes "0 \<le> x" "x < 2 ^ 31" "0 < b"
  shows "div32 x b = Ret (x div b)"
proof -
  have "x div b \<le> x" using assms zdiv_mono2 [of x 1 b] by simp
  moreover have "0 \<le> x div b" using assms by (simp add: pos_imp_zdiv_nonneg_iff)
  ultimately show ?thesis using assms by (simp add: div32_def sdiv_nonneg i32_def)
qed

lemma div32_exact:
  assumes "int32 x" and "0 < b"
  shows "div32 (x * b) b = Ret x"
proof -
  have "(x * b) sdiv b = sgn x * \<bar>x\<bar>" using assms(2) by (simp add: signed_divide_int_def sgn_mult abs_mult)
  then show ?thesis using assms by (simp add: div32_def int32_def i32_def sgn_mult_abs)
qed

lemma SpaceToDepth_eq:
  assumes ok: "tensor_ok input" "tensor_ok out0" and sh: "shape input = image_shape (dimensionFormat input) n c h w"
    and hw: "0 \<le> h" "h < 2 ^ 31" "0 \<le> w" "w < 2 ^ 31" and b: "0 < b"
  shows "SpaceToDepthSizeComputer b [input] [out0] =
    (if \<not> (b dvd h \<and> b dvd w) then ReturnFalse
     else if int32 (b * b) \<and> int32 (c * (b * b))
     then Ret [out0\<lparr>dimensions := 4, ttype := ttype input, dim := image_shape (dimensionFormat input) n (c * (b * b)) (h div b) (w div b) @ drop 4 (Tensor.dim out0),
       dimensionFormat := dimensionFormat input\<rparr>] else Undefined)"
proof -
  note e = image_extents [OF ok(1) sh]
  have l: "length (Tensor.dim out0) = MNN_MAX_TENSOR_DIM" using ok(2) by (simp add: tensor_ok_def)
  show ?thesis using e(1-5) b hw l
    by (simp add: SpaceToDepthSizeComputer_def smod_nonneg dvd_eq_mod_eq_0 div32_block put_image_eq int32_def i32_def require_def)
qed

lemma DepthToSpace_eq:
  assumes ok: "tensor_ok input" "tensor_ok out0" and sh: "shape input = image_shape (dimensionFormat input) n (c * (b * b)) h w"
    and i: "int32 (h * b)" "int32 (w * b)" "int32 (b * b)" "int32 c" and b: "0 < b"
  shows "DepthToSpaceSizeComputer b [input] [out0] =
    Ret [out0\<lparr>dimensions := 4, ttype := ttype input, dim := image_shape (dimensionFormat input) n c (h * b) (w * b) @ drop 4 (Tensor.dim out0),
      dimensionFormat := dimensionFormat input\<rparr>]"
proof -
  note e = image_extents [OF ok(1) sh]
  have l: "length (Tensor.dim out0) = MNN_MAX_TENSOR_DIM" using ok(2) by (simp add: tensor_ok_def)
  have "div32 (c * (b * b)) (b * b) = Ret c" using div32_exact [OF i(4), of "b * b"] b by simp
  then show ?thesis using e(1-5) l i by (simp add: DepthToSpaceSizeComputer_def put_image_eq int32_def i32_def)
qed

text \<open>
  C24: space to depth and back. Moving blocks of a positive size into the depth is refused unless the size divides height and
  width. Otherwise, when the new depth is representable, the number of elements is kept, and moving the depth
  back into space gives the shape, type and layout of the input.
\<close>

theorem depth_to_space_inverts:
  assumes ok: "tensor_ok input" "tensor_ok out0" "tensor_ok out1" and sh: "shape input = image_shape (dimensionFormat input) n c h w"
    and hw: "0 \<le> h" "h < 2 ^ 31" "0 \<le> w" "w < 2 ^ 31" and b: "0 < b" and i: "int32 c" "int32 (b * b)" "int32 (c * (b * b))"
  shows "if \<not> (b dvd h \<and> b dvd w) then SpaceToDepthSizeComputer b [input] [out0] = ReturnFalse
    else \<exists>mid back. SpaceToDepthSizeComputer b [input] [out0] = Ret [mid] \<and> elements mid = elements input \<and> tensor_ok mid \<and>
      shape mid = image_shape (dimensionFormat input) n (c * (b * b)) (h div b) (w div b) \<and>
      DepthToSpaceSizeComputer b [mid] [out1] = Ret [back] \<and> shape back = shape input \<and> ttype back = ttype input \<and>
      dimensionFormat back = dimensionFormat input"
proof (cases "b dvd h \<and> b dvd w")
  case True
  define mid where "mid = out0\<lparr>dimensions := 4, ttype := ttype input,
    dim := image_shape (dimensionFormat input) n (c * (b * b)) (h div b) (w div b) @ drop 4 (Tensor.dim out0), dimensionFormat := dimensionFormat input\<rparr>"
  have m: "tensor_ok mid" "shape mid = image_shape (dimensionFormat mid) n (c * (b * b)) (h div b) (w div b)" "dimensionFormat mid = dimensionFormat input"
    using ok(2) by (auto simp: mid_def tensor_ok_def MNN_MAX_TENSOR_DIM_def shape_def)
  have x: "h div b * b = h" "w div b * b = w" using True by simp_all
  have hb: "int32 (h div b * b)" "int32 (w div b * b)" unfolding x using hw by (simp_all add: int32_def)
  note bk = DepthToSpace_eq [OF m(1) ok(3) m(2) hb i(2,1) b]
  obtain h' w' where hw': "h = b * h'" "w = b * w'" using True by (auto elim!: dvdE)
  have "elements mid = elements input"
    unfolding elements_def m(2,3) sh hw' using b by (simp add: image_shape_def)
  then show ?thesis using True SpaceToDepth_eq [OF ok(1,2) sh hw b] i m bk x ok(3) sh
    by (simp add: mid_def [symmetric]) (simp add: mid_def shape_def image_shape_def)
next
  case False
  then show ?thesis using SpaceToDepth_eq [OF ok(1,2) sh hw b] by simp
qed

theorem depth_to_space_inverts_witness:
  "\<exists>mid back. SpaceToDepthSizeComputer 2 [demo_tensor [1, 3, 4, 6]] [demo_tensor []] = Ret [mid] \<and> shape mid = [1, 12, 2, 3] \<and>
     DepthToSpaceSizeComputer 2 [mid] [demo_tensor []] = Ret [back] \<and> shape back = [1, 3, 4, 6]"
proof -
  have f: "dimensionFormat (demo_tensor [1, 3, 4, 6]) = NCHW" "shape (demo_tensor [1, 3, 4, 6]) = image_shape NCHW 1 3 4 6"
    by (simp_all add: demo_tensor_def shape_def image_shape_def)
  show ?thesis
    using depth_to_space_inverts [of "demo_tensor [1, 3, 4, 6]" "demo_tensor []" "demo_tensor []" 1 3 4 6 2]
    by (simp add: f demo_ok MNN_MAX_TENSOR_DIM_def int32_def) (auto simp: image_shape_def)
qed

subsection \<open>Space and batch\<close>

definition block_shape :: "MNN_DATA_FORMAT \<Rightarrow> int \<Rightarrow> int \<Rightarrow> int list \<Rightarrow> int list" where
  "block_shape fmt n c ls = (if fmt = NHWC then n # ls @ [c] else n # c # ls)"

abbreviation first_axis :: "MNN_DATA_FORMAT \<Rightarrow> nat" where
  "first_axis fmt \<equiv> (if fmt = NHWC then 1 else 2)"

abbreviation channel_axis :: "MNN_DATA_FORMAT \<Rightarrow> nat \<Rightarrow> nat" where
  "channel_axis fmt m \<equiv> (if fmt = NHWC then 1 + m else 1)"

lemma block_extents:
  assumes "tensor_ok t" and sh: "shape t = block_shape fmt n c ls"
  shows "dimensions t = int (length ls) + 2" "length ls + 2 \<le> MNN_MAX_TENSOR_DIM" "batch t = Ret n"
    "length_at t (int (channel_axis fmt (length ls))) = Ret c"
    "i < length ls \<Longrightarrow> length_at t (int (first_axis fmt) + int i) = Ret (ls ! i)"
proof -
  have l: "length (shape t) = length ls + 2" using sh by (simp add: block_shape_def)
  then show d: "dimensions t = int (length ls) + 2" "length ls + 2 \<le> MNN_MAX_TENSOR_DIM"
    using assms(1) by (auto simp: shape_def tensor_ok_def)
  have nth: "length_at t (int k) = Ret (block_shape fmt n c ls ! k)" if "k < length ls + 2" for k
    using shape_nth(2) [OF assms(1), of k] that d(1) sh by (simp add: nat_add_distrib)
  have "block_shape fmt n c ls ! 0 = n" "block_shape fmt n c ls ! channel_axis fmt (length ls) = c" by (simp_all add: block_shape_def nth_append)
  then show "batch t = Ret n" "length_at t (int (channel_axis fmt (length ls))) = Ret c"
    using nth [of 0] nth [of "channel_axis fmt (length ls)"] by (simp_all add: batch_def del: length_at_Ret)
  show "length_at t (int (first_axis fmt) + int i) = Ret (ls ! i)" if "i < length ls"
  proof -
    have "block_shape fmt n c ls ! (first_axis fmt + i) = ls ! i" using that by (simp add: block_shape_def nth_append)
    then show ?thesis using nth [of "first_axis fmt + i"] that by (simp del: length_at_Ret)
  qed
qed

lemma fill_from:
  assumes "s + n \<le> length (dim t)" and "\<And>i. i < n \<Longrightarrow> G (int i) = Ret (g i)"
  shows "for_each (map int [0..<n]) (\<lambda>i t. andThen (G i) (\<lambda>x. setLength t (i + int s) x)) t =
    Ret (t\<lparr>dim := take s (dim t) @ map g [0..<n] @ drop (s + n) (dim t)\<rparr>)"
  using assms
proof (induction n)
  case (Suc n)
  let ?ds = "take s (dim t) @ map g [0..<n] @ drop (s + n) (dim t)"
  have d: "drop (s + n) (dim t) = dim t ! (s + n) # drop (s + Suc n) (dim t)" using Suc.prems(1) by (simp add: Cons_nth_drop_Suc)
  have "?ds[n + s := g n] = take s (dim t) @ map g [0..<Suc n] @ drop (s + Suc n) (dim t)"
    using Suc.prems(1) d by (simp add: list_update_append min_def)
  moreover have "nat (int n + int s) = n + s" by simp
  moreover have "n + s < length ?ds" using Suc.prems(1) by (simp add: min_def)
  ultimately have "setLength (t\<lparr>dim := ?ds\<rparr>) (int n + int s) (g n) = Ret (t\<lparr>dim := take s (dim t) @ map g [0..<Suc n] @ drop (s + Suc n) (dim t)\<rparr>)"
    by simp
  then show ?case using Suc by (simp only: loop_Suc andThen.simps)
qed simp

text \<open>The batch is multiplied by all blocks, and divided by them again.\<close>

lemma prod_list_positive: "\<forall>b \<in> set bs. (0 :: int) < b \<Longrightarrow> 0 < prod_list bs"
  by (induction bs) auto

lemma multiply_blocks:
  assumes "0 \<le> n" and "\<forall>b \<in> set bs. 0 < b" and "n * prod_list bs < 2 ^ 31" and "length bs \<le> length data" and "\<And>i. i < length bs \<Longrightarrow> data ! i = bs ! i"
  shows "for_each (map int [0..<length bs]) (\<lambda>i n. andThen (MNN_Tensor.at data i) (\<lambda>b. i32 (n * b))) n = Ret (n * prod_list bs)"
  using assms
proof (induction bs rule: rev_induct)
  case (snoc b bs)
  have p: "0 < prod_list bs" "0 < b" using snoc.prems(2) by (auto intro: prod_list_positive)
  have m: "n * prod_list bs \<le> n * prod_list bs * b" "0 \<le> n * prod_list bs * b"
    using snoc.prems(1) p mult_left_mono [of 1 b "n * prod_list bs"] by simp_all
  have "data ! length bs = b" using snoc.prems(5) [of "length bs"] by simp
  then have "MNN_Tensor.at data (int (length bs)) = Ret b" using snoc.prems(4) by simp
  moreover have "for_each (map int [0..<length bs]) (\<lambda>i n. andThen (MNN_Tensor.at data i) (\<lambda>b. i32 (n * b))) n = Ret (n * prod_list bs)"
  proof (rule snoc.IH)
    show "data ! i = bs ! i" if "i < length bs" for i using snoc.prems(5) [of i] that by (simp add: nth_append)
  qed (use snoc.prems m in \<open>auto simp: mult.assoc\<close>)
  ultimately show ?case using snoc.prems(3) m(2) by (simp add: for_each_append i32_def mult.assoc del: at_simps)
qed simp

lemma divide_blocks:
  assumes "0 \<le> n" and "\<forall>b \<in> set bs. 0 < b" and "n * prod_list bs < 2 ^ 31" and "length bs \<le> length data" and "\<And>i. i < length bs \<Longrightarrow> data ! i = bs ! i"
    and "k \<le> length bs"
  shows "for_each (map int [0..<k]) (\<lambda>i n. andThen (MNN_Tensor.at data i) (\<lambda>b. div32 n b)) (n * prod_list bs) = Ret (n * prod_list (drop k bs))"
  using assms(6)
proof (induction k)
  case (Suc k)
  have d: "drop k bs = bs ! k # drop (Suc k) bs" using Suc.prems by (simp add: Cons_nth_drop_Suc)
  have b: "0 < bs ! k" "MNN_Tensor.at data (int k) = Ret (bs ! k)" using Suc.prems assms by auto
  have t: "0 < prod_list (take (Suc k) bs)" "0 < prod_list (drop (Suc k) bs)"
    using assms(2) by (auto intro!: prod_list_positive dest: in_set_takeD in_set_dropD)
  have "prod_list bs = prod_list (take (Suc k) bs) * prod_list (drop (Suc k) bs)" by (metis append_take_drop_id prod_list.append)
  then have "n * prod_list (drop (Suc k) bs) \<le> n * prod_list bs"
    using assms(1) t mult_right_mono [of 1 "prod_list (take (Suc k) bs)" "prod_list (drop (Suc k) bs)"] by (intro mult_left_mono) auto
  then have "int32 (n * prod_list (drop (Suc k) bs))" using assms(1,3) t by (auto simp: int32_def intro: order_trans [of _ 0])
  from div32_exact [OF this b(1)] have "div32 (n * prod_list (drop k bs)) (bs ! k) = Ret (n * prod_list (drop (Suc k) bs))"
    by (simp add: d ac_simps)
  then show ?case using Suc b(2) by (simp add: for_each_append del: at_simps)
qed simp

text \<open>Writing batch, channels and spatial extents in either order.\<close>

lemma write_blocks:
  assumes l: "length ds = MNN_MAX_TENSOR_DIM" and m: "length xs + 2 \<le> MNN_MAX_TENSOR_DIM"
  shows "take 2 (ds[0 := n, Suc 0 := c]) @ xs @ drop (2 + length xs) (ds[0 := n, Suc 0 := c]) = n # c # xs @ drop (length xs + 2) ds"
    "(take 1 (ds[0 := n]) @ xs @ drop (1 + length xs) (ds[0 := n]))[Suc (length xs) := c] = n # xs @ c # drop (length xs + 2) ds"
    "take 1 (ds[0 := n, Suc (length xs) := c]) @ xs @ drop (1 + length xs) (ds[0 := n, Suc (length xs) := c]) = n # xs @ c # drop (length xs + 2) ds"
proof -
  obtain a zs where ds: "ds = a # zs" "length zs = 8" using l by (cases ds) (auto simp: MNN_MAX_TENSOR_DIM_def)
  obtain b r where zs: "zs = b # r" using ds(2) by (cases zs) auto
  show "take 2 (ds[0 := n, Suc 0 := c]) @ xs @ drop (2 + length xs) (ds[0 := n, Suc 0 := c]) = n # c # xs @ drop (length xs + 2) ds"
    by (simp add: ds zs)
  have k: "length xs < length zs" using m ds(2) by (simp add: MNN_MAX_TENSOR_DIM_def)
  have d: "drop (length xs) zs = zs ! length xs # drop (Suc (length xs)) zs" by (rule Cons_nth_drop_Suc [OF k, symmetric])
  then show "(take 1 (ds[0 := n]) @ xs @ drop (1 + length xs) (ds[0 := n]))[Suc (length xs) := c] = n # xs @ c # drop (length xs + 2) ds"
    by (simp add: ds list_update_append)
  have "drop (length xs) (zs[length xs := c]) = c # drop (Suc (length xs)) zs" using k by (simp add: drop_update_swap d)
  then show "take 1 (ds[0 := n, Suc (length xs) := c]) @ xs @ drop (1 + length xs) (ds[0 := n, Suc (length xs) := c]) = n # xs @ c # drop (length xs + 2) ds"
    by (simp add: ds)
qed

text \<open>The blocks and paddings are data of the second and third input.\<close>

definition block_inputs :: "Tensor \<Rightarrow> Tensor \<Rightarrow> int list \<Rightarrow> (int \<times> int) list \<Rightarrow> bool" where
  "block_inputs bt pt bs ps \<longleftrightarrow> length_at bt 0 = Ret (int (length bs)) \<and> length ps = length bs \<and> length bs \<le> length (host bt) \<and> 2 * length bs \<le> length (host pt) \<and>
     (\<forall>i < length bs. host bt ! i = bs ! i \<and> 0 < bs ! i \<and> host pt ! (2 * i) = fst (ps ! i) \<and> host pt ! (2 * i + 1) = snd (ps ! i) \<and> 0 \<le> fst (ps ! i) \<and> 0 \<le> snd (ps ! i))"

definition padded :: "int list \<Rightarrow> (int \<times> int) list \<Rightarrow> nat \<Rightarrow> int" where
  "padded ls ps i = ls ! i + fst (ps ! i) + snd (ps ! i)"

lemma block_inputsD:
  assumes "block_inputs bt pt bs ps"
  shows "i < length bs \<Longrightarrow> MNN_Tensor.at (host bt) (int i) = Ret (bs ! i)" "i < length bs \<Longrightarrow> MNN_Tensor.at (host pt) (2 * int i) = Ret (fst (ps ! i))"
    "i < length bs \<Longrightarrow> MNN_Tensor.at (host pt) (2 * int i + 1) = Ret (snd (ps ! i))" "\<forall>b \<in> set bs. 0 < b"
    "space_batch_data p [t, bt, pt] = Ret (int (length bs), host bt, host pt)"
proof -
  have n: "nat (2 * int i) = 2 * i" "nat (2 * int i + 1) = 2 * i + 1" for i by simp_all
  show "MNN_Tensor.at (host bt) (int i) = Ret (bs ! i)" "MNN_Tensor.at (host pt) (2 * int i) = Ret (fst (ps ! i))"
    "MNN_Tensor.at (host pt) (2 * int i + 1) = Ret (snd (ps ! i))" if "i < length bs"
    using assms that by (auto simp: block_inputs_def at_def n)
  show "\<forall>b \<in> set bs. 0 < b" using assms by (auto simp: block_inputs_def in_set_conv_nth)
  show "space_batch_data p [t, bt, pt] = Ret (int (length bs), host bt, host pt)"
    using assms by (simp add: space_batch_data_def block_inputs_def del: length_at_Ret)
qed

lemma check_blocks:
  assumes "block_inputs bt pt bs ps" and "k \<le> length bs"
  shows "for_each (map int [0..<k]) (\<lambda>i u. andThen (MNN_Tensor.at (host bt) i) (\<lambda>b. require (\<not> b \<le> 0))) () = Ret ()"
  using assms(2)
proof (induction k)
  case (Suc k)
  have "0 < bs ! k" using assms(1) Suc.prems by (simp add: block_inputs_def)
  then show ?case using Suc block_inputsD(1) [OF assms(1), of k] by (simp add: for_each_append del: at_simps)
qed simp

lemma spatial_shrunk:
  assumes bi: "block_inputs bt pt bs ps" and i: "i < length bs" and l: "length_at t (s + int i) = Ret (ls ! i)"
    and r: "0 \<le> ls ! i" "padded ls ps i < 2 ^ 31"
  shows "andThen (length_at t (s + int i)) (\<lambda>l.
      andThen (MNN_Tensor.at (host pt) (2 * int i)) (\<lambda>p0.
      andThen (MNN_Tensor.at (host pt) (2 * int i + 1)) (\<lambda>p1.
      andThen (i32 (l + p0)) (\<lambda>l.
      andThen (i32 (l + p1)) (\<lambda>paddedLength.
      andThen (MNN_Tensor.at (host bt) (int i)) (\<lambda>b. div32 paddedLength b)))))) = Ret (padded ls ps i div bs ! i)"
proof -
  have "0 \<le> fst (ps ! i)" "0 \<le> snd (ps ! i)" "0 < bs ! i" using bi i by (auto simp: block_inputs_def)
  then show ?thesis using l r block_inputsD(1-3) [OF bi i] div32_block [of "padded ls ps i" "bs ! i"]
    by (simp add: padded_def i32_def del: at_simps length_at_Ret)
qed

text \<open>What is left of an extent when it was cut into whole blocks and put together again.\<close>

definition regained :: "int list \<Rightarrow> (int \<times> int) list \<Rightarrow> int list \<Rightarrow> nat \<Rightarrow> int" where
  "regained ls ps bs i = ls ! i - padded ls ps i mod bs ! i"

lemma regained_all: "map (regained ls ps bs) [0..<length ls] = ls \<longleftrightarrow> (\<forall>i < length ls. bs ! i dvd padded ls ps i)"
proof -
  have "map (regained ls ps bs) [0..<length ls] = ls \<longleftrightarrow> (\<forall>i < length ls. regained ls ps bs i = ls ! i)"
    unfolding list_eq_iff_nth_eq [of "map (regained ls ps bs) [0..<length ls]"] by simp
  then show ?thesis by (simp add: regained_def dvd_eq_mod_eq_0)
qed

lemma block_shape_eq: "block_shape fmt n c xs = block_shape fmt n c ys \<longleftrightarrow> xs = ys"
  by (simp add: block_shape_def)

lemma spatial_grown:
  assumes bi: "block_inputs bt pt bs ps" and i: "i < length bs" and l: "length_at t (s + int i) = Ret (padded ls ps i div bs ! i)"
    and r: "0 \<le> ls ! i" "padded ls ps i < 2 ^ 31"
  shows "andThen (length_at t (s + int i)) (\<lambda>l.
      andThen (MNN_Tensor.at (host bt) (int i)) (\<lambda>b.
      andThen (i32 (l * b)) (\<lambda>l.
      andThen (MNN_Tensor.at (host pt) (2 * int i)) (\<lambda>p0.
      andThen (i32 (l - p0)) (\<lambda>l.
      andThen (MNN_Tensor.at (host pt) (2 * int i + 1)) (\<lambda>p1. i32 (l - p1))))))) = Ret (regained ls ps bs i)"
proof -
  let ?p = "padded ls ps i" and ?b = "bs ! i"
  define m where "m = ?p mod ?b"
  have p: "0 \<le> fst (ps ! i)" "0 \<le> snd (ps ! i)" "0 < ?b" using bi i by (auto simp: block_inputs_def)
  have n: "?p = ls ! i + fst (ps ! i) + snd (ps ! i)" by (simp add: padded_def)
  then have m: "0 \<le> m" "m \<le> ?p" using p r(1) pos_mod_sign [of ?b ?p] zmod_le_nonneg_dividend [of ?p ?b] by (auto simp: m_def)
  have "?p div ?b * ?b = ?p - m" by (simp add: minus_mod_eq_div_mult m_def)
  then show ?thesis unfolding regained_def m_def [symmetric] using l r p n m block_inputsD(1-3) [OF bi i]
    by (simp add: i32_def del: at_simps length_at_Ret)
qed

lemma SpaceToBatch_eq:
  assumes ok: "tensor_ok input" "tensor_ok out0" and fmt: "fmt = dimensionFormat input" and sh: "shape input = block_shape fmt n c ls"
    and bi: "block_inputs bt pt bs ps" "length bs = length ls" and n: "0 \<le> n" "n * prod_list bs < 2 ^ 31"
    and r: "\<And>i. i < length ls \<Longrightarrow> 0 \<le> ls ! i \<and> padded ls ps i < 2 ^ 31"
  shows "SpaceToBatchNDSizeComputer p [input, bt, pt] [out0] = Ret [out0\<lparr>ttype := ttype input, dimensions := dimensions input,
    dim := block_shape fmt (n * prod_list bs) c (map (\<lambda>i. padded ls ps i div bs ! i) [0..<length ls]) @ drop (length ls + 2) (dim out0), dimensionFormat := fmt\<rparr>]"
proof -
  let ?m = "length ls" and ?g = "\<lambda>i. padded ls ps i div bs ! i" and ?N = "n * prod_list bs"
  note e = block_extents [OF ok(1) sh]
  have l: "length (dim out0) = MNN_MAX_TENSOR_DIM" using ok(2) by (simp add: tensor_ok_def)
  have bd: "\<And>i. i < length bs \<Longrightarrow> host bt ! i = bs ! i" "length bs \<le> length (host bt)" using bi(1) by (auto simp: block_inputs_def)
  have top: "i32 (int ?m + int (first_axis fmt)) = Ret (int ?m + int (first_axis fmt))" "\<not> int ?m + int (first_axis fmt) > dimensions input"
    using e(1,2) by (auto simp: i32_def MNN_MAX_TENSOR_DIM_def)
  have mul: "for_each (map int [0..<?m]) (\<lambda>i n. andThen (MNN_Tensor.at (host bt) i) (\<lambda>b. i32 (n * b))) n = Ret ?N"
    using multiply_blocks [OF n(1) block_inputsD(4) [OF bi(1)] n(2) bd(2,1)] bi(2) by simp
  have chk: "for_each (map int [0..<?m]) (\<lambda>i u. andThen (MNN_Tensor.at (host bt) i) (\<lambda>b. require (\<not> b \<le> 0))) () = Ret ()"
    using check_blocks [OF bi(1), of ?m] bi(2) by simp
  have sp: "for_each (map int [0..<?m]) (\<lambda>i out.
              andThen (length_at input (int (first_axis fmt) + i)) (\<lambda>l.
              andThen (MNN_Tensor.at (host pt) (2 * i)) (\<lambda>p0.
              andThen (MNN_Tensor.at (host pt) (2 * i + 1)) (\<lambda>p1.
              andThen (i32 (l + p0)) (\<lambda>l.
              andThen (i32 (l + p1)) (\<lambda>paddedLength.
              andThen (MNN_Tensor.at (host bt) i) (\<lambda>b.
              andThen (div32 paddedLength b) (\<lambda>outputLength.
              setLength out (i + int (first_axis fmt)) outputLength)))))))) t =
      Ret (t\<lparr>dim := take (first_axis fmt) (dim t) @ map ?g [0..<?m] @ drop (first_axis fmt + ?m) (dim t)\<rparr>)"
    if "length (dim t) = MNN_MAX_TENSOR_DIM" for t :: Tensor
  proof (rule fill_from [where G = "\<lambda>i. andThen (length_at input (int (first_axis fmt) + i)) (\<lambda>l.
              andThen (MNN_Tensor.at (host pt) (2 * i)) (\<lambda>p0.
              andThen (MNN_Tensor.at (host pt) (2 * i + 1)) (\<lambda>p1.
              andThen (i32 (l + p0)) (\<lambda>l.
              andThen (i32 (l + p1)) (\<lambda>paddedLength.
              andThen (MNN_Tensor.at (host bt) i) (\<lambda>b. div32 paddedLength b))))))", unfolded andThen_assoc])
    show "first_axis fmt + ?m \<le> length (dim t)" using e(2) that by simp
  qed (rule spatial_shrunk [OF bi(1) _ e(5)]; use bi(2) r in simp)
  have le: "length (map ?g [0..<?m]) + 2 \<le> MNN_MAX_TENSOR_DIM" using e(2) by simp
  note w = write_blocks [OF l le, simplified]
  have ne: "dim out0 \<noteq> []" "Suc 0 < length (dim out0)" "Suc ?m < length (dim out0)" using l e(2) by (auto simp: MNN_MAX_TENSOR_DIM_def)
  have na: "nat (1 + int ?m) = Suc ?m" by simp
  show ?thesis
  proof (cases "fmt = NHWC")
    case True
    then show ?thesis using top chk mul sp e(1,3,4) l w(2) bi(2) ne na
      by (simp add: min_def SpaceToBatchNDSizeComputer_def block_inputsD(5) [OF bi(1)] in_range_0 fmt [symmetric] block_shape_def
          setLength_def put_def Let_def del: length_at_Ret at_simps i32_simps)
  next
    case False
    then show ?thesis using top chk mul sp e(1,3,4) l w(1) bi(2) ne na
      by (simp add: min_def SpaceToBatchNDSizeComputer_def block_inputsD(5) [OF bi(1)] in_range_0 fmt [symmetric] block_shape_def
          setLength_def put_def Let_def del: length_at_Ret at_simps i32_simps)
  qed
qed

lemma BatchToSpace_eq:
  assumes ok: "tensor_ok input" "tensor_ok out0" and fmt: "fmt = dimensionFormat input"
    and sh: "shape input = block_shape fmt (n * prod_list bs) c (map (\<lambda>i. padded ls ps i div bs ! i) [0..<length ls])"
    and bi: "block_inputs bt pt bs ps" "length bs = length ls" and n: "0 \<le> n" "n * prod_list bs < 2 ^ 31"
    and r: "\<And>i. i < length ls \<Longrightarrow> 0 \<le> ls ! i \<and> padded ls ps i < 2 ^ 31"
  shows "BatchToSpaceNDSizeComputer p [input, bt, pt] [out0] = Ret [out0\<lparr>dimensions := dimensions input, ttype := ttype input,
    dim := block_shape fmt n c (map (regained ls ps bs) [0..<length ls]) @ drop (length ls + 2) (dim out0), dimensionFormat := fmt\<rparr>]"
proof -
  let ?m = "length ls" and ?g = "\<lambda>i. padded ls ps i div bs ! i"
  note e = block_extents [OF ok(1) sh, simplified length_map length_upt diff_zero]
  have l: "length (dim out0) = MNN_MAX_TENSOR_DIM" using ok(2) by (simp add: tensor_ok_def)
  have bd: "\<And>i. i < length bs \<Longrightarrow> host bt ! i = bs ! i" "length bs \<le> length (host bt)" using bi(1) by (auto simp: block_inputs_def)
  have dv: "for_each (map int [0..<?m]) (\<lambda>i n. andThen (MNN_Tensor.at (host bt) i) (\<lambda>b. div32 n b)) (n * prod_list bs) = Ret n"
    using divide_blocks [OF n(1) block_inputsD(4) [OF bi(1)] n(2) bd(2,1), of ?m] bi(2) by simp
  have sp: "for_each (map int [0..<?m]) (\<lambda>i out.
              andThen (length_at input (int (first_axis fmt) + i)) (\<lambda>l.
              andThen (MNN_Tensor.at (host bt) i) (\<lambda>b.
              andThen (i32 (l * b)) (\<lambda>l.
              andThen (MNN_Tensor.at (host pt) (2 * i)) (\<lambda>p0.
              andThen (i32 (l - p0)) (\<lambda>l.
              andThen (MNN_Tensor.at (host pt) (2 * i + 1)) (\<lambda>p1.
              andThen (i32 (l - p1)) (\<lambda>paddedLength.
              setLength out (i + int (first_axis fmt)) paddedLength)))))))) t =
      Ret (t\<lparr>dim := take (first_axis fmt) (dim t) @ map (regained ls ps bs) [0..<?m] @ drop (first_axis fmt + ?m) (dim t)\<rparr>)"
    if "length (dim t) = MNN_MAX_TENSOR_DIM" for t :: Tensor
  proof (rule fill_from [where G = "\<lambda>i. andThen (length_at input (int (first_axis fmt) + i)) (\<lambda>l.
              andThen (MNN_Tensor.at (host bt) i) (\<lambda>b.
              andThen (i32 (l * b)) (\<lambda>l.
              andThen (MNN_Tensor.at (host pt) (2 * i)) (\<lambda>p0.
              andThen (i32 (l - p0)) (\<lambda>l.
              andThen (MNN_Tensor.at (host pt) (2 * i + 1)) (\<lambda>p1. i32 (l - p1)))))))", unfolded andThen_assoc])
    show "first_axis fmt + ?m \<le> length (dim t)" using e(2) that by simp
  qed (rule spatial_grown [OF bi(1)]; use bi(2) r e(5) in \<open>simp del: length_at_Ret\<close>)
  have le: "length (map (regained ls ps bs) [0..<?m]) + 2 \<le> MNN_MAX_TENSOR_DIM" using e(2) by simp
  note w = write_blocks [OF l le, simplified]
  have ne: "dim out0 \<noteq> []" "Suc 0 < length (dim out0)" "Suc ?m < length (dim out0)" using l e(2) by (auto simp: MNN_MAX_TENSOR_DIM_def)
  have na: "nat (1 + int ?m) = Suc ?m" by simp
  show ?thesis
  proof (cases "fmt = NHWC")
    case True
    then show ?thesis using dv sp e(1,3,4) l w(3) bi(2) ne na
      by (simp add: min_def BatchToSpaceNDSizeComputer_def block_inputsD(5) [OF bi(1)] in_range_0 fmt [symmetric] block_shape_def
          setLength_def put_def Let_def del: length_at_Ret at_simps i32_simps)
  next
    case False
    then show ?thesis using dv sp e(1,3,4) l w(1) bi(2) ne na
      by (simp add: min_def BatchToSpaceNDSizeComputer_def block_inputsD(5) [OF bi(1)] in_range_0 fmt [symmetric] block_shape_def
          setLength_def put_def Let_def del: length_at_Ret at_simps i32_simps)
  qed
qed

text \<open>
  C23: space to batch and back. With one positive block and two paddings that are not negative for every spatial axis, and extents
  and a batch that stay representable, moving blocks into the batch succeeds with each padded extent divided by its block, rounded down, and moving
  them back with the same blocks and paddings succeeds. Every extent then has lost the remainder of its padded extent: the shape is the
  input's exactly when each block divides its padded extent.
\<close>

theorem batch_to_space_inverts:
  assumes ok: "tensor_ok input" "tensor_ok out0" "tensor_ok out1" and sh: "shape input = block_shape (dimensionFormat input) n c ls"
    and bi: "block_inputs bt pt bs ps" "length bs = length ls" and n: "0 \<le> n" "n * prod_list bs < 2 ^ 31"
    and r: "\<forall>i < length ls. 0 \<le> ls ! i \<and> padded ls ps i < 2 ^ 31"
  shows "\<exists>mid back. SpaceToBatchNDSizeComputer p [input, bt, pt] [out0] = Ret [mid] \<and> tensor_ok mid \<and>
    shape mid = block_shape (dimensionFormat input) (n * prod_list bs) c (map (\<lambda>i. padded ls ps i div bs ! i) [0..<length ls]) \<and>
    BatchToSpaceNDSizeComputer p [mid, bt, pt] [out1] = Ret [back] \<and> ttype back = ttype input \<and>
    shape back = block_shape (dimensionFormat input) n c (map (\<lambda>i. ls ! i - padded ls ps i mod bs ! i) [0..<length ls]) \<and>
    (shape back = shape input \<longleftrightarrow> (\<forall>i < length ls. bs ! i dvd padded ls ps i))"
proof -
  let ?fmt = "dimensionFormat input" and ?ls = "map (\<lambda>i. padded ls ps i div bs ! i) [0..<length ls]"
  define mid where "mid = out0\<lparr>ttype := ttype input, dimensions := dimensions input,
    dim := block_shape ?fmt (n * prod_list bs) c ?ls @ drop (length ls + 2) (dim out0), dimensionFormat := ?fmt\<rparr>"
  define restored where "restored = out1\<lparr>dimensions := dimensions mid, ttype := ttype mid,
    dim := block_shape ?fmt n c (map (regained ls ps bs) [0..<length ls]) @ drop (length ls + 2) (dim out1), dimensionFormat := ?fmt\<rparr>"
  note e = block_extents [OF ok(1) sh]
  have d: "nat (dimensions input) = length ls + 2" using e(1) by simp
  have m: "tensor_ok mid" "shape mid = block_shape ?fmt (n * prod_list bs) c ?ls" "?fmt = dimensionFormat mid" "ttype mid = ttype input" "dimensions mid = dimensions input"
    using ok(1,2) d e(2) by (auto simp: mid_def tensor_ok_def shape_def block_shape_def)
  have to: "SpaceToBatchNDSizeComputer p [input, bt, pt] [out0] = Ret [mid]"
    unfolding mid_def by (rule SpaceToBatch_eq [OF ok(1,2) refl sh bi n]) (use r in blast)
  have from_batch: "BatchToSpaceNDSizeComputer p [mid, bt, pt] [out1] = Ret [restored]"
    unfolding restored_def by (rule BatchToSpace_eq [OF m(1) ok(3) m(3,2) bi n]) (use r in blast)
  have final: "shape restored = block_shape ?fmt n c (map (regained ls ps bs) [0..<length ls])" "ttype restored = ttype input"
    using m(4,5) d by (simp_all add: restored_def shape_def block_shape_def)
  have same: "shape restored = shape input \<longleftrightarrow> (\<forall>i < length ls. bs ! i dvd padded ls ps i)"
    unfolding final(1) sh block_shape_eq regained_all ..
  show ?thesis
    by (intro exI [of _ mid] exI [of _ restored] conjI to m(1,2) from_batch final(2) same) (rule final(1) [unfolded regained_def [abs_def]])
qed

theorem batch_to_space_inverts_witness:
  "\<exists>mid back. SpaceToBatchNDSizeComputer \<lparr>blockShape_dims = [], blockShape = [], padding = []\<rparr> [demo_tensor [1, 3, 4, 5], demo_ints [2, 3], demo_ints [0, 0, 1, 0]] [demo_tensor []] = Ret [mid] \<and>
     shape mid = [6, 3, 2, 2] \<and>
     BatchToSpaceNDSizeComputer \<lparr>blockShape_dims = [], blockShape = [], padding = []\<rparr> [mid, demo_ints [2, 3], demo_ints [0, 0, 1, 0]] [demo_tensor []] = Ret [back] \<and> shape back = [1, 3, 4, 5]"
proof -
  have f: "dimensionFormat (demo_tensor [1, 3, 4, 5]) = NCHW" "shape (demo_tensor [1, 3, 4, 5]) = block_shape NCHW 1 3 [4, 5]"
    by (simp_all add: demo_tensor_def shape_def block_shape_def)
  have b: "block_inputs (demo_ints [2, 3]) (demo_ints [0, 0, 1, 0]) [2, 3] [(0, 0), (1, 0)]"
    by (simp add: block_inputs_def demo_ints_def less_Suc_eq numeral_2_eq_2)
  have p: "\<forall>i < length [4, 5 :: int]. 0 \<le> [4, 5 :: int] ! i \<and> padded [4, 5] [(0, 0), (1, 0)] i < 2 ^ 31"
    by (simp add: padded_def less_Suc_eq numeral_2_eq_2)
  show ?thesis
    using batch_to_space_inverts [OF _ _ _ _ b _ _ _ p, of "demo_tensor [1, 3, 4, 5]" "demo_tensor []" "demo_tensor []" 1 3 "\<lparr>blockShape_dims = [], blockShape = [], padding = []\<rparr>", unfolded f]
    by (simp add: demo_ok MNN_MAX_TENSOR_DIM_def block_shape_def padded_def) blast
qed

text \<open>
  With fewer blocks than spatial axes, which the computer accepts, the extents of the other axes are not written: the output keeps
  what the tensor had there before.
\<close>

theorem space_to_batch_leaves_extents:
  "map_res (map shape) (SpaceToBatchNDSizeComputer \<lparr>blockShape_dims = [1], blockShape = [2], padding = [0, 0]\<rparr>
     [demo_tensor [1, 3, 4, 6]] [demo_tensor [9, 9, 9, 9]]) = Ret [[2, 3, 2, 9]]"
  by (simp add: SpaceToBatchNDSizeComputer_def space_batch_data_def demo_tensor_def in_range_def upto.simps batch_def length_at_def setLength_def
      at_def put_def i32_def div32_def require_def shape_def MNN_MAX_TENSOR_DIM_def signed_divide_int_def Let_def)

subsection \<open>Picking elements\<close>

text \<open>The extent of a slice along one axis, from its first index.\<close>

definition slice_first :: "int \<Rightarrow> int \<Rightarrow> int" where
  "slice_first l b = (if b < 0 then b + l else b)"

theorem slice_tf_within:
  assumes ok: "tensor_ok input" "tensor_ok out0" and run: "SliceTfComputer [input, bt, st] [out0] = Ret outs"
  shows "\<exists>out. outs = [out] \<and> tensor_ok out \<and> dimensions out = dimensions input \<and> ttype out = ttype input \<and>
    (\<forall>i < nat (dimensions input). let l = shape input ! i; b = slice_first l (host bt ! i) in
       0 \<le> b \<and> 0 \<le> shape out ! i \<and> b + shape out ! i \<le> l \<and> shape out ! i = (if host st ! i = - 1 then l - b else host st ! i))"
proof -
  let ?n = "nat (dimensions input)"
  define G where "G = (\<lambda>i. andThen (MNN_Tensor.at (host st) i) (\<lambda>d.
         andThen (MNN_Tensor.at (host bt) i) (\<lambda>b.
         andThen (length_at input i) (\<lambda>l.
         andThen (if b < 0 then i32 (b + l) else Ret b) (\<lambda>b.
         andThen (require (\<not> (b < 0 \<or> b > l))) (\<lambda>_.
         andThen (if d = - 1 then i32 (l - b) else Ret d) (\<lambda>d.
         andThen (require (\<not> d < 0)) (\<lambda>_.
         andThen (i32 (b + d)) (\<lambda>e.
         andThen (require (\<not> e > l)) (\<lambda>_. Ret d))))))))))"
  let ?o = "out0\<lparr>dimensions := dimensions input, ttype := ttype input\<rparr>"
  have "andThen (for_each (map int [0..<?n]) (\<lambda>i t. andThen (G i) (\<lambda>l. setLength t i l)) ?o) (\<lambda>out.
      Ret [out\<lparr>dimensionFormat := dimensionFormat input\<rparr>]) = Ret outs"
    using run by (simp add: SliceTfComputer_def G_def in_range_0 andThen_assoc numeral_2_eq_2 at_def del: length_at_Ret setLength_Ret)
  then obtain t where t: "for_each (map int [0..<?n]) (\<lambda>i t. andThen (G i) (\<lambda>l. setLength t i l)) ?o = Ret t"
    "outs = [t\<lparr>dimensionFormat := dimensionFormat input\<rparr>]" by (auto simp: andThen_Ret_iff)
  note f = fill_tensor [OF t(1)]
  have "let l = shape input ! i; b = slice_first l (host bt ! i) in
       0 \<le> b \<and> 0 \<le> dim t ! i \<and> b + dim t ! i \<le> l \<and> dim t ! i = (if host st ! i = - 1 then l - b else host st ! i)" if "i < ?n" for i
  proof -
    have "G (int i) = Ret (dim t ! i)" using f that by blast
    then show ?thesis using that
      by (auto simp: G_def andThen_Ret_iff slice_first_def Let_def shape_def i32_def split: if_splits)
  qed
  moreover have "tensor_ok (t\<lparr>dimensionFormat := dimensionFormat input\<rparr>)" "dimensions t = dimensions input" "ttype t = ttype input"
    using f ok by (auto simp: tensor_ok_def) (metis Tensor.select_convs Tensor.surjective Tensor.update_convs)+
  ultimately show ?thesis using t(2) by (auto simp: shape_def)
qed

lemma shape_written: "length xs = nat (dimensions t) \<Longrightarrow> shape (t\<lparr>dim := xs @ ys, dimensionFormat := f\<rparr>) = xs"
  by (simp add: shape_def)

text \<open>One-hot encoding puts the depth at the axis and keeps the extents around it.\<close>

theorem one_hot_shape:
  assumes ok: "tensor_ok indices" "tensor_ok out0" and d: "host depth ! 0 = k" "host depth \<noteq> []" "0 \<le> k" and r: "dimensions indices < int MNN_MAX_TENSOR_DIM"
    and a: "a = (if axis < 0 then dimensions indices + 1 + axis else axis)" "0 \<le> a" "a \<le> dimensions indices"
  shows "\<exists>out. ShapeOneHot axis [indices, depth, on_value, off_value] [out0] = Ret [out] \<and> tensor_ok out \<and> ttype out = ttype on_value \<and>
    shape out = take (nat a) (shape indices) @ k # drop (nat a) (shape indices) \<and> elements out = k * elements indices"
proof -
  let ?n = "nat (dimensions indices + 1)"
  define G where "G = (\<lambda>i. if i < a then length_at indices i else if i = a then Ret k else length_at indices (i - 1))"
  let ?xs = "take (nat a) (shape indices) @ k # drop (nat a) (shape indices)"
  let ?o = "out0\<lparr>dimensions := dimensions indices + 1, ttype := ttype on_value\<rparr>"
  note sn = shape_nth [OF ok(1)]
  have nn: "?n = Suc (nat (dimensions indices))" "nat a \<le> nat (dimensions indices)" "?n \<le> MNN_MAX_TENSOR_DIM"
    using ok(1) a r by (auto simp: tensor_ok_def)
  have "G (int i) = Ret (?xs ! i)" if "i < ?n" for i
  proof -
    consider "i < nat a" | "i = nat a" | "nat a < i" by linarith
    then show ?thesis
    proof cases
      case 1
      then have "length_at indices (int i) = Ret (shape indices ! i)" "?xs ! i = shape indices ! i" "int i < a"
        using sn nn(2) a(2) by (auto simp: nth_append simp del: length_at_Ret)
      then show ?thesis by (simp add: G_def del: length_at_Ret)
    next
      case 2
      then have "?xs ! i = k" "int i = a" using sn(1) nn(2) a(2) by (simp_all add: nth_append min_def)
      then show ?thesis by (simp add: G_def)
    next
      case 3
      then obtain j where j: "i = Suc j" "nat a \<le> j" by (cases i) auto
      then have "length_at indices (int i - 1) = Ret (shape indices ! j)" using sn(2) [of j] that nn(1) by simp
      moreover have "?xs ! i = shape indices ! j" using j sn(1) nn that by (simp add: nth_append min_def Suc_diff_le)
      moreover have "\<not> int i < a" "int i \<noteq> a" using 3 a(2) by auto
      ultimately show ?thesis by (simp add: G_def del: length_at_Ret)
    qed
  qed
  then have "for_each (map int [0..<?n]) (\<lambda>i t. andThen (G i) (\<lambda>x. setLength t i x)) ?o = Ret (?o\<lparr>dim := map ((!) ?xs) [0..<?n] @ drop ?n (dim out0)\<rparr>)"
    using fill_tensor_eq [of ?n ?o G "(!) ?xs"] ok(2) nn(3) by (simp add: tensor_ok_def)
  moreover have l: "length ?xs = ?n" using sn nn by simp
  then have "map ((!) ?xs) [0..<?n] = ?xs" by (metis map_nth)
  moreover have "ShapeOneHot axis [indices, depth, on_value, off_value] [out0] =
      andThen (for_each (map int [0..<?n]) (\<lambda>i t. andThen (G i) (\<lambda>x. setLength t i x)) ?o) (\<lambda>out. Ret [out\<lparr>dimensionFormat := dimensionFormat indices\<rparr>])"
  proof -
    have "MNN_Tensor.at [indices, depth, on_value, off_value] 2 = Ret on_value" "MNN_Tensor.at (host depth) 0 = Ret k" "require (\<not> k < 0) = Ret ()"
      using d by (simp_all add: at_def)
    then show ?thesis unfolding ShapeOneHot_def G_def Let_def in_range_0 a(1) by (simp only: at_0 at_1 andThen.simps list.sel)
  qed
  ultimately have run: "ShapeOneHot axis [indices, depth, on_value, off_value] [out0] = Ret [?o\<lparr>dim := ?xs @ drop ?n (dim out0), dimensionFormat := dimensionFormat indices\<rparr>]" (is "_ = Ret [?out]")
    by (simp only: andThen.simps)
  have p: "prod_list ?xs = k * prod_list (shape indices)"
    by (metis append_take_drop_id mult.left_commute prod_list.Cons prod_list.append)
  have sh: "shape ?out = ?xs" by (rule shape_written) (use l in simp)
  have "tensor_ok ?out" using l nn ok r unfolding tensor_ok_def by simp linarith
  moreover have "ttype ?out = ttype on_value" by simp
  moreover have "elements ?out = k * elements indices" unfolding elements_def sh p ..
  ultimately show ?thesis using run sh by blast
qed

end
