(* ===== verification/LLM_Text.thy ===== *)
theory LLM_Text
  imports TN_Prelude
begin

unbundle bit_operations_syntax

text \<open>
  The text conversions of the language model tokenizer
  (\<open>MNN/transformers/llm/engine/src/tokenizer.cpp\<close>): base64, the length of a UTF-8 character, and the two
  directions between UTF-8 and wide strings. Byte strings are character lists; a wide string is a
  list of code points (\<open>wchar_t\<close> has four bytes, so surrogates do not occur).
\<close>

type_synonym wstring = "nat list"

abbreviation byte :: "char \<Rightarrow> nat" where
  "byte c \<equiv> of_char c"

subsection \<open>Base64\<close>

definition kBase64DecodeTable :: "int list" where
  "kBase64DecodeTable =
    [-1, -1, -1, -1, -1, -1, -1, -1, -1, -1, -1, -1, -1, -1, -1, -1,
     -1, -1, -1, -1, -1, -1, -1, -1, -1, -1, -1, -1, -1, -1, -1, -1,
     -1, -1, -1, -1, -1, -1, -1, -1, -1, -1, -1, 62, -1, -1, -1, 63,
     52, 53, 54, 55, 56, 57, 58, 59, 60, 61, -1, -1, -1, -1, -1, -1,
     -1,  0,  1,  2,  3,  4,  5,  6,  7,  8,  9, 10, 11, 12, 13, 14,
     15, 16, 17, 18, 19, 20, 21, 22, 23, 24, 25, -1, -1, -1, -1, -1,
     -1, 26, 27, 28, 29, 30, 31, 32, 33, 34, 35, 36, 37, 38, 39, 40,
     41, 42, 43, 44, 45, 46, 47, 48, 49, 50, 51, -1, -1, -1, -1, -1]"

text \<open>
  The accumulator \<open>val\<close> is never cut to the bits that are still needed; as a 32-bit integer it
  overflows with the sixth digit. It is modelled with two's complement wrap-around.
\<close>

fun base64_loop :: "string \<Rightarrow> 32 word \<Rightarrow> int \<Rightarrow> string \<Rightarrow> string" where
  "base64_loop [] val valb ret = ret"
| "base64_loop (c # cs) val valb ret =
     (if byte c > 127 then base64_loop cs val valb ret
      else let d = kBase64DecodeTable ! byte c
           in if d = - 1 then base64_loop cs val valb ret
              else let val = push_bit 6 val + word_of_int d; valb = valb + 6
                   in if valb \<ge> 0
                      then base64_loop cs val (valb - 8) (ret @ [char_of (unat (signed_drop_bit (nat valb) val AND 0xFF))])
                      else base64_loop cs val valb ret)"

definition base64_decode :: "string \<Rightarrow> string" where
  "base64_decode str = (if str = [] then [] else base64_loop str 0 (- 8) [])"

subsection \<open>UTF-8\<close>

definition one_char_len :: "char \<Rightarrow> nat" where
  "one_char_len c = [1, 1, 1, 1, 1, 1, 1, 1, 1, 1, 1, 1, 2, 2, 3, 4] ! (drop_bit 4 (byte c AND 0xFF))"

definition to_lower_case :: "string \<Rightarrow> string" where
  "to_lower_case = map (\<lambda>c. if byte CHR ''A'' \<le> byte c \<and> byte c \<le> byte CHR ''Z'' then char_of (byte c + 32) else c)"

fun utf8_to_wstring :: "string \<Rightarrow> wstring" where
  "utf8_to_wstring [] = []"
| "utf8_to_wstring (c0 # p) =
     (let c = byte c0
      in if c < 0x80 then c # utf8_to_wstring p
         else if c < 0xE0 then
           (if 1 \<le> length p then [push_bit 6 (c AND 0x1F) OR (byte (p ! 0) AND 0x3F)] else []) @ utf8_to_wstring (drop 1 p)
         else if c < 0xF0 then
           (if 2 \<le> length p
            then [push_bit 12 (c AND 0x0F) OR push_bit 6 (byte (p ! 0) AND 0x3F) OR (byte (p ! 1) AND 0x3F)] else [])
           @ utf8_to_wstring (drop 2 p)
         else if c < 0xF8 then
           (if 3 \<le> length p
            then [push_bit 18 (c AND 0x07) OR push_bit 12 (byte (p ! 0) AND 0x3F) OR push_bit 6 (byte (p ! 1) AND 0x3F) OR
                  (byte (p ! 2) AND 0x3F)] else [])
           @ utf8_to_wstring (drop 3 p)
         else utf8_to_wstring p)"

definition utf8_of :: "nat \<Rightarrow> string" where
  "utf8_of cp =
     (if cp < 0x80 then [char_of cp]
      else if cp < 0x800 then [char_of (0xC0 OR drop_bit 6 cp), char_of (0x80 OR (cp AND 0x3F))]
      else if cp < 0x10000 then
        [char_of (0xE0 OR drop_bit 12 cp), char_of (0x80 OR (drop_bit 6 cp AND 0x3F)), char_of (0x80 OR (cp AND 0x3F))]
      else [char_of (0xF0 OR drop_bit 18 cp), char_of (0x80 OR (drop_bit 12 cp AND 0x3F)),
            char_of (0x80 OR (drop_bit 6 cp AND 0x3F)), char_of (0x80 OR (cp AND 0x3F))])"

definition wstring_to_utf8 :: "wstring \<Rightarrow> string" where
  "wstring_to_utf8 w = concat (map utf8_of w)"

section \<open>Base64 is decoded\<close>

text \<open>The encoder of RFC 4648, for reference.\<close>

definition base64_alphabet :: string where
  "base64_alphabet = ''ABCDEFGHIJKLMNOPQRSTUVWXYZabcdefghijklmnopqrstuvwxyz0123456789+/''"

fun base64_encode :: "string \<Rightarrow> string" where
  "base64_encode (a # b # c # cs) =
     (let n = byte a * 65536 + byte b * 256 + byte c
      in map ((!) base64_alphabet) [n div 262144, n div 4096 mod 64, n div 64 mod 64, n mod 64] @ base64_encode cs)"
| "base64_encode [a, b] =
     (let n = byte a * 65536 + byte b * 256
      in map ((!) base64_alphabet) [n div 262144, n div 4096 mod 64, n div 64 mod 64] @ ''='')"
| "base64_encode [a] =
     (let n = byte a * 65536 in map ((!) base64_alphabet) [n div 262144, n div 4096 mod 64] @ ''=='')"
| "base64_encode [] = []"

lemma table_alphabet: "\<forall>d < 64. byte (base64_alphabet ! d) \<le> 127 \<and> kBase64DecodeTable ! byte (base64_alphabet ! d) = int d"
  by code_simp

lemma table_pad: "kBase64DecodeTable ! byte CHR ''='' = - 1" "byte CHR ''='' \<le> 127"
  by code_simp+

lemma loop_digit:
  assumes "d < 64"
  shows "base64_loop (base64_alphabet ! d # cs) val valb ret =
    (let val = push_bit 6 val + of_nat d; valb = valb + 6
     in if valb \<ge> 0 then base64_loop cs val (valb - 8) (ret @ [char_of (unat (signed_drop_bit (nat valb) val AND 0xFF))])
        else base64_loop cs val valb ret)"
  using assms table_alphabet by (auto simp: not_less [symmetric] Let_def)

lemma loop_pad: "base64_loop (CHR ''='' # cs) val valb ret = base64_loop cs val valb ret"
  using table_pad by simp

lemma low_byte:
  assumes "k \<le> 4"
  shows "unat (signed_drop_bit k (w :: 32 word) AND 0xFF) = unat w div 2 ^ k mod 256"
proof -
  have "signed_drop_bit k w AND mask 8 = drop_bit k w AND mask 8"
    by (rule bit_word_eqI) (use assms in \<open>auto simp: bit_simps\<close>)
  then have "unat (signed_drop_bit k w AND 0xFF) = unat (take_bit 8 (drop_bit k w))"
    by (simp add: take_bit_eq_mask mask_numeral and.commute)
  also have "\<dots> = take_bit 8 (drop_bit k (unat w))"
    by (simp only: unsigned_take_bit_eq unsigned_drop_bit_eq take_bit_drop_bit) (use assms in \<open>simp add: min_def\<close>)
  finally show ?thesis by (simp add: take_bit_eq_mod drop_bit_eq_div)
qed

lemma accumulate: "unat (push_bit 6 (v :: 32 word) + of_nat d) mod 4096 = (unat v * 64 + d) mod 4096"
proof -
  have "unat (push_bit 6 v + of_nat d) = (unat v * 64 + d) mod 2 ^ 32"
    by (simp add: unat_word_ariths push_bit_eq_mult mod_simps unat_of_nat)
  then show ?thesis by (simp add: mod_mod_cancel)
qed

lemma low_bits: "k \<le> 4 \<Longrightarrow> (n :: nat) div 2 ^ k mod 256 = n mod 4096 div 2 ^ k mod 256"
proof -
  assume "k \<le> 4"
  then have "take_bit 8 (drop_bit k n) = take_bit 8 (drop_bit k (take_bit 12 n))"
    by (simp add: take_bit_drop_bit take_bit_take_bit min_def)
  then show ?thesis by (simp add: take_bit_eq_mod drop_bit_eq_div)
qed

lemma next_byte:
  assumes "k \<le> 4" "d < 64" "unat v mod 64 = e"
  shows "unat (signed_drop_bit k (push_bit 6 (v :: 32 word) + of_nat d) AND 0xFF) = (e * 64 + d) div 2 ^ k mod 256"
    and "unat (push_bit 6 (v :: 32 word) + of_nat d) mod 64 = d"
proof -
  have "unat v * 64 mod 4096 = e * 64" using mult_mod_left [of "unat v" 64 64] assms(3) by simp
  then have "(unat v * 64 + d) mod 4096 = (e * 64 + d) mod 4096" using mod_add_left_eq [of "unat v * 64" 4096 d] by simp
  then have e: "unat (push_bit 6 v + of_nat d) mod 4096 = (e * 64 + d) mod 4096" by (simp only: accumulate)
  show "unat (signed_drop_bit k (push_bit 6 (v :: 32 word) + of_nat d) AND 0xFF) = (e * 64 + d) div 2 ^ k mod 256"
    using assms(1) by (simp only: low_byte low_bits [of k "unat _"] low_bits [of k "e * 64 + d"] e)
  have "unat (push_bit 6 v + of_nat d) mod 4096 mod 64 = (e * 64 + d) mod 4096 mod 64" by (simp only: e)
  then show "unat (push_bit 6 (v :: 32 word) + of_nat d) mod 64 = d" using assms(2) by (simp add: mod_mod_cancel)
qed

lemma loop_first:
  assumes "d1 < 64" "d2 < 64"
  obtains v where "unat v mod 64 = d2"
    and "\<And>cs ret. base64_loop (base64_alphabet ! d1 # base64_alphabet ! d2 # cs) val (- 8) ret =
      base64_loop cs v (- 4) (ret @ [char_of ((d1 * 64 + d2) div 16 mod 256)])"
proof -
  let ?a = "push_bit 6 val + of_nat d1"
  have a: "unat ?a mod 64 = d1" using next_byte(2) [of 0 d1 val] assms by simp
  show ?thesis using next_byte(1) [of 4 d2 ?a, OF _ _ a] next_byte(2) [of 0 d2 ?a] assms
    by (intro that [of "push_bit 6 ?a + of_nat d2"]) (simp_all add: loop_digit Let_def del: base64_loop.simps)
qed

lemma loop_second:
  assumes "d3 < 64" "unat v mod 64 = d2"
  obtains v' where "unat v' mod 64 = d3"
    and "\<And>cs ret. base64_loop (base64_alphabet ! d3 # cs) v (- 4) ret = base64_loop cs v' (- 6) (ret @ [char_of ((d2 * 64 + d3) div 4 mod 256)])"
  using next_byte(1) [of 2 d3 v, OF _ _ assms(2)] next_byte(2) [of 0 d3 v] assms
  by (intro that [of "push_bit 6 v + of_nat d3"]) (simp_all add: loop_digit Let_def del: base64_loop.simps)

lemma loop_third:
  assumes "d4 < 64" "unat v mod 64 = d3"
  obtains v' where "\<And>cs ret. base64_loop (base64_alphabet ! d4 # cs) v (- 6) ret = base64_loop cs v' (- 8) (ret @ [char_of ((d3 * 64 + d4) mod 256)])"
  using next_byte(1) [of 0 d4 v, OF _ _ assms(2)] assms
  by (intro that [of "push_bit 6 v + of_nat d4"]) (simp add: loop_digit Let_def del: base64_loop.simps)

text \<open>Three bytes as four digits.\<close>

lemma digits:
  assumes "a < 256" "b < 256" "c < (256 :: nat)" and n: "n = a * 65536 + b * 256 + c"
  shows "n div 262144 < 64" "(n div 262144 * 64 + n div 4096 mod 64) div 16 mod 256 = a"
    "(n div 4096 mod 64 * 64 + n div 64 mod 64) div 4 mod 256 = b" "(n div 64 mod 64 * 64 + n mod 64) mod 256 = c"
proof -
  define a1 a0 b1 b0 c1 c0 where "a1 = a div 4" "a0 = a mod 4" "b1 = b div 16" "b0 = b mod 16" "c1 = c div 64" "c0 = c mod 64"
  then have ab: "a = 4 * a1 + a0" "b = 16 * b1 + b0" "c = 64 * c1 + c0" "a0 < 4" "b0 < 16" "c0 < 64" "a1 < 64" "b1 < 16" "c1 < 4"
    using assms by auto
  have "n = 262144 * a1 + (4096 * (16 * a0 + b1) + (64 * (4 * b0 + c1) + c0))" using n ab by simp
  then have d: "n div 262144 = a1" "n div 4096 = 64 * a1 + (16 * a0 + b1)" "n div 64 = 4096 * a1 + 64 * (16 * a0 + b1) + (4 * b0 + c1)"
    using ab by auto
  have "n = c0 + 64 * (4096 * a1 + 64 * (16 * a0 + b1) + (4 * b0 + c1))" using n ab by simp
  then have m: "n mod 64 = c0" using ab mod_mult_self2 mod_less by metis
  have "n div 64 = 4 * b0 + c1 + 64 * (64 * a1 + (16 * a0 + b1))" using d by simp
  moreover have "4 * b0 + c1 < 64" using ab by simp
  ultimately have e: "n div 4096 mod 64 = 16 * a0 + b1" "n div 64 mod 64 = 4 * b0 + c1"
    using d ab mod_mult_self2 mod_less by (auto, metis)
  have "(1024 * a0 + b1 * 64 + (4 * b0 + c1)) div 4 = 16 * b1 + b0 + 256 * a0" "256 * b0 + c1 * 64 + c0 = 64 * c1 + c0 + 256 * b0"
    using ab by auto
  moreover have "16 * b1 + b0 < 256" "64 * c1 + c0 < 256" using ab by auto
  ultimately have m1: "(1024 * a0 + b1 * 64 + (4 * b0 + c1)) div 4 mod 256 = 16 * b1 + b0"
    and m2: "(256 * b0 + c1 * 64 + c0) mod 256 = 64 * c1 + c0" by (metis mod_mult_self2 mod_less)+
  show "n div 262144 < 64" "(n div 262144 * 64 + n div 4096 mod 64) div 16 mod 256 = a"
    "(n div 4096 mod 64 * 64 + n div 64 mod 64) div 4 mod 256 = b" "(n div 64 mod 64 * 64 + n mod 64) mod 256 = c"
    using ab m1 m2 by (simp_all add: e d(1) m)
qed

lemma loop_encoded: "base64_loop (base64_encode s) val (- 8) ret = ret @ s"
proof (induction s arbitrary: val ret rule: base64_encode.induct)
  case (1 a b c cs)
  define n where "n = byte a * 65536 + byte b * 256 + byte c"
  note d = digits [OF nat_of_char_less_256 [of a] nat_of_char_less_256 [of b] nat_of_char_less_256 [of c] n_def]
  obtain v where v: "unat v mod 64 = n div 4096 mod 64" and l1: "\<And>cs ret. base64_loop
      (base64_alphabet ! (n div 262144) # base64_alphabet ! (n div 4096 mod 64) # cs) val (- 8) ret = base64_loop cs v (- 4) (ret @ [a])"
    using loop_first [of "n div 262144" "n div 4096 mod 64" val] d(1,2) by (auto simp del: base64_loop.simps)
  obtain v' where v': "unat v' mod 64 = n div 64 mod 64" and l2: "\<And>cs ret. base64_loop (base64_alphabet ! (n div 64 mod 64) # cs) v (- 4) ret =
      base64_loop cs v' (- 6) (ret @ [b])"
    using loop_second [of "n div 64 mod 64" v, OF _ v] d(3) by (auto simp del: base64_loop.simps)
  obtain v'' where l3: "\<And>cs ret. base64_loop (base64_alphabet ! (n mod 64) # cs) v' (- 6) ret = base64_loop cs v'' (- 8) (ret @ [c])"
    using loop_third [of "n mod 64" v', OF _ v'] d(4) by (auto simp del: base64_loop.simps)
  show ?case unfolding base64_encode.simps Let_def n_def [symmetric] list.map append.simps l1 l2 l3 by (simp add: 1)
next
  case (2 a b)
  define n where "n = byte a * 65536 + byte b * 256"
  have "n = byte a * 65536 + byte b * 256 + 0" by (simp add: n_def)
  note d = digits [OF nat_of_char_less_256 nat_of_char_less_256 zero_less_numeral this]
  obtain v where v: "unat v mod 64 = n div 4096 mod 64" and l1: "\<And>cs ret. base64_loop
      (base64_alphabet ! (n div 262144) # base64_alphabet ! (n div 4096 mod 64) # cs) val (- 8) ret = base64_loop cs v (- 4) (ret @ [a])"
    using loop_first [of "n div 262144" "n div 4096 mod 64" val] d(1,2) by (auto simp del: base64_loop.simps)
  obtain v' where "unat v' mod 64 = n div 64 mod 64" and l2: "\<And>cs ret. base64_loop (base64_alphabet ! (n div 64 mod 64) # cs) v (- 4) ret = base64_loop cs v' (- 6) (ret @ [b])"
    using loop_second [of "n div 64 mod 64" v, OF _ v] d(3) by (auto simp del: base64_loop.simps)
  show ?case unfolding base64_encode.simps Let_def n_def [symmetric] list.map append.simps l1 l2 loop_pad by simp
next
  case (3 a)
  define n where "n = byte a * 65536"
  have "n = byte a * 65536 + 0 * 256 + 0" by (simp add: n_def)
  note d = digits [OF nat_of_char_less_256 zero_less_numeral zero_less_numeral this]
  obtain v where "unat v mod 64 = n div 4096 mod 64" and l1: "\<And>cs ret. base64_loop
      (base64_alphabet ! (n div 262144) # base64_alphabet ! (n div 4096 mod 64) # cs) val (- 8) ret = base64_loop cs v (- 4) (ret @ [a])"
    using loop_first [of "n div 262144" "n div 4096 mod 64" val] d(1,2) by (auto simp del: base64_loop.simps)
  show ?case unfolding base64_encode.simps Let_def n_def [symmetric] list.map append.simps l1 loop_pad by simp
qed simp

text \<open>C28: Base64: decoding the RFC 4648 encoding of any byte string gives the string back, in spite of the 32-bit accumulator that overflows.\<close>

theorem base64_roundtrip: "base64_decode (base64_encode s) = s"
  using loop_encoded [of s 0 "[]"] by (auto simp: base64_decode_def)

section \<open>UTF-8 is decoded\<close>

lemma or_low: "k < 2 ^ n \<Longrightarrow> push_bit n m OR k = push_bit n m + (k :: nat)"
proof (rule disjunctive_add_eq_or [symmetric])
  assume "k < 2 ^ n"
  then have "take_bit n k = k" by (simp add: take_bit_nat_eq_self)
  then have "\<not> bit k i" if "n \<le> i" for i using that by (metis bit_take_bit_iff linorder_not_less)
  then show "push_bit n m AND k = 0" by (auto simp: bit_eq_iff bit_simps not_le)
qed

lemma or_marks:
  "x < 64 \<Longrightarrow> 0xC0 OR x = 192 + (x :: nat)" "x < 16 \<Longrightarrow> 0xE0 OR x = 224 + (x :: nat)"
  "x < 8 \<Longrightarrow> 0xF0 OR x = 240 + (x :: nat)" "x < 64 \<Longrightarrow> 0x80 OR x = 128 + (x :: nat)"
  using or_low [of x 6 3] or_low [of x 4 14] or_low [of x 3 30] or_low [of x 6 2] by (simp_all add: push_bit_eq_mult)

lemma and_masks: "n AND 63 = n mod (64 :: nat)" "n AND 31 = n mod (32 :: nat)" "n AND 15 = n mod (16 :: nat)" "n AND 7 = n mod (8 :: nat)"
  using take_bit_eq_mask [of 6 n] take_bit_eq_mask [of 5 n] take_bit_eq_mask [of 4 n] take_bit_eq_mask [of 3 n]
  by (simp_all add: take_bit_eq_mod mask_numeral)

lemma join_bits:
  "a < 64 \<Longrightarrow> push_bit 6 b OR a = b * 64 + (a :: nat)" "a < 4096 \<Longrightarrow> push_bit 12 b OR a = b * 4096 + (a :: nat)"
  "a < 262144 \<Longrightarrow> push_bit 18 b OR a = b * 262144 + (a :: nat)"
  using or_low [of a 6 b] or_low [of a 12 b] or_low [of a 18 b] by (simp_all add: push_bit_eq_mult)

lemma mark_mods: "(192 + x) mod 32 = x mod (32 :: nat)" "(224 + x) mod 16 = x mod (16 :: nat)" "(240 + x) mod 8 = x mod (8 :: nat)"
    "(128 + x) mod 64 = x mod (64 :: nat)"
  using mod_mult_self4 [of 32 6 x] mod_mult_self4 [of 16 14 x] mod_mult_self4 [of 8 30 x] mod_mult_self4 [of 64 2 x] by simp_all

lemma digits_64:
  "(cp :: nat) div 4096 * 4096 + cp div 64 mod 64 * 64 + cp mod 64 = cp"
  "(cp :: nat) div 262144 * 262144 + cp div 4096 mod 64 * 4096 + cp div 64 mod 64 * 64 + cp mod 64 = cp"
proof -
  have a: "cp div 4096 = cp div 64 div 64" "cp div 262144 = cp div 64 div 64 div 64" by (simp_all add: div_mult2_eq [symmetric])
  show b: "cp div 4096 * 4096 + cp div 64 mod 64 * 64 + cp mod 64 = cp"
    using div_mult_mod_eq [of "cp div 64" 64] div_mult_mod_eq [of cp 64] unfolding a by linarith
  show "cp div 262144 * 262144 + cp div 4096 mod 64 * 4096 + cp div 64 mod 64 * 64 + cp mod 64 = cp"
    using div_mult_mod_eq [of "cp div 4096" 64] b unfolding a by linarith
qed

lemma decode_one:
  assumes "cp < 2 ^ 21"
  shows "utf8_to_wstring (utf8_of cp @ s) = cp # utf8_to_wstring s"
proof -
  have "cp div 64 mod 64 < 64" "cp mod 64 < 64" "cp div 4096 mod 64 < 64" by simp_all
  then have lt: "cp div 64 mod 64 * 64 + cp mod 64 < 4096" "cp div 4096 mod 64 * 4096 + (cp div 64 mod 64 * 64 + cp mod 64) < 262144" by linarith+
  consider "cp < 0x80" | "0x80 \<le> cp" "cp < 0x800" | "0x800 \<le> cp" "cp < 0x10000" | "0x10000 \<le> cp" by linarith
  then show ?thesis
  proof cases
    case 1 then show ?thesis by (simp add: utf8_of_def)
  next
    case 2
    then have "cp div 64 < 32" by (simp add: div_less_iff_less_mult)
    then show ?thesis using 2 by (simp add: utf8_of_def or_marks and_masks join_bits drop_bit_eq_div Let_def mark_mods mod_mod_cancel)
  next
    case 3
    then have "cp div 4096 < 16" by (simp add: div_less_iff_less_mult)
    then show ?thesis using 3 lt digits_64(1) [of cp] by (simp add: utf8_of_def or_marks and_masks join_bits drop_bit_eq_div Let_def mark_mods mod_mod_cancel)
  next
    case 4
    have "cp div 262144 < 8" using assms by (simp add: div_less_iff_less_mult)
    then show ?thesis using 4 lt digits_64(2) [of cp] by (simp add: utf8_of_def or_marks and_masks join_bits drop_bit_eq_div Let_def mark_mods mod_mod_cancel)
  qed
qed

lemma utf8_decodes: "\<forall>cp \<in> set w. cp < 2 ^ 21 \<Longrightarrow> utf8_to_wstring (wstring_to_utf8 w) = w"
  by (induction w) (simp_all add: wstring_to_utf8_def decode_one)

text \<open>C29: UTF-8: converting any wide string of code points below \<open>2 ^ 21\<close> to UTF-8 and back gives the string back.\<close>

theorem utf8_roundtrip:
  assumes "\<forall>cp \<in> set w. cp < 2 ^ 21"
  shows "utf8_to_wstring (wstring_to_utf8 w) = w"
  using assms by (rule utf8_decodes)

theorem utf8_roundtrip_witness: "utf8_to_wstring (wstring_to_utf8 [0x41, 0xE9, 0x4E2D, 0x1F600]) = [0x41, 0xE9, 0x4E2D, 0x1F600]"
  using utf8_roundtrip [of "[0x41, 0xE9, 0x4E2D, 0x1F600]"] by simp

end
