(* ===== verification/LLM_Huggingface.thy ===== *)
theory LLM_Huggingface
  imports LLM_Text
begin

text \<open>
  The byte-level BPE tokenizer (\<open>HuggingfaceTokenizer\<close> of
  \<open>MNN/transformers/llm/engine/src/tokenizer.cpp\<close>): the vocabulary file, the splitting of a text by the
  regular expression, byte pair encoding, encoding and decoding. The file is given by the two
  counts of its first line and the lines after it, each of them terminated, so that a missing line reads as the
  empty string. Maps
  that throw on a missing key give \<open>None\<close>. The regular expression is matched as \<open>std::regex\<close> does: the
  first alternative that matches, greedily, with the character classes of the "C" locale.
\<close>

type_synonym BPERanks = "wstring \<times> wstring \<rightharpoonup> int"

record HuggingfaceTokenizer =
  bpe_ranks :: BPERanks
  b2u :: "nat list"
  u2b :: "nat \<rightharpoonup> char"
  hf_encoder :: "string \<rightharpoonup> int"
  hf_decoder :: "string list"

subsection \<open>Loading\<close>

text \<open>\<open>emplace\<close> keeps an entry that is already there.\<close>

definition emplace :: "'k \<Rightarrow> 'v \<Rightarrow> ('k \<rightharpoonup> 'v) \<Rightarrow> ('k \<rightharpoonup> 'v)" where
  "emplace k v m = (if m k = None then m(k \<mapsto> v) else m)"

definition get_line :: "string list \<Rightarrow> nat \<Rightarrow> string" where
  "get_line ls i = (if i < length ls then ls ! i else [])"

definition load_encoder :: "string list \<Rightarrow> (string \<rightharpoonup> int)" where
  "load_encoder toks = fold (\<lambda>i. emplace (toks ! i) (int i)) [0..<length toks] Map.empty"

definition load_rank :: "string \<Rightarrow> nat \<Rightarrow> BPERanks \<Rightarrow> BPERanks" where
  "load_rank line i ranks =
     (if CHR '' '' \<in> set line
      then let d = length (takeWhile (\<lambda>c. c \<noteq> CHR '' '') line)
           in emplace (utf8_to_wstring (take d line), utf8_to_wstring (drop (d + 1) line)) (int i) ranks
      else ranks)"

definition set_range :: "nat \<Rightarrow> nat \<Rightarrow> nat list \<Rightarrow> nat list" where
  "set_range start finish m = fold (\<lambda>c m. m[c := c]) [start..<finish + 1] m"

fun fill_map :: "nat list \<Rightarrow> nat \<Rightarrow> nat list \<Rightarrow> nat list" where
  "fill_map [] n m = m"
| "fill_map (b # bs) n m = (if m ! b = 0 then fill_map bs (n + 1) (m[b := 256 + n]) else fill_map bs n m)"

definition bytes_to_unicode :: "nat list" where
  "bytes_to_unicode = fill_map [0..<256] 0 (set_range 174 255 (set_range 161 172 (set_range 33 126 (replicate 256 0))))"

definition HF_load_vocab :: "nat \<Rightarrow> nat \<Rightarrow> string list \<Rightarrow> HuggingfaceTokenizer" where
  "HF_load_vocab vocab_len merge_len file =
     (let toks = map (get_line file) [0..<vocab_len]
      in \<lparr>bpe_ranks = fold (\<lambda>i. load_rank (get_line file (vocab_len + i)) i) [0..<merge_len] Map.empty,
          b2u = bytes_to_unicode,
          u2b = fold (\<lambda>i. emplace (bytes_to_unicode ! i) (char_of i)) [0..<256] Map.empty,
          hf_encoder = load_encoder toks, hf_decoder = toks\<rparr>)"

subsection \<open>Splitting\<close>

definition is_alpha :: "char \<Rightarrow> bool" where
  "is_alpha c \<longleftrightarrow> 65 \<le> byte c \<and> byte c \<le> 90 \<or> 97 \<le> byte c \<and> byte c \<le> 122"

definition is_digit :: "char \<Rightarrow> bool" where
  "is_digit c \<longleftrightarrow> 48 \<le> byte c \<and> byte c \<le> 57"

definition is_space :: "char \<Rightarrow> bool" where
  "is_space c \<longleftrightarrow> byte c = 32 \<or> 9 \<le> byte c \<and> byte c \<le> 13"

definition is_newline :: "char \<Rightarrow> bool" where
  "is_newline c \<longleftrightarrow> byte c = 10 \<or> byte c = 13"

definition is_symbol :: "char \<Rightarrow> bool" where
  "is_symbol c \<longleftrightarrow> \<not> is_space c \<and> \<not> is_alpha c \<and> \<not> is_digit c"

definition starts :: "(char \<Rightarrow> bool) \<Rightarrow> string \<Rightarrow> bool" where
  "starts P s \<longleftrightarrow> s \<noteq> [] \<and> P (hd s)"

definition prefix_ci :: "string \<Rightarrow> string \<Rightarrow> bool" where
  "prefix_ci p s \<longleftrightarrow> to_lower_case (take (length p) s) = p"

text \<open>The alternatives of the regular expression, each with the length of its match at the start.\<close>

definition alt_suffix :: "string \<Rightarrow> nat option" where
  "alt_suffix s =
     map_option length (find (\<lambda>p. prefix_ci p s)
       [[char_of (39 :: nat), CHR ''s''], [char_of (39 :: nat), CHR ''t''], [char_of (39 :: nat), CHR ''r'', CHR ''e''],
        [char_of (39 :: nat), CHR ''v'', CHR ''e''], [char_of (39 :: nat), CHR ''m''],
        [char_of (39 :: nat), CHR ''l'', CHR ''l''], [char_of (39 :: nat), CHR ''d'']])"

definition alt_word :: "string \<Rightarrow> nat option" where
  "alt_word s =
     (if starts (\<lambda>c. \<not> is_newline c \<and> \<not> is_alpha c \<and> \<not> is_digit c) s \<and> starts is_alpha (tl s)
      then Some (1 + length (takeWhile is_alpha (tl s)))
      else if starts is_alpha s then Some (length (takeWhile is_alpha s)) else None)"

definition alt_digit :: "string \<Rightarrow> nat option" where
  "alt_digit s = (if starts is_digit s then Some 1 else None)"

definition symbols :: "string \<Rightarrow> nat" where
  "symbols s = length (takeWhile is_symbol s) + length (takeWhile is_newline (dropWhile is_symbol s))"

definition alt_symbols :: "string \<Rightarrow> nat option" where
  "alt_symbols s =
     (if starts (\<lambda>c. c = CHR '' '') s \<and> starts is_symbol (tl s) then Some (1 + symbols (tl s))
      else if starts is_symbol s then Some (symbols s) else None)"

definition alt_newlines :: "string \<Rightarrow> nat option" where
  "alt_newlines s =
     (let run = takeWhile is_space s
      in if \<exists>c \<in> set run. is_newline c then Some (length (dropWhile (\<lambda>c. \<not> is_newline c) (rev run))) else None)"

definition alt_trailing :: "string \<Rightarrow> nat option" where
  "alt_trailing s =
     (let k = length (takeWhile is_space s)
      in if k = 0 then None else if k = length s then Some k else if k \<ge> 2 then Some (k - 1) else None)"

definition alt_spaces :: "string \<Rightarrow> nat option" where
  "alt_spaces s = (let k = length (takeWhile is_space s) in if k = 0 then None else Some k)"

definition match_length :: "string \<Rightarrow> nat option" where
  "match_length s =
     (case alt_suffix s of Some n \<Rightarrow> Some n | None \<Rightarrow> case alt_word s of Some n \<Rightarrow> Some n | None \<Rightarrow>
      case alt_digit s of Some n \<Rightarrow> Some n | None \<Rightarrow> case alt_symbols s of Some n \<Rightarrow> Some n | None \<Rightarrow>
      case alt_newlines s of Some n \<Rightarrow> Some n | None \<Rightarrow> case alt_trailing s of Some n \<Rightarrow> Some n | None \<Rightarrow> alt_spaces s)"

text \<open>\<open>regex_search\<close>: the first position with a match; the match and what follows it.\<close>

fun regex_search :: "string \<Rightarrow> (string \<times> string) option" where
  "regex_search [] = None"
| "regex_search (c # s) =
     (case match_length (c # s) of Some n \<Rightarrow> Some (take n (c # s), drop n (c # s)) | None \<Rightarrow> regex_search s)"

subsection \<open>Byte pair encoding\<close>

definition INT_MAX :: int where "INT_MAX = 2 ^ 31 - 1"

fun pairs_from :: "nat \<Rightarrow> wstring \<Rightarrow> (wstring \<times> wstring) list" where
  "pairs_from previous [] = []"
| "pairs_from previous (c # cs) = ([previous], [c]) # pairs_from c cs"

definition get_pairs :: "wstring \<Rightarrow> (wstring \<times> wstring) list" where
  "get_pairs word = (if length word < 2 then [] else pairs_from (hd word) (tl word))"

definition left_of :: "nat \<Rightarrow> nat set \<Rightarrow> nat option" where
  "left_of i merged = find (\<lambda>j. j \<notin> merged) (rev [0..<i])"

definition right_of :: "nat \<Rightarrow> nat \<Rightarrow> nat set \<Rightarrow> nat option" where
  "right_of i cap merged = find (\<lambda>j. j \<notin> merged) [i + 1..<cap]"

definition score_of :: "BPERanks \<Rightarrow> wstring \<times> wstring \<Rightarrow> int" where
  "score_of ranks p = (case ranks p of Some r \<Rightarrow> r | None \<Rightarrow> INT_MAX)"

fun scan_pairs :: "BPERanks \<Rightarrow> (wstring \<times> wstring) list \<Rightarrow> nat set \<Rightarrow> nat list \<Rightarrow> int \<Rightarrow> nat option \<Rightarrow> nat option" where
  "scan_pairs ranks pairs merged [] min_score to_merge = to_merge"
| "scan_pairs ranks pairs merged (i # is) min_score to_merge =
     (if i \<notin> merged \<and> score_of ranks (pairs ! i) < min_score
      then scan_pairs ranks pairs merged is (score_of ranks (pairs ! i)) (Some i)
      else scan_pairs ranks pairs merged is min_score to_merge)"

definition merge_pair :: "nat \<Rightarrow> nat set \<Rightarrow> (wstring \<times> wstring) list \<Rightarrow> (wstring \<times> wstring) list" where
  "merge_pair k merged pairs =
     (let merge_into = fst (pairs ! k) @ snd (pairs ! k);
          pairs = (case left_of k merged of Some l \<Rightarrow> pairs[l := (fst (pairs ! l), merge_into)] | None \<Rightarrow> pairs)
      in case right_of k (length pairs) merged of Some r \<Rightarrow> pairs[r := (merge_into, snd (pairs ! r))] | None \<Rightarrow> pairs)"

lemma scan_pairs_Some:
  "scan_pairs ranks pairs merged is m b = Some k \<Longrightarrow> b = Some k \<or> k \<in> set is \<and> k \<notin> merged"
  by (induction ranks pairs merged "is" m b rule: scan_pairs.induct) (auto split: if_splits)

lemma length_merge_pair [simp]: "length (merge_pair k merged pairs) = length pairs"
  by (simp add: merge_pair_def Let_def split: option.splits)

function bpe_loop :: "BPERanks \<Rightarrow> (wstring \<times> wstring) list \<Rightarrow> nat set \<Rightarrow> (wstring \<times> wstring) list \<times> nat set" where
  "bpe_loop ranks pairs merged =
     (case scan_pairs ranks pairs merged [0..<length pairs] INT_MAX None of
        None \<Rightarrow> (pairs, merged)
      | Some k \<Rightarrow> bpe_loop ranks (merge_pair k (insert k merged) pairs) (insert k merged))"
  by auto
termination
proof (relation "measure (\<lambda>(ranks, pairs, merged). card ({..<length pairs} - merged))")
  fix ranks :: BPERanks and pairs :: "(wstring \<times> wstring) list" and merged k
  assume "scan_pairs ranks pairs merged [0..<length pairs] INT_MAX None = Some k"
  then have "k \<in> {..<length pairs} - merged" using scan_pairs_Some by fastforce
  then have "{..<length pairs} - insert k merged \<subset> {..<length pairs} - merged" by auto
  then show "((ranks, merge_pair k (insert k merged) pairs, insert k merged), ranks, pairs, merged)
      \<in> measure (\<lambda>(ranks, pairs, merged). card ({..<length pairs} - merged))"
    by (simp add: psubset_card_mono)
qed simp

declare bpe_loop.simps [simp del]

definition HF_bpe :: "wstring \<Rightarrow> BPERanks \<Rightarrow> wstring list" where
  "HF_bpe token ranks =
     (case bpe_loop ranks (get_pairs token) {} of (pairs, merged) \<Rightarrow>
        if card merged = length pairs then [token]
        else concat (map (\<lambda>i. if i \<in> merged then []
          else (if left_of i merged = None then [fst (pairs ! i)] else []) @ [snd (pairs ! i)]) [0..<length pairs]))"

subsection \<open>Encoding and decoding\<close>

lemma match_length_pos: "match_length s = Some n \<Longrightarrow> s \<noteq> [] \<Longrightarrow> 0 < n"
  by (auto simp: match_length_def alt_suffix_def alt_word_def alt_digit_def alt_symbols_def alt_newlines_def alt_trailing_def alt_spaces_def
      symbols_def starts_def Let_def find_Some_iff neq_Nil_conv split: option.splits if_splits)

lemma regex_search_shorter: "regex_search s = Some (t, r) \<Longrightarrow> length r < length s"
proof (induction s rule: regex_search.induct)
  case (2 c s)
  then show ?case using match_length_pos [of "c # s"] by (auto split: option.splits)
qed simp

function HF_split :: "string \<Rightarrow> string list" where
  "HF_split input = (case regex_search input of None \<Rightarrow> [] | Some (token, suffix) \<Rightarrow> token # HF_split suffix)"
  by auto
termination by (relation "measure length") (auto dest: regex_search_shorter)

declare HF_split.simps [simp del]

definition b2u_at :: "HuggingfaceTokenizer \<Rightarrow> char \<Rightarrow> nat option" where
  "b2u_at tk c = (if byte c < length (b2u tk) then Some (b2u tk ! byte c) else None)"

definition HF_token :: "HuggingfaceTokenizer \<Rightarrow> string \<Rightarrow> string list option" where
  "HF_token tk token =
     map_option (\<lambda>wtoken. map wstring_to_utf8 (HF_bpe wtoken (bpe_ranks tk))) (those (map (b2u_at tk) token))"

definition HF_encode :: "HuggingfaceTokenizer \<Rightarrow> string \<Rightarrow> int list \<Rightarrow> int list option" where
  "HF_encode tk str ids =
     (case those (map (HF_token tk) (HF_split str)) of
        None \<Rightarrow> None
      | Some result \<Rightarrow> map_option ((@) ids) (those (map (hf_encoder tk) (concat result))))"

definition HF_decode :: "HuggingfaceTokenizer \<Rightarrow> int \<Rightarrow> string" where
  "HF_decode tk n =
     (if n < 0 \<or> n \<ge> int (length (hf_decoder tk)) then []
      else List.map_filter (u2b tk) (utf8_to_wstring (hf_decoder tk ! nat n)))"

end
