(* ===== verification/LLM_Huggingface_Facts.thy ===== *)
theory LLM_Huggingface_Facts
  imports LLM_Huggingface
begin

text \<open>
  Byte pair encoding implements its definition, repeatedly joining the leftmost pair of neighbours
  with the lowest rank; encoding a text and decoding the tokens gives the text back.
\<close>

subsection \<open>Byte pair encoding by definition\<close>

definition pair_at :: "wstring list \<Rightarrow> nat \<Rightarrow> wstring \<times> wstring" where
  "pair_at segs j = (segs ! j, segs ! Suc j)"

definition best_pair :: "BPERanks \<Rightarrow> wstring list \<Rightarrow> nat option" where
  "best_pair ranks segs =
     find (\<lambda>k. score_of ranks (pair_at segs k) < INT_MAX \<and>
       (\<forall>j \<in> {..<length segs - 1}. score_of ranks (pair_at segs k) \<le> score_of ranks (pair_at segs j))) [0..<length segs - 1]"

definition join_at :: "nat \<Rightarrow> wstring list \<Rightarrow> wstring list" where
  "join_at k segs = take k segs @ (segs ! k @ segs ! Suc k) # drop (k + 2) segs"

lemma best_pair_less: "best_pair ranks segs = Some k \<Longrightarrow> Suc k < length segs"
  by (auto simp: best_pair_def find_Some_iff)

lemma length_join_at: "Suc k < length segs \<Longrightarrow> length (join_at k segs) = length segs - 1"
  by (simp add: join_at_def min_def)

function bpe_spec :: "BPERanks \<Rightarrow> wstring list \<Rightarrow> wstring list" where
  "bpe_spec ranks segs = (case best_pair ranks segs of None \<Rightarrow> segs | Some k \<Rightarrow> bpe_spec ranks (join_at k segs))"
  by auto
termination by (relation "measure (\<lambda>(ranks, segs). length segs)") (auto dest!: best_pair_less simp: length_join_at)

declare bpe_spec.simps [simp del]

lemma concat_join_at: "Suc k < length segs \<Longrightarrow> concat (join_at k segs) = concat segs"
proof -
  assume "Suc k < length segs"
  then have "segs = take k segs @ segs ! k # segs ! Suc k # drop (k + 2) segs"
    by (simp add: id_take_nth_drop [symmetric] Cons_nth_drop_Suc)
  then have "concat segs = concat (take k segs) @ segs ! k @ segs ! Suc k @ concat (drop (k + 2) segs)" by (metis concat.simps concat_append append.assoc)
  then show ?thesis by (simp add: join_at_def)
qed

lemma concat_bpe_spec: "concat (bpe_spec ranks segs) = concat segs"
proof (induction ranks segs rule: bpe_spec.induct)
  case (1 ranks segs)
  then show ?case
    by (subst bpe_spec.simps) (auto simp: concat_join_at dest: best_pair_less split: option.splits)
qed

subsection \<open>The scan finds the leftmost minimum\<close>

fun leftmost :: "('a \<Rightarrow> int) \<Rightarrow> 'a list \<Rightarrow> int \<Rightarrow> 'a option \<Rightarrow> 'a option" where
  "leftmost f [] m b = b"
| "leftmost f (x # xs) m b = (if f x < m then leftmost f xs (f x) (Some x) else leftmost f xs m b)"

lemma scan_leftmost:
  "scan_pairs ranks pairs merged is m b = leftmost (\<lambda>i. score_of ranks (pairs ! i)) (filter (\<lambda>i. i \<notin> merged) is) m b"
  by (induction ranks pairs merged "is" m b rule: scan_pairs.induct) auto

lemma leftmost_eq:
  "leftmost f xs m b = (case find (\<lambda>x. f x < m \<and> (\<forall>y \<in> set xs. f x \<le> f y)) xs of Some x \<Rightarrow> Some x | None \<Rightarrow> b)"
proof (induction xs arbitrary: m b)
  case (Cons x xs)
  let ?P = "\<lambda>y. f y < m \<and> (\<forall>z \<in> set (x # xs). f y \<le> f z)"
  show ?case
  proof (cases "f x < m")
    case True
    show ?thesis
    proof (cases "\<forall>z \<in> set xs. f x \<le> f z")
      case le: True
      then have "find (\<lambda>y. f y < f x \<and> (\<forall>z \<in> set xs. f y \<le> f z)) xs = None" by (auto simp: find_None_iff)
      then show ?thesis using True le by (simp add: Cons.IH)
    next
      case False
      then obtain z where z: "z \<in> set xs" "f z < f x" by auto
      have "find (\<lambda>y. f y < f x \<and> (\<forall>z \<in> set xs. f y \<le> f z)) xs = find ?P xs"
        by (rule find_cong) (use z True in auto)
      moreover have "find ?P xs \<noteq> None"
      proof -
        have "Min (f ` set xs) \<in> f ` set xs" using z by (intro Min_in) auto
        then obtain y where "y \<in> set xs" "f y = Min (f ` set xs)" by auto
        moreover have "\<forall>w \<in> set xs. Min (f ` set xs) \<le> f w" by simp
        ultimately have le: "y \<in> set xs" "\<forall>w \<in> set xs. f y \<le> f w" by auto
        moreover have "f y \<le> f z" using le z by blast
        ultimately have "y \<in> set xs \<and> ?P y" using z True by auto
        then show ?thesis by (auto simp: find_None_iff)
      qed
      ultimately show ?thesis using True False by (auto simp: Cons.IH split: option.splits)
    qed
  next
    case False
    have "find (\<lambda>y. f y < m \<and> (\<forall>z \<in> set xs. f y \<le> f z)) xs = find ?P xs"
      by (rule find_cong) (use False in auto)
    then show ?thesis using False by (simp add: Cons.IH)
  qed
qed simp

lemma leftmost_map: "leftmost f (map g xs) m (map_option g b) = map_option g (leftmost (f \<circ> g) xs m b)"
proof (induction xs arbitrary: m b)
  case (Cons x xs)
  show ?case using Cons.IH [of "f (g x)" "Some x"] Cons.IH [of m b] by simp
qed simp

lemma leftmost_cong: "(\<And>x. x \<in> set xs \<Longrightarrow> f x = g x) \<Longrightarrow> leftmost f xs m b = leftmost g xs m b"
  by (induction xs arbitrary: m b) auto

lemma best_pair_leftmost: "best_pair ranks segs = leftmost (\<lambda>j. score_of ranks (pair_at segs j)) [0..<length segs - 1] INT_MAX None"
  by (simp add: best_pair_def leftmost_eq atLeast0LessThan split: option.split)

subsection \<open>The loop implements the definition\<close>

definition unmerged :: "nat set \<Rightarrow> nat \<Rightarrow> nat list" where
  "unmerged merged n = filter (\<lambda>i. i \<notin> merged) [0..<n]"

definition represents :: "(wstring \<times> wstring) list \<Rightarrow> nat set \<Rightarrow> wstring list \<Rightarrow> bool" where
  "represents pairs merged segs \<longleftrightarrow>
     merged \<subseteq> {..<length pairs} \<and> map ((!) pairs) (unmerged merged (length pairs)) = map (pair_at segs) [0..<length segs - 1] \<and> segs \<noteq> []"

lemma scan_best:
  assumes "represents pairs merged segs"
  shows "scan_pairs ranks pairs merged [0..<length pairs] INT_MAX None =
    map_option ((!) (unmerged merged (length pairs))) (best_pair ranks segs)"
proof -
  let ?us = "unmerged merged (length pairs)"
  have eq: "map ((!) pairs) ?us = map (pair_at segs) [0..<length segs - 1]" using assms by (simp add: represents_def)
  have l: "length ?us = length segs - 1" using arg_cong [OF eq, of length] by simp
  have p: "pairs ! (?us ! j) = pair_at segs j" if "j < length segs - 1" for j
    using arg_cong [OF eq, of "\<lambda>xs. xs ! j"] that l by simp
  have "leftmost (\<lambda>i. score_of ranks (pairs ! i)) (map ((!) ?us) [0..<length ?us]) INT_MAX (map_option ((!) ?us) None) =
      map_option ((!) ?us) (leftmost ((\<lambda>i. score_of ranks (pairs ! i)) \<circ> (!) ?us) [0..<length ?us] INT_MAX None)"
    by (rule leftmost_map)
  also have "leftmost ((\<lambda>i. score_of ranks (pairs ! i)) \<circ> (!) ?us) [0..<length ?us] INT_MAX None = best_pair ranks segs"
    unfolding best_pair_leftmost l by (rule leftmost_cong) (simp add: p)
  finally show ?thesis by (simp add: scan_leftmost unmerged_def [symmetric] map_nth)
qed

lemma find_filter: "find P xs = (case filter P xs of [] \<Rightarrow> None | x # _ \<Rightarrow> Some x)"
  by (induction xs) auto

lemma unmerged_split:
  assumes "j < length (unmerged merged n)" and k: "k = unmerged merged n ! j"
  obtains A B where "unmerged merged n = A @ k # B" "length A = j" "unmerged (insert k merged) n = A @ B" "k < n" "k \<notin> merged"
    "left_of k (insert k merged) = (if A = [] then None else Some (last A))"
    "right_of k n (insert k merged) = (if B = [] then None else Some (hd B))" "distinct (A @ k # B)" "set (A @ B) \<subseteq> {..<n}"
proof -
  have kin: "k \<in> set (unmerged merged n)" using nth_mem [OF assms(1)] k by metis
  then have kn: "k < n" "k \<notin> merged" by (auto simp: unmerged_def)
  define A B where "A = filter (\<lambda>i. i \<notin> merged) [0..<k]" and "B = filter (\<lambda>i. i \<notin> merged) [Suc k..<n]"
  have "[0..<n] = [0..<k] @ k # [Suc k..<n]" using kn upt_add_eq_append [of 0 k "n - k"] upt_conv_Cons [of k n] by simp
  then have us: "unmerged merged n = A @ k # B" and us': "unmerged (insert k merged) n = filter (\<lambda>i. i \<notin> insert k merged) [0..<k] @ filter (\<lambda>i. i \<notin> insert k merged) [Suc k..<n]"
    using kn by (simp_all add: unmerged_def A_def B_def)
  have A': "filter (\<lambda>i. i \<notin> insert k merged) [0..<k] = A" and B': "filter (\<lambda>i. i \<notin> insert k merged) [Suc k..<n] = B"
    unfolding A_def B_def by (auto intro: filter_cong)
  have dist: "distinct (A @ k # B)" using us by (metis distinct_filter distinct_upt unmerged_def)
  have "(A @ k # B) ! j = k" using k us by metis
  then have "(A @ k # B) ! j = (A @ k # B) ! length A" by simp
  moreover have "j < length (A @ k # B)" using assms(1) us by metis
  ultimately have lA: "length A = j" using nth_eq_iff_index_eq [OF dist, of j "length A"] by simp
  have lo: "left_of k (insert k merged) = (if A = [] then None else Some (last A))"
    unfolding left_of_def find_filter rev_filter [symmetric] A' by (cases A rule: rev_cases) auto
  have ro: "right_of k n (insert k merged) = (if B = [] then None else Some (hd B))"
    unfolding right_of_def find_filter Suc_eq_plus1 [symmetric] B' by (cases B) auto
  have sub: "set (A @ B) \<subseteq> {..<n}" using kn by (auto simp: A_def B_def)
  have us'': "unmerged (insert k merged) n = A @ B" unfolding us' A' B' ..
  show ?thesis by (rule that [OF us lA us'' kn lo ro dist sub])
qed

lemma merge_pair_nth:
  assumes d: "distinct (A @ k # B)" and sub: "set (A @ B) \<subseteq> {..<length pairs}"
    and l: "left_of k merged = (if A = [] then None else Some (last A))"
    and r: "right_of k (length pairs) merged = (if B = [] then None else Some (hd B))"
    and m: "m = fst (pairs ! k) @ snd (pairs ! k)"
  shows "i < length A \<Longrightarrow> merge_pair k merged pairs ! (A ! i) =
      (if Suc i = length A then (fst (pairs ! (A ! i)), m) else pairs ! (A ! i))"
    and "i < length B \<Longrightarrow> merge_pair k merged pairs ! (B ! i) = (if i = 0 then (m, snd (pairs ! (B ! i))) else pairs ! (B ! i))"
proof -
  define P1 where "P1 = (if A = [] then pairs else pairs[last A := (fst (pairs ! last A), m)])"
  have P2: "merge_pair k merged pairs = (if B = [] then P1 else P1[hd B := (m, snd (P1 ! hd B))])"
    using l r by (auto simp: merge_pair_def Let_def P1_def m)
  have lP: "length P1 = length pairs" by (simp add: P1_def)
  have last: "last A = A ! (length A - 1)" if "A \<noteq> []" using that by (rule last_conv_nth)
  have hd: "hd B = B ! 0" if "B \<noteq> []" using that by (rule hd_conv_nth)
  have neq: "A ! i \<noteq> B ! i'" if "i < length A" "i' < length B" for i i' using d that by (auto dest: nth_mem)
  have injA: "A ! i = A ! i' \<longleftrightarrow> i = i'" if "i < length A" "i' < length A" for i i' using d that by (simp add: nth_eq_iff_index_eq)
  have injB: "B ! i = B ! i' \<longleftrightarrow> i = i'" if "i < length B" "i' < length B" for i i' using d that by (simp add: nth_eq_iff_index_eq)
  have inA: "A ! i < length pairs" if "i < length A" for i using sub that nth_mem by fastforce
  have inB: "B ! i < length pairs" if "i < length B" for i using sub that nth_mem by fastforce
  show "merge_pair k merged pairs ! (A ! i) = (if Suc i = length A then (fst (pairs ! (A ! i)), m) else pairs ! (A ! i))"
    if i: "i < length A"
  proof -
    have "merge_pair k merged pairs ! (A ! i) = P1 ! (A ! i)" using neq [OF i, of 0] by (cases B) (auto simp: P2)
    moreover have "A \<noteq> []" using i by auto
    ultimately show ?thesis using i inA [OF i] last injA [OF i, of "length A - 1"] by (auto simp: P1_def nth_list_update)
  qed
  have P1B: "P1 ! (B ! i) = pairs ! (B ! i)" if "i < length B" for i
    using neq [of "length A - 1" i] that last by (cases "A = []") (auto simp: P1_def)
  show "merge_pair k merged pairs ! (B ! i) = (if i = 0 then (m, snd (pairs ! (B ! i))) else pairs ! (B ! i))" if i: "i < length B"
  proof -
    have "B \<noteq> []" using i by auto
    then show ?thesis using i hd inB [OF i] injB [OF i, of 0] P1B [OF i] lP by (auto simp: P2 nth_list_update)
  qed
qed

lemma represents_step:
  assumes rep: "represents pairs merged segs" and best: "best_pair ranks segs = Some j"
    and k: "k = unmerged merged (length pairs) ! j"
  shows "represents (merge_pair k (insert k merged) pairs) (insert k merged) (join_at j segs)"
proof -
  let ?n = "length pairs"
  have jl: "Suc j < length segs" by (rule best_pair_less [OF best])
  have eq: "map ((!) pairs) (unmerged merged ?n) = map (pair_at segs) [0..<length segs - 1]" and sub: "merged \<subseteq> {..<?n}"
    using rep by (auto simp: represents_def)
  have lu: "length (unmerged merged ?n) = length segs - 1" using arg_cong [OF eq, of length] by simp
  have jlu: "j < length (unmerged merged ?n)" using jl lu by simp
  obtain A B where us: "unmerged merged ?n = A @ k # B" and lA: "length A = j" and us': "unmerged (insert k merged) ?n = A @ B"
    and kn: "k < ?n" "k \<notin> merged" and lo: "left_of k (insert k merged) = (if A = [] then None else Some (last A))"
    and ro: "right_of k ?n (insert k merged) = (if B = [] then None else Some (hd B))" and d: "distinct (A @ k # B)"
    and AB: "set (A @ B) \<subseteq> {..<?n}"
    by (rule unmerged_split [OF jlu k])
  have lB: "length B = length segs - 2 - j" using lu us lA by simp
  have "pairs ! (unmerged merged ?n ! i) = pair_at segs i" if "i < length segs - 1" for i
    using arg_cong [OF eq, of "\<lambda>xs. xs ! i"] that lu by simp
  then have p: "pairs ! ((A @ k # B) ! i) = pair_at segs i" if "i < length segs - 1" for i
    using that unfolding us by blast
  have pk: "pairs ! k = (segs ! j, segs ! Suc j)" using p [of j] jl lA by (auto simp: pair_at_def nth_append)
  define m where "m = fst (pairs ! k) @ snd (pairs ! k)"
  note mp = merge_pair_nth [OF d AB lo ro m_def]
  have nj: "join_at j segs ! i = (if i < j then segs ! i else if i = j then m else segs ! Suc i)" if "i < length segs - 1" for i
    using that jl by (auto simp: join_at_def m_def pk nth_append nth_Cons' min_def)
  have "map ((!) (merge_pair k (insert k merged) pairs)) (A @ B) = map (pair_at (join_at j segs)) [0..<length segs - 2]"
  proof (rule nth_equalityI)
    show len: "length (map ((!) (merge_pair k (insert k merged) pairs)) (A @ B)) = length (map (pair_at (join_at j segs)) [0..<length segs - 2])"
      using lA lB jl by simp
    fix i assume "i < length (map ((!) (merge_pair k (insert k merged) pairs)) (A @ B))"
    then have i: "i < length segs - 2" using len by simp
    show "map ((!) (merge_pair k (insert k merged) pairs)) (A @ B) ! i = map (pair_at (join_at j segs)) [0..<length segs - 2] ! i"
    proof (cases "i < j")
      case True
      then have "pairs ! (A ! i) = pair_at segs i" using p [of i] lA jl by (simp add: nth_append)
      then show ?thesis using True mp(1) [of i] lA i nj [of i] nj [of "Suc i"] by (auto simp: nth_append pair_at_def)
    next
      case False
      then have "pairs ! (B ! (i - j)) = pair_at segs (Suc i)" using p [of "Suc i"] lA jl i by (auto simp: nth_append Suc_diff_le)
      then show ?thesis using False mp(2) [of "i - j"] lA lB i nj [of i] nj [of "Suc i"] by (auto simp: nth_append pair_at_def)
    qed
  qed
  then show ?thesis using us' kn sub length_join_at [OF jl] by (auto simp: represents_def join_at_def numeral_2_eq_2)
qed

lemma bpe_loop_represents:
  "represents pairs merged segs \<Longrightarrow> \<exists>pairs' merged'. bpe_loop ranks pairs merged = (pairs', merged') \<and> represents pairs' merged' (bpe_spec ranks segs)"
proof (induction ranks pairs merged arbitrary: segs rule: bpe_loop.induct)
  case (1 ranks pairs merged)
  show ?case
  proof (cases "best_pair ranks segs")
    case None
    then show ?thesis using scan_best [OF 1(2), of ranks] 1(2) by (subst bpe_loop.simps, subst bpe_spec.simps) auto
  next
    case (Some j)
    then show ?thesis using scan_best [OF 1(2), of ranks] 1(1) represents_step [OF 1(2) Some refl]
      by (subst bpe_loop.simps, subst bpe_spec.simps) auto
  qed
qed

lemma pairs_from_eq: "pairs_from c cs = map (pair_at (map (\<lambda>c. [c]) (c # cs))) [0..<length cs]"
proof (induction cs arbitrary: c)
  case (Cons d cs)
  have "pairs_from c (d # cs) = ([c], [d]) # map (pair_at (map (\<lambda>c. [c]) (d # cs))) [0..<length cs]" by (simp add: Cons.IH)
  also have "\<dots> = map (pair_at (map (\<lambda>c. [c]) (c # d # cs))) (0 # map Suc [0..<length cs])"
    by (auto simp: pair_at_def)
  also have "0 # map Suc [0..<length cs] = [0..<length (d # cs)]" by (simp add: map_Suc_upt upt_conv_Cons del: upt_Suc)
  finally show ?case .
qed simp

lemma initial_represents: "token \<noteq> [] \<Longrightarrow> represents (get_pairs token) {} (map (\<lambda>c. [c]) token)"
proof -
  assume "token \<noteq> []"
  then obtain c cs where t: "token = c # cs" by (cases token) auto
  then have g: "get_pairs token = map (pair_at (map (\<lambda>c. [c]) token)) [0..<length cs]"
    using pairs_from_eq [of c cs] by (cases cs) (simp_all add: get_pairs_def)
  have "unmerged {} (length (get_pairs token)) = [0..<length (get_pairs token)]" by (simp add: unmerged_def)
  then show ?thesis using t g by (simp add: represents_def map_nth)
qed

lemma concat_map_filter: "concat (map (\<lambda>i. if P i then [] else f i) xs) = concat (map f (filter (\<lambda>i. \<not> P i) xs))"
  by (induction xs) auto

lemma left_of_None: "left_of i merged = None \<longleftrightarrow> (\<forall>j < i. j \<in> merged)"
  by (auto simp: left_of_def find_None_iff)

lemma represented_output:
  assumes rep: "represents pairs merged segs" and ne: "card merged \<noteq> length pairs"
  shows "concat (map (\<lambda>i. if i \<in> merged then []
      else (if left_of i merged = None then [fst (pairs ! i)] else []) @ [snd (pairs ! i)]) [0..<length pairs]) = segs"
proof -
  let ?us = "unmerged merged (length pairs)" and ?f = "\<lambda>i. (if left_of i merged = None then [fst (pairs ! i)] else []) @ [snd (pairs ! i)]"
  have sub: "merged \<subseteq> {..<length pairs}" and eq: "map ((!) pairs) ?us = map (pair_at segs) [0..<length segs - 1]" and "segs \<noteq> []"
    using rep by (auto simp: represents_def)
  have "?us \<noteq> []"
  proof
    assume "?us = []"
    then have "{..<length pairs} \<subseteq> merged" by (auto simp: unmerged_def filter_empty_conv)
    then have "merged = {..<length pairs}" using sub by auto
    then show False using ne by simp
  qed
  then obtain u us where us: "?us = u # us" by (cases ?us) auto
  have "sorted_wrt (<) ?us" unfolding unmerged_def by (simp add: sorted_wrt_filter)
  then have gt: "\<forall>v \<in> set us. u < v" and "u \<notin> merged" using us by (auto simp: unmerged_def filter_eq_Cons_iff)
  then have "left_of v merged \<noteq> None" if "v \<in> set us" for v using that by (auto simp: left_of_None)
  then have "map ?f us = map (\<lambda>i. [snd (pairs ! i)]) us" by simp
  then have tl: "concat (map ?f us) = map (\<lambda>i. snd (pairs ! i)) us" by (simp only: concat_map_singleton)
  have "left_of u merged = None"
    unfolding left_of_None
  proof (intro allI impI, rule ccontr)
    fix j assume j: "j < u" "j \<notin> merged"
    have "u \<in> set ?us" using us by simp
    then have "j \<in> set ?us" using j by (auto simp: unmerged_def)
    then show False using us gt j by auto
  qed
  then have "concat (map ?f ?us) = fst (pairs ! u) # map snd (map ((!) pairs) ?us)"
    using us tl by (simp add: o_def)
  also have "\<dots> = fst (pair_at segs 0) # map snd (map (pair_at segs) [0..<length segs - 1])"
    using eq us by (cases "length segs - 1") (simp_all add: upt_conv_Cons del: upt_Suc)
  also have "\<dots> = segs"
    using \<open>segs \<noteq> []\<close> by (cases segs) (auto simp: pair_at_def map_nth o_def)
  finally show ?thesis by (simp add: concat_map_filter unmerged_def)
qed

lemma HF_bpe_eq:
  assumes "token \<noteq> []"
  shows "HF_bpe token ranks = bpe_spec ranks (map (\<lambda>c. [c]) token)"
proof -
  obtain pairs merged where l: "bpe_loop ranks (get_pairs token) {} = (pairs, merged)"
    and rep: "represents pairs merged (bpe_spec ranks (map (\<lambda>c. [c]) token))"
    using bpe_loop_represents [OF initial_represents [OF assms]] by blast
  show ?thesis
  proof (cases "card merged = length pairs")
    case True
    let ?segs = "bpe_spec ranks (map (\<lambda>c. [c]) token)"
    have "merged = {..<length pairs}" using True rep by (intro card_subset_eq) (auto simp: represents_def)
    then have "unmerged merged (length pairs) = []" by (simp add: unmerged_def filter_empty_conv)
    then have "length ?segs - 1 = 0" "?segs \<noteq> []" using rep by (auto simp: represents_def)
    then obtain s where s: "?segs = [s]" by (cases ?segs) auto
    then have "s = token" using concat_bpe_spec [of ranks "map (\<lambda>c. [c]) token"] by (simp add: concat_map_singleton)
    then show ?thesis using True s l by (simp add: HF_bpe_def)
  next
    case False
    then show ?thesis using represented_output [OF rep False] l by (simp add: HF_bpe_def)
  qed
qed

text \<open>C12: Byte pair encoding: the loop over pairs, with its set of merged positions and its patched neighbours, ends and computes what repeatedly
  joining the leftmost neighbours of lowest rank computes, for every non-empty token and every table of ranks.\<close>

theorem bpe_equivalent:
  assumes "token \<noteq> []"
  shows "HF_bpe token ranks = bpe_spec ranks (map (\<lambda>c. [c]) token)"
  using assms by (rule HF_bpe_eq)

theorem bpe_equivalent_witness:
  "HF_bpe [104, 101, 108, 108, 111] [([108], [108]) \<mapsto> 1, ([104], [101]) \<mapsto> 0] =
    bpe_spec [([108], [108]) \<mapsto> 1, ([104], [101]) \<mapsto> 0] [[104], [101], [108], [108], [111]]"
  using bpe_equivalent [of "[104, 101, 108, 108, 111]"] by simp

subsection \<open>The vocabulary\<close>

lemma emplace_fold_Some:
  "fold (\<lambda>i. emplace (k i) (v i)) xs m q = Some r \<Longrightarrow> m q = Some r \<or> (\<exists>i \<in> set xs. k i = q \<and> r = v i)"
  by (induction xs arbitrary: m) (fastforce simp: emplace_def split: if_splits)+

lemma emplace_fold_dom: "m q \<noteq> None \<or> (\<exists>i \<in> set xs. k i = q) \<Longrightarrow> fold (\<lambda>i. emplace (k i) (v i)) xs m q \<noteq> None"
  by (induction xs arbitrary: m) (auto simp: emplace_def)

lemma set_range_eq:
  "length xs = a \<Longrightarrow> fold (\<lambda>c m. m[c := c]) [a..<a + k] (xs @ replicate k 0 @ ys) = xs @ [a..<a + k] @ ys"
proof (induction k arbitrary: a xs)
  case (Suc k)
  have u: "[a..<a + Suc k] = a # [Suc a..<Suc a + k]" by (simp add: upt_conv_Cons)
  have "(xs @ 0 # replicate k 0 @ ys)[a := a] = (xs @ [a]) @ replicate k 0 @ ys" using Suc.prems by (simp add: list_update_append)
  then show ?case using Suc.IH [of "xs @ [a]" "Suc a"] Suc.prems unfolding u by simp
qed simp

lemma fill_zeros:
  "length xs = a \<Longrightarrow> fill_map ([a..<a + k] @ bs) n (xs @ replicate k 0 @ ys) = fill_map bs (n + k) (xs @ [256 + n..<256 + n + k] @ ys)"
proof (induction k arbitrary: a xs n)
  case (Suc k)
  have u: "[a..<a + Suc k] = a # [Suc a..<Suc a + k]" "[256 + n..<256 + n + Suc k] = (256 + n) # [256 + Suc n..<256 + Suc n + k]"
    by (simp_all add: upt_conv_Cons add.assoc)
  have "(xs @ 0 # replicate k 0 @ ys)[a := 256 + n] = (xs @ [256 + n]) @ replicate k 0 @ ys" "(xs @ 0 # replicate k 0 @ ys) ! a = 0"
    using Suc.prems by (simp_all add: list_update_append nth_append)
  then show ?case using Suc.IH [of "xs @ [256 + n]" "Suc a" "Suc n"] Suc.prems unfolding u by simp
qed simp

lemma fill_skips:
  "length xs = a \<Longrightarrow> 0 \<notin> set zs \<Longrightarrow> fill_map ([a..<a + length zs] @ bs) n (xs @ zs @ ys) = fill_map bs n (xs @ zs @ ys)"
proof (induction zs arbitrary: a xs)
  case (Cons z zs)
  have u: "[a..<a + length (z # zs)] = a # [Suc a..<Suc a + length zs]" by (simp add: upt_conv_Cons del: upt_Suc)
  have "(xs @ (z # zs) @ ys) ! a = z" using Cons.prems by (simp add: nth_append)
  then show ?case using Cons.IH [of "xs @ [z]" "Suc a"] Cons.prems unfolding u by simp
qed simp

lemma upt_split: "a \<le> b \<Longrightarrow> b \<le> c \<Longrightarrow> [a..<c] = [a..<b] @ [b..<c]"
  using upt_add_eq_append [of a b "c - b"] by simp

lemma bytes_to_unicode_eq:
  "bytes_to_unicode = [256..<289] @ [33..<127] @ [289..<323] @ [161..<173] @ [323] @ [174..<256]"
proof -
  have r: "replicate 256 0 = replicate 33 0 @ replicate 94 0 @ replicate 34 0 @ replicate 12 0 @ replicate 1 0 @ replicate 82 (0 :: nat)"
    unfolding replicate_add [symmetric] by simp
  have "set_range 174 255 (set_range 161 172 (set_range 33 126 (replicate 256 0))) =
      replicate 33 0 @ [33..<127] @ replicate 34 0 @ [161..<173] @ replicate 1 0 @ [174..<256]"
    unfolding r set_range_def
    using set_range_eq [of "replicate 33 0" 33 94 "replicate 34 0 @ replicate 12 0 @ replicate 1 0 @ replicate 82 0"]
      set_range_eq [of "replicate 33 0 @ [33..<127] @ replicate 34 0" 161 12 "replicate 1 0 @ replicate 82 0"]
      set_range_eq [of "replicate 33 0 @ [33..<127] @ replicate 34 0 @ [161..<173] @ replicate 1 0" 174 82 "[]"]
    by (simp del: upt_Suc upt_rec_numeral replicate.simps)
  moreover have one: "[323..<324] = [323]" by (simp add: upt_rec [of 323])
  moreover have "[0..<256] = [0..<33] @ [33..<127] @ [127..<161] @ [161..<173] @ [173..<174] @ [174..<256]"
    using upt_split [of 0 33 256] upt_split [of 33 127 256] upt_split [of 127 161 256] upt_split [of 161 173 256] upt_split [of 173 174 256]
    by (simp del: upt_Suc upt_rec_numeral)
  ultimately show ?thesis
    unfolding bytes_to_unicode_def
    using fill_zeros [of "[]" 0 33] fill_zeros [of "[256..<289] @ [33..<127]" 127 34] fill_zeros [of "[256..<289] @ [33..<127] @ [289..<323] @ [161..<173]" 173 1]
      fill_skips [of "[256..<289]" 33 "[33..<127]"] fill_skips [of "[256..<289] @ [33..<127] @ [289..<323]" 161 "[161..<173]"]
      fill_skips [of "[256..<289] @ [33..<127] @ [289..<323] @ [161..<173] @ [323]" 174 "[174..<256]" "[]" _ "[]"]
    by (simp add: one del: upt_Suc upt_rec_numeral replicate.simps)
qed

lemma bytes_to_unicode_facts: "length bytes_to_unicode = 256" "distinct bytes_to_unicode" "\<forall>u \<in> set bytes_to_unicode. u < 512"
  by (auto simp: bytes_to_unicode_eq simp del: upt_Suc upt_rec_numeral)

lemma u2b_inverse:
  "fold (\<lambda>i. emplace (bytes_to_unicode ! i) (char_of i)) [0..<256] Map.empty (bytes_to_unicode ! byte c) = Some c"
proof -
  let ?m = "fold (\<lambda>i. emplace (bytes_to_unicode ! i) (char_of i)) [0..<256] Map.empty"
  have "?m (bytes_to_unicode ! byte c) \<noteq> None" by (rule emplace_fold_dom) auto
  then obtain r where r: "?m (bytes_to_unicode ! byte c) = Some r" by auto
  then obtain i where "i < 256" "bytes_to_unicode ! i = bytes_to_unicode ! byte c" "r = char_of i"
    using emplace_fold_Some [OF r] by auto
  then show ?thesis using r bytes_to_unicode_facts by (simp add: nth_eq_iff_index_eq)
qed

lemma load_encoder_Some: "load_encoder toks s = Some r \<Longrightarrow> \<exists>i < length toks. r = int i \<and> toks ! i = s"
  unfolding load_encoder_def by (drule emplace_fold_Some) auto

lemma load_encoder_dom: "s \<in> set toks \<Longrightarrow> load_encoder toks s \<noteq> None"
  unfolding load_encoder_def by (rule emplace_fold_dom) (auto simp: in_set_conv_nth)

lemma loaded [simp]:
  "b2u (HF_load_vocab v m file) = bytes_to_unicode"
  "u2b (HF_load_vocab v m file) (bytes_to_unicode ! byte c) = Some c"
  "hf_encoder (HF_load_vocab v m file) = load_encoder (hf_decoder (HF_load_vocab v m file))"
  using u2b_inverse by (simp_all add: HF_load_vocab_def Let_def)

subsection \<open>Splitting\<close>

lemma match_length_total: "s \<noteq> [] \<Longrightarrow> match_length s \<noteq> None"
proof -
  assume "s \<noteq> []"
  then obtain c r where s: "s = c # r" by (cases s) auto
  consider "is_alpha c" | "is_digit c" | "is_space c" | "is_symbol c" by (auto simp: is_symbol_def)
  then show ?thesis
    by cases (auto simp: s match_length_def alt_word_def alt_digit_def alt_symbols_def alt_spaces_def starts_def Let_def split: option.splits)
qed

lemma regex_search_Some: "s \<noteq> [] \<Longrightarrow> \<exists>t r. regex_search s = Some (t, r) \<and> t \<noteq> [] \<and> s = t @ r"
proof -
  assume s: "s \<noteq> []"
  then obtain n where n: "match_length s = Some n" using match_length_total by blast
  then have "0 < n" using match_length_pos s by blast
  have "regex_search s = Some (take n s, drop n s)" using s n by (cases s) simp_all
  moreover have "take n s \<noteq> []" using s \<open>0 < n\<close> by simp
  ultimately show ?thesis by (metis append_take_drop_id)
qed

lemma HF_split_concat: "concat (HF_split s) = s \<and> [] \<notin> set (HF_split s)"
proof (induction s rule: HF_split.induct)
  case (1 s)
  show ?case
  proof (cases "s = []")
    case True
    then show ?thesis by (subst HF_split.simps, subst (2) HF_split.simps) simp
  next
    case False
    then obtain t r where "regex_search s = Some (t, r)" "t \<noteq> []" "s = t @ r" using regex_search_Some by blast
    then show ?thesis using 1 by (subst HF_split.simps, subst (2) HF_split.simps) simp
  qed
qed

subsection \<open>Encoding and decoding\<close>

lemma those_Some: "those xs = Some ys \<longleftrightarrow> xs = map Some ys"
  by (induction xs arbitrary: ys) (auto split: option.splits)

lemma map_filter_append: "List.map_filter f (xs @ ys) = List.map_filter f xs @ List.map_filter f ys"
  by (simp add: List.map_filter_def)

lemma map_filter_concat: "List.map_filter f (concat xss) = concat (map (List.map_filter f) xss)"
  by (induction xss) (simp_all add: map_filter_append List.map_filter_simps)

lemma HF_bpe_concat: "w \<noteq> [] \<Longrightarrow> concat (HF_bpe w ranks) = w"
  using HF_bpe_eq [of w ranks] concat_bpe_spec [of ranks "map (\<lambda>c. [c]) w"] by (simp add: concat_map_singleton)

definition wide :: "string \<Rightarrow> wstring" where
  "wide s = map (\<lambda>c. bytes_to_unicode ! byte c) s"

lemma wide_small: "u \<in> set (wide s) \<Longrightarrow> u < 2 ^ 21"
proof -
  assume "u \<in> set (wide s)"
  then obtain c where "u = bytes_to_unicode ! byte c" by (auto simp: wide_def)
  moreover have "byte c < length bytes_to_unicode" using bytes_to_unicode_facts(1) by simp
  ultimately have "u < 512" using bytes_to_unicode_facts(3) nth_mem by metis
  then show ?thesis by simp
qed

lemma map_filter_wide: "List.map_filter (u2b (HF_load_vocab v m file)) (wide s) = s"
  by (induction s) (simp_all add: wide_def List.map_filter_simps)

lemma HF_token_loaded:
  "HF_token (HF_load_vocab v m file) t = Some (map wstring_to_utf8 (HF_bpe (wide t) (bpe_ranks (HF_load_vocab v m file))))"
proof -
  have "map (b2u_at (HF_load_vocab v m file)) t = map Some (wide t)"
    using bytes_to_unicode_facts(1) by (simp add: b2u_at_def wide_def)
  then have "those (map (b2u_at (HF_load_vocab v m file)) t) = Some (wide t)" by (simp add: those_Some)
  then show ?thesis by (simp add: HF_token_def)
qed

lemma decode_piece:
  assumes "hf_encoder (HF_load_vocab v m file) (wstring_to_utf8 w) = Some n" "\<forall>u \<in> set w. u < 2 ^ 21"
  shows "HF_decode (HF_load_vocab v m file) n = List.map_filter (u2b (HF_load_vocab v m file)) w"
  using assms load_encoder_Some by (fastforce simp: HF_decode_def utf8_decodes)

lemma decode_token:
  assumes "t \<noteq> []" and ids: "map (hf_encoder (HF_load_vocab v m file)) (map wstring_to_utf8 (HF_bpe (wide t) ranks)) = map Some ids"
  shows "concat (map (HF_decode (HF_load_vocab v m file)) ids) = t"
proof -
  let ?tk = "HF_load_vocab v m file"
  have c: "concat (HF_bpe (wide t) ranks) = wide t" using assms(1) by (simp add: HF_bpe_concat wide_def)
  have small: "\<forall>u \<in> set p. u < 2 ^ 21" if "p \<in> set (HF_bpe (wide t) ranks)" for p
    using that c wide_small [of _ t] by (metis UN_I set_concat)
  have l: "length ids = length (HF_bpe (wide t) ranks)" using arg_cong [OF ids, of length] by simp
  have "map (HF_decode ?tk) ids = map (List.map_filter (u2b ?tk)) (HF_bpe (wide t) ranks)"
  proof (rule nth_equalityI)
    fix i assume "i < length (map (HF_decode ?tk) ids)"
    then have i: "i < length (HF_bpe (wide t) ranks)" using l by simp
    then have "hf_encoder ?tk (wstring_to_utf8 (HF_bpe (wide t) ranks ! i)) = Some (ids ! i)"
      using arg_cong [OF ids, of "\<lambda>xs. xs ! i"] l by simp
    then show "map (HF_decode ?tk) ids ! i = map (List.map_filter (u2b ?tk)) (HF_bpe (wide t) ranks) ! i"
      using i l decode_piece small [OF nth_mem [OF i]] by simp
  qed (simp add: l)
  then have "concat (map (HF_decode ?tk) ids) = List.map_filter (u2b ?tk) (wide t)"
    using map_filter_concat [of "u2b ?tk" "HF_bpe (wide t) ranks"] unfolding c by simp
  then show ?thesis by (simp add: map_filter_wide)
qed

lemma decode_tokens:
  assumes "[] \<notin> set ts"
    and "map (hf_encoder (HF_load_vocab v m file)) (concat (map (\<lambda>t. map wstring_to_utf8 (HF_bpe (wide t) ranks)) ts)) = map Some ids"
  shows "concat (map (HF_decode (HF_load_vocab v m file)) ids) = concat ts"
  using assms
proof (induction ts arbitrary: ids)
  case (Cons t ts)
  then obtain xs ys where ids: "ids = xs @ ys"
    and x: "map (hf_encoder (HF_load_vocab v m file)) (map wstring_to_utf8 (HF_bpe (wide t) ranks)) = map Some xs"
    and y: "map (hf_encoder (HF_load_vocab v m file)) (concat (map (\<lambda>t. map wstring_to_utf8 (HF_bpe (wide t) ranks)) ts)) = map Some ys"
    by (auto simp: append_eq_map_conv)
  show ?case using decode_token [OF _ x] Cons.IH [OF _ y] Cons.prems(1) by (auto simp: ids)
qed simp

definition vocabulary_closed :: "HuggingfaceTokenizer \<Rightarrow> bool" where
  "vocabulary_closed tk \<longleftrightarrow>
     (\<forall>c. wstring_to_utf8 [bytes_to_unicode ! byte c] \<in> set (hf_decoder tk)) \<and>
     (\<forall>(a, b) \<in> dom (bpe_ranks tk). wstring_to_utf8 (a @ b) \<in> set (hf_decoder tk))"

lemma bpe_spec_closed:
  assumes "\<And>a b. (a, b) \<in> dom ranks \<Longrightarrow> a @ b \<in> V" and "set segs \<subseteq> V"
  shows "set (bpe_spec ranks segs) \<subseteq> V"
  using assms
proof (induction ranks segs rule: bpe_spec.induct)
  case (1 ranks segs)
  show ?case
  proof (cases "best_pair ranks segs")
    case None
    then show ?thesis using 1(3) by (subst bpe_spec.simps) simp
  next
    case (Some k)
    have "score_of ranks (pair_at segs k) < INT_MAX" using Some by (auto simp: best_pair_def find_Some_iff)
    then have "(segs ! k, segs ! Suc k) \<in> dom ranks" by (auto simp: score_of_def pair_at_def split: option.splits)
    then have "set (join_at k segs) \<subseteq> V" using 1(2,3) by (auto simp: join_at_def dest: in_set_takeD in_set_dropD)
    then show ?thesis using 1(1) [OF Some] 1(2) Some by (subst bpe_spec.simps) simp
  qed
qed

lemma pieces_in_vocabulary:
  assumes "vocabulary_closed tk" "t \<noteq> []"
  shows "set (map wstring_to_utf8 (HF_bpe (wide t) (bpe_ranks tk))) \<subseteq> set (hf_decoder tk)"
proof -
  let ?V = "{w. wstring_to_utf8 w \<in> set (hf_decoder tk)}"
  have "set (bpe_spec (bpe_ranks tk) (map (\<lambda>c. [c]) (wide t))) \<subseteq> ?V"
    by (rule bpe_spec_closed) (use assms(1) in \<open>auto simp: vocabulary_closed_def wide_def\<close>)
  then show ?thesis using HF_bpe_eq [of "wide t"] assms(2) by (auto simp: wide_def)
qed

lemma those_defined: "(\<And>x. x \<in> set xs \<Longrightarrow> f x \<noteq> None) \<Longrightarrow> \<exists>ys. map f xs = map Some ys"
proof (induction xs)
  case (Cons x xs)
  then obtain ys where "map f xs = map Some ys" by auto
  moreover obtain y where "f x = Some y" using Cons.prems [of x] by auto
  ultimately have "map f (x # xs) = map Some (y # ys)" by simp
  then show ?case by blast
qed simp

lemma hf_lossless:
  assumes "vocabulary_closed (HF_load_vocab v m file)"
  shows "\<exists>new. HF_encode (HF_load_vocab v m file) str ids = Some (ids @ new) \<and>
    concat (map (HF_decode (HF_load_vocab v m file)) new) = str"
proof -
  let ?tk = "HF_load_vocab v m file" and ?p = "\<lambda>t. map wstring_to_utf8 (HF_bpe (wide t) (bpe_ranks (HF_load_vocab v m file)))"
  have sp: "concat (HF_split str) = str" "[] \<notin> set (HF_split str)" using HF_split_concat [of str] by auto
  have ts: "those (map (HF_token ?tk) (HF_split str)) = Some (map ?p (HF_split str))"
    by (simp add: those_Some HF_token_loaded)
  have "hf_encoder ?tk s \<noteq> None" if s: "s \<in> set (concat (map ?p (HF_split str)))" for s
  proof -
    obtain t where "t \<in> set (HF_split str)" "s \<in> set (?p t)" using s by auto
    then have "s \<in> set (hf_decoder ?tk)" using pieces_in_vocabulary [OF assms, of t] sp(2) by blast
    then show ?thesis unfolding loaded(3) by (rule load_encoder_dom)
  qed
  then obtain new where new: "map (hf_encoder ?tk) (concat (map ?p (HF_split str))) = map Some new"
    using those_defined [of "concat (map ?p (HF_split str))" "hf_encoder ?tk"] by blast
  then have "those (map (hf_encoder ?tk) (concat (map ?p (HF_split str)))) = Some new" by (simp only: those_Some)
  then have "HF_encode ?tk str ids = Some (ids @ new)" unfolding HF_encode_def ts by (simp only: option.case option.map)
  moreover have "concat (map (HF_decode ?tk) new) = str" using decode_tokens [OF sp(2) new] sp(1) by simp
  ultimately show ?thesis by blast
qed

text \<open>C14: Encoding with a vocabulary that contains all bytes and all merges always succeeds, and decoding the new tokens one by one
  gives the text back: splitting by the regular expression, the byte alphabet, byte pair encoding and the
  two UTF-8 conversions lose nothing.\<close>

theorem hf_roundtrip:
  assumes "vocabulary_closed (HF_load_vocab v m file)"
  shows "\<exists>new. HF_encode (HF_load_vocab v m file) str ids = Some (ids @ new) \<and>
    concat (map (HF_decode (HF_load_vocab v m file)) new) = str"
  using assms by (rule hf_lossless)

definition byte_tokens :: "string list" where
  "byte_tokens = map (\<lambda>u. wstring_to_utf8 [u]) bytes_to_unicode"

theorem hf_roundtrip_witness:
  "\<exists>new. HF_encode (HF_load_vocab 256 0 byte_tokens) ''it's  42!'' [7] = Some ([7] @ new) \<and>
    concat (map (HF_decode (HF_load_vocab 256 0 byte_tokens)) new) = ''it's  42!''"
proof -
  have l: "length byte_tokens = 256" by (simp add: byte_tokens_def bytes_to_unicode_facts(1))
  have "map (get_line byte_tokens) [0..<256] = byte_tokens" using l by (simp add: list_eq_iff_nth_eq get_line_def del: upt_rec_numeral)
  then have "hf_decoder (HF_load_vocab 256 0 byte_tokens) = byte_tokens" "bpe_ranks (HF_load_vocab 256 0 byte_tokens) = Map.empty"
    by (simp_all add: HF_load_vocab_def Let_def)
  moreover have "bytes_to_unicode ! byte c \<in> set bytes_to_unicode" for c using bytes_to_unicode_facts(1) by simp
  ultimately have "vocabulary_closed (HF_load_vocab 256 0 byte_tokens)" by (simp add: vocabulary_closed_def byte_tokens_def)
  then show ?thesis by (rule hf_roundtrip)
qed

end
