(* ===== verification/LLM_Sentencepiece.thy ===== *)
theory LLM_Sentencepiece
  imports Complex_Main LLM_Huggingface_Facts
begin

unbundle bit_operations_syntax

text \<open>
  The SentencePiece tokenizer (\<open>Sentencepiece\<close> in \<open>MNN/transformers/llm/engine/src/tokenizer.cpp\<close>). Views into the
  normalized text are pairs of an offset and a size; the view of the literal \<open>""\<close> is placed at the end of the
  text, where nothing can be read. \<open>None\<close> is an access outside a vector or a text. Two things are parameters:
  \<open>strtof\<close>, the value the C library gives for the digits of a score, and \<open>pick\<close>, which of
  several equivalent largest entries a priority queue returns first. Merging uses the default \<open>alpha = 0\<close>, with
  which no merge is skipped. Keys of the tables are equal when the strings are; the code's \<open>string_view_::operator==\<close> stops at a zero byte, which makes a
  difference only for pieces with zero bytes and equal hashes. A number that does not fit an \<open>int\<close>, where \<open>atoi\<close> is undefined, is an unknown type.
\<close>

datatype PieceType = NORMAL | UNKNOWN | CONTROL | USER_DEFINED | UNUSED | BYTE | OTHER_TYPE int

record SentencePiece =
  sp_piece :: string
  sp_score :: rat
  sp_type :: PieceType

record Sentencepiece =
  byte_fall_back :: bool
  unk_id :: int
  sentence_pieces :: "SentencePiece list"
  sp_pieces :: "string \<rightharpoonup> int"
  reserved_id_map :: "string \<rightharpoonup> int"

subsection \<open>Loading\<close>

definition digits_value :: "string \<Rightarrow> int" where
  "digits_value ds = foldl (\<lambda>v c. 10 * v + (int (byte c) - 48)) 0 ds"

definition atoi :: "string \<Rightarrow> int" where
  "atoi s =
     (let s = dropWhile is_space s
      in if s \<noteq> [] \<and> hd s = CHR ''-'' then - digits_value (takeWhile is_digit (tl s))
         else if s \<noteq> [] \<and> hd s = CHR ''+'' then digits_value (takeWhile is_digit (tl s))
         else digits_value (takeWhile is_digit s))"

definition piece_type :: "int \<Rightarrow> PieceType" where
  "piece_type n =
     (if n = 1 then NORMAL else if n = 2 then UNKNOWN else if n = 3 then CONTROL else if n = 4 then USER_DEFINED
      else if n = 5 then UNUSED else if n = 6 then BYTE else OTHER_TYPE n)"

definition Sentencepiece_new :: Sentencepiece where
  "Sentencepiece_new =
     \<lparr>byte_fall_back = True, unk_id = 0, sentence_pieces = [], sp_pieces = Map.empty, reserved_id_map = Map.empty\<rparr>"

text \<open>A line without two spaces leaves its piece as it was created: the score of such a piece is not read.\<close>

definition load_piece :: "(string \<Rightarrow> rat) \<Rightarrow> nat \<Rightarrow> string \<Rightarrow> Sentencepiece \<Rightarrow> Sentencepiece" where
  "load_piece strtof index line sp =
     (let first_space = length (takeWhile (\<lambda>c. c \<noteq> CHR '' '') line);
          rest = drop (first_space + 1) line;
          second_space = first_space + 1 + length (takeWhile (\<lambda>c. c \<noteq> CHR '' '') rest)
      in if first_space = length line \<or> second_space \<ge> length line then sp
         else let token = base64_decode (take first_space line);
                  pt = piece_type (atoi (drop (second_space + 1) line));
                  sp = sp\<lparr>sentence_pieces := (sentence_pieces sp)[index := \<lparr>sp_piece = token, sp_score = strtof rest, sp_type = pt\<rparr>]\<rparr>
              in if pt = NORMAL then sp\<lparr>sp_pieces := emplace token (int index) (sp_pieces sp)\<rparr>
                 else let sp = sp\<lparr>reserved_id_map := emplace token (int index) (reserved_id_map sp)\<rparr>
                      in if pt = UNKNOWN then sp\<lparr>unk_id := int index\<rparr> else sp)"

definition SP_load_vocab :: "(string \<Rightarrow> rat) \<Rightarrow> nat \<Rightarrow> string list \<Rightarrow> Sentencepiece" where
  "SP_load_vocab strtof vocab_len file =
     fold (\<lambda>index. load_piece strtof index (get_line file index)) [0..<vocab_len]
       (Sentencepiece_new\<lparr>sentence_pieces := replicate vocab_len \<lparr>sp_piece = [], sp_score = 0, sp_type = NORMAL\<rparr>\<rparr>)"

subsection \<open>Pieces and numbers\<close>

definition piece_to_id :: "Sentencepiece \<Rightarrow> string \<Rightarrow> int" where
  "piece_to_id sp piece =
     (case reserved_id_map sp piece of Some n \<Rightarrow> n
      | None \<Rightarrow> (case sp_pieces sp piece of Some n \<Rightarrow> n | None \<Rightarrow> unk_id sp))"

definition hex_digit :: "nat \<Rightarrow> char" where
  "hex_digit n = (if n < 10 then char_of (48 + n) else char_of (55 + n))"

definition byte_to_piece :: "char \<Rightarrow> string" where
  "byte_to_piece c = ''<0x'' @ [hex_digit (byte c div 16), hex_digit (byte c mod 16), CHR ''>'']"

definition piece_at :: "Sentencepiece \<Rightarrow> int \<Rightarrow> SentencePiece option" where
  "piece_at sp n = (if 0 \<le> n \<and> n < int (length (sentence_pieces sp)) then Some (sentence_pieces sp ! nat n) else None)"

definition get_score :: "Sentencepiece \<Rightarrow> int \<Rightarrow> rat option" where
  "get_score sp n = map_option sp_score (piece_at sp n)"

definition is_unused :: "Sentencepiece \<Rightarrow> int \<Rightarrow> bool option" where
  "is_unused sp n = map_option (\<lambda>p. sp_type p = UNUSED) (piece_at sp n)"

definition is_control :: "Sentencepiece \<Rightarrow> int \<Rightarrow> bool option" where
  "is_control sp n = map_option (\<lambda>p. sp_type p = CONTROL) (piece_at sp n)"

subsection \<open>Merging\<close>

type_synonym view = "nat \<times> nat"

record SymbolPair =
  pair_left :: nat
  pair_right :: nat
  pair_score :: rat
  pair_size :: nat

record Symbol =
  sym_prev :: int
  sym_next :: int
  sym_freeze :: bool
  sym_piece :: view

record bpe_state =
  symbols_of :: "Symbol list"
  agenda :: "SymbolPair list"
  rev_merge :: "string \<rightharpoonup> view \<times> view"

definition SymbolPairComparator :: "SymbolPair \<Rightarrow> SymbolPair \<Rightarrow> bool" where
  "SymbolPairComparator h1 h2 \<longleftrightarrow>
     pair_score h1 < pair_score h2 \<or> pair_score h1 = pair_score h2 \<and> pair_left h1 > pair_left h2"

definition view_text :: "string \<Rightarrow> view \<Rightarrow> string option" where
  "view_text nrm v = (if fst v + snd v \<le> length nrm then Some (take (snd v) (drop (fst v) nrm)) else None)"

definition symbol_at :: "bpe_state \<Rightarrow> int \<Rightarrow> Symbol option" where
  "symbol_at st i = (if 0 \<le> i \<and> nat i < length (symbols_of st) then Some (symbols_of st ! nat i) else None)"

definition put_symbol :: "bpe_state \<Rightarrow> nat \<Rightarrow> Symbol \<Rightarrow> bpe_state" where
  "put_symbol st i s = st\<lparr>symbols_of := (symbols_of st)[i := s]\<rparr>"

definition add_pair :: "Sentencepiece \<Rightarrow> string \<Rightarrow> int \<Rightarrow> int \<Rightarrow> Symbol \<Rightarrow> Symbol \<Rightarrow> bpe_state \<Rightarrow> bpe_state option" where
  "add_pair sp nrm left right sl sr st =
     (let size = snd (sym_piece sl) + snd (sym_piece sr)
      in Option.bind (view_text nrm (fst (sym_piece sl), size)) (\<lambda>piece.
         case sp_pieces sp piece of None \<Rightarrow> Some st
         | Some n \<Rightarrow>
             Option.bind (get_score sp n) (\<lambda>score.
             Option.bind (is_unused sp n) (\<lambda>unused.
               let h = \<lparr>pair_left = nat left, pair_right = nat right, pair_score = score, pair_size = size\<rparr>;
                   st = st\<lparr>agenda := agenda st @ [h]\<rparr>
               in Some (if unused then st\<lparr>rev_merge := (rev_merge st)(piece \<mapsto> (sym_piece sl, sym_piece sr))\<rparr> else st)))))"

definition MaybeAddNewSymbolPair :: "Sentencepiece \<Rightarrow> string \<Rightarrow> int \<Rightarrow> int \<Rightarrow> bpe_state \<Rightarrow> bpe_state option" where
  "MaybeAddNewSymbolPair sp nrm left right st =
     (if left = - 1 \<or> right = - 1 then Some st
      else Option.bind (symbol_at st left) (\<lambda>sl. Option.bind (symbol_at st right) (\<lambda>sr.
        if sym_freeze sl \<or> sym_freeze sr then Some st else add_pair sp nrm left right sl sr st)))"

text \<open>The text is split into characters; \<open>off\<close> is the offset of the rest.\<close>

lemma one_char_len_pos: "0 < one_char_len c"
proof -
  have "byte c AND 0xFF = take_bit 8 (byte c :: nat)" by (simp add: take_bit_eq_mask mask_eq_exp_minus_1)
  then have "drop_bit 4 (byte c AND 0xFF) < (16 :: nat)" using nat_of_char_less_256 [of c] by (simp add: drop_bit_eq_div take_bit_eq_mod div_less_iff_less_mult)
  then have "one_char_len c \<in> set [1, 1, 1, 1, 1, 1, 1, 1, 1, 1, 1, 1, 2, 2, 3, 4]"
    unfolding one_char_len_def by (intro nth_mem) simp
  then show ?thesis by auto
qed

function split_symbols :: "string \<Rightarrow> nat \<Rightarrow> nat \<Rightarrow> Symbol list" where
  "split_symbols normalized off index =
     (if normalized = [] then []
      else let mblen = min (length normalized) (one_char_len (hd normalized));
               rest = drop mblen normalized
           in \<lparr>sym_prev = (if index = 0 then - 1 else int index - 1), sym_next = (if rest = [] then - 1 else int index + 1),
               sym_freeze = False, sym_piece = (off, mblen)\<rparr> # split_symbols rest (off + mblen) (index + 1))"
  by auto
termination by (relation "measure (\<lambda>(normalized, off, index). length normalized)") (auto simp: one_char_len_pos)

declare split_symbols.simps [simp del]

fun add_bigrams :: "Sentencepiece \<Rightarrow> string \<Rightarrow> nat list \<Rightarrow> bpe_state \<Rightarrow> bpe_state option" where
  "add_bigrams sp nrm [] st = Some st"
| "add_bigrams sp nrm (i # is) st = Option.bind (MaybeAddNewSymbolPair sp nrm (int i - 1) (int i) st) (add_bigrams sp nrm is)"

text \<open>An entry of the agenda is out of date when one of its symbols was merged away or has grown.\<close>

definition stale :: "Symbol \<Rightarrow> Symbol \<Rightarrow> SymbolPair \<Rightarrow> bool" where
  "stale sl sr h \<longleftrightarrow> snd (sym_piece sl) = 0 \<or> snd (sym_piece sr) = 0 \<or> snd (sym_piece sl) + snd (sym_piece sr) \<noteq> pair_size h"

definition merge_symbols :: "string \<Rightarrow> nat \<Rightarrow> nat \<Rightarrow> bpe_state \<Rightarrow> bpe_state option" where
  "merge_symbols nrm left right st =
     Option.bind (symbol_at st (int left)) (\<lambda>sl. Option.bind (symbol_at st (int right)) (\<lambda>sr.
       let st = put_symbol st left (sl\<lparr>sym_piece := (fst (sym_piece sl), snd (sym_piece sl) + snd (sym_piece sr)), sym_next := sym_next sr\<rparr>);
           empty_right = (\<lambda>st. Option.bind (symbol_at st (int right)) (\<lambda>sr. Some (put_symbol st right (sr\<lparr>sym_piece := (length nrm, 0)\<rparr>))))
       in if sym_next sr \<ge> 0
          then Option.bind (symbol_at st (sym_next sr)) (\<lambda>sn. empty_right (put_symbol st (nat (sym_next sr)) (sn\<lparr>sym_prev := int left\<rparr>)))
          else empty_right st))"

definition add_neighbours :: "Sentencepiece \<Rightarrow> string \<Rightarrow> nat \<Rightarrow> bpe_state \<Rightarrow> bpe_state option" where
  "add_neighbours sp nrm left st =
     Option.bind (symbol_at st (int left)) (\<lambda>s.
     Option.bind (MaybeAddNewSymbolPair sp nrm (sym_prev s) (int left) st)
       (MaybeAddNewSymbolPair sp nrm (int left) (sym_next s)))"


definition bpe_step :: "Sentencepiece \<Rightarrow> string \<Rightarrow> (SymbolPair list \<Rightarrow> nat) \<Rightarrow> bpe_state \<Rightarrow> bpe_state option" where
  "bpe_step sp nrm pick st =
     (let k = pick (agenda st); h = agenda st ! k
      in if k \<ge> length (agenda st) then None
         else let st = st\<lparr>agenda := take k (agenda st) @ drop (Suc k) (agenda st)\<rparr>
              in Option.bind (symbol_at st (int (pair_left h))) (\<lambda>sl. Option.bind (symbol_at st (int (pair_right h))) (\<lambda>sr.
                   if stale sl sr h then Some st
                   else Option.bind (merge_symbols nrm (pair_left h) (pair_right h) st) (add_neighbours sp nrm (pair_left h)))))"

lemma add_pair_symbols: "add_pair sp nrm l r sl sr st = Some st' \<Longrightarrow> symbols_of st' = symbols_of st"
  by (auto simp: add_pair_def Let_def bind_eq_Some_conv split: option.splits)

lemma MaybeAdd_symbols: "MaybeAddNewSymbolPair sp nrm l r st = Some st' \<Longrightarrow> symbols_of st' = symbols_of st"
  by (auto simp: MaybeAddNewSymbolPair_def bind_eq_Some_conv add_pair_symbols split: if_splits)

lemma add_neighbours_symbols: "add_neighbours sp nrm l st = Some st' \<Longrightarrow> symbols_of st' = symbols_of st"
  by (auto simp: add_neighbours_def bind_eq_Some_conv dest!: MaybeAdd_symbols)

definition live :: "Symbol \<Rightarrow> bool" where
  "live s \<longleftrightarrow> snd (sym_piece s) \<noteq> 0"

definition live_count :: "bpe_state \<Rightarrow> nat" where
  "live_count st = length (filter live (symbols_of st))"

lemma filter_update_same: "i < length xs \<Longrightarrow> P x = P (xs ! i) \<Longrightarrow> length (filter P (xs[i := x])) = length (filter P xs)"
  by (induction xs arbitrary: i) (auto split: nat.splits)

lemma filter_update_less: "i < length xs \<Longrightarrow> \<not> P x \<Longrightarrow> P (xs ! i) \<Longrightarrow> length (filter P (xs[i := x])) < length (filter P xs)"
  by (induction xs arbitrary: i) (auto split: nat.splits)

definition link_next :: "int \<Rightarrow> nat \<Rightarrow> Symbol list \<Rightarrow> Symbol list" where
  "link_next n l S = (if 0 \<le> n then S[nat n := (S ! nat n)\<lparr>sym_prev := int l\<rparr>] else S)"

definition merge_list :: "string \<Rightarrow> nat \<Rightarrow> nat \<Rightarrow> Symbol list \<Rightarrow> Symbol list" where
  "merge_list nrm l r S =
     (let S1 = S[l := (S ! l)\<lparr>sym_piece := (fst (sym_piece (S ! l)), snd (sym_piece (S ! l)) + snd (sym_piece (S ! r))), sym_next := sym_next (S ! r)\<rparr>];
          S2 = link_next (sym_next (S ! r)) l S1
      in S2[r := (S2 ! r)\<lparr>sym_piece := (length nrm, 0)\<rparr>])"

lemma merge_symbols_list:
  assumes "l < length (symbols_of st)" "r < length (symbols_of st)" "sym_next (symbols_of st ! r) < int (length (symbols_of st))"
  shows "merge_symbols nrm l r st = Some (st\<lparr>symbols_of := merge_list nrm l r (symbols_of st)\<rparr>)"
  using assms by (auto simp: merge_symbols_def merge_list_def link_next_def symbol_at_def put_symbol_def Let_def nat_less_iff)

lemma merge_symbols_range:
  "merge_symbols nrm l r st = Some st' \<Longrightarrow>
    l < length (symbols_of st) \<and> r < length (symbols_of st) \<and> sym_next (symbols_of st ! r) < int (length (symbols_of st))"
  by (auto simp: merge_symbols_def symbol_at_def put_symbol_def Let_def bind_eq_Some_conv split: if_splits)

lemma link_next_live: "n < int (length S) \<Longrightarrow> length (filter live (link_next n l S)) = length (filter live S)"
  unfolding link_next_def by (auto simp: nat_less_iff live_def intro!: filter_update_same)

lemma link_next_simps [simp]:
  "length (link_next n l S) = length S" "i < length S \<Longrightarrow> sym_piece (link_next n l S ! i) = sym_piece (S ! i)"
  "i < length S \<Longrightarrow> sym_next (link_next n l S ! i) = sym_next (S ! i)"
  by (cases "i = nat n"; simp add: link_next_def)+

lemma merge_list_count:
  assumes "l < length S" "r < length S" "live (S ! l)" "live (S ! r)" "sym_next (S ! r) < int (length S)"
  shows "length (filter live (merge_list nrm l r S)) < length (filter live S)"
proof -
  define S1 where "S1 = S[l := (S ! l)\<lparr>sym_piece := (fst (sym_piece (S ! l)), snd (sym_piece (S ! l)) + snd (sym_piece (S ! r))), sym_next := sym_next (S ! r)\<rparr>]"
  define S2 where "S2 = link_next (sym_next (S ! r)) l S1"
  have 1: "length (filter live S1) = length (filter live S)" "length S1 = length S" "live (S1 ! r)"
    using assms by (auto simp: S1_def live_def nth_list_update intro!: filter_update_same)
  have 2: "length (filter live S2) = length (filter live S1)" "length S2 = length S" "live (S2 ! r)"
    using 1 assms by (simp_all add: S2_def link_next_live live_def)
  have "length (filter live (S2[r := (S2 ! r)\<lparr>sym_piece := (length nrm, 0)\<rparr>])) < length (filter live S2)"
    using 2 assms by (intro filter_update_less) (auto simp: live_def)
  then show ?thesis using 1 2 by (simp add: merge_list_def Let_def flip: S1_def S2_def)
qed

lemma bpe_step_eq:
  assumes "k = pick (agenda st)" "k < length (agenda st)" "h = agenda st ! k"
    "st1 = st\<lparr>agenda := take k (agenda st) @ drop (Suc k) (agenda st)\<rparr>"
  shows "bpe_step sp nrm pick st =
    Option.bind (symbol_at st1 (int (pair_left h))) (\<lambda>sl. Option.bind (symbol_at st1 (int (pair_right h))) (\<lambda>sr.
      if stale sl sr h then Some st1
      else Option.bind (merge_symbols nrm (pair_left h) (pair_right h) st1) (add_neighbours sp nrm (pair_left h))))"
  unfolding assms(3,4) unfolding assms(1) using assms(1,2) by (simp add: bpe_step_def Let_def)

lemma bpe_step_less:
  assumes "bpe_step sp nrm pick st = Some st'"
  shows "(st', st) \<in> measures [live_count, \<lambda>st. length (agenda st)]"
proof -
  define k where "k = pick (agenda st)"
  define h where "h = agenda st ! k"
  define st1 where "st1 = st\<lparr>agenda := take k (agenda st) @ drop (Suc k) (agenda st)\<rparr>"
  have k: "k < length (agenda st)" using assms by (auto simp: bpe_step_def Let_def k_def split: if_splits)
  obtain sl sr where s: "symbol_at st1 (int (pair_left h)) = Some sl" "symbol_at st1 (int (pair_right h)) = Some sr"
      "(if stale sl sr h then Some st1 else Option.bind (merge_symbols nrm (pair_left h) (pair_right h) st1) (add_neighbours sp nrm (pair_left h))) = Some st'"
    using assms bpe_step_eq [of k pick st, OF k_def k h_def st1_def] by (auto simp: bind_eq_Some_conv)
  show ?thesis
  proof (cases "stale sl sr h")
    case True
    then show ?thesis using s(3) k by (auto simp: st1_def live_count_def)
  next
    case False
    then obtain st2 where st2: "merge_symbols nrm (pair_left h) (pair_right h) st1 = Some st2" "symbols_of st' = symbols_of st2"
      using s(3) by (auto simp: bind_eq_Some_conv dest: add_neighbours_symbols)
    note r = merge_symbols_range [OF st2(1)]
    moreover have "live sl" "live sr" using False by (auto simp: stale_def live_def)
    ultimately have "live_count st2 < live_count st1"
      using merge_list_count [of "pair_left h" "symbols_of st1" "pair_right h"] s(1,2) False st2(1)
      by (auto simp: live_count_def merge_symbols_list symbol_at_def split: if_splits)
    then show ?thesis using st2(2) by (simp add: live_count_def st1_def)
  qed
qed

function bpe_main :: "Sentencepiece \<Rightarrow> string \<Rightarrow> (SymbolPair list \<Rightarrow> nat) \<Rightarrow> bpe_state \<Rightarrow> bpe_state option" where
  "bpe_main sp nrm pick st = (if agenda st = [] then Some st else Option.bind (bpe_step sp nrm pick st) (bpe_main sp nrm pick))"
  by auto
termination
  by (relation "inv_image (measures [live_count, \<lambda>st. length (agenda st)]) (\<lambda>(sp, nrm, pick, st). st)")
    (auto dest: bpe_step_less)

declare bpe_main.simps [simp del]

subsection \<open>Segmentation\<close>

text \<open>
  Unused pieces are split again along \<open>rev_merge\<close>; the recursion and the walk along the list of symbols are partial
  functions, with \<open>None\<close> if they run forever and \<open>Some None\<close> if they are undefined.
\<close>

partial_function (option) resegment ::
  "Sentencepiece \<Rightarrow> string \<Rightarrow> (string \<rightharpoonup> view \<times> view) \<Rightarrow> view \<Rightarrow> (string \<times> int) list \<Rightarrow> (string \<times> int) list option option" where
  "resegment sp nrm merges w output =
     (case view_text nrm w of None \<Rightarrow> Some None
      | Some t \<Rightarrow>
          (let n = piece_to_id sp t
           in if n = - 1 then Some (Some (output @ [(t, n)]))
              else (case is_unused sp n of None \<Rightarrow> Some None
                | Some unused \<Rightarrow>
                    if \<not> unused then Some (Some (output @ [(t, n)]))
                    else (case merges t of None \<Rightarrow> Some (Some (output @ [(t, n)]))
                      | Some (w1, w2) \<Rightarrow>
                          Option.bind (resegment sp nrm merges w1 output) (\<lambda>r.
                            case r of None \<Rightarrow> Some None | Some output1 \<Rightarrow> resegment sp nrm merges w2 output1)))))"

partial_function (option) walk_symbols ::
  "Sentencepiece \<Rightarrow> string \<Rightarrow> bpe_state \<Rightarrow> int \<Rightarrow> (string \<times> int) list \<Rightarrow> (string \<times> int) list option option" where
  "walk_symbols sp nrm st index output =
     (if index = - 1 then Some (Some output)
      else case symbol_at st index of None \<Rightarrow> Some None
        | Some s \<Rightarrow>
            Option.bind (resegment sp nrm (rev_merge st) (sym_piece s) output) (\<lambda>r.
              case r of None \<Rightarrow> Some None | Some output1 \<Rightarrow> walk_symbols sp nrm st (sym_next s) output1))"

definition bpe_encode :: "Sentencepiece \<Rightarrow> (SymbolPair list \<Rightarrow> nat) \<Rightarrow> string \<Rightarrow> (string \<times> int) list option option" where
  "bpe_encode sp pick normalized =
     (let symbols = split_symbols normalized 0 0
      in if symbols = [] then Some (Some [])
         else case Option.bind (add_bigrams sp normalized [1..<length symbols] \<lparr>symbols_of = symbols, agenda = [], rev_merge = Map.empty\<rparr>)
                     (bpe_main sp normalized pick) of
                None \<Rightarrow> Some None
              | Some st \<Rightarrow> walk_symbols sp normalized st 0 [])"

subsection \<open>Encoding and decoding\<close>

text \<open>The UTF-8 bytes of U+2581, which stands for a space.\<close>

definition space_mark :: string where
  "space_mark = map char_of [0xE2, 0x96, 0x81 :: nat]"

definition normalize :: "string \<Rightarrow> string" where
  "normalize str = space_mark @ concat (map (\<lambda>c. if c = CHR '' '' then space_mark else [c]) str)"

definition piece_ids :: "Sentencepiece \<Rightarrow> string \<times> int \<Rightarrow> int list" where
  "piece_ids sp p =
     (if snd p = unk_id sp \<and> byte_fall_back sp then map (\<lambda>b. piece_to_id sp (byte_to_piece b)) (fst p) else [snd p])"

definition SP_encode :: "Sentencepiece \<Rightarrow> (SymbolPair list \<Rightarrow> nat) \<Rightarrow> string \<Rightarrow> int list \<Rightarrow> int list option option" where
  "SP_encode sp pick str ids =
     map_option (map_option (\<lambda>result. ids @ concat (map (piece_ids sp) result))) (bpe_encode sp pick (normalize str))"

fun find_sub :: "string \<Rightarrow> string \<Rightarrow> nat option" where
  "find_sub p [] = (if p = [] then Some 0 else None)"
| "find_sub p (c # cs) = (if take (length p) (c # cs) = p then Some 0 else map_option Suc (find_sub p cs))"

text \<open>\<open>piece.replace (pos, n, s)\<close> erases \<open>n\<close> characters from \<open>pos\<close> on, or all that there are.\<close>

definition SP_decode :: "Sentencepiece \<Rightarrow> int \<Rightarrow> string" where
  "SP_decode sp n =
     (case piece_at sp n of None \<Rightarrow> []
      | Some p \<Rightarrow>
          (case find_sub space_mark (sp_piece p) of None \<Rightarrow> sp_piece p
           | Some pos \<Rightarrow> take pos (sp_piece p) @ '' '' @ drop (pos + (pos + 3)) (sp_piece p)))"

end
