(* ===== verification/LLM_Sentencepiece_Inv.thy ===== *)
theory LLM_Sentencepiece_Inv
  imports LLM_Sentencepiece
begin

text \<open>
  The doubly linked list of symbols and the agenda of the SentencePiece merging loop: the live symbols, in order,
  partition the text; an entry of the agenda that is not out of date is a pair of neighbours
  whose joined text is in the vocabulary, with its score; every such pair has an entry. A merge keeps all of this.
\<close>

section \<open>The list of symbols\<close>

definition text_of :: "string \<Rightarrow> Symbol \<Rightarrow> string" where
  "text_of nrm s = take (snd (sym_piece s)) (drop (fst (sym_piece s)) nrm)"

fun chain :: "Symbol list \<Rightarrow> nat \<Rightarrow> int \<Rightarrow> nat \<Rightarrow> nat list \<Rightarrow> bool" where
  "chain S N p off [] \<longleftrightarrow> off = N"
| "chain S N p off (i # is) \<longleftrightarrow>
     i < length S \<and> live (S ! i) \<and> sym_prev (S ! i) = p \<and> fst (sym_piece (S ! i)) = off \<and>
     sym_next (S ! i) = (if is = [] then - 1 else int (hd is)) \<and> chain S N (int i) (off + snd (sym_piece (S ! i))) is"

lemma chain_length: "chain S N p off is \<Longrightarrow> off \<le> N \<and> (\<forall>i \<in> set is. i < length S \<and> live (S ! i) \<and> fst (sym_piece (S ! i)) + snd (sym_piece (S ! i)) \<le> N)"
  by (induction "is" arbitrary: p off) fastforce+

lemma chain_frame: "chain S N p off is \<Longrightarrow> length S' = length S \<Longrightarrow> \<forall>i \<in> set is. S' ! i = S ! i \<Longrightarrow> chain S' N p off is"
  by (induction "is" arbitrary: p off) auto

lemma chain_at:
  assumes "chain S N p off (as @ i # bs)"
  shows "sym_prev (S ! i) = (if as = [] then p else int (last as))" "sym_next (S ! i) = (if bs = [] then - 1 else int (hd bs))"
    "chain S N (int i) (fst (sym_piece (S ! i)) + snd (sym_piece (S ! i))) bs"
  using assms
proof (induction as arbitrary: p off)
  case (Cons a as)
  {
    case 1
    then show ?case using Cons.IH(1) [of "int a"] by (cases as) auto
  next
    case 2
    then show ?case using Cons.IH(2) [of "int a"] by auto
  next
    case 3
    then show ?case using Cons.IH(3) [of "int a"] by auto
  }
qed (auto split: if_splits)

lemma chain_text: "chain S N p off is \<Longrightarrow> N = length nrm \<Longrightarrow> concat (map (\<lambda>i. text_of nrm (S ! i)) is) = drop off nrm"
proof (induction "is" arbitrary: p off)
  case (Cons i "is")
  then have "chain S N (int i) (off + snd (sym_piece (S ! i))) is" by simp
  from Cons.IH [OF this Cons.prems(2)] have "concat (map (\<lambda>i. text_of nrm (S ! i)) is) = drop (off + snd (sym_piece (S ! i))) nrm" .
  then show ?case using Cons.prems append_take_drop_id [of "snd (sym_piece (S ! i))" "drop off nrm"] by (simp add: text_of_def add.commute)
qed simp

text \<open>What merging does to each symbol.\<close>

lemma merge_list_simps:
  assumes "l < length S" "r < length S" "l \<noteq> r" "sym_next (S ! r) \<noteq> int l" "sym_next (S ! r) \<noteq> int r" "sym_next (S ! r) < int (length S)"
  shows "length (merge_list nrm l r S) = length S"
    "merge_list nrm l r S ! l = (S ! l)\<lparr>sym_piece := (fst (sym_piece (S ! l)), snd (sym_piece (S ! l)) + snd (sym_piece (S ! r))), sym_next := sym_next (S ! r)\<rparr>"
    "merge_list nrm l r S ! r = (S ! r)\<lparr>sym_piece := (length nrm, 0)\<rparr>"
    "i \<noteq> l \<Longrightarrow> i \<noteq> r \<Longrightarrow> merge_list nrm l r S ! i = (if int i = sym_next (S ! r) then (S ! i)\<lparr>sym_prev := int l\<rparr> else S ! i)"
  using assms by (auto simp: merge_list_def link_next_def Let_def nth_list_update)

lemma chain_merge:
  assumes "chain S N p off (as @ l # r # bs)" "distinct (as @ l # r # bs)"
  shows "chain (merge_list nrm l r S) N p off (as @ l # bs)"
  using assms
proof (induction as arbitrary: p off)
  case Nil
  let ?S = "merge_list nrm l r S"
  have c: "l < length S" "r < length S" "l \<noteq> r" "chain S N (int r) (off + snd (sym_piece (S ! l)) + snd (sym_piece (S ! r))) bs"
    "sym_next (S ! r) = (if bs = [] then - 1 else int (hd bs))"
    using Nil by (auto split: if_splits)
  have b: "\<forall>b \<in> set bs. b \<noteq> l \<and> b \<noteq> r \<and> b < length S" using Nil chain_length [OF c(4)] by auto
  then have n: "sym_next (S ! r) \<noteq> int l" "sym_next (S ! r) \<noteq> int r" "sym_next (S ! r) < int (length S)"
    using c(5) by (cases bs; auto)+
  note m = merge_list_simps [OF c(1-3) n, where nrm = nrm]
  have "chain ?S N (int l) (off + (snd (sym_piece (S ! l)) + snd (sym_piece (S ! r)))) bs"
  proof (cases bs)
    case (Cons b cs)
    have "\<forall>i \<in> set cs. ?S ! i = S ! i" using b Cons Nil.prems(2) c(5) m(4) by auto
    then show ?thesis using c(4,5) Cons chain_frame [of S N _ _ cs ?S] m(1) m(4) [of b] b
      by (auto simp: live_def add.assoc split: if_splits)
  qed (use c(4) in \<open>simp add: add.assoc\<close>)
  then show ?case using Nil.prems c m by (auto simp: live_def split: if_splits)
next
  case (Cons a as)
  let ?S = "merge_list nrm l r S"
  have c: "l < length S" "r < length S" "l \<noteq> r" using chain_length [OF Cons.prems(1)] Cons.prems(2) by auto
  have nx: "sym_next (S ! r) = (if bs = [] then - 1 else int (hd bs))"
    using chain_at(2) [of S N p off "a # as @ [l]" r bs] Cons.prems(1) by simp
  have b: "\<forall>b \<in> set bs. b \<noteq> l \<and> b \<noteq> r \<and> b \<noteq> a \<and> b < length S" using chain_length [OF Cons.prems(1)] Cons.prems(2) by auto
  then have n: "sym_next (S ! r) \<noteq> int l" "sym_next (S ! r) \<noteq> int r" "sym_next (S ! r) < int (length S)" "sym_next (S ! r) \<noteq> int a"
    using nx by (cases bs; auto)+
  note m = merge_list_simps [OF c n(1-3), where nrm = nrm]
  have "?S ! a = S ! a" using m(4) [of a] n(4) Cons.prems(2) by auto
  then show ?case using Cons m(1) by (cases as) auto
qed


section \<open>Neighbours\<close>

fun consec :: "nat list \<Rightarrow> (nat \<times> nat) set" where
  "consec (x # y # xs) = insert (x, y) (consec (y # xs))"
| "consec _ = {}"

lemma consec_append: "consec (as @ l # bs) = consec (as @ [l]) \<union> consec (l # bs)"
  by (induction as rule: consec.induct) auto

lemma consec_snoc: "consec (as @ [l]) = consec as \<union> (if as = [] then {} else {(last as, l)})"
  by (induction as rule: consec.induct) auto

lemma consec_Cons: "consec (l # bs) = (if bs = [] then {} else {(l, hd bs)}) \<union> consec bs"
  by (cases bs) auto

lemma consec_mid: "(l, r) \<in> consec (as @ l # r # bs)"
  using consec_append [of as l "r # bs"] by simp

lemma consec_in: "(x, y) \<in> consec ls \<Longrightarrow> x \<in> set ls \<and> y \<in> set ls"
  by (induction ls rule: consec.induct) auto

lemma consec_split: "(x, y) \<in> consec ls \<Longrightarrow> \<exists>as bs. ls = as @ x # y # bs"
proof (induction ls rule: consec.induct)
  case (1 a b xs)
  then show ?case by (auto intro: exI [of _ "[]"]) (metis append_Cons)
qed auto

lemma consec_nth: "Suc k < length ls \<Longrightarrow> (ls ! k, ls ! Suc k) \<in> consec ls"
  by (induction ls arbitrary: k rule: consec.induct) (auto simp: less_Suc_eq_0_disj)

lemma consec_no_between: "sorted_wrt (<) ls \<Longrightarrow> (x, y) \<in> consec ls \<Longrightarrow> x < y \<and> (\<forall>j \<in> set ls. \<not> (x < j \<and> j < y))"
proof (induction ls rule: consec.induct)
  case (1 a b xs)
  show ?case
  proof (cases "x = a \<and> y = b")
    case True
    then show ?thesis using "1.prems"(1) by auto
  next
    case False
    then have xy: "(x, y) \<in> consec (b # xs)" using "1.prems"(2) by auto
    then have "a < x" using consec_in [OF xy] "1.prems"(1) by auto
    then show ?thesis using "1.IH" [OF _ xy] "1.prems"(1) by auto
  qed
qed auto

lemma no_between_consec:
  "sorted_wrt (<) ls \<Longrightarrow> x \<in> set ls \<Longrightarrow> y \<in> set ls \<Longrightarrow> x < y \<Longrightarrow> \<forall>j \<in> set ls. \<not> (x < j \<and> j < y) \<Longrightarrow> (x, y) \<in> consec ls"
proof (induction ls rule: consec.induct)
  case (1 a b xs)
  have y: "y \<in> set (b # xs)" using 1(2-5) by auto
  show ?case
  proof (cases "x = a")
    case True
    then have "\<not> b < y" using 1(2,6) by simp
    then have "y = b" using 1(2) y by auto
    then show ?thesis using True by simp
  next
    case False
    then show ?thesis using "1.IH" 1(2-6) y by simp
  qed
qed auto

lemma chain_consec:
  assumes "chain S N p off ls" "(x, y) \<in> consec ls"
  shows "fst (sym_piece (S ! y)) = fst (sym_piece (S ! x)) + snd (sym_piece (S ! x))"
proof -
  obtain as bs where "ls = as @ x # y # bs" using consec_split [OF assms(2)] by blast
  then show ?thesis using chain_at(3) [of S N p off as x "y # bs"] assms(1) by simp
qed

section \<open>The invariant\<close>

definition text_score :: "Sentencepiece \<Rightarrow> string \<rightharpoonup> rat" where
  "text_score sp t = Option.bind (sp_pieces sp t) (get_score sp)"

definition sp_ok :: "Sentencepiece \<Rightarrow> bool" where
  "sp_ok sp \<longleftrightarrow> (\<forall>t n. sp_pieces sp t = Some n \<longrightarrow> (\<exists>p. piece_at sp n = Some p \<and> sp_type p = NORMAL)) \<and>
     (\<forall>t n. reserved_id_map sp t = Some n \<longrightarrow> piece_at sp n \<noteq> None) \<and> piece_at sp (unk_id sp) \<noteq> None"

definition pair_size_of :: "Symbol list \<Rightarrow> nat \<Rightarrow> nat \<Rightarrow> nat" where
  "pair_size_of S l r = snd (sym_piece (S ! l)) + snd (sym_piece (S ! r))"

definition pair_text :: "string \<Rightarrow> Symbol list \<Rightarrow> nat \<Rightarrow> nat \<Rightarrow> string" where
  "pair_text nrm S l r = text_of nrm (S ! l) @ text_of nrm (S ! r)"

definition new_pair :: "Sentencepiece \<Rightarrow> string \<Rightarrow> Symbol list \<Rightarrow> nat \<Rightarrow> nat \<Rightarrow> SymbolPair list" where
  "new_pair sp nrm S l r =
     (case text_score sp (pair_text nrm S l r) of None \<Rightarrow> []
      | Some score \<Rightarrow> [\<lparr>pair_left = l, pair_right = r, pair_score = score, pair_size = pair_size_of S l r\<rparr>])"

definition adjacent :: "string \<Rightarrow> Symbol list \<Rightarrow> nat \<Rightarrow> nat \<Rightarrow> bool" where
  "adjacent nrm S l r \<longleftrightarrow> l < length S \<and> r < length S \<and>
     fst (sym_piece (S ! r)) = fst (sym_piece (S ! l)) + snd (sym_piece (S ! l)) \<and>
     fst (sym_piece (S ! r)) + snd (sym_piece (S ! r)) \<le> length nrm"

lemma adjacent_text:
  "adjacent nrm S l r \<Longrightarrow> view_text nrm (fst (sym_piece (S ! l)), pair_size_of S l r) = Some (pair_text nrm S l r)"
  by (simp add: adjacent_def view_text_def pair_text_def text_of_def pair_size_of_def take_add add.commute)

lemma chain_adjacent: "chain S (length nrm) p off ls \<Longrightarrow> (x, y) \<in> consec ls \<Longrightarrow> adjacent nrm S x y"
  using chain_length [of S "length nrm" p off ls] chain_consec [of S "length nrm" p off ls x y] consec_in [of x y ls]
  by (auto simp: adjacent_def)

lemma MaybeAdd_eq:
  assumes ok: "sp_ok sp" and a: "adjacent nrm (symbols_of st) l r" and f: "\<not> sym_freeze (symbols_of st ! l)" "\<not> sym_freeze (symbols_of st ! r)"
  shows "MaybeAddNewSymbolPair sp nrm (int l) (int r) st = Some (st\<lparr>agenda := agenda st @ new_pair sp nrm (symbols_of st) l r\<rparr>)"
proof -
  let ?t = "pair_text nrm (symbols_of st) l r"
  have range: "symbol_at st (int l) = Some (symbols_of st ! l)" "symbol_at st (int r) = Some (symbols_of st ! r)"
    using a by (simp_all add: symbol_at_def adjacent_def)
  show ?thesis
  proof (cases "sp_pieces sp ?t")
    case None
    then show ?thesis using range f adjacent_text [OF a]
      by (simp add: MaybeAddNewSymbolPair_def add_pair_def new_pair_def text_score_def pair_size_of_def)
  next
    case (Some n)
    then obtain p where p: "piece_at sp n = Some p" "sp_type p = NORMAL" using ok unfolding sp_ok_def by blast
    then show ?thesis using Some range f adjacent_text [OF a]
      by (simp add: MaybeAddNewSymbolPair_def add_pair_def new_pair_def text_score_def pair_size_of_def get_score_def is_unused_def)
  qed
qed


definition entry_ok :: "Sentencepiece \<Rightarrow> string \<Rightarrow> Symbol list \<Rightarrow> SymbolPair \<Rightarrow> bool" where
  "entry_ok sp nrm S h \<longleftrightarrow> pair_left h < pair_right h \<and> pair_right h < length S \<and>
     (\<forall>j. pair_left h < j \<and> j < pair_right h \<longrightarrow> \<not> live (S ! j)) \<and>
     (live (S ! pair_left h) \<longrightarrow>
       (\<exists>t. view_text nrm (fst (sym_piece (S ! pair_left h)), pair_size h) = Some t \<and> text_score sp t = Some (pair_score h)))"

definition pending :: "Sentencepiece \<Rightarrow> string \<Rightarrow> Symbol list \<Rightarrow> SymbolPair list \<Rightarrow> nat \<Rightarrow> nat \<Rightarrow> bool" where
  "pending sp nrm S A l r \<longleftrightarrow> (text_score sp (pair_text nrm S l r) \<noteq> None \<longrightarrow>
     (\<exists>h \<in> set A. pair_left h = l \<and> pair_right h = r \<and> pair_size h = pair_size_of S l r))"

definition symbols_inv :: "string \<Rightarrow> Symbol list \<Rightarrow> nat list \<Rightarrow> bool" where
  "symbols_inv nrm S ls \<longleftrightarrow> chain S (length nrm) (- 1) 0 ls \<and> sorted_wrt (<) ls \<and>
     (\<forall>i < length S. live (S ! i) \<longleftrightarrow> i \<in> set ls) \<and> (\<forall>i < length S. \<not> sym_freeze (S ! i))"

definition bpe_inv :: "Sentencepiece \<Rightarrow> string \<Rightarrow> bpe_state \<Rightarrow> nat list \<Rightarrow> bool" where
  "bpe_inv sp nrm st ls \<longleftrightarrow> symbols_inv nrm (symbols_of st) ls \<and> rev_merge st = Map.empty \<and>
     (\<forall>h \<in> set (agenda st). entry_ok sp nrm (symbols_of st) h) \<and>
     (\<forall>(l, r) \<in> consec ls. pending sp nrm (symbols_of st) (agenda st) l r)"

lemma symbols_inv_at: "symbols_inv nrm S ls \<Longrightarrow> i \<in> set ls \<Longrightarrow> i < length S \<and> live (S ! i) \<and> \<not> sym_freeze (S ! i)"
  using chain_length unfolding symbols_inv_def by blast

lemma new_pair_ok:
  assumes inv: "symbols_inv nrm S ls" and c: "(l, r) \<in> consec ls" and h: "h \<in> set (new_pair sp nrm S l r)"
  shows "entry_ok sp nrm S h"
proof -
  obtain score where sc: "text_score sp (pair_text nrm S l r) = Some score"
      "h = \<lparr>pair_left = l, pair_right = r, pair_score = score, pair_size = pair_size_of S l r\<rparr>"
    using h by (cases "text_score sp (pair_text nrm S l r)") (auto simp: new_pair_def)
  have "r < length S" using consec_in [OF c] symbols_inv_at [OF inv] by blast
  moreover have "l < r" "\<forall>j. l < j \<and> j < r \<longrightarrow> \<not> live (S ! j)"
    using consec_no_between [OF _ c] inv \<open>r < length S\<close> unfolding symbols_inv_def by force+
  moreover have "adjacent nrm S l r" using inv c chain_adjacent unfolding symbols_inv_def by blast
  ultimately show ?thesis using sc adjacent_text [of nrm S l r] by (simp add: entry_ok_def)
qed

lemma new_pair_pending: "set (new_pair sp nrm S l r) \<subseteq> set A \<Longrightarrow> pending sp nrm S A l r"
  by (force simp: new_pair_def pending_def)

lemma pending_mono: "pending sp nrm S A l r \<Longrightarrow> set A \<subseteq> set B \<Longrightarrow> pending sp nrm S B l r"
  unfolding pending_def by blast

section \<open>Merging keeps the invariant\<close>

lemma merge_symbols_inv:
  assumes inv: "symbols_inv nrm S (as @ l # r # bs)"
  shows "symbols_inv nrm (merge_list nrm l r S) (as @ l # bs)"
    "\<And>i. i < length S \<Longrightarrow> i \<noteq> l \<Longrightarrow> i \<noteq> r \<Longrightarrow> sym_piece (merge_list nrm l r S ! i) = sym_piece (S ! i)"
    "fst (sym_piece (merge_list nrm l r S ! l)) = fst (sym_piece (S ! l))"
    "text_of nrm (merge_list nrm l r S ! l) = pair_text nrm S l r"
    "length (merge_list nrm l r S) = length S"
    "sym_next (S ! r) < int (length S)"
    "\<not> live (merge_list nrm l r S ! r)"
proof -
  let ?ls = "as @ l # r # bs" and ?S = "merge_list nrm l r S"
  have ch: "chain S (length nrm) (- 1) 0 ?ls" and srt: "sorted_wrt (<) ?ls"
    and lv: "\<forall>i < length S. live (S ! i) \<longleftrightarrow> i \<in> set ?ls" and fr: "\<forall>i < length S. \<not> sym_freeze (S ! i)"
    using inv by (simp_all add: symbols_inv_def)
  have d: "distinct ?ls" using srt by (simp only: strict_sorted_iff)
  have len: "\<forall>i \<in> set ?ls. i < length S" using chain_length [OF ch] by blast
  have nx: "sym_next (S ! r) = (if bs = [] then - 1 else int (hd bs))"
    using chain_at(2) [of S "length nrm" "- 1" 0 "as @ [l]" r bs] ch by simp
  have n: "sym_next (S ! r) \<noteq> int l" "sym_next (S ! r) \<noteq> int r" "sym_next (S ! r) < int (length S)"
    using nx d len by (cases bs; auto)+
  have lr: "l < length S" "r < length S" "l \<noteq> r" using len d by auto
  note m = merge_list_simps [OF lr n, where nrm = nrm]
  show p: "\<And>i. i < length S \<Longrightarrow> i \<noteq> l \<Longrightarrow> i \<noteq> r \<Longrightarrow> sym_piece (?S ! i) = sym_piece (S ! i)" using m(4) by simp
  show "fst (sym_piece (?S ! l)) = fst (sym_piece (S ! l))" by (simp add: m(2))
  show "length ?S = length S" "sym_next (S ! r) < int (length S)" by fact+
  show "\<not> live (?S ! r)" by (simp add: m(3) live_def)
  have "adjacent nrm S l r" using chain_adjacent [OF ch consec_mid] .
  then show "text_of nrm (?S ! l) = pair_text nrm S l r"
    by (simp add: m(2) adjacent_def text_of_def pair_text_def take_add add.commute)
  have "live (?S ! i) \<longleftrightarrow> i \<in> set (as @ l # bs)" if i: "i < length S" for i
  proof (cases "i = l \<or> i = r")
    case True
    moreover have "live (S ! l)" using lv lr by simp
    ultimately show ?thesis using m(2,3) d by (auto simp: live_def)
  next
    case False
    then have "live (?S ! i) \<longleftrightarrow> live (S ! i)" using p [OF i] by (simp add: live_def)
    then show ?thesis using lv i False by simp
  qed
  moreover have "\<not> sym_freeze (?S ! i)" if "i < length S" for i
    using that fr m(2,3) m(4) [of i] lr by (cases "i = l"; cases "i = r") (simp_all split: if_splits)
  moreover have "sorted_wrt (<) (as @ l # bs)" using srt by (simp add: sorted_wrt_append)
  ultimately show "symbols_inv nrm ?S (as @ l # bs)"
    unfolding symbols_inv_def m(1) using chain_merge [OF ch d, of nrm] by blast
qed


lemma entry_merge:
  assumes inv: "symbols_inv nrm S (as @ l # r # bs)" and e: "entry_ok sp nrm S h"
  shows "entry_ok sp nrm (merge_list nrm l r S) h"
proof -
  note m = merge_symbols_inv [OF inv]
  have lr: "live (S ! l)" "live (S ! r)" "l < length S" "r < length S" using symbols_inv_at [OF inv] by auto
  have dead: "live (merge_list nrm l r S ! j) \<Longrightarrow> live (S ! j)" if "j < length S" for j
    using m(2) [OF that] m(7) lr by (cases "j = l"; cases "j = r") (auto simp: live_def)
  have "pair_left h < length S" using e by (simp add: entry_ok_def)
  then have "live (merge_list nrm l r S ! pair_left h) \<Longrightarrow>
      fst (sym_piece (merge_list nrm l r S ! pair_left h)) = fst (sym_piece (S ! pair_left h))"
    using m(2) m(3,7) by (cases "pair_left h = l"; cases "pair_left h = r") auto
  then show ?thesis using e dead m(5) \<open>pair_left h < length S\<close> unfolding entry_ok_def by auto
qed

lemma pair_same:
  assumes "sym_piece (S' ! x) = sym_piece (S ! x)" "sym_piece (S' ! y) = sym_piece (S ! y)"
  shows "pair_text nrm S' x y = pair_text nrm S x y" "pair_size_of S' x y = pair_size_of S x y"
  using assms by (simp_all add: pair_text_def pair_size_of_def text_of_def)

definition around :: "Sentencepiece \<Rightarrow> string \<Rightarrow> Symbol list \<Rightarrow> nat list \<Rightarrow> nat \<Rightarrow> nat list \<Rightarrow> SymbolPair list" where
  "around sp nrm S as l bs =
     (if as = [] then [] else new_pair sp nrm S (last as) l) @ (if bs = [] then [] else new_pair sp nrm S l (hd bs))"

lemma merge_inv:
  assumes inv: "bpe_inv sp nrm st (as @ l # r # bs)"
    and A: "\<And>h. h \<in> set (agenda st) \<Longrightarrow> pair_left h \<noteq> l \<Longrightarrow> h \<in> set A" "set A \<subseteq> set (agenda st)"
    and S: "S = merge_list nrm l r (symbols_of st)"
  shows "bpe_inv sp nrm (st\<lparr>symbols_of := S, agenda := A @ around sp nrm S as l bs\<rparr>) (as @ l # bs)"
proof -
  have si: "symbols_inv nrm (symbols_of st) (as @ l # r # bs)" using inv by (simp add: bpe_inv_def)
  note m = merge_symbols_inv [OF si, folded S]
  have d: "distinct (as @ l # r # bs)" using si by (simp only: symbols_inv_def strict_sorted_iff)
  have ends: "as \<noteq> [] \<Longrightarrow> (last as, l) \<in> consec (as @ l # bs)" "bs \<noteq> [] \<Longrightarrow> (l, hd bs) \<in> consec (as @ l # bs)"
    using consec_append [of as l bs] by (auto simp: consec_snoc consec_Cons)
  have entries: "entry_ok sp nrm S h" if "h \<in> set (A @ around sp nrm S as l bs)" for h
  proof (cases "h \<in> set A")
    case True
    then show ?thesis using entry_merge [OF si, of sp h] inv A(2) S by (auto simp: bpe_inv_def)
  next
    case False
    then show ?thesis using that ends new_pair_ok [OF m(1), of _ _ h sp] by (auto simp: around_def split: if_splits)
  qed
  have "pending sp nrm S (A @ around sp nrm S as l bs) x y" if xy: "(x, y) \<in> consec (as @ l # bs)" for x y
  proof (cases "x = l \<or> y = l")
    case True
    then have "as \<noteq> [] \<and> x = last as \<and> y = l \<or> bs \<noteq> [] \<and> x = l \<and> y = hd bs"
      using xy consec_append [of as l bs] d by (auto simp: consec_snoc consec_Cons dest!: consec_in split: if_splits)
    then show ?thesis by (intro new_pair_pending) (auto simp: around_def)
  next
    case False
    then have old: "(x, y) \<in> consec as \<or> (x, y) \<in> consec bs"
      using xy consec_append [of as l bs] by (auto simp: consec_snoc consec_Cons split: if_splits)
    then have old': "(x, y) \<in> consec (as @ l # r # bs)"
      using consec_append [of as l "r # bs"] by (auto simp: consec_snoc consec_Cons)
    have "x \<noteq> r" "y \<noteq> r" "x < length (symbols_of st)" "y < length (symbols_of st)"
      using old d consec_in [of x y as] consec_in [of x y bs] symbols_inv_at [OF si] by auto
    then have same: "sym_piece (S ! x) = sym_piece (symbols_of st ! x)" "sym_piece (S ! y) = sym_piece (symbols_of st ! y)"
      using m(2) False by auto
    have "pending sp nrm (symbols_of st) (agenda st) x y" using inv old' by (auto simp: bpe_inv_def)
    then show ?thesis using pair_same [of S x "symbols_of st" y, OF same] A(1) False by (fastforce simp: pending_def)
  qed
  then show ?thesis using m(1) entries inv by (auto simp: bpe_inv_def)
qed

end
