(* ===== verification/LLM_Sentencepiece_Facts.thy ===== *)
theory LLM_Sentencepiece_Facts
  imports LLM_Sentencepiece_Inv
begin

text \<open>
  SentencePiece encoding is the naive algorithm: each merge of the loop is the merge of the best pair of
  neighbours. \<open>priority_queue\<close> states what a priority queue promises: an entry with no larger one.
\<close>

section \<open>The reference\<close>

definition candidates :: "(string \<rightharpoonup> rat) \<Rightarrow> string list \<Rightarrow> nat list" where
  "candidates score ws = filter (\<lambda>k. score (ws ! k @ ws ! Suc k) \<noteq> None) [0..<length ws - 1]"

definition top_pair :: "(string \<rightharpoonup> rat) \<Rightarrow> string list \<Rightarrow> nat option" where
  "top_pair score ws =
     find (\<lambda>k. \<forall>j \<in> set (candidates score ws). the (score (ws ! j @ ws ! Suc j)) \<le> the (score (ws ! k @ ws ! Suc k))) (candidates score ws)"

definition merge_at :: "nat \<Rightarrow> string list \<Rightarrow> string list" where
  "merge_at k ws = take k ws @ (ws ! k @ ws ! Suc k) # drop (k + 2) ws"

lemma top_pair_range: "top_pair score ws = Some k \<Longrightarrow> Suc k < length ws"
  unfolding top_pair_def find_Some_iff candidates_def by (metis (no_types, lifting) atLeastLessThan_iff filter_is_subset less_diff_conv nth_mem plus_1_eq_Suc add.commute set_upt subsetD)

function bpe_reference :: "(string \<rightharpoonup> rat) \<Rightarrow> string list \<Rightarrow> string list" where
  "bpe_reference score ws = (case top_pair score ws of None \<Rightarrow> ws | Some k \<Rightarrow> bpe_reference score (merge_at k ws))"
  by auto
termination
  by (relation "measure (\<lambda>(score, ws). length ws)") (auto simp: merge_at_def dest: top_pair_range)

declare bpe_reference.simps [simp del]

lemma merge_at_append: "merge_at (length us) (us @ u # v # vs) = us @ (u @ v) # vs"
  by (simp add: merge_at_def nth_append)

lemma concat_reference: "concat (bpe_reference score ws) = concat ws"
proof (induction score ws rule: bpe_reference.induct)
  case (1 score ws)
  show ?case
  proof (cases "top_pair score ws")
    case (Some k)
    then have k: "Suc k < length ws" by (rule top_pair_range)
    have "drop k ws = ws ! k # ws ! Suc k # drop (k + 2) ws" using k by (simp add: Cons_nth_drop_Suc)
    then have "concat ws = concat (take k ws) @ ws ! k @ ws ! Suc k @ concat (drop (k + 2) ws)"
      using append_take_drop_id [of k ws] by (metis concat.simps(2) concat_append)
    then have "concat (merge_at k ws) = concat ws" by (simp add: merge_at_def)
    then show ?thesis using 1 Some by (simp add: bpe_reference.simps [of score ws])
  qed (simp add: bpe_reference.simps)
qed

definition priority_queue :: "(SymbolPair list \<Rightarrow> nat) \<Rightarrow> bool" where
  "priority_queue pick \<longleftrightarrow> (\<forall>a. a \<noteq> [] \<longrightarrow> pick a < length a \<and> (\<forall>h \<in> set a. \<not> SymbolPairComparator (a ! pick a) h))"


section \<open>One step of the loop is one merge of the reference\<close>

definition words :: "string \<Rightarrow> bpe_state \<Rightarrow> nat list \<Rightarrow> string list" where
  "words nrm st ls = map (\<lambda>i. text_of nrm (symbols_of st ! i)) ls"

lemma find_least:
  "sorted_wrt (<) xs \<Longrightarrow> x \<in> set xs \<Longrightarrow> P x \<Longrightarrow> (\<And>y. y \<in> set xs \<Longrightarrow> y < x \<Longrightarrow> \<not> P y) \<Longrightarrow> find P xs = Some (x :: nat)"
  by (induction xs) auto

lemma entry_score:
  assumes inv: "bpe_inv sp nrm st ls" and c: "(l, r) \<in> consec ls"
    and h: "h \<in> set (agenda st)" "pair_left h = l" "pair_size h = pair_size_of (symbols_of st) l r"
  shows "text_score sp (pair_text nrm (symbols_of st) l r) = Some (pair_score h)"
proof -
  have si: "symbols_inv nrm (symbols_of st) ls" using inv by (simp add: bpe_inv_def)
  then have "adjacent nrm (symbols_of st) l r" using chain_adjacent c unfolding symbols_inv_def by blast
  moreover have "live (symbols_of st ! l)" using symbols_inv_at [OF si] consec_in [OF c] by blast
  moreover have "entry_ok sp nrm (symbols_of st) h" using inv h(1) by (simp add: bpe_inv_def)
  ultimately show ?thesis using h adjacent_text by (auto simp: entry_ok_def)
qed

lemma fresh_best:
  assumes inv: "bpe_inv sp nrm st ls" and ls: "ls = as @ l # r # bs"
    and h: "h \<in> set (agenda st)" "pair_left h = l" "pair_size h = pair_size_of (symbols_of st) l r"
    and max: "\<forall>h' \<in> set (agenda st). \<not> SymbolPairComparator h h'"
  shows "top_pair (text_score sp) (words nrm st ls) = Some (length as)"
proof -
  let ?ws = "words nrm st ls" and ?sc = "\<lambda>k. text_score sp (words nrm st ls ! k @ words nrm st ls ! Suc k)"
  have pair: "?sc k = text_score sp (pair_text nrm (symbols_of st) (ls ! k) (ls ! Suc k))" if "Suc k < length ls" for k
    using that by (simp add: words_def pair_text_def)
  have top: "?sc (length as) = Some (pair_score h)"
    using pair [of "length as"] entry_score [OF inv _ h] consec_mid [of l r as bs] by (simp add: ls nth_append)
  have cand: "the (?sc j) \<le> pair_score h \<and> (j < length as \<longrightarrow> the (?sc j) < pair_score h)" if "j \<in> set (candidates (text_score sp) ?ws)" for j
  proof -
    have j: "Suc j < length ls" "?sc j \<noteq> None" using that by (auto simp: candidates_def words_def)
    note c = consec_nth [OF j(1)]
    have "pending sp nrm (symbols_of st) (agenda st) (ls ! j) (ls ! Suc j)" using inv c by (auto simp: bpe_inv_def)
    then obtain h' where h': "h' \<in> set (agenda st)" "pair_left h' = ls ! j" "pair_size h' = pair_size_of (symbols_of st) (ls ! j) (ls ! Suc j)"
      using j pair [OF j(1)] by (auto simp: pending_def)
    have "?sc j = Some (pair_score h')" using entry_score [OF inv c h'] pair [OF j(1)] by simp
    moreover have "\<not> SymbolPairComparator h h'" using max h'(1) by blast
    moreover have "j < length as \<Longrightarrow> ls ! j < l"
      using inv ls by (auto simp: bpe_inv_def symbols_inv_def sorted_wrt_append nth_append)
    ultimately show ?thesis using h(2) h'(2) by (auto simp: SymbolPairComparator_def)
  qed
  have "sorted_wrt (<) (candidates (text_score sp) ?ws)" unfolding candidates_def by (intro sorted_wrt_filter) simp
  moreover have "Suc (length as) < length ?ws" by (simp add: words_def ls)
  then have "length as \<in> set (candidates (text_score sp) ?ws)" using top by (simp add: candidates_def less_diff_conv)
  ultimately show ?thesis unfolding top_pair_def using top cand by (intro find_least) fastforce+
qed

lemma agenda_split: "k < length A \<Longrightarrow> set A = insert (A ! k) (set (take k A @ drop (Suc k) A))"
  by (metis Un_insert_right id_take_nth_drop list.simps(15) set_append)


lemma fresh_consec:
  assumes inv: "bpe_inv sp nrm st ls" and h: "h \<in> set (agenda st)"
    "\<not> stale (symbols_of st ! pair_left h) (symbols_of st ! pair_right h) h"
  shows "(pair_left h, pair_right h) \<in> consec ls" "pair_size h = pair_size_of (symbols_of st) (pair_left h) (pair_right h)"
proof -
  have e: "entry_ok sp nrm (symbols_of st) h" and si: "symbols_inv nrm (symbols_of st) ls" using inv h by (auto simp: bpe_inv_def)
  have lr: "live (symbols_of st ! pair_left h)" "live (symbols_of st ! pair_right h)" using h(2) by (auto simp: stale_def live_def)
  show "(pair_left h, pair_right h) \<in> consec ls"
  proof (rule no_between_consec)
    show "sorted_wrt (<) ls" "pair_left h < pair_right h" "pair_left h \<in> set ls" "pair_right h \<in> set ls"
      using e si lr by (auto simp: entry_ok_def symbols_inv_def)
    show "\<forall>j \<in> set ls. \<not> (pair_left h < j \<and> j < pair_right h)"
      using e symbols_inv_at [OF si] by (auto simp: entry_ok_def)
  qed
  show "pair_size h = pair_size_of (symbols_of st) (pair_left h) (pair_right h)"
    using h(2) by (simp add: stale_def pair_size_of_def)
qed

lemma add_neighbours_eq:
  assumes ok: "sp_ok sp" and si: "symbols_inv nrm (symbols_of st) (as @ l # bs)"
  shows "add_neighbours sp nrm l st = Some (st\<lparr>agenda := agenda st @ around sp nrm (symbols_of st) as l bs\<rparr>)"
proof -
  let ?S = "symbols_of st"
  have ch: "chain ?S (length nrm) (- 1) 0 (as @ l # bs)" using si by (simp add: symbols_inv_def)
  have at_l: "symbol_at st (int l) = Some (?S ! l)" using symbols_inv_at [OF si, of l] by (simp add: symbol_at_def)
  have ends: "as \<noteq> [] \<Longrightarrow> (last as, l) \<in> consec (as @ l # bs)" "bs \<noteq> [] \<Longrightarrow> (l, hd bs) \<in> consec (as @ l # bs)"
    using consec_append [of as l bs] by (auto simp: consec_snoc consec_Cons)
  have add: "MaybeAddNewSymbolPair sp nrm (int x) (int y) st' = Some (st'\<lparr>agenda := agenda st' @ new_pair sp nrm ?S x y\<rparr>)"
    if "(x, y) \<in> consec (as @ l # bs)" "symbols_of st' = ?S" for x y st'
    using MaybeAdd_eq [OF ok, of nrm st' x y] chain_adjacent [OF ch that(1)] consec_in [OF that(1)] symbols_inv_at [OF si] that(2) by simp
  have none: "MaybeAddNewSymbolPair sp nrm (- 1) y st' = Some st'" "MaybeAddNewSymbolPair sp nrm y (- 1) st' = Some st'" for y st'
    by (simp_all add: MaybeAddNewSymbolPair_def)
  show ?thesis unfolding add_neighbours_def around_def using at_l chain_at(1,2) [OF ch] add ends none
    by (cases "as = []"; cases "bs = []") simp_all
qed

lemma merge_words:
  assumes si: "symbols_inv nrm S (as @ l # r # bs)"
  shows "map (\<lambda>i. text_of nrm (merge_list nrm l r S ! i)) (as @ l # bs) =
    merge_at (length as) (map (\<lambda>i. text_of nrm (S ! i)) (as @ l # r # bs))"
proof -
  note m = merge_symbols_inv [OF si]
  have d: "distinct (as @ l # r # bs)" using si by (simp only: symbols_inv_def strict_sorted_iff)
  have "text_of nrm (merge_list nrm l r S ! i) = text_of nrm (S ! i)" if "i \<in> set as \<union> set bs" for i
  proof -
    have "i \<noteq> l" "i \<noteq> r" "i < length S" using that d symbols_inv_at [OF si, of i] by auto
    then show ?thesis using m(2) [of i] by (simp add: text_of_def)
  qed
  then show ?thesis using m(4) merge_at_append [of "map (\<lambda>i. text_of nrm (S ! i)) as"] by (simp add: pair_text_def)
qed

lemma stale_inv:
  assumes inv: "bpe_inv sp nrm st ls" and A: "set (agenda st) = insert h (set A)"
    and old: "stale (symbols_of st ! pair_left h) (symbols_of st ! pair_right h) h"
  shows "bpe_inv sp nrm (st\<lparr>agenda := A\<rparr>) ls"
proof -
  let ?S = "symbols_of st"
  have "pending sp nrm ?S A x y" if c: "(x, y) \<in> consec ls" for x y
  proof -
    have "live (?S ! x)" "live (?S ! y)" using inv consec_in [OF c] symbols_inv_at by (auto simp: bpe_inv_def)
    then have "\<not> (pair_left h = x \<and> pair_right h = y \<and> pair_size h = pair_size_of ?S x y)"
      using old by (auto simp: stale_def pair_size_of_def live_def)
    moreover have "pending sp nrm ?S (agenda st) x y" using inv c by (auto simp: bpe_inv_def)
    ultimately show ?thesis by (auto simp: pending_def A)
  qed
  then show ?thesis using inv A by (auto simp: bpe_inv_def)
qed

lemma bpe_step_inv:
  assumes inv: "bpe_inv sp nrm st ls" and ok: "sp_ok sp" and q: "priority_queue pick" and A: "agenda st \<noteq> []"
  shows "\<exists>st' ls'. bpe_step sp nrm pick st = Some st' \<and> bpe_inv sp nrm st' ls' \<and> hd ls' = hd ls \<and>
    bpe_reference (text_score sp) (words nrm st' ls') = bpe_reference (text_score sp) (words nrm st ls)"
proof -
  define k where "k = pick (agenda st)"
  define h where "h = agenda st ! k"
  define A where "A = take k (agenda st) @ drop (Suc k) (agenda st)"
  define st1 where "st1 = st\<lparr>agenda := A\<rparr>"
  let ?S = "symbols_of st" and ?l = "pair_left h" and ?r = "pair_right h"
  have k: "k < length (agenda st)" and max: "\<forall>h' \<in> set (agenda st). \<not> SymbolPairComparator h h'"
    using q A unfolding priority_queue_def h_def k_def by blast+
  have hA: "h \<in> set (agenda st)" using k by (simp add: h_def)
  have setA: "set (agenda st) = insert h (set A)" using agenda_split [OF k] by (simp add: A_def h_def)
  have "entry_ok sp nrm ?S h" using inv hA by (simp add: bpe_inv_def)
  then have range: "symbol_at st1 (int ?l) = Some (?S ! ?l)" "symbol_at st1 (int ?r) = Some (?S ! ?r)"
    by (auto simp: entry_ok_def symbol_at_def st1_def)
  have step: "bpe_step sp nrm pick st = (if stale (?S ! ?l) (?S ! ?r) h then Some st1
      else Option.bind (merge_symbols nrm ?l ?r st1) (add_neighbours sp nrm ?l))"
    using bpe_step_eq [of k pick st h st1 sp nrm] k range by (simp add: k_def h_def st1_def A_def)
  show ?thesis
  proof (cases "stale (?S ! ?l) (?S ! ?r) h")
    case True
    then have "bpe_inv sp nrm st1 ls" unfolding st1_def using stale_inv [OF inv setA] by simp
    then show ?thesis using True step by (auto simp: st1_def words_def)
  next
    case False
    note f = fresh_consec [OF inv hA False]
    obtain as bs where ls: "ls = as @ ?l # ?r # bs" using consec_split [OF f(1)] by blast
    define S where "S = merge_list nrm ?l ?r ?S"
    have si: "symbols_inv nrm ?S (as @ ?l # ?r # bs)" using inv ls by (simp add: bpe_inv_def)
    note m = merge_symbols_inv [OF si, folded S_def]
    define st2 where "st2 = st\<lparr>symbols_of := S, agenda := A @ around sp nrm S as ?l bs\<rparr>"
    have "merge_symbols nrm ?l ?r st1 = Some (st1\<lparr>symbols_of := S\<rparr>)"
      using merge_symbols_list [of ?l st1 ?r nrm] symbols_inv_at [OF si] m(6) by (simp add: st1_def S_def)
    moreover have "add_neighbours sp nrm ?l (st1\<lparr>symbols_of := S\<rparr>) = Some st2"
      using add_neighbours_eq [OF ok, of nrm "st1\<lparr>symbols_of := S\<rparr>" as ?l bs] m(1) by (simp add: st1_def st2_def)
    ultimately have "bpe_step sp nrm pick st = Some st2" using step False by simp
    moreover have "bpe_inv sp nrm st2 (as @ ?l # bs)"
      unfolding st2_def using merge_inv [OF inv [unfolded ls], of A S] setA S_def by auto
    moreover have "words nrm st2 (as @ ?l # bs) = merge_at (length as) (words nrm st ls)"
    proof -
      have "symbols_of st2 = merge_list nrm ?l ?r ?S" by (simp add: st2_def S_def)
      then show ?thesis using merge_words [OF si] by (simp only: words_def ls)
    qed
    moreover have "top_pair (text_score sp) (words nrm st ls) = Some (length as)"
      using fresh_best [OF inv ls hA refl f(2) max] .
    then have "bpe_reference (text_score sp) (words nrm st ls) = bpe_reference (text_score sp) (merge_at (length as) (words nrm st ls))"
      by (subst bpe_reference.simps) simp
    ultimately show ?thesis using ls by (intro exI [of _ st2] exI [of _ "as @ ?l # bs"]) (simp add: hd_append)
  qed
qed


lemma bpe_main_reference:
  assumes "sp_ok sp" "priority_queue pick" "bpe_inv sp nrm st ls"
  shows "\<exists>st' ls'. bpe_main sp nrm pick st = Some st' \<and> bpe_inv sp nrm st' ls' \<and> hd ls' = hd ls \<and>
    words nrm st' ls' = bpe_reference (text_score sp) (words nrm st ls)"
  using assms
proof (induction sp nrm pick st arbitrary: ls rule: bpe_main.induct)
  case (1 sp nrm pick st)
  show ?case
  proof (cases "agenda st = []")
    case True
    have "text_score sp (words nrm st ls ! k @ words nrm st ls ! Suc k) = None" if "Suc k < length ls" for k
      using consec_nth [OF that] "1.prems"(3) True that by (auto simp: bpe_inv_def pending_def pair_text_def words_def)
    then have "top_pair (text_score sp) (words nrm st ls) = None"
      by (auto simp: top_pair_def candidates_def find_None_iff words_def)
    then show ?thesis using True "1.prems"(3)
      by (intro exI [of _ st] exI [of _ ls]) (simp add: bpe_main.simps [of sp nrm pick st] bpe_reference.simps)
  next
    case False
    obtain st1 ls1 where s1: "bpe_step sp nrm pick st = Some st1" "bpe_inv sp nrm st1 ls1" "hd ls1 = hd ls"
        "bpe_reference (text_score sp) (words nrm st1 ls1) = bpe_reference (text_score sp) (words nrm st ls)"
      using bpe_step_inv [OF "1.prems"(3,1,2) False] by blast
    then show ?thesis using "1.IH" [OF False s1(1) "1.prems"(1,2) s1(2)] False by (simp add: bpe_main.simps [of sp nrm pick st])
  qed
qed


section \<open>The beginning\<close>

function chars :: "string \<Rightarrow> string list" where
  "chars u = (if u = [] then [] else take (one_char_len (hd u)) u # chars (drop (one_char_len (hd u)) u))"
  by auto
termination by (relation "measure length") (auto simp: one_char_len_pos)

declare chars.simps [simp del]

lemma split_symbols_Nil: "split_symbols u off index = [] \<longleftrightarrow> u = []"
  by (subst split_symbols.simps) (simp add: Let_def)

lemma split_symbols_chain:
  assumes "u = drop off nrm" "off \<le> length nrm" "length pre = index"
  shows "chain (pre @ split_symbols u off index) (length nrm) (int index - 1) off [index..<index + length (split_symbols u off index)] \<and>
    map (text_of nrm) (split_symbols u off index) = chars u \<and> (\<forall>s \<in> set (split_symbols u off index). live s \<and> \<not> sym_freeze s)"
  using assms
proof (induction u off index arbitrary: pre rule: split_symbols.induct)
  case (1 u off index)
  show ?case
  proof (cases "u = []")
    case True
    then show ?thesis using "1.prems" by (simp add: split_symbols.simps chars.simps)
  next
    case False
    define k where "k = min (length u) (one_char_len (hd u))"
    define s where "s = \<lparr>sym_prev = (if index = 0 then - 1 else int index - 1), sym_next = (if drop k u = [] then - 1 else int index + 1),
               sym_freeze = False, sym_piece = (off, k)\<rparr>"
    let ?T = "split_symbols (drop k u) (off + k) (Suc index)"
    have T: "split_symbols u off index = s # ?T"
      using False by (subst split_symbols.simps) (simp add: s_def k_def Let_def)
    have k: "0 < k" "off + k \<le> length nrm" using False "1.prems" by (auto simp: k_def one_char_len_pos)
    have IH: "chain ((pre @ [s]) @ ?T) (length nrm) (int (Suc index) - 1) (off + k) [Suc index..<Suc index + length ?T] \<and>
        map (text_of nrm) ?T = chars (drop k u) \<and> (\<forall>s \<in> set ?T. live s \<and> \<not> sym_freeze s)"
      using "1.IH" [OF False refl refl, of "pre @ [s]"] "1.prems" k False by (simp add: k_def add.commute)
    have up: "[index..<index + length (split_symbols u off index)] = index # [Suc index..<Suc index + length ?T]"
      by (simp add: T upt_conv_Cons del: upt_Suc)
    have nth: "(pre @ s # ?T) ! index = s" using "1.prems"(3) by (simp add: nth_append)
    have nx: "sym_next s = (if [Suc index..<Suc index + length ?T] = [] then - 1 else int (hd [Suc index..<Suc index + length ?T]))"
      using split_symbols_Nil [of "drop k u" "off + k" "Suc index"] by (cases "drop k u = []") (simp_all add: s_def del: upt_Suc)
    have ch: "chars u = text_of nrm s # chars (drop k u)"
      using False "1.prems"(1) by (subst chars.simps) (auto simp: k_def text_of_def s_def min_def)
    have s: "live s" "\<not> sym_freeze s" "sym_prev s = int index - 1" "sym_piece s = (off, k)" using k by (auto simp: s_def live_def)
    show ?thesis unfolding up unfolding T using IH ch s nx nth "1.prems"(3) by simp
  qed
qed

lemma consec_upt: "(x, y) \<in> consec [0..<n] \<Longrightarrow> y = Suc x \<and> y < n"
proof -
  assume "(x, y) \<in> consec [0..<n]"
  then obtain as bs where "[0..<n] = as @ x # y # bs" using consec_split by blast
  then have "[0..<n] ! length as = x" "[0..<n] ! Suc (length as) = y" "Suc (length as) < length [0..<n]"
    by (simp_all add: nth_append)
  then show ?thesis by simp
qed

lemma add_bigrams_eq:
  assumes ok: "sp_ok sp" and si: "symbols_inv nrm (symbols_of st) ls" and "is": "\<forall>i \<in> set is. 0 < i \<and> (i - 1, i) \<in> consec ls"
  shows "add_bigrams sp nrm is st = Some (st\<lparr>agenda := agenda st @ concat (map (\<lambda>i. new_pair sp nrm (symbols_of st) (i - 1) i) is)\<rparr>)"
  using si "is"
proof (induction "is" arbitrary: st)
  case (Cons i "is")
  have c: "(i - 1, i) \<in> consec ls" and i: "int i - 1 = int (i - 1)" using Cons.prems(2) by (simp_all add: of_nat_diff)
  have "adjacent nrm (symbols_of st) (i - 1) i" using Cons.prems(1) c chain_adjacent unfolding symbols_inv_def by blast
  then have "MaybeAddNewSymbolPair sp nrm (int i - 1) (int i) st = Some (st\<lparr>agenda := agenda st @ new_pair sp nrm (symbols_of st) (i - 1) i\<rparr>)"
    unfolding i using MaybeAdd_eq [OF ok] consec_in [OF c] symbols_inv_at [OF Cons.prems(1)] by blast
  then show ?case using Cons by simp
qed simp

lemma initial_inv:
  assumes ok: "sp_ok sp" and S: "S = split_symbols nrm 0 0"
  shows "\<exists>st. add_bigrams sp nrm [1..<length S] \<lparr>symbols_of = S, agenda = [], rev_merge = Map.empty\<rparr> = Some st \<and>
    bpe_inv sp nrm st [0..<length S] \<and> words nrm st [0..<length S] = chars nrm"
proof -
  have c: "chain S (length nrm) (- 1) 0 [0..<length S]" "map (text_of nrm) S = chars nrm" "\<forall>s \<in> set S. live s \<and> \<not> sym_freeze s"
    using split_symbols_chain [of nrm 0 nrm "[]" 0] S by simp_all
  then have si: "symbols_inv nrm S [0..<length S]" by (simp add: symbols_inv_def)
  define A where "A = concat (map (\<lambda>i. new_pair sp nrm S (i - 1) i) [1..<length S])"
  have step: "(i - 1, i) \<in> consec [0..<length S]" if "0 < i" "i < length S" for i
    using consec_nth [of "i - 1" "[0..<length S]"] that by simp
  then have run: "add_bigrams sp nrm [1..<length S] \<lparr>symbols_of = S, agenda = [], rev_merge = Map.empty\<rparr> =
      Some \<lparr>symbols_of = S, agenda = A, rev_merge = Map.empty\<rparr>"
    using add_bigrams_eq [OF ok, of nrm "\<lparr>symbols_of = S, agenda = [], rev_merge = Map.empty\<rparr>" "[0..<length S]" "[1..<length S]"] si
    by (simp add: A_def)
  have "entry_ok sp nrm S h" if "h \<in> set A" for h
  proof -
    from that obtain i where "0 < i" "i < length S" "h \<in> set (new_pair sp nrm S (i - 1) i)" by (auto simp: A_def Suc_le_eq)
    then show ?thesis using step new_pair_ok [OF si] by blast
  qed
  moreover have "pending sp nrm S A x y" if "(x, y) \<in> consec [0..<length S]" for x y
    using consec_upt [OF that] by (intro new_pair_pending) (auto simp: A_def intro!: bexI [of _ y])
  ultimately have "bpe_inv sp nrm \<lparr>symbols_of = S, agenda = A, rev_merge = Map.empty\<rparr> [0..<length S]"
    using si by (auto simp: bpe_inv_def)
  moreover have "words nrm \<lparr>symbols_of = S, agenda = A, rev_merge = Map.empty\<rparr> [0..<length S] = chars nrm"
  proof -
    have "map (\<lambda>i. text_of nrm (S ! i)) [0..<length S] = map (text_of nrm) (map ((!) S) [0..<length S])" by simp
    then show ?thesis using c(2) by (simp only: map_nth words_def bpe_state.select_convs)
  qed
  ultimately show ?thesis using run by blast
qed


section \<open>The end\<close>

lemma piece_to_id_range: "sp_ok sp \<Longrightarrow> is_unused sp (piece_to_id sp t) \<noteq> None"
  unfolding sp_ok_def piece_to_id_def is_unused_def by (fastforce split: option.splits)

lemma resegment_plain:
  assumes "sp_ok sp" "view_text nrm w = Some t"
  shows "resegment sp nrm Map.empty w output = Some (Some (output @ [(t, piece_to_id sp t)]))"
  using assms piece_to_id_range [of sp t] by (subst resegment.simps) (auto simp: Let_def split: option.splits)

lemma walk_symbols_chain:
  assumes "chain (symbols_of st) (length nrm) p off ls" "sp_ok sp" "rev_merge st = Map.empty"
  shows "walk_symbols sp nrm st (if ls = [] then - 1 else int (hd ls)) output =
    Some (Some (output @ map (\<lambda>t. (t, piece_to_id sp t)) (words nrm st ls)))"
  using assms(1)
proof (induction ls arbitrary: p off "output")
  case Nil
  then show ?case by (simp add: walk_symbols.simps words_def)
next
  case (Cons i ls)
  let ?s = "symbols_of st ! i"
  have s: "symbol_at st (int i) = Some ?s" "sym_next ?s = (if ls = [] then - 1 else int (hd ls))" using Cons.prems by (auto simp: symbol_at_def)
  have "view_text nrm (sym_piece ?s) = Some (text_of nrm ?s)"
    using chain_length [OF Cons.prems] by (simp add: view_text_def text_of_def)
  then have r: "resegment sp nrm (rev_merge st) (sym_piece ?s) output = Some (Some (output @ [(text_of nrm ?s, piece_to_id sp (text_of nrm ?s))]))"
    using resegment_plain [OF assms(2)] assms(3) by simp
  show ?case using s r Cons.IH Cons.prems by (subst walk_symbols.simps) (auto simp: words_def)
qed

lemma bpe_encode_reference:
  assumes ok: "sp_ok sp" and q: "priority_queue pick"
  shows "bpe_encode sp pick nrm = Some (Some (map (\<lambda>w. (w, piece_to_id sp w)) (bpe_reference (text_score sp) (chars nrm))))"
proof (cases "nrm = []")
  case True
  then show ?thesis
    by (simp add: bpe_encode_def split_symbols.simps chars.simps bpe_reference.simps top_pair_def candidates_def)
next
  case False
  let ?S = "split_symbols nrm 0 0"
  obtain st where st: "add_bigrams sp nrm [1..<length ?S] \<lparr>symbols_of = ?S, agenda = [], rev_merge = Map.empty\<rparr> = Some st"
      "bpe_inv sp nrm st [0..<length ?S]" "words nrm st [0..<length ?S] = chars nrm"
    using initial_inv [OF ok refl] by blast
  obtain st' ls where st': "bpe_main sp nrm pick st = Some st'" "bpe_inv sp nrm st' ls" "hd ls = hd [0..<length ?S]"
      "words nrm st' ls = bpe_reference (text_score sp) (chars nrm)"
    using bpe_main_reference [OF ok q st(2)] st(3) by auto
  have ne: "?S \<noteq> []" using False by (simp add: split_symbols_Nil)
  have ch: "chain (symbols_of st') (length nrm) (- 1) 0 ls" "rev_merge st' = Map.empty" using st'(2) by (auto simp: bpe_inv_def symbols_inv_def)
  then have "ls \<noteq> []" using False by auto
  then have "walk_symbols sp nrm st' 0 [] = Some (Some (map (\<lambda>t. (t, piece_to_id sp t)) (words nrm st' ls)))"
    using walk_symbols_chain [OF ch(1) ok ch(2), of "[]"] st'(3) ne by simp
  then show ?thesis using ne st st' by (simp add: bpe_encode_def Let_def)
qed

subsection \<open>A loaded vocabulary\<close>

definition loaded :: "nat \<Rightarrow> nat \<Rightarrow> Sentencepiece \<Rightarrow> bool" where
  "loaded vocab_len i sp \<longleftrightarrow> length (sentence_pieces sp) = vocab_len \<and> 0 \<le> unk_id sp \<and> unk_id sp < int vocab_len \<and>
     (\<forall>t n. sp_pieces sp t = Some n \<longrightarrow> 0 \<le> n \<and> n < int i \<and> sp_type (sentence_pieces sp ! nat n) = NORMAL) \<and>
     (\<forall>t n. reserved_id_map sp t = Some n \<longrightarrow> 0 \<le> n \<and> n < int i)"

lemma load_piece_loaded:
  assumes "loaded vocab_len i sp" "i < vocab_len"
  shows "loaded vocab_len (Suc i) (load_piece strtof i line sp)"
proof -
  have old: "(sentence_pieces sp)[i := p] ! nat n = sentence_pieces sp ! nat n" if "0 \<le> n" "n < int i" for p n
    using that by simp
  have ids: "0 \<le> n \<and> n < int i \<and> sp_type (sentence_pieces sp ! nat n) = NORMAL" if "sp_pieces sp t = Some n" for t n
    using assms that by (simp add: loaded_def)
  have res: "0 \<le> n \<and> n < int i" if "reserved_id_map sp t = Some n" for t n
    using assms that by (simp add: loaded_def)
  have range: "length (sentence_pieces sp) = vocab_len" "0 \<le> unk_id sp" "unk_id sp < int vocab_len"
    using assms by (simp_all add: loaded_def)
  show ?thesis using range assms(2) unfolding load_piece_def Let_def loaded_def
    by (auto simp: emplace_def old dest!: ids res split: if_splits)
qed

lemma SP_load_loaded: "0 < vocab_len \<Longrightarrow> i \<le> vocab_len \<Longrightarrow> loaded vocab_len i (fold (\<lambda>index. load_piece strtof index (get_line file index)) [0..<i]
       (Sentencepiece_new\<lparr>sentence_pieces := replicate vocab_len \<lparr>sp_piece = [], sp_score = 0, sp_type = NORMAL\<rparr>\<rparr>))"
proof (induction i)
  case 0
  then show ?case by (simp add: loaded_def Sentencepiece_new_def)
next
  case (Suc i)
  then show ?case using load_piece_loaded by simp
qed

lemma SP_load_ok: "0 < vocab_len \<Longrightarrow> sp_ok (SP_load_vocab strtof vocab_len file)"
  using SP_load_loaded [of vocab_len vocab_len strtof "file"] unfolding SP_load_vocab_def [symmetric]
  by (auto simp: loaded_def sp_ok_def piece_at_def)

section \<open>Theorems\<close>

lemma concat_chars: "concat (chars u) = u"
  by (induction u rule: chars.induct) (subst chars.simps, simp)

text \<open>A queue that returns the first of its largest entries.\<close>

definition first_largest :: "SymbolPair list \<Rightarrow> nat" where
  "first_largest a = length (takeWhile (\<lambda>h. \<exists>h' \<in> set a. SymbolPairComparator h h') a)"

lemma largest_exists: "a \<noteq> [] \<Longrightarrow> \<exists>h \<in> set a. \<forall>h' \<in> set a. \<not> SymbolPairComparator h h'"
proof (induction a)
  case (Cons x a)
  show ?case
  proof (cases "a = []")
    case True
    then show ?thesis by (simp add: SymbolPairComparator_def)
  next
    case False
    then obtain h where h: "h \<in> set a" "\<forall>h' \<in> set a. \<not> SymbolPairComparator h h'" using Cons.IH by blast
    show ?thesis
    proof (cases "SymbolPairComparator h x")
      case True
      then have "\<forall>h' \<in> set (x # a). \<not> SymbolPairComparator x h'" using h by (force simp: SymbolPairComparator_def)
      then show ?thesis by auto
    qed (use h in auto)
  qed
qed simp

lemma first_largest_queue: "priority_queue first_largest"
proof -
  have "first_largest a < length a \<and> (\<forall>h \<in> set a. \<not> SymbolPairComparator (a ! first_largest a) h)" if "a \<noteq> []" for a
  proof -
    let ?P = "\<lambda>h. \<exists>h' \<in> set a. SymbolPairComparator h h'"
    have "dropWhile ?P a \<noteq> []" using largest_exists [OF that] by (auto simp: dropWhile_eq_Nil_conv)
    then have "first_largest a < length a"
      unfolding first_largest_def using arg_cong [OF takeWhile_dropWhile_id [of ?P a], of length] by (cases "dropWhile ?P a") auto
    then show ?thesis using nth_length_takeWhile [of "\<lambda>h. \<exists>h' \<in> set a. SymbolPairComparator h h'" a] by (auto simp: first_largest_def)
  qed
  then show ?thesis by (simp add: priority_queue_def)
qed

text \<open>
  C11: SentencePiece: for every priority queue, encoding ends and appends the numbers of the words that
  the naive algorithm finds, which starts with the characters of the text and merges, as long as there is one, the pair of
  neighbours with the best score, the leftmost of several; entries of the agenda that are out of date have no
  effect. The words make up the whole normalized text; an unknown word is written byte by byte.
\<close>

theorem sentencepiece_equivalent:
  assumes "0 < vocab_len" "sp = SP_load_vocab strtof vocab_len file" "priority_queue pick"
    "ws = bpe_reference (text_score sp) (chars (normalize str))"
  shows "SP_encode sp pick str ids = Some (Some (ids @ concat (map (\<lambda>w. piece_ids sp (w, piece_to_id sp w)) ws))) \<and>
    concat ws = normalize str"
  using bpe_encode_reference [OF SP_load_ok [OF assms(1)] assms(3), of strtof "file" "normalize str"] assms(2,4)
  by (simp add: SP_encode_def comp_def concat_reference concat_chars)

theorem sentencepiece_equivalent_witness:
  "SP_encode (SP_load_vocab (\<lambda>s. 0) 2 [''4paB 0 1'', ''4paBYQ== 0 1'']) first_largest ''a'' [] =
    Some (Some ([] @ concat (map (\<lambda>w. piece_ids (SP_load_vocab (\<lambda>s. 0) 2 [''4paB 0 1'', ''4paBYQ== 0 1''])
        (w, piece_to_id (SP_load_vocab (\<lambda>s. 0) 2 [''4paB 0 1'', ''4paBYQ== 0 1'']) w))
      (bpe_reference (text_score (SP_load_vocab (\<lambda>s. 0) 2 [''4paB 0 1'', ''4paBYQ== 0 1''])) (chars (normalize ''a'')))))) \<and>
    concat (bpe_reference (text_score (SP_load_vocab (\<lambda>s. 0) 2 [''4paB 0 1'', ''4paBYQ== 0 1''])) (chars (normalize ''a''))) = normalize ''a''"
  by (rule sentencepiece_equivalent [OF _ refl first_largest_queue refl]) simp

lemma find_mark: "char_of (0xE2 :: nat) \<notin> set u \<Longrightarrow> find_sub space_mark (u @ space_mark @ v) = Some (length u)"
proof (induction u)
  case Nil
  then show ?case by (simp add: space_mark_def)
next
  case (Cons c u)
  then have "take (length space_mark) (c # u @ space_mark @ v) \<noteq> space_mark" by (auto simp: space_mark_def)
  then show ?case using Cons by simp
qed

text \<open>
  Decoding a piece replaces its first mark by a space, but erases with it as many characters as
  stand before the mark: only a mark at the beginning is replaced correctly.
\<close>

theorem sentencepiece_decode_erases:
  assumes "piece_at sp n = Some p" "sp_piece p = u @ space_mark @ v" "char_of (0xE2 :: nat) \<notin> set u"
  shows "SP_decode sp n = u @ '' '' @ drop (length u) v"
proof -
  have "drop (length u + (length u + 3)) (u @ space_mark @ v) = drop (length u) v"
    by (simp add: space_mark_def eval_nat_numeral)
  then show ?thesis using assms find_mark [OF assms(3), of v] by (simp add: SP_decode_def)
qed

theorem sentencepiece_decode_erases_witness:
  "SP_decode (Sentencepiece_new\<lparr>sentence_pieces := [\<lparr>sp_piece = ''ab'' @ space_mark @ ''cde'', sp_score = 0, sp_type = NORMAL\<rparr>]\<rparr>) 0 =
    ''ab'' @ '' '' @ drop (length ''ab'') ''cde''"
  by (rule sentencepiece_decode_erases [where p = "\<lparr>sp_piece = ''ab'' @ space_mark @ ''cde'', sp_score = 0, sp_type = NORMAL\<rparr>"])
    (simp_all add: piece_at_def Sentencepiece_new_def char_of_eq_iff)

end
