(* ===== verification/LLM_Tiktoken.thy ===== *)
theory LLM_Tiktoken
  imports LLM_Huggingface
begin

text \<open>
  The trie (\<open>tokenizer.hpp\<close>, class \<open>Trie\<close>) and the tokenizer on top of it (\<open>Tiktoken\<close> in \<open>tokenizer.cpp\<close>). Nodes live in an
  array that doubles when it is full; \<open>None\<close> is an access outside the array or the text. The search
  reads the character behind the last one, which is the terminating zero. The encoding loop
  need not end, so it is a partial function: \<open>None\<close> if it runs forever, \<open>Some None\<close> if it is undefined.
\<close>

record TrieNode =
  children :: "char \<rightharpoonup> nat"
  node_id :: int

definition TrieNode_new :: TrieNode where
  "TrieNode_new = \<lparr>children = Map.empty, node_id = - 1\<rparr>"

record Trie =
  trie_list :: "TrieNode list"
  trie_size :: nat

definition Trie_new :: "nat \<Rightarrow> Trie" where
  "Trie_new initial_size = \<lparr>trie_list = replicate initial_size TrieNode_new, trie_size = 1\<rparr>"

definition node_at :: "Trie \<Rightarrow> nat \<Rightarrow> TrieNode option" where
  "node_at t n = (if n < length (trie_list t) then Some (trie_list t ! n) else None)"

definition put_node :: "Trie \<Rightarrow> nat \<Rightarrow> TrieNode \<Rightarrow> Trie" where
  "put_node t n node = t\<lparr>trie_list := (trie_list t)[n := node]\<rparr>"

definition getFree :: "Trie \<Rightarrow> nat \<times> Trie" where
  "getFree t =
     (if trie_size t < length (trie_list t) then (trie_size t, t\<lparr>trie_size := trie_size t + 1\<rparr>)
      else (trie_size t, t\<lparr>trie_list := trie_list t @ replicate (length (trie_list t)) TrieNode_new, trie_size := trie_size t + 1\<rparr>))"

fun Trie_insert :: "nat \<Rightarrow> int \<Rightarrow> string \<Rightarrow> Trie \<Rightarrow> Trie option" where
  "Trie_insert nid token_id [] t =
     (case node_at t nid of None \<Rightarrow> None
      | Some node \<Rightarrow> Some (if node_id node = - 1 then put_node t nid (node\<lparr>node_id := token_id\<rparr>) else t))"
| "Trie_insert nid token_id (c # cs) t =
     (case node_at t nid of None \<Rightarrow> None
      | Some node \<Rightarrow>
          (case children node c of
             None \<Rightarrow>
               (case getFree t of (new_id, t1) \<Rightarrow>
                case node_at t1 nid of None \<Rightarrow> None
                | Some node1 \<Rightarrow> Trie_insert new_id token_id cs (put_node t1 nid (node1\<lparr>children := (children node1)(c \<mapsto> new_id)\<rparr>)))
           | Some cid \<Rightarrow> Trie_insert cid token_id cs t))"

function Trie_find_from :: "Trie \<Rightarrow> string \<Rightarrow> nat \<Rightarrow> int \<Rightarrow> nat \<Rightarrow> nat \<Rightarrow> (int \<times> nat) option" where
  "Trie_find_from t s nid current_matched current_it it =
     (if it > length s then None
      else case node_at t nid of None \<Rightarrow> None
        | Some node \<Rightarrow>
            let (matched, cur) = (if node_id node \<noteq> - 1 then (node_id node, it) else (current_matched, current_it));
                c = (if it < length s then s ! it else char_of (0 :: nat))
            in case children node c of
                 Some cid \<Rightarrow> Trie_find_from t s cid matched cur (it + 1)
               | None \<Rightarrow> if node_id node \<noteq> - 1 then Some (node_id node, it) else Some (matched, cur))"
  by auto
termination by (relation "measure (\<lambda>(t, s, nid, m, cur, it). Suc (length s) - it)") auto

declare Trie_find_from.simps [simp del]

definition Trie_find :: "Trie \<Rightarrow> string \<Rightarrow> nat \<Rightarrow> (int \<times> nat) option" where
  "Trie_find t s it = (if it = length s then Some (- 1, it) else Trie_find_from t s 0 (- 1) (it + 1) it)"

subsection \<open>The tokenizer\<close>

record Tiktoken =
  tk_encoder :: Trie
  tk_decoder :: "string list"

fun insert_tokens :: "nat \<Rightarrow> string list \<Rightarrow> Trie \<Rightarrow> Trie option" where
  "insert_tokens i [] t = Some t"
| "insert_tokens i (token # toks) t = Option.bind (Trie_insert 0 (int i) token t) (insert_tokens (i + 1) toks)"

definition Tiktoken_load_vocab :: "nat \<Rightarrow> string list \<Rightarrow> Tiktoken option" where
  "Tiktoken_load_vocab vocab_len file =
     (let toks = map (base64_decode \<circ> get_line file) [0..<vocab_len]
      in map_option (\<lambda>t. \<lparr>tk_encoder = t, tk_decoder = toks\<rparr>) (insert_tokens 0 toks (Trie_new 10000)))"

partial_function (option) encode_loop :: "Trie \<Rightarrow> string \<Rightarrow> nat \<Rightarrow> int list \<Rightarrow> int list option option" where
  "encode_loop t s it ids =
     (if it = length s then Some (Some ids)
      else case Trie_find t s it of None \<Rightarrow> Some None
        | Some (token_id, it') \<Rightarrow> encode_loop t s it' (if token_id \<ge> 0 then ids @ [token_id] else ids))"

definition Tiktoken_encode :: "Tiktoken \<Rightarrow> string \<Rightarrow> int list \<Rightarrow> int list option option" where
  "Tiktoken_encode tk str ids = (if str = [] then Some (Some ids) else encode_loop (tk_encoder tk) str 0 ids)"

definition Tiktoken_decode :: "Tiktoken \<Rightarrow> int \<Rightarrow> string" where
  "Tiktoken_decode tk n = (if n < 0 \<or> n \<ge> int (length (tk_decoder tk)) then [] else tk_decoder tk ! nat n)"

section \<open>The trie stores the vocabulary\<close>

definition walk :: "Trie \<Rightarrow> string \<Rightarrow> nat option" where
  "walk t q = foldl (\<lambda>n c. Option.bind n (\<lambda>n. Option.bind (node_at t n) (\<lambda>node. children node c))) (Some 0) q"

definition lookup :: "Trie \<Rightarrow> string \<rightharpoonup> int" where
  "lookup t q = Option.bind (walk t q) (\<lambda>n. Option.bind (node_at t n) (\<lambda>node. if node_id node = - 1 then None else Some (node_id node)))"

definition trie_ok :: "Trie \<Rightarrow> bool" where
  "trie_ok t \<longleftrightarrow> 0 < trie_size t \<and> trie_size t \<le> length (trie_list t) \<and>
     (\<forall>n c k. n < length (trie_list t) \<and> children (trie_list t ! n) c = Some k \<longrightarrow> 0 < k \<and> k < trie_size t) \<and>
     (\<forall>n. trie_size t \<le> n \<and> n < length (trie_list t) \<longrightarrow> trie_list t ! n = TrieNode_new) \<and>
     (\<forall>n m c d k. n < length (trie_list t) \<and> m < length (trie_list t) \<and> children (trie_list t ! n) c = Some k \<and>
        children (trie_list t ! m) d = Some k \<longrightarrow> n = m \<and> c = d)"

lemma walk_Nil [simp]: "walk t [] = Some 0"
  by (simp add: walk_def)

lemma walk_snoc: "walk t (q @ [c]) = Option.bind (walk t q) (\<lambda>n. Option.bind (node_at t n) (\<lambda>node. children node c))"
  by (simp add: walk_def)

lemma walk_less: "trie_ok t \<Longrightarrow> walk t q = Some n \<Longrightarrow> n < trie_size t \<and> n < length (trie_list t)"
proof (induction q arbitrary: n rule: rev_induct)
  case (snoc c q)
  from snoc.prems(2) obtain m where "m < length (trie_list t)" "children (trie_list t ! m) c = Some n"
    by (auto simp: walk_snoc bind_eq_Some_conv node_at_def split: if_splits)
  then have "n < trie_size t" "trie_size t \<le> length (trie_list t)" using snoc.prems(1) unfolding trie_ok_def by blast+
  then show ?case by simp
qed (auto simp: trie_ok_def)

lemma walk_inj: "trie_ok t \<Longrightarrow> walk t p = Some n \<Longrightarrow> walk t q = Some n \<Longrightarrow> p = q"
proof (induction p arbitrary: n q rule: rev_induct)
  case Nil
  then show ?case
    by (cases q rule: rev_cases) (auto simp: walk_snoc bind_eq_Some_conv node_at_def trie_ok_def split: if_splits)
next
  case (snoc c p)
  from snoc.prems obtain m where m: "walk t p = Some m" "m < length (trie_list t)" "children (trie_list t ! m) c = Some n"
    by (auto simp: walk_snoc bind_eq_Some_conv node_at_def split: if_splits)
  then have "0 < n" using snoc.prems by (auto simp: trie_ok_def)
  then obtain q' d where q: "q = q' @ [d]" using snoc.prems by (cases q rule: rev_cases) auto
  then obtain m' where m': "walk t q' = Some m'" "m' < length (trie_list t)" "children (trie_list t ! m') d = Some n"
    using snoc.prems by (auto simp: walk_snoc bind_eq_Some_conv node_at_def split: if_splits)
  have "m = m' \<and> c = d" using snoc.prems(1) m m' unfolding trie_ok_def by blast
  then show ?case using snoc.IH [OF snoc.prems(1) m(1)] m' q by blast
qed

lemma trie_new_ok: "0 < n \<Longrightarrow> trie_ok (Trie_new n) \<and> lookup (Trie_new n) = Map.empty"
proof -
  assume n: "0 < n"
  have "walk (Trie_new n) q = Some k \<Longrightarrow> q = []" for q k
    by (cases q rule: rev_cases) (auto simp: walk_snoc bind_eq_Some_conv node_at_def Trie_new_def TrieNode_new_def split: if_splits)
  then have "lookup (Trie_new n) q = None" for q
    using n by (cases "q = []") (auto simp: lookup_def node_at_def Trie_new_def TrieNode_new_def bind_eq_None_conv)
  then show ?thesis using n by (auto simp: trie_ok_def Trie_new_def TrieNode_new_def)
qed

end
