(* ===== verification/LLM_Tiktoken_Facts.thy ===== *)
theory LLM_Tiktoken_Facts
  imports LLM_Tiktoken LLM_Huggingface_Facts
begin

text \<open>
  The trie holds exactly the vocabulary (insertion keeps \<^const>\<open>trie_ok\<close> and adds one key), its search finds the
  longest token, and the encoding loop ends with the greedy segmentation, which decodes to the text. The
  side conditions are the two cases in which the loop goes wrong: an empty token, on which it does
  not advance, and a zero byte inside a token, which matches the terminator.
\<close>

section \<open>Insertion\<close>

lemma set_tlD: "x \<in> set (tl xs) \<Longrightarrow> x \<in> set xs"
  by (cases xs) auto

lemma put_node_at: "n < length (trie_list t) \<Longrightarrow> node_at (put_node t n node) m = (if m = n then Some node else node_at t m)"
  by (simp add: node_at_def put_node_def)

lemma set_id:
  assumes ok: "trie_ok t" and n: "walk t p = Some n" "node_at t n = Some node" and i: "i \<noteq> - 1"
  defines "t' \<equiv> put_node t n (node\<lparr>node_id := i\<rparr>)"
  shows "trie_ok t'" "lookup t' q = (if q = p then Some i else lookup t q)"
proof -
  have l: "n < length (trie_list t)" "trie_list t ! n = node" using n(2) by (auto simp: node_at_def split: if_splits)
  have ch: "children (trie_list t' ! m) = children (trie_list t ! m)" for m
    using l by (cases "m = n") (simp_all add: t'_def put_node_def)
  have sz: "trie_size t' = trie_size t" "length (trie_list t') = length (trie_list t)"
    by (simp_all add: t'_def put_node_def)
  have w: "walk t' q = walk t q" for q
  proof (induction q rule: rev_induct)
    case (snoc c q)
    then show ?case using l by (cases "walk t q") (simp_all add: walk_snoc t'_def put_node_at n(2))
  qed simp
  have "n < trie_size t" using walk_less [OF ok n(1)] by simp
  then have "trie_list t' ! m = trie_list t ! m" if "trie_size t \<le> m" for m
    using that by (simp add: t'_def put_node_def)
  then show "trie_ok t'" using ok unfolding trie_ok_def sz ch by (elim conjE, intro conjI; (assumption | simp))
  show "lookup t' q = (if q = p then Some i else lookup t q)"
  proof (cases "walk t q")
    case None
    then show ?thesis using n by (auto simp: lookup_def w)
  next
    case (Some m)
    then have "m = n \<longleftrightarrow> q = p" using walk_inj [OF ok _ n(1), of q] n(1) by auto
    moreover have "node_at t' m = (if m = n then Some (node\<lparr>node_id := i\<rparr>) else node_at t m)"
      using l by (simp add: t'_def put_node_at)
    ultimately show ?thesis using Some i n by (auto simp: lookup_def w)
  qed
qed

lemma getFree_facts:
  assumes ok: "trie_ok t" and g: "getFree t = (k, t1)"
  shows "k = trie_size t" "trie_size t1 = Suc k" "k < length (trie_list t1)" "length (trie_list t) \<le> length (trie_list t1)"
    "\<And>n. n < length (trie_list t) \<Longrightarrow> trie_list t1 ! n = trie_list t ! n"
    "\<And>n. trie_size t \<le> n \<Longrightarrow> n < length (trie_list t1) \<Longrightarrow> trie_list t1 ! n = TrieNode_new"
proof -
  have s: "0 < trie_size t" "trie_size t \<le> length (trie_list t)"
    and free: "\<And>n. trie_size t \<le> n \<Longrightarrow> n < length (trie_list t) \<Longrightarrow> trie_list t ! n = TrieNode_new"
    using ok by (simp_all add: trie_ok_def)
  show "k = trie_size t" "trie_size t1 = Suc k" "k < length (trie_list t1)" "length (trie_list t) \<le> length (trie_list t1)"
    "\<And>n. n < length (trie_list t) \<Longrightarrow> trie_list t1 ! n = trie_list t ! n"
    using g s by (auto simp: getFree_def nth_append split: if_splits)
  show "\<And>n. trie_size t \<le> n \<Longrightarrow> n < length (trie_list t1) \<Longrightarrow> trie_list t1 ! n = TrieNode_new"
    using g s free by (auto simp: getFree_def nth_append split: if_splits)
qed

lemma getFree_child:
  assumes ok: "trie_ok t" and g: "getFree t = (k, t1)" and m: "m < length (trie_list t1)" "children (trie_list t1 ! m) d = Some j"
  shows "m < length (trie_list t)" "children (trie_list t ! m) d = Some j" "0 < j" "j < k"
proof -
  note f = getFree_facts [OF ok g]
  have "m < trie_size t" using f(6) [of m] m by (cases "m < trie_size t") (simp_all add: TrieNode_new_def)
  then show l: "m < length (trie_list t)" using ok by (simp add: trie_ok_def)
  then show ch: "children (trie_list t ! m) d = Some j" using m f(5) by simp
  show "0 < j" "j < k" using ok l ch unfolding trie_ok_def f(1) by blast+
qed

lemma link_ok:
  assumes ok: "trie_ok t" and g: "getFree t = (k, t1)" and n: "n < trie_size t" "trie_list t ! n = node" and c: "children node c = None"
  shows "trie_ok (put_node t1 n (node\<lparr>children := (children node)(c \<mapsto> k)\<rparr>))" (is "trie_ok ?t")
proof -
  note f = getFree_facts [OF ok g] and old = getFree_child [OF ok g]
  have k: "0 < k" using ok f(1) by (simp add: trie_ok_def)
  have nl: "n < length (trie_list t)" using n ok by (simp add: trie_ok_def)
  then have n1: "n < length (trie_list t1)" "trie_list t1 ! n = node" using f(4,5) n by auto
  have child: "(m = n \<and> d = c \<and> j = k) \<or> (children (trie_list t1 ! m) d = Some j \<and> j < k \<and> 0 < j \<and> m < length (trie_list t))"
    if "m < length (trie_list ?t)" "children (trie_list ?t ! m) d = Some j" for m d j
    using that n1 old [of m d j] by (auto simp: put_node_def nth_list_update split: if_splits)
  have sz: "trie_size ?t = Suc k" "length (trie_list ?t) = length (trie_list t1)"
    using f by (simp_all add: put_node_def)
  have uniq: "m = m' \<and> d = d'" if "m < length (trie_list ?t)" "m' < length (trie_list ?t)"
      "children (trie_list ?t ! m) d = Some j" "children (trie_list ?t ! m') d' = Some j" for m m' d d' j
  proof (cases "j = k")
    case True
    then show ?thesis using child [OF that(1,3)] child [OF that(2,4)] by auto
  next
    case False
    then have "m < length (trie_list t)" "m' < length (trie_list t)" "children (trie_list t ! m) d = Some j" "children (trie_list t ! m') d' = Some j"
      using child [OF that(1,3)] child [OF that(2,4)] f(5) by auto
    then show ?thesis using ok unfolding trie_ok_def by blast
  qed
  have free: "trie_list ?t ! m = TrieNode_new" if "trie_size ?t \<le> m" "m < length (trie_list ?t)" for m
    using that f(1) f(6) [of m] n sz by (simp add: put_node_def)
  have bound: "0 < j \<and> j < trie_size ?t" if "m < length (trie_list ?t)" "children (trie_list ?t ! m) d = Some j" for m d j
    using child [OF that] sz k by auto
  show ?thesis unfolding trie_ok_def using free bound uniq sz f(3) by (intro conjI allI impI) auto
qed

lemma link_nodes:
  assumes ok: "trie_ok t" and n: "walk t p = Some n" "node_at t n = Some node" and g: "getFree t = (k, t1)"
    and t2: "t2 = put_node t1 n (node\<lparr>children := (children node)(c \<mapsto> k)\<rparr>)"
  shows "node_at t1 n = Some node" "node_at t2 k = Some TrieNode_new"
    "m < trie_size t \<Longrightarrow> node_at t2 m = (if m = n then Some (node\<lparr>children := (children node)(c \<mapsto> k)\<rparr>) else node_at t m)"
proof -
  note f = getFree_facts [OF ok g]
  have nl: "n < trie_size t" "n < length (trie_list t)" using walk_less [OF ok n(1)] by auto
  have node: "trie_list t ! n = node" using n(2) nl by (simp add: node_at_def)
  show "node_at t1 n = Some node" using nl f(4,5) node by (simp add: node_at_def)
  have nk: "n \<noteq> k" "n < length (trie_list t1)" using nl f by auto
  have at2: "node_at t2 m = (if m = n then Some (node\<lparr>children := (children node)(c \<mapsto> k)\<rparr>) else node_at t1 m)" for m
    using nk by (simp add: t2 put_node_at)
  have "node_at t1 k = Some TrieNode_new" using f(3) f(6) [of k] by (simp add: node_at_def f(1))
  then show "node_at t2 k = Some TrieNode_new" using nk by (simp add: at2)
  have "node_at t1 m = node_at t m" if "m < trie_size t" for m
    using that f(4,5) ok by (simp add: node_at_def trie_ok_def)
  then show "node_at t2 m = (if m = n then Some (node\<lparr>children := (children node)(c \<mapsto> k)\<rparr>) else node_at t m)" if "m < trie_size t"
    using that by (simp add: at2)
qed

lemma link_walk:
  assumes ok: "trie_ok t" and n: "walk t p = Some n" "node_at t n = Some node" and c: "children node c = None" and g: "getFree t = (k, t1)"
    and t2: "t2 = put_node t1 n (node\<lparr>children := (children node)(c \<mapsto> k)\<rparr>)"
  shows "walk t2 q = (if q = p @ [c] then Some k else walk t q)"
proof (induction q rule: rev_induct)
  case (snoc d q)
  note at = link_nodes [OF ok n g t2]
  show ?case
  proof (cases "q = p @ [c]")
    case True
    then have "walk t2 q = Some k" using snoc by simp
    then have "walk t2 (q @ [d]) = None" using at(2) unfolding walk_snoc by (simp add: TrieNode_new_def)
    moreover have "walk t q = None" using True n c by (simp add: walk_snoc)
    then have "walk t (q @ [d]) = None" by (simp add: walk_snoc)
    ultimately show ?thesis using True by simp
  next
    case False
    then have IH: "walk t2 q = walk t q" using snoc by simp
    show ?thesis
    proof (cases "walk t q")
      case None
      then show ?thesis using IH n(1) by (auto simp: walk_snoc)
    next
      case (Some m)
      then have "m < trie_size t" using walk_less [OF ok] by blast
      moreover have "m = n \<longleftrightarrow> q = p" using walk_inj [OF ok _ n(1), of q] n(1) Some by auto
      ultimately show ?thesis using IH Some at(3) [of m] n(2) by (auto simp: walk_snoc)
    qed
  qed
qed simp

lemma add_child:
  assumes ok: "trie_ok t" and n: "walk t p = Some n" "node_at t n = Some node" and c: "children node c = None" and g: "getFree t = (k, t1)"
  defines "t2 \<equiv> put_node t1 n (node\<lparr>children := (children node)(c \<mapsto> k)\<rparr>)"
  shows "trie_ok t2" "walk t2 (p @ [c]) = Some k" "lookup t2 = lookup t" "node_at t1 n = Some node"
proof -
  have d: "t2 = put_node t1 n (node\<lparr>children := (children node)(c \<mapsto> k)\<rparr>)" by (simp add: t2_def)
  note at = link_nodes [OF ok n g d] and w = link_walk [OF ok n c g d]
  show "node_at t1 n = Some node" by (rule at(1))
  show "walk t2 (p @ [c]) = Some k" by (simp add: w)
  show "lookup t2 = lookup t"
  proof
    fix q show "lookup t2 q = lookup t q"
    proof (cases "q = p @ [c]")
      case True
      then show ?thesis using at(2) n c by (simp add: lookup_def w walk_snoc [of t] TrieNode_new_def)
    next
      case False
      then show ?thesis using walk_less [OF ok, of q] at(3) n(2) by (cases "walk t q") (auto simp: lookup_def w)
    qed
  qed
  have nl: "n < trie_size t" "n < length (trie_list t)" using walk_less [OF ok n(1)] by auto
  then have "trie_list t ! n = node" using n(2) by (simp add: node_at_def)
  then show "trie_ok t2" unfolding t2_def using link_ok [OF ok g nl(1) _ c] by blast
qed


lemma Trie_insert_correct:
  assumes "trie_ok t" "walk t p = Some n" "0 \<le> i"
  shows "\<exists>t'. Trie_insert n i cs t = Some t' \<and> trie_ok t' \<and>
    lookup t' = emplace (p @ cs) i (lookup t)"
  using assms
proof (induction cs arbitrary: t p n)
  case Nil
  then obtain node where node: "node_at t n = Some node" using walk_less by (fastforce simp: node_at_def)
  have look: "lookup t p = (if node_id node = - 1 then None else Some (node_id node))"
    using Nil.prems(2) node by (simp add: lookup_def)
  show ?case
  proof (cases "node_id node = - 1")
    case True
    then show ?thesis using node look set_id [OF Nil.prems(1,2) node, of i] Nil.prems(3) by (auto simp: emplace_def)
  next
    case False
    then show ?thesis using node look Nil.prems(1) by (simp add: emplace_def)
  qed
next
  case (Cons c cs)
  then obtain node where node: "node_at t n = Some node" using walk_less by (fastforce simp: node_at_def)
  show ?case
  proof (cases "children node c")
    case None
    obtain k t1 where g: "getFree t = (k, t1)" by (cases "getFree t")
    note a = add_child [OF Cons.prems(1,2) node None g]
    show ?thesis using Cons.IH [OF a(1,2) Cons.prems(3)] a(3,4) node None g by simp
  next
    case (Some m)
    then have "walk t (p @ [c]) = Some m" using Cons.prems(2) node by (simp add: walk_snoc)
    then show ?thesis using Cons.IH [OF Cons.prems(1) _ Cons.prems(3)] node Some by fastforce
  qed
qed

lemma insert_tokens_correct:
  assumes "trie_ok t"
  shows "\<exists>t'. insert_tokens i toks t = Some t' \<and> trie_ok t' \<and>
    lookup t' = fold (\<lambda>j. emplace (toks ! j) (int (i + j))) [0..<length toks] (lookup t)"
  using assms
proof (induction toks arbitrary: i t)
  case (Cons token toks)
  obtain t1 where t1: "Trie_insert 0 (int i) token t = Some t1" "trie_ok t1" "lookup t1 = emplace token (int i) (lookup t)"
    using Trie_insert_correct [OF Cons.prems walk_Nil, of "int i" token] by auto
  obtain t2 where t2: "insert_tokens (Suc i) toks t1 = Some t2" "trie_ok t2"
      "lookup t2 = fold (\<lambda>j. emplace (toks ! j) (int (i + Suc j))) [0..<length toks] (lookup t1)"
    using Cons.IH [OF t1(2), of "Suc i"] by auto
  have "[0..<length (token # toks)] = 0 # map Suc [0..<length toks]" by (simp add: map_Suc_upt upt_conv_Cons del: upt_Suc)
  then show ?case using t1 t2 by (simp add: fold_map comp_def add.left_commute del: upt_Suc)
qed simp

lemma load_trie:
  assumes "0 < n"
  shows "\<exists>t. insert_tokens 0 toks (Trie_new n) = Some t \<and> trie_ok t \<and> lookup t = load_encoder toks"
  using insert_tokens_correct [of "Trie_new n" 0 toks] trie_new_ok [OF assms] by (simp add: load_encoder_def)

section \<open>The characters on the edges\<close>

definition labels :: "nat \<Rightarrow> Trie \<Rightarrow> char set" where
  "labels r t = (\<Union>node \<in> set (drop r (trie_list t)). dom (children node))"

lemma labels_node: "node_at t n = Some node \<Longrightarrow> r \<le> n \<Longrightarrow> dom (children node) \<subseteq> labels r t"
proof -
  assume "node_at t n = Some node" "r \<le> n"
  then have "drop r (trie_list t) ! (n - r) = node" "n - r < length (drop r (trie_list t))" by (auto simp: node_at_def split: if_splits)
  then have "node \<in> set (drop r (trie_list t))" using nth_mem by blast
  then show ?thesis by (auto simp: labels_def)
qed

lemma labels_put: "labels r (put_node t n node) \<subseteq> labels r t \<union> (if n < r then {} else dom (children node))"
  using set_update_subset_insert [of "drop r (trie_list t)" "n - r" node]
  by (auto simp: labels_def put_node_def drop_update_swap drop_update_cancel)

lemma labels_getFree: "getFree t = (k, t1) \<Longrightarrow> labels r t1 \<subseteq> labels r t"
  by (auto 0 4 simp: getFree_def labels_def TrieNode_new_def split: if_splits)

lemma Trie_insert_labels: "Trie_insert n i cs t = Some t' \<Longrightarrow> labels r t' \<subseteq> labels r t \<union> (if n < r then set (tl cs) else set cs)"
proof (induction n i cs t arbitrary: t' rule: Trie_insert.induct)
  case (1 nid i t)
  then obtain node where node: "node_at t nid = Some node" "t' = t \<or> t' = put_node t nid (node\<lparr>node_id := i\<rparr>)"
    by (auto split: option.splits if_splits)
  then show ?case using labels_put [of r t nid "node\<lparr>node_id := i\<rparr>"] labels_node [OF node(1), of r]
    by (cases "nid < r") (simp_all, blast+)
next
  case (2 nid i c cs t)
  then obtain node where node: "node_at t nid = Some node" by (auto split: option.splits)
  show ?case
  proof (cases "children node c")
    case None
    obtain k t1 where g: "getFree t = (k, t1)" by (cases "getFree t")
    then obtain node1 where n1: "node_at t1 nid = Some node1" using 2(3) None node by (auto split: option.splits)
    let ?t = "put_node t1 nid (node1\<lparr>children := (children node1)(c \<mapsto> k)\<rparr>)"
    have "labels r t' \<subseteq> labels r ?t \<union> set cs"
      using 2(1) [OF node None g [symmetric] n1, of t'] 2(3) None node g n1 by (auto split: if_splits dest: set_tlD)
    moreover have "labels r ?t \<subseteq> labels r t \<union> (if nid < r then {} else {c})"
      using labels_put [of r t1 nid "node1\<lparr>children := (children node1)(c \<mapsto> k)\<rparr>"] labels_node [OF n1, of r] labels_getFree [OF g, of r]
      by (cases "nid < r") (simp_all, blast+)
    ultimately show ?thesis by (auto split: if_splits)
  next
    case (Some m)
    then show ?thesis using 2(2) [OF node Some, of t'] 2(3) node by (auto split: if_splits dest: set_tlD)
  qed
qed

lemma insert_tokens_labels:
  "insert_tokens i toks t = Some t' \<Longrightarrow> labels r t' \<subseteq> labels r t \<union> \<Union> ((\<lambda>token. if r = 0 then set token else set (tl token)) ` set toks)"
proof (induction toks arbitrary: i t)
  case (Cons token toks)
  then obtain t1 where "Trie_insert 0 (int i) token t = Some t1" "insert_tokens (i + 1) toks t1 = Some t'"
    by (auto simp: bind_eq_Some_conv)
  then show ?case using Cons.IH [of "i + 1" t1] Trie_insert_labels [of 0 "int i" token t t1 r] by (cases "r = 0") (simp_all, blast+)
qed simp

lemma labels_new: "labels r (Trie_new n) = {}"
  by (auto simp: labels_def Trie_new_def TrieNode_new_def)

section \<open>Search\<close>

definition best :: "(string \<rightharpoonup> int) \<Rightarrow> string \<Rightarrow> nat \<Rightarrow> int \<times> nat" where
  "best enc u k =
     (case filter (\<lambda>l. enc (take l u) \<noteq> None) (rev [1..<k]) of [] \<Rightarrow> (- 1, 1) | l # _ \<Rightarrow> (the (enc (take l u)), l))"

lemma best_Suc: "best enc u (Suc k) = (if k \<noteq> 0 \<and> enc (take k u) \<noteq> None then (the (enc (take k u)), k) else best enc u k)"
  by (cases k) (auto simp: best_def)

lemma best_stop:
  assumes "j \<le> k" "\<And>l. j \<le> l \<Longrightarrow> l < k \<Longrightarrow> enc (take l u) = None"
  shows "best enc u k = best enc u j"
  using assms(1) assms(2)
proof (induction rule: dec_induct)
  case (step k)
  then show ?case by (simp add: best_Suc)
qed simp

lemma walk_append_None: "walk t p = None \<Longrightarrow> walk t (p @ q) = None"
  by (induction q rule: rev_induct) (simp_all add: walk_snoc flip: append_assoc)

lemma Trie_find_from_best:
  assumes ok: "trie_ok t" and nul: "char_of (0 :: nat) \<notin> labels 1 t" and root: "lookup t [] = None"
    and i0: "i0 < length s" and u: "u = drop i0 s"
  shows "k \<le> length u \<Longrightarrow> walk t (take k u) = Some n \<Longrightarrow> best (lookup t) u k = (m, c) \<Longrightarrow>
    Trie_find_from t s n m (i0 + c) (i0 + k) = Some (map_prod id (\<lambda>l. i0 + l) (best (lookup t) u (Suc (length u))))"
proof (induction "length u - k" arbitrary: k n m c rule: less_induct)
  case less
  obtain node where node: "node_at t n = Some node" using walk_less [OF ok less.prems(2)] by (auto simp: node_at_def)
  have look: "lookup t (take k u) = (if node_id node = - 1 then None else Some (node_id node))"
    using less.prems(2) node by (simp add: lookup_def)
  have upd: "(if node_id node \<noteq> - 1 then (node_id node, i0 + k) else (m, i0 + c)) = map_prod id ((+) i0) (best (lookup t) u (Suc k))"
    using look less.prems(3) root by (auto simp: best_Suc)
  define d where "d = (if k < length u then u ! k else char_of (0 :: nat))"
  have d: "(if i0 + k < length s then s ! (i0 + k) else char_of (0 :: nat)) = d" using i0 by (auto simp: d_def u)
  have le: "\<not> length s < i0 + k" using less.prems(1) i0 unfolding u by simp
  show ?case
  proof (cases "children node d")
    case None
    have "walk t (take l u) = None" if "k < l" "l < Suc (length u)" for l
    proof -
      have k: "k < length u" using that by simp
      then have "walk t (take (Suc k) u) = None" using None node less.prems(2) by (simp add: take_Suc_conv_app_nth walk_snoc d_def)
      moreover have "take l u = take (Suc k) u @ take (l - Suc k) (drop (Suc k) u)" using that by (simp flip: take_add)
      ultimately show ?thesis by (simp add: walk_append_None)
    qed
    then have "best (lookup t) u (Suc (length u)) = best (lookup t) u (Suc k)"
      using less.prems(1) by (intro best_stop) (auto simp: lookup_def)
    then show ?thesis using None node upd le by (subst Trie_find_from.simps) (auto simp: d Let_def split: if_splits prod.splits)
  next
    case (Some cid)
    have "k < length u"
    proof (rule ccontr)
      assume last: "\<not> k < length u"
      then have "take k u \<noteq> []" using i0 by (auto simp: u)
      then have "0 < n" using walk_inj [OF ok less.prems(2), of "[]"] by (cases n) auto
      then show False using labels_node [OF node, of 1] Some last nul by (auto simp: d_def)
    qed
    then have k: "k < length u" "d = u ! k" by (auto simp: d_def)
    then have w: "walk t (take (Suc k) u) = Some cid" using Some node less.prems(2) by (simp add: take_Suc_conv_app_nth walk_snoc)
    obtain m' c' where b: "best (lookup t) u (Suc k) = (m', c')" by (cases "best (lookup t) u (Suc k)")
    then show ?thesis using less.hyps [of "Suc k", OF _ _ w b] k(1) Some node upd le
      by (subst Trie_find_from.simps) (auto simp: d split: if_splits)
  qed
qed

lemma best_length: "1 \<le> snd (best enc u k) \<and> snd (best enc u k) \<le> max 1 (k - 1)"
proof -
  consider "filter (\<lambda>l. enc (take l u) \<noteq> None) (rev [1..<k]) = []"
    | l ls where "filter (\<lambda>l. enc (take l u) \<noteq> None) (rev [1..<k]) = l # ls" by (meson neq_Nil_conv)
  then show ?thesis
  proof cases
    case (2 l ls)
    then have "l \<in> set (filter (\<lambda>l. enc (take l u) \<noteq> None) (rev [1..<k]))" by (metis list.set_intros(1))
    then have "1 \<le> l \<and> l \<le> k - 1" by auto
    then show ?thesis unfolding best_def 2 by auto
  qed (simp add: best_def)
qed

lemma best_progress: "(i, l) = best enc u k \<Longrightarrow> 0 < l"
  using best_length [of enc u k] by (cases "best enc u k") simp

function greedy :: "(string \<rightharpoonup> int) \<Rightarrow> string \<Rightarrow> int list" where
  "greedy enc u =
     (if u = [] then []
      else case best enc u (Suc (length u)) of (token_id, l) \<Rightarrow> (if token_id \<ge> 0 then [token_id] else []) @ greedy enc (drop l u))"
  by auto
termination by (relation "measure (\<lambda>(enc, u). length u)") (auto dest: best_progress)

declare greedy.simps [simp del]

lemma Trie_find_best:
  assumes "trie_ok t" "char_of (0 :: nat) \<notin> labels 1 t" "lookup t [] = None" "it < length s"
  shows "Trie_find t s it = Some (map_prod id ((+) it) (best (lookup t) (drop it s) (Suc (length s - it))))"
  using Trie_find_from_best [OF assms refl, of 0 0 "- 1" 1] assms(4) by (simp add: Trie_find_def best_def)

lemma encode_loop_greedy:
  assumes ok: "trie_ok t" "char_of (0 :: nat) \<notin> labels 1 t" "lookup t [] = None" and it: "it \<le> length s"
  shows "encode_loop t s it ids = Some (Some (ids @ greedy (lookup t) (drop it s)))"
  using it
proof (induction "length s - it" arbitrary: it ids rule: less_induct)
  case less
  show ?case
  proof (cases "it = length s")
    case True
    then show ?thesis by (simp add: encode_loop.simps greedy.simps)
  next
    case False
    then have lt: "it < length s" using less.prems by simp
    obtain token_id l where b: "best (lookup t) (drop it s) (Suc (length s - it)) = (token_id, l)" by fastforce
    then have l: "1 \<le> l" "it + l \<le> length s"
      using best_length [of "lookup t" "drop it s" "Suc (length s - it)"] lt by auto
    have "greedy (lookup t) (drop it s) = (if token_id \<ge> 0 then [token_id] else []) @ greedy (lookup t) (drop (it + l) s)"
      using b lt by (subst greedy.simps) (simp add: add.commute)
    then show ?thesis using less.hyps [of "it + l"] l lt False Trie_find_best [OF ok lt] b
      by (subst encode_loop.simps) simp
  qed
qed

definition searchable :: "string list \<Rightarrow> bool" where
  "searchable toks \<longleftrightarrow> [] \<notin> set toks \<and> (\<forall>token \<in> set toks. char_of (0 :: nat) \<notin> set (tl token))"

lemma load_encoder_Nil: "[] \<notin> set toks \<Longrightarrow> load_encoder toks [] = None"
  using load_encoder_Some [of toks "[]"] by (cases "load_encoder toks []") (auto simp: in_set_conv_nth)

lemma Tiktoken_load_greedy:
  assumes toks_def: "toks = map (base64_decode \<circ> get_line file) [0..<vocab_len]" and "searchable toks"
  shows "\<exists>tk. Tiktoken_load_vocab vocab_len file = Some tk \<and> tk_decoder tk = toks \<and>
    (\<forall>str ids. Tiktoken_encode tk str ids = Some (Some (ids @ greedy (load_encoder toks) str)))"
proof -
  obtain t where t: "insert_tokens 0 toks (Trie_new 10000) = Some t" "trie_ok t" "lookup t = load_encoder toks"
    using load_trie [of 10000 toks] by auto
  have "char_of (0 :: nat) \<notin> labels 1 t" "lookup t [] = None"
    using assms insert_tokens_labels [OF t(1), of 1] t(3) by (auto simp: searchable_def load_encoder_Nil labels_new)
  then have "encode_loop t s 0 ids = Some (Some (ids @ greedy (load_encoder toks) s))" for s ids
    using encode_loop_greedy [OF t(2), of 0 s ids] t(3) by simp
  then show ?thesis using t(1)
    by (auto simp: Tiktoken_load_vocab_def Tiktoken_encode_def greedy.simps toks_def)
qed

lemma best_matches:
  assumes "0 < l" "l < k" "enc (take l u) \<noteq> None"
  shows "\<exists>i j. best enc u k = (i, j) \<and> enc (take j u) = Some i"
proof (cases "filter (\<lambda>l. enc (take l u) \<noteq> None) (rev [1..<k])")
  case Nil
  then have "l \<notin> set [1..<k]" using assms(3) by (auto simp: filter_empty_conv)
  then show ?thesis using assms by simp
next
  case (Cons j ls)
  then have "j \<in> set (filter (\<lambda>l. enc (take l u) \<noteq> None) (rev [1..<k]))" by (metis list.set_intros(1))
  then have "enc (take j u) \<noteq> None" by simp
  then show ?thesis unfolding best_def Cons by auto
qed

lemma greedy_roundtrip:
  assumes "\<forall>c \<in> set u. [c] \<in> set toks" "tk_decoder tk = toks"
  shows "concat (map (Tiktoken_decode tk) (greedy (load_encoder toks) u)) = u"
  using assms(1)
proof (induction "load_encoder toks" u rule: greedy.induct)
  case (1 u)
  show ?case
  proof (cases u)
    case (Cons c cs)
    then have "load_encoder toks (take 1 u) \<noteq> None" using 1 load_encoder_dom by simp
    then obtain i l where b: "best (load_encoder toks) u (Suc (length u)) = (i, l)" "load_encoder toks (take l u) = Some i"
      using best_matches [of 1 "Suc (length u)" "load_encoder toks" u] Cons by auto
    then obtain j where j: "j < length toks" "i = int j" "toks ! j = take l u" using load_encoder_Some by blast
    have "\<forall>c \<in> set (drop l u). [c] \<in> set toks" using 1(2) by (auto dest: in_set_dropD)
    then have "concat (map (Tiktoken_decode tk) (greedy (load_encoder toks) (drop l u))) = drop l u"
      using 1(1) b(1) Cons by auto
    moreover have "greedy (load_encoder toks) u = i # greedy (load_encoder toks) (drop l u)"
      using Cons b j by (subst greedy.simps) simp
    ultimately show ?thesis using j assms(2) by (simp add: Tiktoken_decode_def)
  qed (simp add: greedy.simps)
qed

lemma encode_loop_stuck: "it < length s \<Longrightarrow> Trie_find t s it = Some (i, it) \<Longrightarrow> encode_loop t s it ids = None"
proof -
  have "\<not> (it < length s \<and> Trie_find t s it = Some (i, it))" if "encode_loop t s it ids = Some y" for y
    by (rule encode_loop.raw_induct [where P = "\<lambda>t s it ids y. \<not> (it < length s \<and> Trie_find t s it = Some (i, it))", OF _ that]) (auto split: if_splits option.splits)
  then show "it < length s \<Longrightarrow> Trie_find t s it = Some (i, it) \<Longrightarrow> encode_loop t s it ids = None" by fastforce
qed

section \<open>Theorems\<close>

text \<open>
  C13: when no token of the vocabulary is empty and none has a zero byte behind its first byte, loading
  succeeds and encoding ends on every text; what it appends is the greedy segmentation, at each position the
  number of the longest token of the file that matches there (the first line wins), a byte no token starts
  with being skipped.
\<close>

theorem tiktoken_encodes_greedily:
  assumes "searchable (map (base64_decode \<circ> get_line file) [0..<vocab_len])"
  shows "\<exists>tk. Tiktoken_load_vocab vocab_len file = Some tk \<and>
    (\<forall>str ids. Tiktoken_encode tk str ids = Some (Some (ids @ greedy (load_encoder (tk_decoder tk)) str)))"
  using Tiktoken_load_greedy [OF refl assms] by auto

theorem tiktoken_encodes_greedily_witness:
  "\<exists>tk. Tiktoken_load_vocab 3 [''YQ=='', ''YWI='', ''Yg==''] = Some tk \<and>
    (\<forall>str ids. Tiktoken_encode tk str ids = Some (Some (ids @ greedy (load_encoder (tk_decoder tk)) str)))"
proof -
  have "searchable (map (base64_decode \<circ> get_line [''YQ=='', ''YWI='', ''Yg=='']) [0..<3])"
    by code_simp
  then show ?thesis by (rule tiktoken_encodes_greedily)
qed

text \<open>
  When moreover every byte of the text is a token, as byte level vocabularies have it, decoding the
  produced numbers one by one gives the text back.
\<close>

theorem tiktoken_roundtrip:
  assumes "searchable (map (base64_decode \<circ> get_line file) [0..<vocab_len])"
    "\<forall>c \<in> set str. [c] \<in> set (map (base64_decode \<circ> get_line file) [0..<vocab_len])"
  shows "\<exists>tk ids. Tiktoken_load_vocab vocab_len file = Some tk \<and> Tiktoken_encode tk str [] = Some (Some ids) \<and>
    concat (map (Tiktoken_decode tk) ids) = str"
  using Tiktoken_load_greedy [OF refl assms(1)] greedy_roundtrip [OF assms(2)] by fastforce

theorem tiktoken_roundtrip_witness:
  "\<exists>tk ids. Tiktoken_load_vocab 3 [''YQ=='', ''YWI='', ''Yg==''] = Some tk \<and> Tiktoken_encode tk ''abb'' [] = Some (Some ids) \<and>
    concat (map (Tiktoken_decode tk) ids) = ''abb''"
proof -
  have "searchable (map (base64_decode \<circ> get_line [''YQ=='', ''YWI='', ''Yg=='']) [0..<3])"
    "\<forall>c \<in> set ''abb''. [c] \<in> set (map (base64_decode \<circ> get_line [''YQ=='', ''YWI='', ''Yg=='']) [0..<3])"
    by code_simp+
  then show ?thesis by (rule tiktoken_roundtrip)
qed

text \<open>
  With an empty token (an empty line, or a count larger than the number of lines) a text that starts with a
  byte no token contains is never encoded: the search returns the empty token and does not advance.
\<close>

theorem tiktoken_empty_token_hangs:
  assumes "[] \<in> set toks" "toks = map (base64_decode \<circ> get_line file) [0..<vocab_len]" "\<forall>token \<in> set toks. c \<notin> set token"
  shows "\<exists>tk. Tiktoken_load_vocab vocab_len file = Some tk \<and> Tiktoken_encode tk (c # cs) ids = None"
proof -
  obtain t where t: "insert_tokens 0 toks (Trie_new 10000) = Some t" "trie_ok t" "lookup t = load_encoder toks"
    using load_trie [of 10000 toks] by auto
  obtain node where root: "node_at t 0 = Some node" using walk_less [OF t(2) walk_Nil] by (auto simp: node_at_def)
  have "lookup t [] \<noteq> None" using load_encoder_dom [OF assms(1)] t(3) by simp
  then have nid: "node_id node \<noteq> - 1" using root by (auto simp: lookup_def)
  have "c \<notin> labels 0 t" using insert_tokens_labels [OF t(1), of 0] assms(3) by (auto simp: labels_new)
  then have "children node c = None" using labels_node [OF root, of 0] by auto
  then have "Trie_find t (c # cs) 0 = Some (node_id node, 0)"
    using root nid by (simp add: Trie_find_def Trie_find_from.simps [of t "c # cs" 0])
  then have "encode_loop t (c # cs) 0 ids = None" by (intro encode_loop_stuck) auto
  then show ?thesis using t(1) assms(2) by (auto simp: Tiktoken_load_vocab_def Tiktoken_encode_def)
qed

end
