(* ===== verification/LLM_Bert.thy ===== *)
theory LLM_Bert
  imports LLM_Huggingface_Facts
begin

unbundle bit_operations_syntax

text \<open>
  The WordPiece tokenizer (\<open>BertTokenizer\<close> in \<open>MNN/transformers/llm/engine/src/tokenizer.cpp\<close>): the text is cut
  into words, each word is covered greedily with the longest pieces of the vocabulary, the pieces behind the
  first one written with the prefix \<open>##\<close>. The character classes are those of the "C" locale.
\<close>

record BertTokenizer =
  bt_encoder :: "string \<rightharpoonup> int"
  bt_decoder :: "string list"

definition Bert_load_vocab :: "nat \<Rightarrow> string list \<Rightarrow> BertTokenizer" where
  "Bert_load_vocab vocab_len file =
     (let toks = map (base64_decode \<circ> get_line file) [0..<vocab_len] in \<lparr>bt_encoder = load_encoder toks, bt_decoder = toks\<rparr>)"

definition Bert_decode :: "BertTokenizer \<Rightarrow> int \<Rightarrow> string" where
  "Bert_decode bt n = (if n < 0 \<or> n \<ge> int (length (bt_decoder bt)) then [] else bt_decoder bt ! nat n)"

subsection \<open>Words into pieces\<close>

definition piece_candidate :: "bool \<Rightarrow> string \<Rightarrow> string" where
  "piece_candidate is_first_piece piece = (if is_first_piece then piece else ''##'' @ piece)"

text \<open>The inner loop tries the lengths from the longest down; without a match it leaves \<open>-1\<close> and \<open>0\<close>.\<close>

fun match_piece :: "(string \<rightharpoonup> int) \<Rightarrow> bool \<Rightarrow> string \<Rightarrow> nat \<Rightarrow> int \<times> nat" where
  "match_piece encoder is_first_piece current 0 = (- 1, 0)"
| "match_piece encoder is_first_piece current (Suc len) =
     (case encoder (piece_candidate is_first_piece (take (Suc len) current)) of
        Some match_id \<Rightarrow> (match_id, Suc len)
      | None \<Rightarrow> match_piece encoder is_first_piece current len)"

definition unk_token :: "(string \<rightharpoonup> int) \<Rightarrow> int" where
  "unk_token encoder = (case encoder ''[UNK]'' of Some n \<Rightarrow> n | None \<Rightarrow> 100)"

lemma match_piece_pos: "match_piece encoder b current len = (i, l) \<Longrightarrow> i \<noteq> - 1 \<Longrightarrow> 0 < l \<and> l \<le> len"
  by (induction len) (auto split: option.splits)

function word_piece_loop :: "(string \<rightharpoonup> int) \<Rightarrow> bool \<Rightarrow> string \<Rightarrow> int list \<Rightarrow> int list" where
  "word_piece_loop encoder is_first_piece current ids =
     (if current = [] then ids
      else case match_piece encoder is_first_piece current (length current) of (match_id, match_pos) \<Rightarrow>
        if match_id = - 1 then ids @ [unk_token encoder]
        else word_piece_loop encoder False (drop match_pos current) (ids @ [match_id]))"
  by auto
termination
  by (relation "measure (\<lambda>(encoder, b, current, ids). length current)") (auto dest: match_piece_pos [OF sym])

declare word_piece_loop.simps [simp del]

definition word_piece :: "BertTokenizer \<Rightarrow> string \<Rightarrow> int list" where
  "word_piece bt token =
     (case bt_encoder bt token of Some n \<Rightarrow> [n] | None \<Rightarrow> word_piece_loop (bt_encoder bt) True token [])"

subsection \<open>Text into words\<close>

definition is_alnum :: "char \<Rightarrow> bool" where
  "is_alnum c \<longleftrightarrow> is_alpha c \<or> is_digit c"

definition is_punct :: "char \<Rightarrow> bool" where
  "is_punct c \<longleftrightarrow> 33 \<le> byte c \<and> byte c \<le> 126 \<and> \<not> is_alnum c"

definition lower :: "char \<Rightarrow> char" where
  "lower c = (if 65 \<le> byte c \<and> byte c \<le> 90 then char_of (byte c + 32) else c)"

definition utf8_char_len :: "char \<Rightarrow> nat" where
  "utf8_char_len c =
     (if byte c AND 0xE0 = 0xC0 then 2 else if byte c AND 0xF0 = 0xE0 then 3 else if byte c AND 0xF8 = 0xF0 then 4 else 1)"

lemma utf8_char_len_pos: "0 < utf8_char_len c"
  by (simp add: utf8_char_len_def)

text \<open>The loop works on the rest of the text from position \<open>i\<close> on.\<close>

function bert_words :: "string \<Rightarrow> string list" where
  "bert_words str =
     (case str of [] \<Rightarrow> []
      | c # cs \<Rightarrow>
          if byte c AND 0x80 \<noteq> 0
          then let char_len = utf8_char_len c
               in if char_len \<le> length str then take char_len str # bert_words (drop char_len str) else bert_words cs
          else if is_alnum c then map lower (takeWhile is_alnum str) # bert_words (dropWhile is_alnum str)
          else if is_punct c then [c] # bert_words cs
          else if is_space c then bert_words cs
          else [c] # bert_words cs)"
  by auto
termination
  by (relation "measure length") (auto simp: less_Suc_eq_le length_dropWhile_le le_diff_conv Suc_le_eq utf8_char_len_pos)

declare bert_words.simps [simp del]

definition Bert_encode :: "BertTokenizer \<Rightarrow> string \<Rightarrow> int list \<Rightarrow> int list" where
  "Bert_encode bt str ids = ids @ concat (map (word_piece bt) (bert_words str))"

end
