(* ===== verification/LLM_Bert_Facts.thy ===== *)
theory LLM_Bert_Facts
  imports LLM_Bert
begin

unbundle bit_operations_syntax

text \<open>
  WordPiece covers a word with the longest pieces, and with a vocabulary that has every byte nothing of an
  ASCII text is lost but its case and its white space.
\<close>

text \<open>
  \<open>piece_covering encoder first pieces rest\<close>: the pieces are in the vocabulary, each is the longest one that matches
  where it starts, and no piece matches at the start of \<open>rest\<close>.
\<close>

definition longest_piece :: "(string \<rightharpoonup> int) \<Rightarrow> bool \<Rightarrow> string \<Rightarrow> nat \<Rightarrow> bool" where
  "longest_piece encoder first u l \<longleftrightarrow>
     (l \<noteq> 0 \<longrightarrow> encoder (piece_candidate first (take l u)) \<noteq> None) \<and>
     (\<forall>k \<in> {l<..length u}. encoder (piece_candidate first (take k u)) = None)"

fun piece_covering :: "(string \<rightharpoonup> int) \<Rightarrow> bool \<Rightarrow> string list \<Rightarrow> string \<Rightarrow> bool" where
  "piece_covering encoder first [] rest \<longleftrightarrow> longest_piece encoder first rest 0"
| "piece_covering encoder first (p # ps) rest \<longleftrightarrow>
     p \<noteq> [] \<and> longest_piece encoder first (p @ concat ps @ rest) (length p) \<and> piece_covering encoder False ps rest"

fun marked :: "bool \<Rightarrow> string list \<Rightarrow> string list" where
  "marked first [] = []"
| "marked first (p # ps) = piece_candidate first p # marked False ps"

lemma match_piece_longest:
  assumes "\<forall>q i. encoder q = Some i \<longrightarrow> 0 \<le> i" "match_piece encoder first u len = (i, l)" "len \<le> length u"
  shows "(\<forall>k. l < k \<and> k \<le> len \<longrightarrow> encoder (piece_candidate first (take k u)) = None) \<and>
    (if i = - 1 then l = 0 else encoder (piece_candidate first (take l u)) = Some i)"
  using assms(2,3)
proof (induction len)
  case (Suc len)
  show ?case
  proof (cases "encoder (piece_candidate first (take (Suc len) u))")
    case None
    then show ?thesis using Suc by (auto simp: le_Suc_eq)
  next
    case (Some j)
    then show ?thesis using Suc.prems assms(1) by fastforce
  qed
qed simp

lemma word_piece_loop_covering:
  assumes nonneg: "\<forall>q i. encoder q = Some i \<longrightarrow> 0 \<le> i"
  shows "\<exists>pieces rest. current = concat pieces @ rest \<and> piece_covering encoder first pieces rest \<and>
    word_piece_loop encoder first current ids =
      ids @ map (\<lambda>q. the (encoder q)) (marked first pieces) @ (if rest = [] then [] else [unk_token encoder])"
  using nonneg
proof (induction encoder first current ids rule: word_piece_loop.induct)
  case (1 encoder first current ids)
  obtain i l where m: "match_piece encoder first current (length current) = (i, l)" by fastforce
  note longest = match_piece_longest [OF "1.prems" m order_refl]
  consider "current = []" | "current \<noteq> []" "i = - 1" | "current \<noteq> []" "i \<noteq> - 1" by blast
  then show ?case
  proof cases
    case 1
    then have "piece_covering encoder first [] current" by (simp add: longest_piece_def)
    then show ?thesis using 1 by (intro exI [of _ "[]"]) (simp add: word_piece_loop.simps)
  next
    case 2
    then have "piece_covering encoder first [] current" using longest by (auto simp: longest_piece_def)
    then show ?thesis using 2 m by (intro exI [of _ "[]"] exI [of _ current]) (simp add: word_piece_loop.simps [of encoder first current])
  next
    case 3
    then have l: "0 < l" "l \<le> length current" "encoder (piece_candidate first (take l current)) = Some i"
      using match_piece_pos [OF m] longest by auto
    obtain ps rest where ps: "drop l current = concat ps @ rest" "piece_covering encoder False ps rest"
        "word_piece_loop encoder False (drop l current) (ids @ [i]) =
          (ids @ [i]) @ map (\<lambda>q. the (encoder q)) (marked False ps) @ (if rest = [] then [] else [unk_token encoder])"
      using "1.IH" [OF 3(1) m [symmetric] 3(2) "1.prems"] by blast
    have cur: "current = take l current @ concat ps @ rest" using append_take_drop_id [of l current] ps(1) by metis
    have "longest_piece encoder first current l" using l longest by (auto simp: longest_piece_def)
    then have "piece_covering encoder first (take l current # ps) rest" using l ps(2) cur by (auto simp: min_absorb2)
    moreover have "word_piece_loop encoder first current ids =
        ids @ map (\<lambda>q. the (encoder q)) (marked first (take l current # ps)) @ (if rest = [] then [] else [unk_token encoder])"
      using 3 m l ps(3) by (subst word_piece_loop.simps) simp
    ultimately show ?thesis using cur by (intro exI [of _ "take l current # ps"] exI [of _ rest]) simp
  qed
qed

lemma load_encoder_nonneg: "\<forall>q i. load_encoder toks q = Some i \<longrightarrow> 0 \<le> i"
  using load_encoder_Some by fastforce

lemma Bert_load_nonneg: "bt = Bert_load_vocab vocab_len file \<Longrightarrow> \<forall>q i. bt_encoder bt q = Some i \<longrightarrow> 0 \<le> i"
  by (simp add: Bert_load_vocab_def Let_def load_encoder_nonneg)

text \<open>
  C27: WordPiece: a word of the vocabulary gets its number; every other word is covered with pieces of the
  vocabulary, each the longest that matches where it starts (behind the first one with the mark \<open>##\<close>); when no
  piece matches any more, the number of the unknown token is appended and the rest of the word dropped.
\<close>

theorem word_piece_covers:
  assumes "bt = Bert_load_vocab vocab_len file" "bt_encoder bt token = None"
  shows "\<exists>pieces rest. token = concat pieces @ rest \<and> piece_covering (bt_encoder bt) True pieces rest \<and>
    word_piece bt token = map (\<lambda>q. the (bt_encoder bt q)) (marked True pieces) @ (if rest = [] then [] else [unk_token (bt_encoder bt)])"
  using word_piece_loop_covering [of "bt_encoder bt" token True "[]"] Bert_load_nonneg [OF assms(1)] assms(2)
  by (simp add: word_piece_def)

theorem word_piece_covers_witness:
  "\<exists>pieces rest. ''abc'' = concat pieces @ rest \<and> piece_covering (bt_encoder (Bert_load_vocab 2 [''YWI='', ''IyNj''])) True pieces rest \<and>
    word_piece (Bert_load_vocab 2 [''YWI='', ''IyNj'']) ''abc'' =
      map (\<lambda>q. the (bt_encoder (Bert_load_vocab 2 [''YWI='', ''IyNj'']) q)) (marked True pieces) @
      (if rest = [] then [] else [unk_token (bt_encoder (Bert_load_vocab 2 [''YWI='', ''IyNj'']))])"
proof -
  have "bt_encoder (Bert_load_vocab 2 [''YWI='', ''IyNj'']) ''abc'' = None" by code_simp
  then show ?thesis by (rule word_piece_covers [OF refl])
qed

lemma ascii_bit: "byte c < 128 \<Longrightarrow> byte c AND 0x80 = (0 :: nat)"
  using and_exp_eq_0_iff_not_bit [of "byte c :: nat" 7] by (simp add: bit_iff_odd)

lemma alnum_class: "is_alnum c \<Longrightarrow> \<not> is_space c" "\<not> is_alnum c \<Longrightarrow> lower c = c" "is_punct c \<Longrightarrow> \<not> is_space c"
  by (auto simp: is_alnum_def is_alpha_def is_digit_def is_space_def is_punct_def lower_def)

lemma ascii_words:
  assumes "\<forall>c \<in> set str. byte c < 128"
  shows "concat (bert_words str) = map lower (filter (\<lambda>c. \<not> is_space c) str)"
  using assms
proof (induction str rule: bert_words.induct)
  case (1 str)
  show ?case
  proof (cases str)
    case (Cons c cs)
    then have c: "byte c AND 0x80 = (0 :: nat)" using "1.prems" by (simp add: ascii_bit)
    show ?thesis
    proof (cases "is_alnum c")
      case True
      have "filter (\<lambda>c. \<not> is_space c) str =
          filter (\<lambda>c. \<not> is_space c) (takeWhile is_alnum str) @ filter (\<lambda>c. \<not> is_space c) (dropWhile is_alnum str)"
        by (simp flip: filter_append)
      also have "filter (\<lambda>c. \<not> is_space c) (takeWhile is_alnum str) = takeWhile is_alnum str"
        using alnum_class(1) by (auto simp: filter_id_conv dest: set_takeWhileD)
      finally have split: "filter (\<lambda>c. \<not> is_space c) str = takeWhile is_alnum str @ filter (\<lambda>c. \<not> is_space c) (dropWhile is_alnum str)" .
      have "\<forall>c \<in> set (dropWhile is_alnum str). byte c < 128" using "1.prems" by (auto dest: set_dropWhileD)
      then have "concat (bert_words (dropWhile is_alnum str)) = map lower (filter (\<lambda>c. \<not> is_space c) (dropWhile is_alnum str))"
        using 1(3) [OF Cons _ True] c by simp
      then show ?thesis using True Cons c unfolding split
        by (auto simp: bert_words.simps [of "c # cs"])
    next
      case False
      then show ?thesis using 1 Cons c alnum_class by (auto simp: bert_words.simps [of "c # cs"])
    qed
  qed (simp add: bert_words.simps)
qed

lemma decode_number: "bt = Bert_load_vocab vocab_len file \<Longrightarrow> bt_encoder bt q = Some i \<Longrightarrow> Bert_decode bt i = q"
  by (auto simp: Bert_load_vocab_def Let_def Bert_decode_def dest!: load_encoder_Some)

lemma covering_numbers: "piece_covering encoder first pieces rest \<Longrightarrow> q \<in> set (marked first pieces) \<Longrightarrow> encoder q \<noteq> None"
proof (induction pieces arbitrary: first)
  case (Cons p ps)
  then show ?case by (auto simp: longest_piece_def)
qed simp

definition byte_pieces :: "BertTokenizer \<Rightarrow> string \<Rightarrow> bool" where
  "byte_pieces bt str \<longleftrightarrow> (\<forall>c \<in> set str. [c] \<in> set (bt_decoder bt) \<and> ''##'' @ [c] \<in> set (bt_decoder bt))"

lemma covering_complete:
  assumes "piece_covering encoder first pieces rest" "\<forall>c \<in> set rest. encoder [c] \<noteq> None \<and> encoder (''##'' @ [c]) \<noteq> None"
  shows "rest = []"
  using assms
proof (induction pieces arbitrary: first)
  case Nil
  then have none: "rest \<noteq> [] \<Longrightarrow> encoder (piece_candidate first (take 1 rest)) = None"
    by (auto simp: longest_piece_def Suc_le_eq)
  show ?case using none Nil(2) by (cases rest) (auto simp: piece_candidate_def split: if_splits)
qed auto


lemma word_piece_lossless:
  assumes bt: "bt = Bert_load_vocab vocab_len file" and b: "byte_pieces bt w"
  shows "\<exists>pieces. concat pieces = w \<and> map (Bert_decode bt) (word_piece bt w) = marked True pieces"
proof (cases "bt_encoder bt w")
  case (Some n)
  then show ?thesis using decode_number [OF bt] by (intro exI [of _ "[w]"]) (simp add: word_piece_def piece_candidate_def)
next
  case None
  obtain pieces rest where p: "w = concat pieces @ rest" "piece_covering (bt_encoder bt) True pieces rest"
      "word_piece bt w = map (\<lambda>q. the (bt_encoder bt q)) (marked True pieces) @ (if rest = [] then [] else [unk_token (bt_encoder bt)])"
    using word_piece_loop_covering [OF Bert_load_nonneg [OF bt], of w True "[]"] None by (auto simp: word_piece_def)
  have "\<forall>c \<in> set w. bt_encoder bt [c] \<noteq> None \<and> bt_encoder bt (''##'' @ [c]) \<noteq> None"
    using b load_encoder_dom unfolding byte_pieces_def bt by (fastforce simp: Bert_load_vocab_def Let_def)
  then have "rest = []" using covering_complete [OF p(2)] p(1) by simp
  moreover have "map (\<lambda>q. Bert_decode bt (the (bt_encoder bt q))) (marked True pieces) = marked True pieces"
    using covering_numbers [OF p(2)] decode_number [OF bt] by (intro map_idI) fastforce
  ultimately show ?thesis using p by (intro exI [of _ pieces]) (simp add: comp_def)
qed

lemma words_lossless:
  assumes bt: "bt = Bert_load_vocab vocab_len file" and b: "byte_pieces bt (concat ws)"
  shows "\<exists>pss. map concat pss = ws \<and> map (Bert_decode bt) (concat (map (word_piece bt) ws)) = concat (map (marked True) pss)"
  using b
proof (induction ws)
  case (Cons w ws)
  then obtain pss where "map concat pss = ws" "map (Bert_decode bt) (concat (map (word_piece bt) ws)) = concat (map (marked True) pss)"
    by (auto simp: byte_pieces_def)
  moreover obtain ps where "concat ps = w" "map (Bert_decode bt) (word_piece bt w) = marked True ps"
    using word_piece_lossless [OF bt, of w] Cons.prems by (auto simp: byte_pieces_def)
  ultimately show ?case by (intro exI [of _ "ps # pss"]) simp
qed (simp add: exI [of _ "[]"])

text \<open>
  C26: with a vocabulary that has every byte of the text as a piece, bare and marked, nothing of an ASCII text is lost
  but its case and its white space: the appended numbers decode, word by word, to marked pieces that make up the word, and the
  concatenation of the words is the lower case text without white space.
\<close>

theorem bert_lossless:
  assumes "bt = Bert_load_vocab vocab_len file" "\<forall>c \<in> set str. byte c < 128"
    "byte_pieces bt (map lower (filter (\<lambda>c. \<not> is_space c) str))"
  shows "\<exists>pss appended. Bert_encode bt str ids = ids @ appended \<and>
    map (Bert_decode bt) appended = concat (map (marked True) pss) \<and> map concat pss = bert_words str \<and>
    concat (bert_words str) = map lower (filter (\<lambda>c. \<not> is_space c) str)"
  using words_lossless [OF assms(1), of "bert_words str"] assms(3) by (auto simp: Bert_encode_def ascii_words [OF assms(2)])

theorem bert_lossless_witness:
  "\<exists>pss appended. Bert_encode (Bert_load_vocab 2 [''YQ=='', ''IyNh'']) ''Aa a'' [7] = [7] @ appended \<and>
    map (Bert_decode (Bert_load_vocab 2 [''YQ=='', ''IyNh''])) appended = concat (map (marked True) pss) \<and> map concat pss = bert_words ''Aa a'' \<and>
    concat (bert_words ''Aa a'') = map lower (filter (\<lambda>c. \<not> is_space c) ''Aa a'')"
proof -
  have "\<forall>c \<in> set ''Aa a''. byte c < (128 :: nat)"
    "byte_pieces (Bert_load_vocab 2 [''YQ=='', ''IyNh'']) (map lower (filter (\<lambda>c. \<not> is_space c) ''Aa a''))"
    by code_simp+
  then show ?thesis by (rule bert_lossless [OF refl])
qed

end
