(* ===== verification/LLM_Tokenizer.thy ===== *)
theory LLM_Tokenizer
  imports LLM_Sentencepiece_Facts LLM_Tiktoken_Facts LLM_Bert_Facts
begin

text \<open>
  The base class of the tokenizers (\<open>Tokenizer\<close> in \<open>MNN/transformers/llm/engine/src/tokenizer.cpp\<close>): reading the file,
  choosing the tokenizer, and the encoding that cuts a text at its special tokens and gives the parts in
  between to the chosen tokenizer; and how \<open>llm.cpp\<close> uses it for single numbers. A computation has
  the result \<open>None\<close> if it runs forever and \<open>Some None\<close> if it throws or is undefined.
\<close>

subsection \<open>Numbers in a stream\<close>

text \<open>
  A string stream is the rest of its characters with its state; \<open>>>\<close> leaves the variable as it is when
  there is nothing to read, writes zero for something that is no number and the nearest bound for a number that
  does not fit. An uninitialized variable is \<open>None\<close>.
\<close>

type_synonym istream = "string \<times> bool"

definition INT_MIN :: int where
  "INT_MIN = - (2 ^ 31)"

definition scan_sign :: "string \<Rightarrow> int \<times> string" where
  "scan_sign s =
     (if s \<noteq> [] \<and> hd s = CHR ''-'' then (- 1, tl s) else if s \<noteq> [] \<and> hd s = CHR ''+'' then (1, tl s) else (1, s))"

definition extract_int :: "int option \<Rightarrow> istream \<Rightarrow> int option \<times> istream" where
  "extract_int old st =
     (let s = dropWhile is_space (fst st)
      in if \<not> snd st \<or> s = [] then (old, (s, False))
         else case scan_sign s of (sign, r) \<Rightarrow>
           let ds = takeWhile is_digit r; rest = dropWhile is_digit r; v = sign * digits_value ds
           in if ds = [] then (Some 0, (rest, False))
              else if v > INT_MAX then (Some INT_MAX, (rest, False))
              else if v < INT_MIN then (Some INT_MIN, (rest, False))
              else (Some v, (rest, True)))"

fun read_ints :: "nat \<Rightarrow> istream \<Rightarrow> int list \<times> istream" where
  "read_ints 0 st = ([], st)"
| "read_ints (Suc n) st =
     (case extract_int (Some 0) st of (v, st1) \<Rightarrow> case read_ints n st1 of (vs, st2) \<Rightarrow> (the v # vs, st2))"

definition stoi :: "string \<Rightarrow> int option" where
  "stoi s =
     (case scan_sign (dropWhile is_space s) of (sign, r) \<Rightarrow>
        let ds = takeWhile is_digit r; v = sign * digits_value ds
        in if ds = [] \<or> v > INT_MAX \<or> v < INT_MIN then None else Some v)"

definition stoi_size :: "string \<Rightarrow> nat option" where
  "stoi_size s = Option.bind (stoi s) (\<lambda>n. if n < 0 then None else Some (nat n))"

subsection \<open>The tokenizers behind the base class\<close>

datatype tokenizer_impl = T_SENTENCEPIECE Sentencepiece | T_TIKTOKEN Tiktoken | T_BERT BertTokenizer | T_HUGGINGFACE HuggingfaceTokenizer

record Tokenizer =
  special_tokens :: "int list"
  stop_tokens :: "int list"
  prefix_tokens :: "int list"
  special_tokens_cache :: "(string \<times> int) list"
  tok_impl :: tokenizer_impl

fun impl_encode :: "(SymbolPair list \<Rightarrow> nat) \<Rightarrow> tokenizer_impl \<Rightarrow> string \<Rightarrow> int list \<Rightarrow> int list option option" where
  "impl_encode pick (T_SENTENCEPIECE sp) str ids = SP_encode sp pick str ids"
| "impl_encode pick (T_TIKTOKEN tk) str ids = Tiktoken_encode tk str ids"
| "impl_encode pick (T_BERT bt) str ids = Some (Some (Bert_encode bt str ids))"
| "impl_encode pick (T_HUGGINGFACE hf) str ids = Some (HF_encode hf str ids)"

fun impl_decode :: "tokenizer_impl \<Rightarrow> int \<Rightarrow> string" where
  "impl_decode (T_SENTENCEPIECE sp) n = SP_decode sp n"
| "impl_decode (T_TIKTOKEN tk) n = Tiktoken_decode tk n"
| "impl_decode (T_BERT bt) n = Bert_decode bt n"
| "impl_decode (T_HUGGINGFACE hf) n = HF_decode hf n"

subsection \<open>Creation\<close>

definition MAGIC_NUMBER :: int where
  "MAGIC_NUMBER = 430"

definition load_special :: "string \<Rightarrow> string \<Rightarrow> (int list \<times> int list \<times> int list) option" where
  "load_special line1 line2 =
     (let (special_num, st1) = extract_int None (line1, True); (stop_num, st2) = extract_int None st1; (prefix_num, st3) = extract_int None st2
      in Option.bind special_num (\<lambda>a. Option.bind stop_num (\<lambda>b. Option.bind prefix_num (\<lambda>c.
           if a < 0 \<or> b < 0 \<or> c < 0 then None
           else let (specials, s1) = read_ints (nat a) (line2, True); (stops, s2) = read_ints (nat b) s1; (prefixes, s3) = read_ints (nat c) s2
                in Some (specials, stops, prefixes)))))"

text \<open>The first line of the vocabulary holds one count, or two for Huggingface; a missing line is the end of the file.\<close>

definition load_vocab :: "(string \<Rightarrow> rat) \<Rightarrow> int \<Rightarrow> string list \<Rightarrow> tokenizer_impl option option" where
  "load_vocab strtof tokenizer_type lines =
     (if tokenizer_type = 0 then
        (if lines = [] then Some (Some (T_SENTENCEPIECE Sentencepiece_new))
         else map_option (\<lambda>n. Some (T_SENTENCEPIECE (SP_load_vocab strtof n (tl lines)))) (stoi_size (hd lines)))
      else if tokenizer_type = 1 then
        Option.bind (stoi_size (get_line lines 0)) (\<lambda>n. map_option (\<lambda>tk. Some (T_TIKTOKEN tk)) (Tiktoken_load_vocab n (tl lines)))
      else if tokenizer_type = 2 then
        map_option (\<lambda>n. Some (T_BERT (Bert_load_vocab n (tl lines)))) (stoi_size (get_line lines 0))
      else if tokenizer_type = 3 then
        (let (vocab_len, st) = extract_int (Some 0) (get_line lines 0, lines \<noteq> []); (merge_len, st') = extract_int (Some 0) st
         in if the vocab_len < 0 \<or> the merge_len < 0 then None
            else Some (Some (T_HUGGINGFACE (HF_load_vocab (nat (the vocab_len)) (nat (the merge_len)) (tl lines)))))
      else Some None)"

definition cache_special_tokens :: "Tokenizer \<Rightarrow> Tokenizer" where
  "cache_special_tokens t =
     t\<lparr>special_tokens_cache := filter (\<lambda>p. fst p \<noteq> []) (map (\<lambda>n. (impl_decode (tok_impl t) n, n)) (special_tokens t))\<rparr>"

text \<open>
  \<open>lines\<close> are the lines of the file, or \<open>None\<close> when it cannot be read. The result is \<open>None\<close> for an exception or an
  undefined read, and \<open>Some None\<close> for the null pointer.
\<close>

definition createTokenizer :: "(string \<Rightarrow> rat) \<Rightarrow> string list option \<Rightarrow> Tokenizer option option" where
  "createTokenizer strtof file_lines =
     (case file_lines of None \<Rightarrow> Some None
      | Some lines \<Rightarrow>
          (let (magic_number, st) = extract_int None (get_line lines 0, True); (tokenizer_type, st') = extract_int None st
           in Option.bind magic_number (\<lambda>magic.
                if magic \<noteq> MAGIC_NUMBER then Some None
                else Option.bind tokenizer_type (\<lambda>ty.
                  if ty < 0 \<or> ty > 3 then Some None
                  else Option.bind (load_special (get_line lines 1) (get_line lines 2)) (\<lambda>(specials, stops, prefixes).
                    map_option (map_option (\<lambda>impl. cache_special_tokens
                      \<lparr>special_tokens = specials, stop_tokens = stops, prefix_tokens = prefixes, special_tokens_cache = [], tok_impl = impl\<rparr>))
                      (load_vocab strtof ty (drop 3 lines)))))))"

definition is_stop :: "Tokenizer \<Rightarrow> int \<Rightarrow> bool" where
  "is_stop t token \<longleftrightarrow> token \<in> set (stop_tokens t)"

definition is_special :: "Tokenizer \<Rightarrow> int \<Rightarrow> bool" where
  "is_special t token \<longleftrightarrow> token \<in> set (special_tokens t)"

subsection \<open>Encoding around special tokens\<close>

text \<open>\<open>strncmp\<close> on two terminated strings: it stops behind a zero byte both have.\<close>

definition char_at :: "string \<Rightarrow> nat \<Rightarrow> char" where
  "char_at s i = (if i < length s then s ! i else char_of (0 :: nat))"

fun strncmp_eq :: "nat \<Rightarrow> string \<Rightarrow> string \<Rightarrow> bool" where
  "strncmp_eq 0 a b = True"
| "strncmp_eq (Suc n) a b =
     (if char_at a 0 \<noteq> char_at b 0 then False else if char_at a 0 = char_of (0 :: nat) then True else strncmp_eq n (tl a) (tl b))"

definition special_at :: "(string \<times> int) list \<Rightarrow> string \<Rightarrow> nat \<Rightarrow> (string \<times> int) option" where
  "special_at cache str i =
     find (\<lambda>(token, special_id). i + length token \<le> length str \<and> strncmp_eq (length token) (drop i str) token) cache"

partial_function (option) special_loop ::
  "(string \<Rightarrow> int list \<Rightarrow> int list option option) \<Rightarrow> (string \<times> int) list \<Rightarrow> string \<Rightarrow> nat \<Rightarrow> nat \<Rightarrow> int list \<Rightarrow> int list option option" where
  "special_loop enc cache str start i ids =
     (if i < length str
      then case special_at cache str i of
             None \<Rightarrow> special_loop enc cache str start (i + 1) ids
           | Some (token, special_id) \<Rightarrow>
               Option.bind (if i > start then enc (take (i - start) (drop start str)) ids else Some (Some ids)) (\<lambda>r.
                 case r of None \<Rightarrow> Some None
                 | Some ids1 \<Rightarrow> special_loop enc cache str (i + length token) (i + length token) (ids1 @ [special_id]))
      else if start < length str then enc (drop start str) ids else Some (Some ids))"

definition Tokenizer_encode :: "(SymbolPair list \<Rightarrow> nat) \<Rightarrow> Tokenizer \<Rightarrow> string \<Rightarrow> Tokenizer \<times> int list option option" where
  "Tokenizer_encode pick t str =
     (let t = (if special_tokens_cache t = [] \<and> special_tokens t \<noteq> [] then cache_special_tokens t else t);
          enc = impl_encode pick (tok_impl t)
      in (t, if special_tokens_cache t \<noteq> [] then special_loop enc (special_tokens_cache t) str 0 0 (prefix_tokens t)
             else enc str (prefix_tokens t)))"

subsection \<open>Single numbers in \<open>llm.cpp\<close>\<close>

definition hex_value :: "char \<Rightarrow> nat option" where
  "hex_value c =
     (if is_digit c then Some (byte c - 48) else if 65 \<le> byte c \<and> byte c \<le> 70 then Some (byte c - 55)
      else if 97 \<le> byte c \<and> byte c \<le> 102 then Some (byte c - 87) else None)"

definition stoi16 :: "string \<Rightarrow> int option" where
  "stoi16 s =
     (case scan_sign (dropWhile is_space s) of (sign, r) \<Rightarrow>
        let r = (if length r \<ge> 3 \<and> hd r = CHR ''0'' \<and> (r ! 1 = CHR ''x'' \<or> r ! 1 = CHR ''X'') \<and> hex_value (r ! 2) \<noteq> None then drop 2 r else r);
            ds = takeWhile (\<lambda>c. hex_value c \<noteq> None) r
        in if ds = [] then None else Some (sign * foldl (\<lambda>v c. 16 * v + int (the (hex_value c))) 0 ds))"

text \<open>Only two digits are read, so the number cannot be out of range.\<close>

definition tokenizer_decode :: "Tokenizer \<Rightarrow> int \<Rightarrow> string option" where
  "tokenizer_decode t n =
     (let word = impl_decode (tok_impl t) n
      in if length word = 6 \<and> word ! 0 = CHR ''<'' \<and> word ! 5 = CHR ''>'' \<and> word ! 1 = CHR ''0'' \<and> word ! 2 = CHR ''x''
         then map_option (\<lambda>num. [char_of (nat (num mod 256))]) (stoi16 (take 2 (drop 3 word)))
         else Some word)"

end
