(* ===== verification/LLM_Tokenizer_Facts.thy ===== *)
theory LLM_Tokenizer_Facts
  imports LLM_Tokenizer
begin

text \<open>
  Cutting a text at its special tokens loses nothing: the locale \<open>text_tokenizer\<close> states what the base class relies on,
  an encoding that succeeds on a class of texts closed under parts and decodes to the text, and the loop is
  verified once in it; the Huggingface tokenizer and Tiktoken, with vocabularies that have every byte, are instances.
\<close>

lemma strncmp_take:
  "char_of (0 :: nat) \<notin> set token \<Longrightarrow> length token \<le> length s \<Longrightarrow> strncmp_eq (length token) s token \<longleftrightarrow> take (length token) s = token"
proof (induction token arbitrary: s)
  case (Cons c token)
  then obtain d s' where "s = d # s'" by (cases s) auto
  then show ?case using Cons by (auto simp: char_at_def)
qed simp

definition cache_ok :: "(int \<Rightarrow> string) \<Rightarrow> (string \<times> int) list \<Rightarrow> bool" where
  "cache_ok dec cache \<longleftrightarrow> (\<forall>(token, n) \<in> set cache. token \<noteq> [] \<and> char_of (0 :: nat) \<notin> set token \<and> dec n = token)"

locale text_tokenizer =
  fixes enc :: "string \<Rightarrow> int list \<Rightarrow> int list option option"
    and dec :: "int \<Rightarrow> string"
    and ok :: "string \<Rightarrow> bool"
  assumes enc_lossless: "ok s \<Longrightarrow> \<exists>new. enc s ids = Some (Some (ids @ new)) \<and> concat (map dec new) = s"
    and ok_part: "ok s \<Longrightarrow> set t \<subseteq> set s \<Longrightarrow> ok t"
begin

lemma special_found:
  assumes "cache_ok dec cache" "special_at cache str i = Some (token, n)"
  shows "token \<noteq> []" "dec n = token" "i + length token \<le> length str" "drop i str = token @ drop (i + length token) str"
proof -
  have f: "(token, n) \<in> set cache" "i + length token \<le> length str" "strncmp_eq (length token) (drop i str) token"
    using assms(2) by (auto simp: special_at_def find_Some_iff in_set_conv_nth)
  then show "token \<noteq> []" "dec n = token" "i + length token \<le> length str" using assms(1) by (auto simp: cache_ok_def)
  have "take (length token) (drop i str) = token" using f assms(1) strncmp_take [of token "drop i str"] by (auto simp: cache_ok_def)
  then show "drop i str = token @ drop (i + length token) str"
    using append_take_drop_id [of "length token" "drop i str"] by (simp add: add.commute)
qed

lemma special_loop_lossless:
  assumes "ok str" "cache_ok dec cache" "start \<le> i" "i \<le> length str"
  shows "\<exists>new. special_loop enc cache str start i ids = Some (Some (ids @ new)) \<and> concat (map dec new) = drop start str"
  using assms(3,4)
proof (induction "length str - i" arbitrary: start i ids rule: less_induct)
  case less
  have part: "\<exists>new. enc (take k (drop start str)) ids = Some (Some (ids @ new)) \<and> concat (map dec new) = take k (drop start str)" for k
    using enc_lossless ok_part [OF assms(1)] set_take_subset set_drop_subset by (meson order_trans)
  consider "i = length str" | "i < length str" "special_at cache str i = None"
    | token n where "i < length str" "special_at cache str i = Some (token, n)" using less.prems by fastforce
  then show ?case
  proof cases
    case 1
    then show ?thesis using part [of "length str"] less.prems by (subst special_loop.simps) auto
  next
    case 2
    then show ?thesis using less.hyps [of "i + 1" start] less.prems by (subst special_loop.simps) auto
  next
    case (3 token n)
    note f = special_found [OF assms(2) 3(2)]
    obtain new1 where new1: "(if i > start then enc (take (i - start) (drop start str)) ids else Some (Some ids)) = Some (Some (ids @ new1))"
        "concat (map dec new1) = take (i - start) (drop start str)"
      using part [of "i - start"] less.prems by (cases "i > start") auto
    have "length str - (i + length token) < length str - i" using f(1,3) 3(1) by (cases token) auto
    then obtain new2 where new2: "special_loop enc cache str (i + length token) (i + length token) ((ids @ new1) @ [n]) = Some (Some (((ids @ new1) @ [n]) @ new2))"
        "concat (map dec new2) = drop (i + length token) str"
      using less.hyps [of "i + length token" "i + length token" "(ids @ new1) @ [n]"] f(3) by auto
    have "drop start str = take (i - start) (drop start str) @ drop i str"
      using append_take_drop_id [of "i - start" "drop start str"] less.prems by simp
    then have "concat (map dec (new1 @ [n] @ new2)) = drop start str" using new1 new2 f(2,4) by simp
    moreover have "special_loop enc cache str start i ids = Some (Some (ids @ new1 @ [n] @ new2))"
      using 3 new1(1) new2(1) by (subst special_loop.simps) simp
    ultimately show ?thesis by blast
  qed
qed

end

interpretation hf: text_tokenizer "\<lambda>s ids. Some (HF_encode (HF_load_vocab v m lines) s ids)" "HF_decode (HF_load_vocab v m lines)"
    "\<lambda>s. vocabulary_closed (HF_load_vocab v m lines)" for v m lines
  by unfold_locales (use hf_lossless in \<open>fastforce+\<close>)

definition tiktoken_complete :: "string list \<Rightarrow> string \<Rightarrow> bool" where
  "tiktoken_complete toks str \<longleftrightarrow> searchable toks \<and> (\<forall>c \<in> set str. [c] \<in> set toks)"

lemma Tiktoken_lossless:
  assumes "Tiktoken_load_vocab n lines = Some tk" "tiktoken_complete (tk_decoder tk) str"
  shows "\<exists>new. Tiktoken_encode tk str ids = Some (Some (ids @ new)) \<and> concat (map (Tiktoken_decode tk) new) = str"
proof -
  define toks where "toks = map (base64_decode \<circ> get_line lines) [0..<n]"
  have toks: "tk_decoder tk = toks" using assms(1) by (auto simp: Tiktoken_load_vocab_def toks_def Let_def)
  then have "searchable toks" "\<forall>c \<in> set str. [c] \<in> set toks" using assms(2) by (simp_all add: tiktoken_complete_def)
  then show ?thesis using Tiktoken_load_greedy [OF toks_def, of] greedy_roundtrip [OF _ toks, of str] assms(1) by auto
qed

text \<open>A tokenizer that was not loaded from a file is given no text.\<close>

interpretation tk: text_tokenizer "Tiktoken_encode tk" "Tiktoken_decode tk"
    "\<lambda>s. Tiktoken_load_vocab n lines = Some tk \<and> tiktoken_complete (tk_decoder tk) s" for tk n lines
  by unfold_locales (use Tiktoken_lossless in \<open>fastforce simp: tiktoken_complete_def\<close>)+

section \<open>A tokenizer read from a file\<close>

lemma created:
  assumes "createTokenizer strtof file_lines = Some (Some t)"
  shows "\<exists>ty lines. load_vocab strtof ty lines = Some (Some (tok_impl t))" "cache_special_tokens t = t"
  using assms
  by (auto simp: createTokenizer_def cache_special_tokens_def Let_def bind_eq_Some_conv split: option.splits prod.splits if_splits) blast

lemma loaded_hf: "load_vocab strtof ty lines = Some (Some (T_HUGGINGFACE hf)) \<Longrightarrow> \<exists>v m l. hf = HF_load_vocab v m l"
  by (auto simp: load_vocab_def Let_def bind_eq_Some_conv split: if_splits prod.splits)

lemma loaded_tk: "load_vocab strtof ty lines = Some (Some (T_TIKTOKEN tk)) \<Longrightarrow> \<exists>n l. Tiktoken_load_vocab n l = Some tk"
  by (auto simp: load_vocab_def Let_def bind_eq_Some_conv split: if_splits prod.splits)

text \<open>The vocabularies with which nothing of a text is lost.\<close>

fun lossless_vocabulary :: "tokenizer_impl \<Rightarrow> string \<Rightarrow> bool" where
  "lossless_vocabulary (T_HUGGINGFACE hf) str \<longleftrightarrow> vocabulary_closed hf"
| "lossless_vocabulary (T_TIKTOKEN tk) str \<longleftrightarrow> tiktoken_complete (tk_decoder tk) str"
| "lossless_vocabulary _ str \<longleftrightarrow> False"

lemma loaded_tokenizer:
  assumes "load_vocab strtof ty lines = Some (Some impl)"
  shows "text_tokenizer (impl_encode pick impl) (impl_decode impl) (lossless_vocabulary impl)"
proof (cases impl)
  case (T_HUGGINGFACE hf)
  then obtain v m l where hf: "hf = HF_load_vocab v m l" using loaded_hf assms by blast
  have "impl_encode pick impl = (\<lambda>s ids. Some (HF_encode hf s ids))" "impl_decode impl = HF_decode hf"
    "lossless_vocabulary impl = (\<lambda>s. vocabulary_closed hf)"
    using T_HUGGINGFACE by (auto simp: fun_eq_iff)
  then show ?thesis using hf.text_tokenizer_axioms [of v m l] hf by simp
next
  case (T_TIKTOKEN tk)
  then obtain n l where tk: "Tiktoken_load_vocab n l = Some tk" using loaded_tk assms by blast
  have "impl_encode pick impl = Tiktoken_encode tk" "impl_decode impl = Tiktoken_decode tk"
    "lossless_vocabulary impl = (\<lambda>s. tiktoken_complete (tk_decoder tk) s)"
    using T_TIKTOKEN by (auto simp: fun_eq_iff)
  then show ?thesis using tk.text_tokenizer_axioms [of tk n l] tk by simp
qed (simp_all add: text_tokenizer_def)

text \<open>
  C10: for a tokenizer read from a file whose vocabulary is complete (\<open>lossless_vocabulary\<close>: Huggingface with all bytes and all results of its
  merges as tokens, or Tiktoken with every byte of the text as a token, no empty token and no token with a zero byte behind its first byte), and special
  tokens without zero bytes: encoding a text, special tokens in it included, ends, starts with the prefix
  tokens, and decoding the numbers behind them one by one gives the text back.
\<close>

theorem tokenizer_roundtrip:
  assumes "createTokenizer strtof file_lines = Some (Some t)" "lossless_vocabulary (tok_impl t) str"
    "\<forall>n \<in> set (special_tokens t). char_of (0 :: nat) \<notin> set (impl_decode (tok_impl t) n)"
  shows "\<exists>new. snd (Tokenizer_encode pick t str) = Some (Some (prefix_tokens t @ new)) \<and>
    concat (map (impl_decode (tok_impl t)) new) = str"
proof -
  obtain ty lines where l: "load_vocab strtof ty lines = Some (Some (tok_impl t))" using created(1) [OF assms(1)] by blast
  have c: "special_tokens_cache t = filter (\<lambda>p. fst p \<noteq> []) (map (\<lambda>n. (impl_decode (tok_impl t) n, n)) (special_tokens t))"
    using arg_cong [OF created(2) [OF assms(1)], of special_tokens_cache] by (simp add: cache_special_tokens_def)
  have "cache_ok (impl_decode (tok_impl t)) (special_tokens_cache t)" using assms(3) by (auto simp: c cache_ok_def)
  then have "\<exists>new. special_loop (impl_encode pick (tok_impl t)) (special_tokens_cache t) str 0 0 (prefix_tokens t) = Some (Some (prefix_tokens t @ new)) \<and>
      concat (map (impl_decode (tok_impl t)) new) = str"
    using text_tokenizer.special_loop_lossless [OF loaded_tokenizer [OF l] assms(2), of "special_tokens_cache t" 0 0] by simp
  moreover have "\<exists>new. impl_encode pick (tok_impl t) str (prefix_tokens t) = Some (Some (prefix_tokens t @ new)) \<and>
      concat (map (impl_decode (tok_impl t)) new) = str"
    using text_tokenizer.enc_lossless [OF loaded_tokenizer [OF l] assms(2)] .
  ultimately show ?thesis using created(2) [OF assms(1)] by (auto simp: Tokenizer_encode_def Let_def)
qed

theorem tokenizer_roundtrip_witness:
  "\<exists>t new. createTokenizer (\<lambda>s. 0) (Some [''430 1'', ''1 0 1'', ''2 0'', ''3'', ''YQ=='', ''Yg=='', ''YWI='']) = Some (Some t) \<and>
    snd (Tokenizer_encode first_largest t ''abba'') = Some (Some (prefix_tokens t @ new)) \<and>
    concat (map (impl_decode (tok_impl t)) new) = ''abba''"
proof -
  have toks: "[''a'', ''b'', ''ab''] = map (base64_decode \<circ> get_line [''YQ=='', ''Yg=='', ''YWI='']) [0..<3]" "searchable [''a'', ''b'', ''ab'']"
    by code_simp+
  obtain tk where tk: "Tiktoken_load_vocab 3 [''YQ=='', ''Yg=='', ''YWI=''] = Some tk" "tk_decoder tk = [''a'', ''b'', ''ab'']"
    using Tiktoken_load_greedy [OF toks] by auto
  define t where "t = cache_special_tokens \<lparr>special_tokens = [2], stop_tokens = [], prefix_tokens = [0], special_tokens_cache = [], tok_impl = T_TIKTOKEN tk\<rparr>"
  have "stoi_size ''3'' = Some 3" "load_special ''1 0 1'' ''2 0'' = Some ([2], [], [0])"
    "(case extract_int None (''430 1'', True) of (a, st) \<Rightarrow> (a, fst (extract_int None st))) = (Some 430, Some 1)"
    by code_simp+
  then have "createTokenizer (\<lambda>s. 0) (Some [''430 1'', ''1 0 1'', ''2 0'', ''3'', ''YQ=='', ''Yg=='', ''YWI='']) = Some (Some t)"
    using tk(1) by (auto simp: createTokenizer_def get_line_def MAGIC_NUMBER_def load_vocab_def t_def numeral_2_eq_2 numeral_3_eq_3 split: prod.splits)
  moreover have "lossless_vocabulary (tok_impl t) ''abba''" "\<forall>n \<in> set (special_tokens t). char_of (0 :: nat) \<notin> set (impl_decode (tok_impl t) n)"
    using toks(2) tk(2) by (simp_all add: t_def cache_special_tokens_def tiktoken_complete_def Tiktoken_decode_def char_of_def)
  ultimately show ?thesis using tokenizer_roundtrip by blast
qed

section \<open>Byte pieces\<close>

lemma hex_digit_facts:
  assumes "k < 16"
  shows "hex_value (hex_digit k) = Some k" "\<not> is_space (hex_digit k)" "hex_digit k \<noteq> CHR ''-''" "hex_digit k \<noteq> CHR ''+''" "byte (hex_digit k) < 128"
proof -
  have b: "byte (hex_digit k) = (if k < 10 then 48 + k else 55 + k)" using assms by (simp add: hex_digit_def)
  show "hex_value (hex_digit k) = Some k" "\<not> is_space (hex_digit k)" "byte (hex_digit k) < 128"
    using assms by (auto simp: hex_value_def is_digit_def is_space_def b)
  show "hex_digit k \<noteq> CHR ''-''" "hex_digit k \<noteq> CHR ''+''" using b assms by (auto split: if_splits)
qed

lemma find_mark_ascii: "\<forall>c \<in> set s. byte c < 128 \<Longrightarrow> find_sub space_mark s = None"
proof (induction s)
  case (Cons c s)
  then have "c \<noteq> char_of (0xE2 :: nat)" by auto
  then have "take (length space_mark) (c # s) \<noteq> space_mark" by (simp add: space_mark_def)
  then show ?case using Cons by simp
qed (simp add: space_mark_def)

lemma stoi16_digits: "j < 16 \<Longrightarrow> k < 16 \<Longrightarrow> stoi16 [hex_digit j, hex_digit k] = Some (int (16 * j + k))"
  using hex_digit_facts [of j] hex_digit_facts [of k] by (simp add: stoi16_def scan_sign_def)

text \<open>
  An unknown character is written as byte pieces and read back as its bytes: the number of the piece that
  \<open>byte_to_piece\<close> gives for a byte is decoded to this byte.
\<close>

theorem byte_piece_roundtrip:
  assumes "tok_impl t = T_SENTENCEPIECE sp" "piece_at sp n = Some p" "sp_piece p = byte_to_piece c"
  shows "tokenizer_decode t n = Some [c]"
proof -
  have d: "byte c div 16 < 16" "byte c mod 16 < (16 :: nat)" by (simp_all add: div_less_iff_less_mult)
  have "\<forall>b \<in> set (byte_to_piece c). byte b < 128" using hex_digit_facts(5) d by (simp add: byte_to_piece_def)
  then have "impl_decode (tok_impl t) n = byte_to_piece c" using assms by (simp add: SP_decode_def find_mark_ascii)
  moreover have "stoi16 [hex_digit (byte c div 16), hex_digit (byte c mod 16)] = Some (int (byte c))"
    unfolding stoi16_digits [OF d] mult_div_mod_eq ..
  moreover have "char_of (nat (int (byte c) mod 256)) = c" by (simp add: nat_mod_distrib)
  ultimately show ?thesis by (simp add: tokenizer_decode_def byte_to_piece_def)
qed

theorem byte_piece_roundtrip_witness:
  "tokenizer_decode \<lparr>special_tokens = [], stop_tokens = [], prefix_tokens = [], special_tokens_cache = [],
     tok_impl = T_SENTENCEPIECE (Sentencepiece_new\<lparr>sentence_pieces := [\<lparr>sp_piece = byte_to_piece CHR 0x0A, sp_score = 0, sp_type = BYTE\<rparr>]\<rparr>)\<rparr> 0 = Some [CHR 0x0A]"
proof (rule byte_piece_roundtrip)
  show "piece_at (Sentencepiece_new\<lparr>sentence_pieces := [\<lparr>sp_piece = byte_to_piece CHR 0x0A, sp_score = 0, sp_type = BYTE\<rparr>]\<rparr>) 0 =
      Some \<lparr>sp_piece = byte_to_piece CHR 0x0A, sp_score = 0, sp_type = BYTE\<rparr>" by code_simp
qed simp_all

end
