(* ===== verification/Spec2Isabelle.thy ===== *)
theory Spec2Isabelle
  imports TN_Api_Tensors MNN_Defer_Run MNN_Eager_Run MNN_Shape_Stride_Facts MNN_Shape_Block_Facts LLM_Tokenizer_Facts
begin

text \<open>
  A model of the TenonOS inference framework and of core parts of the MNN engine it runs on.

  \<^bold>\<open>The program.\<close> \<open>src/tenon-inference\<close> is a C API (\<open>api.cpp\<close>: create, load, infer, unload, destroy)
  over small components: a memory pool with a quota, a batch collector, a metrics collector, a
  scheduler, a thread pool, a logger, a model loader, and a wrapper around the engine. Every
  component is created and destroyed through C functions that allocate from the unikernel's heap
  (\<open>src/tenon/lib/ukalloc\<close>). \<open>src/MNN\<close> is the engine: it plans one buffer for all intermediate tensors of a
  network (\<open>source/core/BufferAllocator.cpp\<close>) and infers the shape of every operator's output from the
  shapes of its inputs (\<open>source/shape\<close>). On top of it, \<open>MNN/transformers/llm\<close> runs language models, whose tokenizer
  turns text into numbers and back in four ways.

  \<^bold>\<open>Theories, in the order they build on each other.\<close>

  \<^item> \<open>TN_Prelude\<close>: shared types, lists, words and lookup lemmas.
  \<^item> \<open>Uk_Heap\<close> (\<open>ukalloc/alloc.c\<close>): a heap of live blocks with explicit allocation failures; the locale of heap
    operations the components rely on, and its interpretation on the model.
  \<^item> \<open>TN_Mempool\<close>, \<open>TN_Batch\<close>, \<open>TN_Metrics\<close>, \<open>TN_Scheduler\<close>, \<open>TN_Threadpool\<close>, \<open>TN_Logger\<close>
    (\<open>mempool.cpp\<close>, \<open>batch.cpp\<close>, ...): one record per class, one definition per method and C function. The pool charges
    exactly what it handed out and never exceeds its quota; the metrics ring holds the last samples
    and its aggregates are those of all samples; a batch keeps the first requests in order.
  \<^item> \<open>MNN_Wrapper\<close>, \<open>TN_Loader\<close> (\<open>mnn_wrapper.cpp\<close>, \<open>loader.cpp\<close>): the engine behind the wrapper is a parameter.
  \<^item> \<open>TN_Api\<close>, \<open>TN_Api_Lifecycle\<close>, \<open>TN_Api_Models\<close>, \<open>TN_Api_Infer\<close> (\<open>api.cpp\<close>): the handle and its functions, as a machine
    whose reachable states satisfy an invariant: the table of models agrees with the loader, \<open>tn_infer\<close>
    leaves its buffers exactly when a host tensor is shorter than the code counts, destruction frees each block once and leaks exactly the
    loader, a failed creation leaks exactly the services.
  \<^item> \<open>MNN_Memory\<close> (\<open>MNNMemoryUtils.cpp\<close>, the first part of \<open>BufferAllocator.cpp\<close>): aligned allocation, memory chunks, the
    allocator interface, the single buffer.
  \<^item> \<open>MNN_Defer\<close>, \<open>MNN_Defer_Plan\<close>, \<open>MNN_Defer_Refine\<close>, \<open>MNN_Defer_Layout\<close>, \<open>MNN_Defer_Run\<close> (\<open>DeferBufferAllocator\<close>): the doubly linked
    list of nodes as a store, its abstraction to a plan, every operation shown to implement
    its abstract counterpart, and the result: chunks that were alive together do not overlap.
  \<^item> \<open>MNN_Eager\<close>, \<open>MNN_Eager_Forest\<close>, \<open>MNN_Eager_Facts\<close>, \<open>MNN_Eager_Run\<close> (\<open>EagerBufferAllocator\<close>): blocks of an underlying allocator that are
    cut and joined. The nodes in use form a forest with the chunks as leaves, and every operation keeps it:
    chunks in use do not overlap, requests get what they ask for, giving back ends. A locale states what the
    blocks' allocator promises, with the default allocator as its instance.
  \<^item> \<open>MNN_Tensor\<close> (\<open>Tensor.hpp\<close>, \<open>Tensor.cpp\<close>, \<open>TensorUtils.cpp\<close>): tensors as shape inference sees them, and results that are a value,
    \<open>return false\<close> or undefined behaviour. \<open>MNN_Tensor_Host\<close> has the constructor of host tensors and the sizes of both, and \<open>TN_Api_Tensors\<close>
    says for which element types and layouts the input copy of \<open>tn_infer\<close> overflows.
  \<^item> \<open>MNN_Shape\<close>, \<open>MNN_Shape_Join\<close>, \<open>MNN_Shape_Window\<close>, \<open>MNN_Shape_Stride\<close>, \<open>MNN_Shape_Block\<close> (\<open>source/shape/Shape*.cpp\<close>): the shape computers; the theories
    \<open>..._Facts\<close> show that reshaping keeps the number of elements, squeezing undoes unsqueezing, concatenation undoes
    slicing, binary operators and matrix products broadcast as NumPy does, convolution and
    pooling count window positions, deconvolution is undone by convolution, strided slices count
    visited indices, moving blocks between space, depth and batch is undone, slices stay inside, one-hot encoding
    adds an axis; and where the code does otherwise.
  \<^item> \<open>LLM_Text\<close> (\<open>tokenizer.cpp\<close>): base64 and UTF-8; both conversions are undone.
  \<^item> \<open>LLM_Huggingface\<close>, \<open>LLM_Tiktoken\<close>, \<open>LLM_Bert\<close>, \<open>LLM_Sentencepiece\<close> (\<open>tokenizer.cpp\<close>, \<open>tokenizer.hpp\<close>): the four tokenizers, one record and one
    definition per method. Their \<open>..._Facts\<close> show that byte pair encoding with patched pairs is repeated
    merging of the best pair, that the trie holds the vocabulary and its search finds the longest token, that
    WordPiece covers words with the longest pieces, and that SentencePiece, with its linked list and
    lazily cleaned priority queue (\<open>LLM_Sentencepiece_Inv\<close> has its invariant), is the naive algorithm.
  \<^item> \<open>LLM_Tokenizer\<close>, \<open>LLM_Tokenizer_Facts\<close>: the base class, reading a file and cutting texts at special tokens; a locale states what
    it relies on, with the Huggingface tokenizer and Tiktoken as instances.

  \<^bold>\<open>Conventions.\<close> \<open>size_t\<close> and \<open>uint64_t\<close> are 64-bit words. In shape inference a C \<open>int\<close> is an \<open>int\<close> that goes through
    \<open>i32\<close> after each operation, which is \<open>Undefined\<close> outside 32 bits; so are divisions by zero and array
    accesses out of bounds. Debug assertions (\<open>MNN_ASSERT\<close>) are compiled out and not modelled. A tensor has nine cells for
    extents. What a shape computer wrote before it returned false is dropped. Where the code keeps a
    pointer to a list of axes, the list is read up front. Single precision numbers are
    rationals rounded to 24 bits; the theorems that use them are for extents below \<open>2 ^ 24\<close>. In the tokenizer, strings are
    lists of bytes, \<open>wchar_t\<close> has four bytes, character classes and regular expressions are those of the "C" locale,
    a file is the list of its terminated lines, views are compared as strings, scores are the rational values of the
    floats, and which of several equivalent entries a priority queue returns is a parameter.

  \<^bold>\<open>Fuel and bounds.\<close> The walks over the node lists of the deferred allocator (\<open>visiChildren\<close>, \<open>layout_loop\<close>) take fuel,
    given as one more than the number of nodes; \<open>defer_operations_succeed\<close> and \<open>defer_compute_disjoint\<close> show that it
    suffices in every state a client can reach. The joining loop of the eager allocator (\<open>ascend\<close>) and the search for a
    node's block (\<open>root_of\<close>) have the number of nodes as fuel; a parent is older than its parts, so it suffices
    (\<open>eager_gives_back\<close>). Clients ask for less than \<open>2 ^ 64\<close> bytes in total; those of the eager
    allocator keep to \<open>eager_reach\<close>, which leaves out the one use of a minimal block size for which the code overlaps chunks. Loops of the tokenizer
    that need not end (\<open>encode_loop\<close>, \<open>special_loop\<close>, \<open>resegment\<close>, \<open>walk_symbols\<close>) are partial functions with \<open>None\<close> for an endless run;
    the theorems about them show a result.

  \<^bold>\<open>Not modelled.\<close> \<open>glibc_compat.cpp\<close> and the demo application (stubs and printing); in the engine: the
    file-mapped allocator, the shape computers not named above and the operation counts, session,
    pipeline and interpreter, the backends, kernels and converters; of the language model engine the dropout in
    SentencePiece, which is never switched on, prompts, sampling and generation; the unikernel apart from its
    allocator interface.
\<close>

end
